(* ===== verification/Go_Prelude.thy ===== *)
theory Go_Prelude
  imports Complex_Main "HOL-Library.Word" "HOL-Library.AList" "HOL-Library.Char_ord"
    "HOL-Library.List_Lexorder" "HOL-Library.Monad_Syntax"
begin

text \<open>
  Shared vocabulary of the development: the parts of Go and of its standard library that the
  modelled packages use (package \<open>strings\<close>, maps, bounded channels, outcomes of calls), the
  hint collections of the component theories, and the generic lemmas about them.

  A Go \<open>string\<close> is a list of bytes, so \<^typ>\<open>string\<close> with one \<^typ>\<open>char\<close> per byte.
  A Go \<open>map[K]V\<close> used as a component's store is a partial function; where a map is a value of
  its own (JSON objects) it is an association list. A buffered channel is the list of the values
  in its buffer, oldest first, with its capacity.
\<close>

named_theorems go_string_simps "evaluation rules of the string operations"
named_theorems go_map_simps "map and association list rules"

section \<open>Machine integers and outcomes\<close>

type_synonym int64 = "64 word"

text \<open>
  What a Go call does: it returns a value, returns an \<open>error\<close> (rendered as its message), or
  panics. A panic that no \<open>recover\<close> stops ends the process.
\<close>

datatype 'a outcome = Ok 'a | Err string | Panic string

section \<open>Package strings\<close>

definition HasPrefix :: "string \<Rightarrow> string \<Rightarrow> bool" where
  "HasPrefix s p \<longleftrightarrow> take (length p) s = p"

definition TrimPrefix :: "string \<Rightarrow> string \<Rightarrow> string" where
  "TrimPrefix s p = (if HasPrefix s p then drop (length p) s else s)"

fun Index :: "string \<Rightarrow> string \<Rightarrow> nat option" where
  "Index [] sub = (if sub = [] then Some 0 else None)"
| "Index (c # cs) sub =
     (if HasPrefix (c # cs) sub then Some 0 else map_option Suc (Index cs sub))"

definition Contains :: "string \<Rightarrow> string \<Rightarrow> bool" where
  "Contains s sub \<longleftrightarrow> Index s sub \<noteq> None"

text \<open>\<open>strings.Split\<close> with a separator of one byte, the only use in the modelled code.\<close>

fun Split :: "string \<Rightarrow> char \<Rightarrow> string list" where
  "Split [] c = [[]]"
| "Split (x # xs) c =
     (if x = c then [] # Split xs c
      else (case Split xs c of [] \<Rightarrow> [[x]] | y # ys \<Rightarrow> (x # y) # ys))"

fun Join :: "string list \<Rightarrow> string \<Rightarrow> string" where
  "Join [] sep = []"
| "Join [x] sep = x"
| "Join (x # y # ys) sep = x @ sep @ Join (y # ys) sep"

text \<open>\<open>strings.Replace(s, old, new, 1)\<close>: the first occurrence only.\<close>

definition ReplaceFirst :: "string \<Rightarrow> string \<Rightarrow> string \<Rightarrow> string" where
  "ReplaceFirst s old new =
     (case Index s old of None \<Rightarrow> s
      | Some i \<Rightarrow> take i s @ new @ drop (i + length old) s)"

text \<open>\<open>strings.Replace(s, c, "", -1)\<close> for a pattern of one byte.\<close>

definition DeleteByte :: "char \<Rightarrow> string \<Rightarrow> string" where
  "DeleteByte c s = filter (\<lambda>x. x \<noteq> c) s"

text \<open>
  \<open>strings.TrimSpace\<close> removes the runes of \<open>unicode.IsSpace\<close> at both ends; here they are their
  UTF-8 encodings. A rune's encoding starts with a byte that is not a continuation byte, so
  looking at the two ends for these byte sequences finds the runes Go decodes there.
\<close>

definition space_runes :: "string list" where
  "space_runes =
     [[CHR 0x09], [CHR 0x0A], [CHR 0x0B], [CHR 0x0C], [CHR 0x0D], [CHR 0x20],
      [CHR 0xC2, CHR 0x85], [CHR 0xC2, CHR 0xA0], [CHR 0xE1, CHR 0x9A, CHR 0x80],
      [CHR 0xE2, CHR 0x80, CHR 0x80], [CHR 0xE2, CHR 0x80, CHR 0x81], [CHR 0xE2, CHR 0x80, CHR 0x82],
      [CHR 0xE2, CHR 0x80, CHR 0x83], [CHR 0xE2, CHR 0x80, CHR 0x84], [CHR 0xE2, CHR 0x80, CHR 0x85],
      [CHR 0xE2, CHR 0x80, CHR 0x86], [CHR 0xE2, CHR 0x80, CHR 0x87], [CHR 0xE2, CHR 0x80, CHR 0x88],
      [CHR 0xE2, CHR 0x80, CHR 0x89], [CHR 0xE2, CHR 0x80, CHR 0x8A], [CHR 0xE2, CHR 0x80, CHR 0xA8],
      [CHR 0xE2, CHR 0x80, CHR 0xA9], [CHR 0xE2, CHR 0x80, CHR 0xAF], [CHR 0xE2, CHR 0x81, CHR 0x9F],
      [CHR 0xE3, CHR 0x80, CHR 0x80]]"

text \<open>Strip one rune of \<open>rs\<close> from the front as long as there is one.\<close>

function strip_front :: "string list \<Rightarrow> string \<Rightarrow> string" where
  "strip_front rs s =
     (case find (\<lambda>r. r \<noteq> [] \<and> HasPrefix s r) rs of
        None \<Rightarrow> s
      | Some r \<Rightarrow> strip_front rs (drop (length r) s))"
  by pat_completeness auto
termination
proof (relation "measure (\<lambda>(rs, s). length s)", simp, clarsimp)
  fix rs s r
  assume "find (\<lambda>r. r \<noteq> [] \<and> HasPrefix s r) rs = Some r"
  then have "r \<noteq> []" and "HasPrefix s r"
    by (auto simp: find_Some_iff)
  then show "length s - length r < length s"
    by (cases s; cases r) (auto simp: HasPrefix_def)
qed

declare strip_front.simps [simp del]

definition TrimSpace :: "string \<Rightarrow> string" where
  "TrimSpace s =
     rev (strip_front (map rev space_runes) (rev (strip_front space_runes s)))"

text \<open>\<open>%d\<close>: decimal digits of an integer.\<close>

fun nat_digits :: "nat \<Rightarrow> string" where
  "nat_digits n =
     (if n < 10 then [char_of (48 + n)] else nat_digits (n div 10) @ [char_of (48 + n mod 10)])"

declare nat_digits.simps [simp del]

definition fmt_d :: "int \<Rightarrow> string" where
  "fmt_d i = (if i < 0 then ''-'' @ nat_digits (nat (- i)) else nat_digits (nat i))"

section \<open>Maps and channels\<close>

text \<open>
  \<open>for k, v := range m\<close> visits every key of \<open>m\<close> once, in an order Go does not specify. The
  order the run chose is an argument \<open>ks\<close> of the definitions that range over a map.
\<close>

definition range_order :: "('k \<rightharpoonup> 'v) \<Rightarrow> 'k list \<Rightarrow> bool" where
  "range_order m ks \<longleftrightarrow> distinct ks \<and> set ks = dom m"

definition range_values :: "('k \<rightharpoonup> 'v) \<Rightarrow> 'k list \<Rightarrow> 'v list" where
  "range_values m ks = List.map_filter m ks"

text \<open>
  A \<open>select\<close> that sends to a buffered channel without a \<open>default\<close> branch: the value goes to the
  end of the buffer, or the goroutine blocks while the buffer is full (\<^term>\<open>None\<close>).
\<close>

definition chan_send :: "nat \<Rightarrow> 'a list \<Rightarrow> 'a \<Rightarrow> 'a list option" where
  "chan_send cap buf x = (if length buf < cap then Some (buf @ [x]) else None)"

section \<open>Lemmas\<close>

subsection \<open>Prefixes and searching\<close>

lemma HasPrefix_Nil [simp]: "HasPrefix s []"
  by (simp add: HasPrefix_def)

lemma HasPrefix_append [simp]: "HasPrefix (p @ s) p"
  by (simp add: HasPrefix_def)

lemma HasPrefix_Nil_left [simp]: "HasPrefix [] p \<longleftrightarrow> p = []"
  by (auto simp: HasPrefix_def)

lemma HasPrefix_Cons [simp, go_string_simps]:
  "HasPrefix (c # s) (d # p) \<longleftrightarrow> c = d \<and> HasPrefix s p"
  by (auto simp: HasPrefix_def)

lemma HasPrefix_iff: "HasPrefix s p \<longleftrightarrow> (\<exists>t. s = p @ t)"
  by (metis HasPrefix_append HasPrefix_def append_take_drop_id)

lemma TrimPrefix_append [simp]: "TrimPrefix (p @ s) p = s"
  by (simp add: TrimPrefix_def)

lemma TrimPrefix_Nil [simp]: "TrimPrefix s [] = s"
  by (simp add: TrimPrefix_def)

lemma Index_Some:
  assumes "Index s sub = Some i"
  shows "i + length sub \<le> length s" and "take (length sub) (drop i s) = sub"
  using assms
proof (induction s arbitrary: i)
  case Nil
  { case 1 then show ?case by (auto split: if_splits) }
  { case 2 then show ?case by (auto split: if_splits) }
next
  case (Cons c cs)
  { case 1
    then show ?case
      using Cons.IH(1) by (auto simp: HasPrefix_def split: if_splits dest!: arg_cong [where f = length]) }
  { case 2
    then show ?case
      using Cons.IH(2) by (auto simp: HasPrefix_def split: if_splits) }
qed

lemma Index_byte_None: "Index s [c] = None \<longleftrightarrow> c \<notin> set s"
  by (induction s) auto

lemma Index_byte_Some: "c \<notin> set p \<Longrightarrow> Index (p @ c # q) [c] = Some (length p)"
  by (induction p) auto

lemma Contains_byte [simp]: "Contains s [c] \<longleftrightarrow> c \<in> set s"
  by (auto simp: Contains_def Index_byte_None)

subsection \<open>Split and Join\<close>

lemma Split_not_Nil [simp]: "Split s c \<noteq> []"
  by (induction s) (auto split: list.splits)

lemma Split_no_sep: "c \<notin> set s \<Longrightarrow> Split s c = [s]"
  by (induction s) auto

lemma Split_append_sep:
  "c \<notin> set s \<Longrightarrow> Split (s @ c # t) c = s # Split t c"
  by (induction s) (auto split: list.splits)

lemma Split_pieces: "x \<in> set (Split s c) \<Longrightarrow> c \<notin> set x"
  by (induction s arbitrary: x) (fastforce split: if_splits list.splits)+

lemma Join_Split: "Join (Split s c) [c] = s"
proof (induction s)
  case Nil
  then show ?case by simp
next
  case (Cons x xs)
  obtain y ys where yys: "Split xs c = y # ys"
    using Split_not_Nil [of xs c] by (cases "Split xs c") auto
  then show ?case
    using Cons.IH by (cases ys) auto
qed

lemma Split_Join:
  "xs \<noteq> [] \<Longrightarrow> \<forall>x \<in> set xs. c \<notin> set x \<Longrightarrow> Split (Join xs [c]) c = xs"
  by (induction xs "[c]" rule: Join.induct) (auto simp: Split_no_sep Split_append_sep)

lemma DeleteByte_id: "c \<notin> set s \<Longrightarrow> DeleteByte c s = s"
  by (simp add: DeleteByte_def filter_id_conv) (metis)

lemma DeleteByte_set [simp]: "c \<notin> set (DeleteByte c s)"
  by (simp add: DeleteByte_def)

subsection \<open>Maps and channels\<close>

lemma map_of_update [simp, go_map_simps]:
  "map_of (AList.update k v al) k' = (if k' = k then Some v else map_of al k')"
  by (simp add: update_conv')

lemma dom_eq_None: "dom m = dom m' \<Longrightarrow> m k = None \<longleftrightarrow> m' k = None"
  by (metis domIff)

lemma range_order_empty: "range_order m [] \<longleftrightarrow> m = Map.empty"
  by (auto simp: range_order_def)

lemma set_range_values:
  "range_order m ks \<Longrightarrow> set (range_values m ks) = ran m"
  by (auto simp: range_order_def range_values_def map_filter_def ran_def) force

lemma range_values_map:
  assumes "range_order m ks"
  shows "range_values m ks = map (\<lambda>k. the (m k)) ks"
proof -
  have "filter (\<lambda>k. m k \<noteq> None) ks = ks"
    using assms by (auto simp: range_order_def filter_id_conv)
  then show ?thesis
    by (simp add: range_values_def map_filter_def)
qed

lemma length_range_values:
  "range_order m ks \<Longrightarrow> length (range_values m ks) = card (dom m)"
  using distinct_card [of ks] by (simp add: range_values_map) (simp add: range_order_def)

lemma chan_send_Some:
  "chan_send cap buf x = Some buf' \<longleftrightarrow> length buf < cap \<and> buf' = buf @ [x]"
  by (auto simp: chan_send_def)

lemma chan_send_None: "chan_send cap buf x = None \<longleftrightarrow> cap \<le> length buf"
  by (auto simp: chan_send_def)

end
