(* ===== verification/Go_Values.thy ===== *)
theory Go_Values
  imports Go_Prelude
begin

text \<open>
  Dynamic values and JSON. \<open>gval\<close> is Go's \<open>interface{}\<close> with the dynamic types the modelled
  code stores in it; a type assertion is a case distinction on its constructor. \<open>json\<close> is a
  parsed JSON text; \<open>marshal\<close> and \<open>to_iface\<close> are \<open>json.Marshal\<close> and \<open>json.Unmarshal\<close> into
  \<open>interface{}\<close>, and \<open>decode_struct\<close> is \<open>json.Unmarshal\<close> into a struct. A number literal is kept
  as its value together with whether it is an integer literal, which is all decoding looks at.
  A \<open>[]byte\<close> message is \<open>Text j\<close>, a valid JSON text with value \<open>j\<close>, or \<open>Malformed\<close>, any byte
  string that is not one. Strings are taken to be valid UTF-8 (Go replaces invalid bytes).
\<close>

named_theorems json_simps "evaluation rules of encoding and decoding"

section \<open>float64\<close>

text \<open>A finite \<open>float64\<close> is the rational number it stands for (\<open>-0\<close> and \<open>0\<close> are one value).\<close>

datatype float64 = F64 rat | F64Inf bool | F64NaN

fun bit_len :: "nat \<Rightarrow> nat" where
  "bit_len n = (if n = 0 then 0 else Suc (bit_len (n div 2)))"

declare bit_len.simps [simp del]

definition rat_exponent :: "rat \<Rightarrow> int" where
  \<comment> \<open>the \<open>k\<close> with \<open>2\<^sup>k \<le> q < 2\<^sup>k\<^sup>+\<^sup>1\<close>, for positive \<open>q\<close>\<close>
  "rat_exponent q =
     (let (a, b) = quotient_of q; k = int (bit_len (nat a)) - int (bit_len (nat b))
      in if 2 powi k \<le> q then k else k - 1)"

definition round_half_even :: "rat \<Rightarrow> int" where
  "round_half_even q =
     (let f = \<lfloor>q\<rfloor>; r = q - of_int f
      in if r < 1 / 2 then f else if r > 1 / 2 then f + 1 else if even f then f else f + 1)"

text \<open>
  \<open>strconv.ParseFloat(s, 64)\<close>: the nearest value with a 53-bit significand and an exponent of at
  least -1074, ties to even; out of range is an error.
\<close>

definition parse_float :: "rat \<Rightarrow> float64 option" where
  "parse_float q =
     (if q = 0 then Some (F64 0)
      else let e = max (- 1074) (rat_exponent \<bar>q\<bar> - 52);
               v = of_int (round_half_even (q / 2 powi e)) * 2 powi e
           in if \<bar>v\<bar> < 2 ^ 1024 then Some (F64 v) else None)"

text \<open>
  The conversions \<open>int64(f)\<close> and \<open>int(f)\<close> discard the fraction. Out of the range of the type
  the language leaves the result to the implementation: it is the argument \<open>oor\<close>.
\<close>

definition rat_trunc :: "rat \<Rightarrow> int" where
  "rat_trunc q = (if 0 \<le> q then \<lfloor>q\<rfloor> else \<lceil>q\<rceil>)"

definition float_to_int64 :: "(float64 \<Rightarrow> int64) \<Rightarrow> float64 \<Rightarrow> int64" where
  "float_to_int64 oor f =
     (case f of
        F64 q \<Rightarrow> (if - (2 ^ 63) \<le> rat_trunc q \<and> rat_trunc q < 2 ^ 63
                 then word_of_int (rat_trunc q) else oor f)
      | _ \<Rightarrow> oor f)"

section \<open>interface{} values\<close>

datatype gval =
    GNil
  | GBool bool
  | GInt int64                        \<comment> \<open>\<open>int\<close>\<close>
  | GInt64 int64                      \<comment> \<open>\<open>int64\<close>\<close>
  | GFloat float64                    \<comment> \<open>\<open>float64\<close>\<close>
  | GString string
  | GList "gval list"                 \<comment> \<open>\<open>[]interface{}\<close>\<close>
  | GStrs "string list"               \<comment> \<open>\<open>[]string\<close>\<close>
  | GMap "(string \<times> gval) list"       \<comment> \<open>\<open>map[string]interface{}\<close>, keys increasing\<close>
  | GSlice "gval list"                \<comment> \<open>a slice of any other type\<close>
  | GStruct "(string \<times> gval) list"    \<comment> \<open>a struct, its fields with their JSON names\<close>
  | GOpaque                           \<comment> \<open>a channel or function: has no JSON form\<close>

text \<open>\<open>m[k] = v\<close> on a map value; keys stay increasing, so a map has one representation.\<close>

fun map_put :: "string \<Rightarrow> 'a \<Rightarrow> (string \<times> 'a) list \<Rightarrow> (string \<times> 'a) list" where
  "map_put k v [] = [(k, v)]"
| "map_put k v ((k', v') # m) =
     (if k < k' then (k, v) # (k', v') # m
      else if k = k' then (k, v) # m
      else (k', v') # map_put k v m)"

definition map_put_all :: "(string \<times> 'a) list \<Rightarrow> (string \<times> 'a) list \<Rightarrow> (string \<times> 'a) list" where
  "map_put_all kvs m = fold (\<lambda>(k, v). map_put k v) kvs m"

definition sorted_map :: "(string \<times> 'a) list \<Rightarrow> bool" where
  "sorted_map m \<longleftrightarrow> sorted_wrt (<) (map fst m)"

text \<open>
  Whether a value may be a key of a \<open>map[interface{}]T\<close>: indexing with a slice or a map panics,
  also when the map is empty.
\<close>

fun hashable :: "gval \<Rightarrow> bool" where
  "hashable (GList _) = False"
| "hashable (GStrs _) = False"
| "hashable (GSlice _) = False"
| "hashable (GMap _) = False"
| "hashable (GStruct fs) = list_all (\<lambda>p. hashable (snd p)) fs"
| "hashable _ = True"

section \<open>JSON\<close>

datatype json =
    JNull
  | JBool bool
  | JInt int                          \<comment> \<open>a literal without fraction and exponent\<close>
  | JFrac rat                         \<comment> \<open>a literal with one\<close>
  | JStr string
  | JArr "json list"
  | JObj "(string \<times> json) list"       \<comment> \<open>members in the order of the text\<close>

datatype payload = Text json | Malformed

definition marshal_float :: "rat \<Rightarrow> json" where
  "marshal_float q = (if q \<in> \<int> \<and> \<bar>q\<bar> < 10 ^ 21 then JInt \<lfloor>q\<rfloor> else JFrac q)"

fun marshal :: "gval \<Rightarrow> json option"
and marshal_list :: "gval list \<Rightarrow> json list option"
and marshal_members :: "(string \<times> gval) list \<Rightarrow> (string \<times> json) list option" where
  "marshal GNil = Some JNull"
| "marshal (GBool b) = Some (JBool b)"
| "marshal (GInt n) = Some (JInt (sint n))"
| "marshal (GInt64 n) = Some (JInt (sint n))"
| "marshal (GFloat (F64 q)) = Some (marshal_float q)"
| "marshal (GFloat _) = None"
| "marshal (GString s) = Some (JStr s)"
| "marshal (GList vs) = map_option JArr (marshal_list vs)"
| "marshal (GStrs ss) = Some (JArr (map JStr ss))"
| "marshal (GMap m) = map_option JObj (marshal_members m)"
| "marshal (GSlice vs) = map_option JArr (marshal_list vs)"
| "marshal (GStruct fs) = map_option JObj (marshal_members fs)"
| "marshal GOpaque = None"
| "marshal_list [] = Some []"
| "marshal_list (v # vs) =
     (case marshal v of None \<Rightarrow> None
      | Some j \<Rightarrow> map_option (\<lambda>js. j # js) (marshal_list vs))"
| "marshal_members [] = Some []"
| "marshal_members ((k, v) # m) =
     (case marshal v of None \<Rightarrow> None
      | Some j \<Rightarrow> map_option (\<lambda>js. (k, j) # js) (marshal_members m))"

fun to_iface :: "json \<Rightarrow> gval option"
and to_iface_list :: "json list \<Rightarrow> gval list option"
and to_iface_members :: "(string \<times> json) list \<Rightarrow> (string \<times> gval) list \<Rightarrow> (string \<times> gval) list option"
where
  "to_iface JNull = Some GNil"
| "to_iface (JBool b) = Some (GBool b)"
| "to_iface (JInt n) = map_option GFloat (parse_float (of_int n))"
| "to_iface (JFrac q) = map_option GFloat (parse_float q)"
| "to_iface (JStr s) = Some (GString s)"
| "to_iface (JArr js) = map_option GList (to_iface_list js)"
| "to_iface (JObj kvs) = map_option GMap (to_iface_members kvs [])"
| "to_iface_list [] = Some []"
| "to_iface_list (j # js) =
     (case to_iface j of None \<Rightarrow> None
      | Some v \<Rightarrow> map_option (\<lambda>vs. v # vs) (to_iface_list js))"
| "to_iface_members [] m = Some m"
| "to_iface_members ((k, j) # kvs) m =
     (case to_iface j of None \<Rightarrow> None
      | Some v \<Rightarrow> to_iface_members kvs (map_put k v m))"

subsection \<open>Decoding into structs\<close>

text \<open>
  \<open>encoding/json\<close> finds the field of an object key by its exact name, else by its folded name:
  ASCII letters in upper case, and the two other runes whose folding is an ASCII letter
  (U+017F long s and U+212A Kelvin sign).
\<close>

definition upper_byte :: "char \<Rightarrow> char" where
  "upper_byte c = (if CHR ''a'' \<le> c \<and> c \<le> CHR ''z'' then char_of (of_char c - (32::nat)) else c)"

fun fold_name :: "string \<Rightarrow> string" where
  "fold_name [] = []"
| "fold_name (c # cs) =
     (if c = CHR 0xC5 \<and> HasPrefix cs [CHR 0xBF] then CHR ''S'' # fold_name (drop 1 cs)
      else if c = CHR 0xE2 \<and> HasPrefix cs [CHR 0x84, CHR 0xAA] then CHR ''K'' # fold_name (drop 2 cs)
      else upper_byte c # fold_name cs)"

type_synonym 'a fields = "(string \<times> (json \<Rightarrow> 'a \<Rightarrow> 'a option)) list"

definition find_field :: "'a fields \<Rightarrow> string \<Rightarrow> (json \<Rightarrow> 'a \<Rightarrow> 'a option) option" where
  "find_field fs k =
     (case map_of fs k of
        Some d \<Rightarrow> Some d
      | None \<Rightarrow> map_option snd (find (\<lambda>f. fold_name (fst f) = fold_name k) fs))"

fun decode_members :: "'a fields \<Rightarrow> (string \<times> json) list \<Rightarrow> 'a \<Rightarrow> 'a option" where
  "decode_members fs [] a = Some a"
| "decode_members fs ((k, j) # kvs) a =
     (case find_field fs k of
        None \<Rightarrow> decode_members fs kvs a
      | Some d \<Rightarrow> (case d j a of None \<Rightarrow> None | Some a' \<Rightarrow> decode_members fs kvs a'))"

text \<open>\<open>null\<close> leaves the struct as it is; any other text that is not an object is an error.\<close>

definition decode_struct :: "'a fields \<Rightarrow> 'a \<Rightarrow> json \<Rightarrow> 'a option" where
  "decode_struct fs zero j =
     (case j of JNull \<Rightarrow> Some zero | JObj kvs \<Rightarrow> decode_members fs kvs zero | _ \<Rightarrow> None)"

definition dec_string :: "(string \<Rightarrow> 'a \<Rightarrow> 'a) \<Rightarrow> json \<Rightarrow> 'a \<Rightarrow> 'a option" where
  "dec_string upd j a =
     (case j of JStr s \<Rightarrow> Some (upd s a) | JNull \<Rightarrow> Some a | _ \<Rightarrow> None)"

definition dec_iface :: "(gval \<Rightarrow> 'a \<Rightarrow> 'a) \<Rightarrow> json \<Rightarrow> 'a \<Rightarrow> 'a option" where
  "dec_iface upd j a = map_option (\<lambda>v. upd v a) (to_iface j)"

definition dec_int :: "(int \<Rightarrow> 'a \<Rightarrow> 'a) \<Rightarrow> json \<Rightarrow> 'a \<Rightarrow> 'a option" where
  "dec_int upd j a =
     (case j of
        JInt n \<Rightarrow> (if - (2 ^ 63) \<le> n \<and> n < 2 ^ 63 then Some (upd n a) else None)
      | JNull \<Rightarrow> Some a
      | _ \<Rightarrow> None)"

text \<open>A \<open>map[string]interface{}\<close> field: \<open>null\<close> makes it nil, an object is added to what it holds.\<close>

definition dec_map ::
  "('a \<Rightarrow> (string \<times> gval) list option) \<Rightarrow> ((string \<times> gval) list option \<Rightarrow> 'a \<Rightarrow> 'a) \<Rightarrow>
   json \<Rightarrow> 'a \<Rightarrow> 'a option" where
  "dec_map get upd j a =
     (case j of
        JNull \<Rightarrow> Some (upd None a)
      | JObj kvs \<Rightarrow>
          map_option (\<lambda>m. upd (Some m) a)
            (to_iface_members kvs (case get a of None \<Rightarrow> [] | Some m \<Rightarrow> m))
      | _ \<Rightarrow> None)"

section \<open>Printing\<close>

text \<open>
  \<open>fmt.Sprintf("%v", v)\<close>. The shortest decimal form of a float and the printing of structs and
  opaque values are left to the argument \<open>other\<close>.
\<close>

fun fmt_v :: "(gval \<Rightarrow> string) \<Rightarrow> gval \<Rightarrow> string"
and fmt_list :: "(gval \<Rightarrow> string) \<Rightarrow> gval list \<Rightarrow> string list"
and fmt_members :: "(gval \<Rightarrow> string) \<Rightarrow> (string \<times> gval) list \<Rightarrow> string list" where
  "fmt_v other GNil = ''<nil>''"
| "fmt_v other (GBool b) = (if b then ''true'' else ''false'')"
| "fmt_v other (GInt n) = fmt_d (sint n)"
| "fmt_v other (GInt64 n) = fmt_d (sint n)"
| "fmt_v other (GString s) = s"
| "fmt_v other (GList vs) = ''['' @ Join (fmt_list other vs) '' '' @ '']''"
| "fmt_v other (GSlice vs) = ''['' @ Join (fmt_list other vs) '' '' @ '']''"
| "fmt_v other (GStrs ss) = ''['' @ Join ss '' '' @ '']''"
| "fmt_v other (GMap m) = ''map['' @ Join (fmt_members other m) '' '' @ '']''"
| "fmt_v other v = other v"
| "fmt_list other [] = []"
| "fmt_list other (v # vs) = fmt_v other v # fmt_list other vs"
| "fmt_members other [] = []"
| "fmt_members other ((k, v) # m) = (k @ '':'' @ fmt_v other v) # fmt_members other m"

section \<open>Lemmas\<close>

subsection \<open>Map values\<close>

lemma map_of_map_put [simp, go_map_simps]:
  "map_of (map_put k v m) k' = (if k' = k then Some v else map_of m k')"
  by (induction k v m rule: map_put.induct) auto

lemma set_map_put: "set (map fst (map_put k v m)) = insert k (set (map fst m))"
  by (induction k v m rule: map_put.induct) auto

lemma sorted_map_put: "sorted_map m \<Longrightarrow> sorted_map (map_put k v m)"
proof (induction k v m rule: map_put.induct)
  case (2 k v k' v' m)
  then show ?case
    using set_map_put [of k v m] by (auto simp: sorted_map_def not_less_iff_gr_or_eq)
qed (simp add: sorted_map_def)

lemma map_put_last:
  "\<forall>k' \<in> set (map fst m). k' < k \<Longrightarrow> map_put k v m = m @ [(k, v)]"
  by (induction k v m rule: map_put.induct) (auto dest: less_asym)

subsection \<open>Numbers\<close>

lemma round_half_even_of_int [simp]: "round_half_even (of_int n) = n"
  by (simp add: round_half_even_def)

lemma bit_len_bounds: "0 < n \<Longrightarrow> 2 ^ (bit_len n - 1) \<le> n \<and> n < 2 ^ bit_len n \<and> 0 < bit_len n"
proof (induction n rule: bit_len.induct)
  case (1 n)
  show ?case
  proof (cases "n div 2 = 0")
    case True
    then have "n = 1" using "1.prems" by arith
    then show ?thesis by (simp add: bit_len.simps)
  next
    case False
    then have ih: "2 ^ (bit_len (n div 2) - 1) \<le> n div 2" "n div 2 < 2 ^ bit_len (n div 2)"
      "0 < bit_len (n div 2)"
      using 1 by auto
    have bl: "bit_len n = Suc (bit_len (n div 2))"
      using "1.prems" by (simp add: bit_len.simps [of n])
    obtain b where b: "bit_len (n div 2) = Suc b"
      using ih(3) by (cases "bit_len (n div 2)") auto
    show ?thesis
      using ih bl b by auto
  qed
qed


lemma power_int_diff_nat: "(2::rat) powi (int m - int n) = 2 ^ m / 2 ^ n"
  by (simp add: power_int_diff)

lemma rat_exponent_spec:
  assumes "0 < q"
  shows "2 powi rat_exponent q \<le> q" and "q < 2 powi (rat_exponent q + 1)"
proof -
  obtain a b where ab: "quotient_of q = (a, b)" by force
  have b0: "0 < b" using ab by (rule quotient_of_denom_pos)
  have qab: "q = of_int a / of_int b" using ab by (rule quotient_of_div)
  have a0: "0 < a" using assms qab b0 by (simp add: zero_less_divide_iff)
  define la lb where "la = bit_len (nat a)" and "lb = bit_len (nat b)"
  define x y :: rat where "x = of_nat (nat a)" and "y = of_nat (nat b)"
  have q: "q = x / y" and y0: "0 < y"
    using qab a0 b0 by (simp_all add: x_def y_def)
  have A: "2 ^ (la - 1) \<le> x" "x < 2 ^ la" and la: "0 < la"
    using bit_len_bounds [of "nat a"] a0 unfolding x_def la_def
    by (metis of_nat_le_iff of_nat_less_iff of_nat_numeral of_nat_power zero_less_nat_eq)+
  have B: "2 ^ (lb - 1) \<le> y" "y < 2 ^ lb" and lb: "0 < lb"
    using bit_len_bounds [of "nat b"] b0 unfolding y_def lb_def
    by (metis of_nat_le_iff of_nat_less_iff of_nat_numeral of_nat_power zero_less_nat_eq)+
  define k where "k = int la - int lb"
  have up: "q < 2 powi (k + 1)"
  proof -
    have "x / y < 2 ^ la / 2 ^ (lb - 1)"
      using A B y0 by (intro frac_less) (auto simp: x_def)
    also have "\<dots> = 2 powi (int la - int (lb - 1))"
      by (simp only: power_int_diff_nat)
    also have "int la - int (lb - 1) = k + 1"
      using lb by (simp add: k_def)
    finally show ?thesis by (simp add: q)
  qed
  have low: "2 powi (k - 1) \<le> q"
  proof -
    have "2 powi (int (la - 1) - int lb) = (2::rat) ^ (la - 1) / 2 ^ lb"
      by (simp only: power_int_diff_nat)
    also have "\<dots> \<le> x / y"
      using A B y0 by (intro frac_le) (auto simp: x_def)
    also have "int (la - 1) - int lb = k - 1"
      using la by (simp add: k_def)
    finally show ?thesis by (simp add: q)
  qed
  have e: "rat_exponent q = (if 2 powi k \<le> q then k else k - 1)"
    by (simp add: rat_exponent_def ab k_def la_def lb_def)
  show "2 powi rat_exponent q \<le> q" and "q < 2 powi (rat_exponent q + 1)"
    using up low by (auto simp: e)
qed

lemma rat_exponent_less:
  assumes "0 < q" and "q < 2 powi k"
  shows "rat_exponent q < k"
proof (rule ccontr)
  assume "\<not> rat_exponent q < k"
  then have "(2::rat) powi k \<le> 2 powi rat_exponent q"
    by (intro power_int_increasing) auto
  with rat_exponent_spec(1) [OF assms(1)] assms(2) show False by linarith
qed

text \<open>A value with a 53-bit significand is read as itself.\<close>

lemma parse_float_exact:
  assumes v: "v = of_int m * 2 powi e" and m: "\<bar>m\<bar> \<le> 2 ^ 53" and e: "- 1074 \<le> e"
    and big: "\<bar>v\<bar> < 2 ^ 1024"
  shows "parse_float v = Some (F64 v)"
proof (cases "m = 0")
  case True
  then show ?thesis by (simp add: v parse_float_def)
next
  case False
  define f where "f = max (- 1074) (rat_exponent \<bar>v\<bar> - 52)"
  have v0: "0 < \<bar>v\<bar>" using False by (simp add: v)
  have "\<exists>n::int. v / 2 powi f = of_int n"
  proof (cases "\<bar>m\<bar> = 2 ^ 53")
    case True
    then have av: "\<bar>v\<bar> = 2 powi (53 + e)"
      by (simp add: v abs_mult power_int_add)
    have "\<bar>v\<bar> < 2 powi (54 + e)"
      unfolding av by (rule power_int_strict_increasing) auto
    then have "rat_exponent \<bar>v\<bar> < 54 + e"
      using v0 by (rule rat_exponent_less [rotated])
    then have f: "f \<le> e + 1" using e by (simp add: f_def)
    have "m = sgn m * 2 ^ 53"
      using True by (metis mult_sgn_abs)
    then have "(of_int m :: rat) = of_int (sgn m) * 2 ^ 53"
      by (metis of_int_mult of_int_numeral of_int_power)
    then have "v / 2 powi f = of_int (sgn m) * 2 powi (53 + e - f)"
      by (simp add: v power_int_diff power_int_add)
    also have "\<dots> = of_int (sgn m * 2 ^ nat (53 + e - f))"
      using f by (simp add: power_int_def)
    finally show ?thesis by blast
  next
    case neq: False
    have "\<bar>v\<bar> < 2 powi (53 + e)"
    proof -
      have "\<bar>m\<bar> < 2 ^ 53" using neq m by simp
      then have "\<bar>of_int m\<bar> < (2::rat) ^ 53"
        by (metis of_int_abs of_int_less_iff of_int_numeral of_int_power)
      then show ?thesis by (simp add: v abs_mult power_int_add)
    qed
    then have "rat_exponent \<bar>v\<bar> < 53 + e"
      using v0 by (rule rat_exponent_less [rotated])
    then have f: "f \<le> e" using e by (simp add: f_def)
    have "v / 2 powi f = of_int m * 2 powi (e - f)"
      by (simp add: v power_int_diff)
    also have "\<dots> = of_int (m * 2 ^ nat (e - f))"
      using f by (simp add: power_int_def)
    finally show ?thesis by blast
  qed
  then obtain n where n: "v / 2 powi f = of_int n" by blast
  then have "of_int n * 2 powi f = v" by (simp add: field_simps)
  then show ?thesis
    using v0 big by (simp add: parse_float_def f_def [symmetric] n Let_def)
qed

lemma parse_float_of_int:
  assumes "\<bar>n\<bar> \<le> 2 ^ 53"
  shows "parse_float (of_int n) = Some (F64 (of_int n))"
proof (rule parse_float_exact [where m = n and e = 0])
  have "\<bar>of_int n\<bar> \<le> (2::rat) ^ 53"
    using assms by (metis of_int_abs of_int_le_iff of_int_numeral of_int_power)
  also have "(2::rat) ^ 53 < 2 ^ 1024" by (rule power_strict_increasing) auto
  finally show "\<bar>of_int n\<bar> < (2::rat) ^ 1024" .
qed (use assms in auto)

lemma round_half_even_bound: "\<bar>q\<bar> < of_int n \<Longrightarrow> \<bar>round_half_even q\<bar> \<le> n"
proof -
  assume a: "\<bar>q\<bar> < of_int n"
  then have "- of_int n < q" "q < of_int n" by auto
  then have "- n \<le> \<lfloor>q\<rfloor>" "\<lfloor>q\<rfloor> < n"
    by (simp_all add: le_floor_iff floor_less_iff)
  then show ?thesis
    by (auto simp: round_half_even_def Let_def)
qed

text \<open>Reading a number again changes nothing: \<open>parse_float\<close> yields \<open>float64\<close> values.\<close>

lemma parse_float_idem:
  assumes "parse_float q = Some f"
  obtains v where "f = F64 v" and "parse_float v = Some (F64 v)"
proof (cases "q = 0")
  case True
  then show thesis using assms that [of 0] by (simp add: parse_float_def)
next
  case False
  define e where "e = max (- 1074) (rat_exponent \<bar>q\<bar> - 52)"
  define m where "m = round_half_even (q / 2 powi e)"
  define v :: rat where "v = of_int m * 2 powi e"
  have fv: "f = F64 v" "\<bar>v\<bar> < 2 ^ 1024"
    using assms False
    by (auto simp: parse_float_def Let_def e_def [symmetric] m_def [symmetric] v_def [symmetric]
        split: if_splits)
  have "\<bar>q\<bar> < 2 powi (rat_exponent \<bar>q\<bar> + 1)"
    using False by (intro rat_exponent_spec) auto
  also have "\<dots> \<le> 2 powi (53 + e)"
    by (rule power_int_increasing) (auto simp: e_def)
  finally have "\<bar>q / 2 powi e\<bar> < of_int (2 ^ 53)"
    by (simp add: power_int_add field_simps)
  then have m: "\<bar>m\<bar> \<le> 2 ^ 53"
    unfolding m_def by (rule round_half_even_bound)
  have "parse_float v = Some (F64 v)"
    using m fv(2) by (intro parse_float_exact [of v m e]) (auto simp: v_def e_def)
  then show thesis using fv(1) by (intro that)
qed

subsection \<open>Round trip through JSON\<close>

fun generic :: "gval \<Rightarrow> bool" where
  "generic GNil = True"
| "generic (GBool _) = True"
| "generic (GFloat (F64 q)) = (parse_float q = Some (F64 q))"
| "generic (GString _) = True"
| "generic (GList vs) = list_all generic vs"
| "generic (GMap m) = (sorted_map m \<and> list_all (\<lambda>p. generic (snd p)) m)"
| "generic _ = False"

lemma to_iface_generic:
  "to_iface j = Some v \<Longrightarrow> generic v"
  "to_iface_list js = Some vs \<Longrightarrow> list_all generic vs"
  "to_iface_members kvs m = Some m' \<Longrightarrow> sorted_map m \<Longrightarrow> list_all (\<lambda>p. generic (snd p)) m \<Longrightarrow>
     sorted_map m' \<and> list_all (\<lambda>p. generic (snd p)) m'"
proof (induction j and js and kvs m arbitrary: v and vs and m'
    rule: to_iface_to_iface_list_to_iface_members.induct)
  case (3 n)
  then show ?case by (auto elim: parse_float_idem)
next
  case (4 q)
  then show ?case by (auto elim: parse_float_idem)
next
  case (11 k j kvs m)
  have aux: "list_all (\<lambda>p. generic (snd p)) m \<Longrightarrow> generic v \<Longrightarrow>
      list_all (\<lambda>p. generic (snd p)) (map_put k v m)" for v and m :: "(string \<times> gval) list"
    by (induction k v m rule: map_put.induct) auto
  from 11 show ?case
    by (auto split: option.splits simp: sorted_map_put aux)
qed (auto split: option.splits simp: sorted_map_def)

lemma parse_marshal_float:
  assumes "parse_float q = Some (F64 q)"
  shows "to_iface (marshal_float q) = Some (GFloat (F64 q))"
  using assms by (auto simp: marshal_float_def Ints_def)

lemma generic_roundtrip:
  "generic v \<Longrightarrow> \<exists>j. marshal v = Some j \<and> to_iface j = Some v"
  "list_all generic vs \<Longrightarrow> \<exists>js. marshal_list vs = Some js \<and> to_iface_list js = Some vs"
  "list_all (\<lambda>p. generic (snd p)) m \<Longrightarrow> sorted_map (acc @ m) \<Longrightarrow>
     \<exists>kvs. marshal_members m = Some kvs \<and> to_iface_members kvs acc = Some (acc @ m)"
proof (induction v and vs and m arbitrary: and and acc
    rule: marshal_marshal_list_marshal_members.induct)
  case (5 q)
  then show ?case by (auto simp: parse_marshal_float)
next
  case (10 m)
  from "10.IH" [of "[]"] "10.prems" show ?case by auto
next
  case (17 k v m)
  obtain j where j: "marshal v = Some j" "to_iface j = Some v"
    using 17 by auto
  have "\<forall>k' \<in> set (map fst acc). k' < k"
    using "17.prems"(2) by (auto simp: sorted_map_def sorted_wrt_append)
  then have put: "map_put k v acc = acc @ [(k, v)]"
    by (rule map_put_last)
  from "17.IH"(2) [OF j(1), of "acc @ [(k, v)]"] "17.prems" j put show ?case
    by auto
qed auto

end
