(* ===== verification/Rpc_Types.thy ===== *)
theory Rpc_Types
  imports Go_Values
begin

text \<open>
  \<open>shared/types.go\<close>: the JSON-RPC message structs, their classification and conversion
  (\<open>IsRequest\<close>, \<open>ToRequest\<close>, ...), \<open>ParseMessage\<close>, and the MCP data types with the JSON form
  their struct tags give. A pointer to a struct is an \<open>option\<close>, a field of type
  \<open>map[string]interface{}\<close> is an optional association list (\<^term>\<open>None\<close> is the nil map).
  The lemmas give the meaning of a parsed message and the round trip of each kind of message.
\<close>

named_theorems rpc_simps "records and predicates of JSON-RPC messages"

section \<open>Protocol versions\<close>

definition ProtocolVersion :: string where
  "ProtocolVersion = ''2024-11-05''"

definition LATEST_PROTOCOL_VERSION :: string where
  "LATEST_PROTOCOL_VERSION = ''2024-11-05''"

definition SUPPORTED_PROTOCOL_VERSIONS :: "string list" where
  "SUPPORTED_PROTOCOL_VERSIONS = [''2024-11-05'', ''2024-10-07'']"

section \<open>Message structs\<close>

record rpc_error =
  err_Code :: int
  err_Message :: string
  err_Data :: gval

record jsonrpc_message =
  msg_JSONRPC :: string
  msg_ID :: gval
  msg_Method :: string
  msg_Params :: gval
  msg_Result :: gval
  msg_Error :: "rpc_error option"

record request =
  req_JSONRPC :: string
  req_ID :: gval
  req_Method :: string
  req_Params :: gval

record notification =
  not_JSONRPC :: string
  not_Method :: string
  not_Params :: gval

record response =
  resp_JSONRPC :: string
  resp_ID :: gval
  resp_Result :: gval
  resp_Error :: "rpc_error option"

definition RPCError_Error :: "rpc_error \<Rightarrow> string" where
  "RPCError_Error e = ''RPC error '' @ fmt_d (err_Code e) @ '': '' @ err_Message e"

subsection \<open>Encoding: struct tags with omitempty\<close>

definition omit_nil :: "string \<Rightarrow> gval \<Rightarrow> (string \<times> gval) list" where
  "omit_nil k v = (if v = GNil then [] else [(k, v)])"

definition omit_empty :: "string \<Rightarrow> string \<Rightarrow> (string \<times> gval) list" where
  "omit_empty k s = (if s = [] then [] else [(k, GString s)])"

definition omit_false :: "string \<Rightarrow> bool \<Rightarrow> (string \<times> gval) list" where
  "omit_false k b = (if b then [(k, GBool True)] else [])"

definition omit_None :: "string \<Rightarrow> ('a \<Rightarrow> gval) \<Rightarrow> 'a option \<Rightarrow> (string \<times> gval) list" where
  "omit_None k f x = (case x of None \<Rightarrow> [] | Some a \<Rightarrow> [(k, f a)])"

definition rpc_error_gval :: "rpc_error \<Rightarrow> gval" where
  "rpc_error_gval e =
     GStruct ([(''code'', GInt (word_of_int (err_Code e))), (''message'', GString (err_Message e))]
              @ omit_nil ''data'' (err_Data e))"

definition request_gval :: "request \<Rightarrow> gval" where
  "request_gval r =
     GStruct ([(''jsonrpc'', GString (req_JSONRPC r)), (''id'', req_ID r),
               (''method'', GString (req_Method r))] @ omit_nil ''params'' (req_Params r))"

definition notification_gval :: "notification \<Rightarrow> gval" where
  "notification_gval n =
     GStruct ([(''jsonrpc'', GString (not_JSONRPC n)), (''method'', GString (not_Method n))]
              @ omit_nil ''params'' (not_Params n))"

definition response_gval :: "response \<Rightarrow> gval" where
  "response_gval r =
     GStruct ([(''jsonrpc'', GString (resp_JSONRPC r)), (''id'', resp_ID r)]
              @ omit_nil ''result'' (resp_Result r)
              @ omit_None ''error'' rpc_error_gval (resp_Error r))"

definition message_gval :: "jsonrpc_message \<Rightarrow> gval" where
  "message_gval m =
     GStruct ([(''jsonrpc'', GString (msg_JSONRPC m))] @ omit_nil ''id'' (msg_ID m)
              @ omit_empty ''method'' (msg_Method m) @ omit_nil ''params'' (msg_Params m)
              @ omit_nil ''result'' (msg_Result m)
              @ omit_None ''error'' rpc_error_gval (msg_Error m))"

text \<open>\<open>json.Marshal\<close> of a struct value, as the bytes to send.\<close>

definition to_payload :: "gval \<Rightarrow> payload option" where
  "to_payload v = map_option Text (marshal v)"

subsection \<open>Decoding\<close>

definition zero_error :: rpc_error where
  "zero_error = \<lparr>err_Code = 0, err_Message = [], err_Data = GNil\<rparr>"

definition rpc_error_fields :: "rpc_error fields" where
  "rpc_error_fields =
     [(''code'', dec_int (\<lambda>n e. e\<lparr>err_Code := n\<rparr>)),
      (''message'', dec_string (\<lambda>s e. e\<lparr>err_Message := s\<rparr>)),
      (''data'', dec_iface (\<lambda>v e. e\<lparr>err_Data := v\<rparr>))]"

text \<open>
  A \<open>*RPCError\<close> field: \<open>null\<close> makes the pointer nil, an object is decoded into the struct it
  points to, a new one when it was nil.
\<close>

definition dec_error_ptr ::
  "('a \<Rightarrow> rpc_error option) \<Rightarrow> (rpc_error option \<Rightarrow> 'a \<Rightarrow> 'a) \<Rightarrow> json \<Rightarrow> 'a \<Rightarrow> 'a option" where
  "dec_error_ptr get upd j a =
     (if j = JNull then Some (upd None a)
      else map_option (\<lambda>e. upd (Some e) a)
             (decode_struct rpc_error_fields
                (case get a of None \<Rightarrow> zero_error | Some e \<Rightarrow> e) j))"

definition zero_message :: jsonrpc_message where
  "zero_message = \<lparr>msg_JSONRPC = [], msg_ID = GNil, msg_Method = [], msg_Params = GNil,
     msg_Result = GNil, msg_Error = None\<rparr>"

definition message_fields :: "jsonrpc_message fields" where
  "message_fields =
     [(''jsonrpc'', dec_string (\<lambda>s m. m\<lparr>msg_JSONRPC := s\<rparr>)),
      (''id'', dec_iface (\<lambda>v m. m\<lparr>msg_ID := v\<rparr>)),
      (''method'', dec_string (\<lambda>s m. m\<lparr>msg_Method := s\<rparr>)),
      (''params'', dec_iface (\<lambda>v m. m\<lparr>msg_Params := v\<rparr>)),
      (''result'', dec_iface (\<lambda>v m. m\<lparr>msg_Result := v\<rparr>)),
      (''error'', dec_error_ptr msg_Error (\<lambda>e m. m\<lparr>msg_Error := e\<rparr>))]"

definition ParseMessage :: "payload \<Rightarrow> jsonrpc_message option" where
  "ParseMessage data =
     (case data of Malformed \<Rightarrow> None | Text j \<Rightarrow> decode_struct message_fields zero_message j)"

definition zero_response :: response where
  "zero_response = \<lparr>resp_JSONRPC = [], resp_ID = GNil, resp_Result = GNil, resp_Error = None\<rparr>"

definition response_fields :: "response fields" where
  "response_fields =
     [(''jsonrpc'', dec_string (\<lambda>s m. m\<lparr>resp_JSONRPC := s\<rparr>)),
      (''id'', dec_iface (\<lambda>v m. m\<lparr>resp_ID := v\<rparr>)),
      (''result'', dec_iface (\<lambda>v m. m\<lparr>resp_Result := v\<rparr>)),
      (''error'', dec_error_ptr resp_Error (\<lambda>e m. m\<lparr>resp_Error := e\<rparr>))]"

text \<open>\<open>json.Unmarshal(body, &response)\<close>, as the HTTP transports call it.\<close>

definition ParseResponse :: "payload \<Rightarrow> response option" where
  "ParseResponse data =
     (case data of Malformed \<Rightarrow> None | Text j \<Rightarrow> decode_struct response_fields zero_response j)"

subsection \<open>Classification and conversion\<close>

definition IsRequest :: "jsonrpc_message \<Rightarrow> bool" where
  "IsRequest msg \<longleftrightarrow> msg_Method msg \<noteq> [] \<and> msg_ID msg \<noteq> GNil"

definition IsNotification :: "jsonrpc_message \<Rightarrow> bool" where
  "IsNotification msg \<longleftrightarrow> msg_Method msg \<noteq> [] \<and> msg_ID msg = GNil"

definition IsResponse :: "jsonrpc_message \<Rightarrow> bool" where
  "IsResponse msg \<longleftrightarrow> msg_Method msg = [] \<and> msg_ID msg \<noteq> GNil"

definition ToRequest :: "jsonrpc_message \<Rightarrow> request option" where
  "ToRequest msg =
     (if \<not> IsRequest msg then None
      else Some \<lparr>req_JSONRPC = msg_JSONRPC msg, req_ID = msg_ID msg,
                 req_Method = msg_Method msg, req_Params = msg_Params msg\<rparr>)"

definition ToNotification :: "jsonrpc_message \<Rightarrow> notification option" where
  "ToNotification msg =
     (if \<not> IsNotification msg then None
      else Some \<lparr>not_JSONRPC = msg_JSONRPC msg, not_Method = msg_Method msg,
                 not_Params = msg_Params msg\<rparr>)"

definition ToResponse :: "jsonrpc_message \<Rightarrow> response option" where
  "ToResponse msg =
     (if \<not> IsResponse msg then None
      else Some \<lparr>resp_JSONRPC = msg_JSONRPC msg, resp_ID = msg_ID msg,
                 resp_Result = msg_Result msg, resp_Error = msg_Error msg\<rparr>)"

text \<open>
  \<open>ParseMessageResult(result, dest)\<close>: \<open>dec\<close> decodes a JSON text into the type \<open>dest\<close> points to.
\<close>

definition ParseMessageResult ::
  "(json \<Rightarrow> 'a \<Rightarrow> 'a option) \<Rightarrow> gval \<Rightarrow> 'a \<Rightarrow> 'a outcome" where
  "ParseMessageResult dec result dest =
     (if result = GNil then Ok dest
      else case marshal result of
             None \<Rightarrow> Err ''failed to marshal result''
           | Some j \<Rightarrow> (case dec j dest of
                 None \<Rightarrow> Err ''failed to unmarshal result''
               | Some d \<Rightarrow> Ok d))"

section \<open>MCP data types\<close>

record implementation =
  impl_Name :: string
  impl_Version :: string
  impl_ProtocolVersion :: string

text \<open>
  Capability structs. The structs without fields (\<open>SamplingCapability\<close>, \<open>LoggingCapability\<close>,
  \<open>CompletionsCapability\<close>) are \<open>unit\<close>; a nil pointer is \<^term>\<open>None\<close>.
\<close>

record resources_capability =
  rescap_Subscribe :: bool
  rescap_ListChanged :: bool

type_synonym list_changed_capability = bool  \<comment> \<open>\<open>{ListChanged bool}\<close>: prompts, tools, roots\<close>

record client_capabilities =
  ccap_Experimental :: "(string \<times> gval) list option"
  ccap_Sampling :: "unit option"
  ccap_Roots :: "list_changed_capability option"

record server_capabilities =
  scap_Experimental :: "(string \<times> gval) list option"
  scap_Logging :: "unit option"
  scap_Prompts :: "list_changed_capability option"
  scap_Resources :: "resources_capability option"
  scap_Tools :: "list_changed_capability option"
  scap_Completions :: "unit option"

datatype content_type = ContentTypeText | ContentTypeImage | ContentTypeAudio

definition content_type_string :: "content_type \<Rightarrow> string" where
  "content_type_string t =
     (case t of ContentTypeText \<Rightarrow> ''text'' | ContentTypeImage \<Rightarrow> ''image''
      | ContentTypeAudio \<Rightarrow> ''audio'')"

text \<open>The three implementations of the interface \<open>Content\<close>; the \<open>Type\<close> field is any string.\<close>

datatype content =
    TextContent (tc_Type: string) (tc_Text: string) (tc_URI: string)
  | ImageContent (ic_Type: string) (ic_Data: string) (ic_MimeType: string)
  | AudioContent (ac_Type: string) (ac_Data: string) (ac_MimeType: string)

fun GetType :: "content \<Rightarrow> content_type" where
  "GetType (TextContent _ _ _) = ContentTypeText"
| "GetType (ImageContent _ _ _) = ContentTypeImage"
| "GetType (AudioContent _ _ _) = ContentTypeAudio"

record resource =
  res_URI :: string
  res_Name :: string
  res_Description :: string
  res_MimeType :: string
  res_Annotations :: gval

record tool =
  tool_Name :: string
  tool_Description :: string
  tool_InputSchema :: "(string \<times> gval) list option"

record prompt_argument =
  parg_Name :: string
  parg_Description :: string
  parg_Required :: bool

record prompt =
  prompt_Name :: string
  prompt_Description :: string
  prompt_Arguments :: "prompt_argument list"

datatype log_level =
    LogLevelDebug | LogLevelInfo | LogLevelNotice | LogLevelWarning
  | LogLevelError | LogLevelCrit | LogLevelAlert | LogLevelEmerg

definition log_level_string :: "log_level \<Rightarrow> string" where
  "log_level_string l =
     (case l of LogLevelDebug \<Rightarrow> ''debug'' | LogLevelInfo \<Rightarrow> ''info'' | LogLevelNotice \<Rightarrow> ''notice''
      | LogLevelWarning \<Rightarrow> ''warning'' | LogLevelError \<Rightarrow> ''error'' | LogLevelCrit \<Rightarrow> ''crit''
      | LogLevelAlert \<Rightarrow> ''alert'' | LogLevelEmerg \<Rightarrow> ''emerg'')"

record initialize_response =
  initr_ProtocolVersion :: string
  initr_Capabilities :: server_capabilities
  initr_ServerInfo :: implementation
  initr_Instructions :: string

record progress_params =
  prog_ProgressToken :: gval
  prog_Progress :: int64
  prog_Total :: "int64 option"
  prog_Message :: string

record progress_notification =
  pn_JSONRPC :: string
  pn_Method :: string
  pn_Params :: progress_params

record resource_content =
  rcont_URI :: string
  rcont_MimeType :: string
  rcont_Text :: string
  rcont_Blob :: string

subsection \<open>Their JSON forms\<close>

definition opt_map_gval :: "(string \<times> gval) list option \<Rightarrow> gval" where
  "opt_map_gval m = (case m of None \<Rightarrow> GNil | Some kvs \<Rightarrow> GMap kvs)"

definition omit_empty_map :: "string \<Rightarrow> (string \<times> gval) list option \<Rightarrow> (string \<times> gval) list" where
  "omit_empty_map k m = (if m = None \<or> m = Some [] then [] else [(k, opt_map_gval m)])"

definition list_changed_gval :: "list_changed_capability \<Rightarrow> gval" where
  "list_changed_gval b = GStruct (omit_false ''listChanged'' b)"

definition resources_capability_gval :: "resources_capability \<Rightarrow> gval" where
  "resources_capability_gval c =
     GStruct (omit_false ''subscribe'' (rescap_Subscribe c)
              @ omit_false ''listChanged'' (rescap_ListChanged c))"

definition implementation_gval :: "implementation \<Rightarrow> gval" where
  "implementation_gval i =
     GStruct ([(''name'', GString (impl_Name i)), (''version'', GString (impl_Version i))]
              @ omit_empty ''protocolVersion'' (impl_ProtocolVersion i))"

definition client_capabilities_gval :: "client_capabilities \<Rightarrow> gval" where
  "client_capabilities_gval c =
     GStruct (omit_empty_map ''experimental'' (ccap_Experimental c)
              @ omit_None ''sampling'' (\<lambda>_. GStruct []) (ccap_Sampling c)
              @ omit_None ''roots'' list_changed_gval (ccap_Roots c))"

definition server_capabilities_gval :: "server_capabilities \<Rightarrow> gval" where
  "server_capabilities_gval c =
     GStruct (omit_empty_map ''experimental'' (scap_Experimental c)
              @ omit_None ''logging'' (\<lambda>_. GStruct []) (scap_Logging c)
              @ omit_None ''prompts'' list_changed_gval (scap_Prompts c)
              @ omit_None ''resources'' resources_capability_gval (scap_Resources c)
              @ omit_None ''tools'' list_changed_gval (scap_Tools c)
              @ omit_None ''completions'' (\<lambda>_. GStruct []) (scap_Completions c))"

definition content_gval :: "content \<Rightarrow> gval" where
  "content_gval c =
     (case c of
        TextContent t x u \<Rightarrow>
          GStruct ([(''type'', GString t), (''text'', GString x)] @ omit_empty ''uri'' u)
      | ImageContent t d m \<Rightarrow>
          GStruct [(''type'', GString t), (''data'', GString d), (''mimeType'', GString m)]
      | AudioContent t d m \<Rightarrow>
          GStruct [(''type'', GString t), (''data'', GString d), (''mimeType'', GString m)])"

definition resource_gval :: "resource \<Rightarrow> gval" where
  "resource_gval r =
     GStruct ([(''uri'', GString (res_URI r)), (''name'', GString (res_Name r))]
              @ omit_empty ''description'' (res_Description r)
              @ omit_empty ''mimeType'' (res_MimeType r)
              @ omit_nil ''annotations'' (res_Annotations r))"

definition tool_gval :: "tool \<Rightarrow> gval" where
  "tool_gval t =
     GStruct ([(''name'', GString (tool_Name t))]
              @ omit_empty ''description'' (tool_Description t)
              @ [(''inputSchema'', opt_map_gval (tool_InputSchema t))])"

definition prompt_argument_gval :: "prompt_argument \<Rightarrow> gval" where
  "prompt_argument_gval a =
     GStruct ([(''name'', GString (parg_Name a))]
              @ omit_empty ''description'' (parg_Description a)
              @ omit_false ''required'' (parg_Required a))"

definition prompt_gval :: "prompt \<Rightarrow> gval" where
  "prompt_gval p =
     GStruct ([(''name'', GString (prompt_Name p))]
              @ omit_empty ''description'' (prompt_Description p)
              @ (if prompt_Arguments p = [] then []
                 else [(''arguments'', GSlice (map prompt_argument_gval (prompt_Arguments p)))]))"

definition initialize_response_gval :: "initialize_response \<Rightarrow> gval" where
  "initialize_response_gval r =
     GStruct ([(''protocolVersion'', GString (initr_ProtocolVersion r)),
               (''capabilities'', server_capabilities_gval (initr_Capabilities r)),
               (''serverInfo'', implementation_gval (initr_ServerInfo r))]
              @ omit_empty ''instructions'' (initr_Instructions r))"

definition resource_content_gval :: "resource_content \<Rightarrow> gval" where
  "resource_content_gval c =
     GStruct ([(''uri'', GString (rcont_URI c)), (''mimeType'', GString (rcont_MimeType c))]
              @ omit_empty ''text'' (rcont_Text c) @ omit_empty ''blob'' (rcont_Blob c))"

section \<open>Lemmas\<close>

lemmas message_class_defs [rpc_simps] = IsRequest_def IsNotification_def IsResponse_def

lemma message_classes:
  "IsRequest m \<Longrightarrow> \<not> IsNotification m \<and> \<not> IsResponse m"
  "IsNotification m \<Longrightarrow> \<not> IsRequest m \<and> \<not> IsResponse m"
  "\<not> IsRequest m \<Longrightarrow> \<not> IsNotification m \<Longrightarrow> \<not> IsResponse m \<Longrightarrow> msg_Method m = [] \<and> msg_ID m = GNil"
  by (auto simp: message_class_defs)

lemma marshal_members_append:
  "marshal_members (xs @ ys) =
     (case marshal_members xs of None \<Rightarrow> None
      | Some js \<Rightarrow> map_option (\<lambda>js'. js @ js') (marshal_members ys))"
proof (induction xs)
  case Nil
  then show ?case by (cases "marshal_members ys") auto
next
  case (Cons x xs)
  then show ?case
    by (cases x; cases "marshal_members ys") (auto split: option.splits)
qed

lemma decode_members_append:
  "decode_members fs (xs @ ys) a =
     (case decode_members fs xs a of None \<Rightarrow> None | Some b \<Rightarrow> decode_members fs ys b)"
  by (induction fs xs a rule: decode_members.induct) (auto split: option.splits)

text \<open>What a value is on the other side of the wire.\<close>

definition wire_view :: "gval \<Rightarrow> gval option" where
  "wire_view v = (case marshal v of None \<Rightarrow> None | Some j \<Rightarrow> to_iface j)"

lemma wire_view_generic [simp]: "generic v \<Longrightarrow> wire_view v = Some v"
  using generic_roundtrip(1) [of v] by (auto simp: wire_view_def)

lemma wire_view_is_generic: "wire_view v = Some v' \<Longrightarrow> generic v'"
  by (auto simp: wire_view_def split: option.splits intro: to_iface_generic)

lemma wire_view_GInt64:
  "\<bar>sint n\<bar> \<le> 2 ^ 53 \<Longrightarrow> wire_view (GInt64 n) = Some (GFloat (F64 (of_int (sint n))))"
  using parse_float_of_int [of "sint n"] by (simp add: wire_view_def)

lemma wire_view_nil [simp]: "wire_view GNil = Some GNil"
  by (simp add: wire_view_def)

lemma wire_viewE:
  assumes "wire_view v = Some v'"
  obtains j where "marshal v = Some j" and "to_iface j = Some v'"
  using assms by (auto simp: wire_view_def split: option.splits)

lemma find_message_field:
  "find_field message_fields ''jsonrpc'' = Some (dec_string (\<lambda>s m. m\<lparr>msg_JSONRPC := s\<rparr>))"
  "find_field message_fields ''id'' = Some (dec_iface (\<lambda>v m. m\<lparr>msg_ID := v\<rparr>))"
  "find_field message_fields ''method'' = Some (dec_string (\<lambda>s m. m\<lparr>msg_Method := s\<rparr>))"
  "find_field message_fields ''params'' = Some (dec_iface (\<lambda>v m. m\<lparr>msg_Params := v\<rparr>))"
  "find_field message_fields ''result'' = Some (dec_iface (\<lambda>v m. m\<lparr>msg_Result := v\<rparr>))"
  "find_field message_fields ''error'' = Some (dec_error_ptr msg_Error (\<lambda>e m. m\<lparr>msg_Error := e\<rparr>))"
  by (simp_all add: find_field_def message_fields_def)

lemma find_error_field:
  "find_field rpc_error_fields ''code'' = Some (dec_int (\<lambda>n e. e\<lparr>err_Code := n\<rparr>))"
  "find_field rpc_error_fields ''message'' = Some (dec_string (\<lambda>s e. e\<lparr>err_Message := s\<rparr>))"
  "find_field rpc_error_fields ''data'' = Some (dec_iface (\<lambda>v e. e\<lparr>err_Data := v\<rparr>))"
  by (simp_all add: find_field_def rpc_error_fields_def)

lemmas decode_defs [json_simps] =
  dec_string_def dec_iface_def dec_int_def dec_error_ptr_def decode_struct_def

lemma marshal_omit_nil:
  assumes "marshal v = Some j"
  shows "marshal_members (omit_nil k v) = Some (if v = GNil then [] else [(k, j)])"
  using assms by (simp add: omit_nil_def)

subsection \<open>Round trips of messages\<close>

lemma request_wire:
  assumes i: "wire_view (req_ID r) = Some i" and p: "wire_view (req_Params r) = Some p"
  shows "\<exists>j. marshal (request_gval r) = Some j \<and>
    ParseMessage (Text j) = Some \<lparr>msg_JSONRPC = req_JSONRPC r, msg_ID = i, msg_Method = req_Method r,
      msg_Params = p, msg_Result = GNil, msg_Error = None\<rparr>"
proof -
  from i obtain ji where ji: "marshal (req_ID r) = Some ji" "to_iface ji = Some i" by (rule wire_viewE)
  from p obtain jp where jp: "marshal (req_Params r) = Some jp" "to_iface jp = Some p" by (rule wire_viewE)
  have nil: "req_Params r = GNil \<Longrightarrow> p = GNil" using p by simp
  show ?thesis
    using ji jp nil
    by (cases "req_Params r = GNil")
      (simp_all add: request_gval_def marshal_members_append marshal_omit_nil ParseMessage_def
        decode_members_append find_message_field json_simps zero_message_def)
qed

lemma notification_wire:
  assumes p: "wire_view (not_Params n) = Some p"
  shows "\<exists>j. marshal (notification_gval n) = Some j \<and>
    ParseMessage (Text j) = Some \<lparr>msg_JSONRPC = not_JSONRPC n, msg_ID = GNil,
      msg_Method = not_Method n, msg_Params = p, msg_Result = GNil, msg_Error = None\<rparr>"
proof -
  from p obtain jp where jp: "marshal (not_Params n) = Some jp" "to_iface jp = Some p" by (rule wire_viewE)
  have nil: "not_Params n = GNil \<Longrightarrow> p = GNil" using p by simp
  show ?thesis
    using jp nil
    by (cases "not_Params n = GNil")
      (simp_all add: notification_gval_def marshal_members_append marshal_omit_nil ParseMessage_def
        decode_members_append find_message_field json_simps zero_message_def)
qed

lemma sint_word_of_int_range:
  "- (2 ^ 63) \<le> n \<Longrightarrow> n < 2 ^ 63 \<Longrightarrow> sint (word_of_int n :: int64) = n"
  by (simp add: sint_sbintrunc' signed_take_bit_int_eq_self)

definition error_in_range :: "rpc_error \<Rightarrow> bool" where
  "error_in_range e \<longleftrightarrow> - (2 ^ 63) \<le> err_Code e \<and> err_Code e < 2 ^ 63"

lemma error_wire:
  assumes d: "wire_view (err_Data e) = Some d" and r: "error_in_range e"
  shows "\<exists>j. marshal (rpc_error_gval e) = Some j \<and> j \<noteq> JNull \<and>
    decode_struct rpc_error_fields zero_error j = Some (e\<lparr>err_Data := d\<rparr>)"
proof -
  from d obtain jd where jd: "marshal (err_Data e) = Some jd" "to_iface jd = Some d" by (rule wire_viewE)
  have nil: "err_Data e = GNil \<Longrightarrow> d = GNil" using d by simp
  have s: "sint (word_of_int (err_Code e) :: int64) = err_Code e"
    using r by (simp add: error_in_range_def sint_word_of_int_range)
  show ?thesis
    using jd nil s r
    by (cases "err_Data e = GNil")
      (simp_all add: rpc_error_gval_def marshal_members_append marshal_omit_nil error_in_range_def
        decode_members_append find_error_field json_simps zero_error_def)
qed

lemma response_wire:
  assumes i: "wire_view (resp_ID r) = Some i" and v: "wire_view (resp_Result r) = Some v"
    and e: "\<And>e. resp_Error r = Some e \<Longrightarrow> wire_view (err_Data e) = Some (d e) \<and> error_in_range e"
  shows "\<exists>j. marshal (response_gval r) = Some j \<and>
    ParseMessage (Text j) = Some \<lparr>msg_JSONRPC = resp_JSONRPC r, msg_ID = i, msg_Method = [],
      msg_Params = GNil, msg_Result = v,
      msg_Error = map_option (\<lambda>e. e\<lparr>err_Data := d e\<rparr>) (resp_Error r)\<rparr>"
proof -
  from i obtain ji where ji: "marshal (resp_ID r) = Some ji" "to_iface ji = Some i" by (rule wire_viewE)
  from v obtain jv where jv: "marshal (resp_Result r) = Some jv" "to_iface jv = Some v" by (rule wire_viewE)
  have nil: "resp_Result r = GNil \<Longrightarrow> v = GNil" using v by simp
  show ?thesis
  proof (cases "resp_Error r")
    case None
    show ?thesis
      using ji jv nil None
      by (cases "resp_Result r = GNil")
        (simp_all add: response_gval_def marshal_members_append marshal_omit_nil ParseMessage_def
          decode_members_append find_message_field json_simps zero_message_def omit_None_def)
  next
    case (Some er)
    obtain je where je: "marshal (rpc_error_gval er) = Some je" "je \<noteq> JNull"
      "decode_struct rpc_error_fields zero_error je = Some (er\<lparr>err_Data := d er\<rparr>)"
      using error_wire e [OF Some] by blast
    show ?thesis
      using ji jv nil Some je
      by (cases "resp_Result r = GNil")
        (simp_all add: response_gval_def marshal_members_append marshal_omit_nil ParseMessage_def
          decode_members_append find_message_field dec_string_def dec_iface_def dec_error_ptr_def
          decode_struct_def [of message_fields] zero_message_def omit_None_def)
  qed
qed

subsection \<open>Decoded messages hold JSON values\<close>

lemma find_field_set: "find_field fs k = Some d \<Longrightarrow> \<exists>n. (n, d) \<in> set fs"
  by (auto simp: find_field_def find_Some_iff split: option.splits dest: map_of_SomeD) (metis nth_mem)

text \<open>A property that every field's decoder keeps holds of the decoded struct.\<close>

lemma decode_members_keeps:
  assumes "\<And>n d j a a'. (n, d) \<in> set fs \<Longrightarrow> d j a = Some a' \<Longrightarrow> P a \<Longrightarrow> P a'"
  shows "decode_members fs kvs a = Some b \<Longrightarrow> P a \<Longrightarrow> P b"
proof (induction kvs arbitrary: a)
  case (Cons kv kvs)
  obtain k j where kv: "kv = (k, j)" by (cases kv)
  show ?case
  proof (cases "find_field fs k")
    case None
    then show ?thesis using Cons kv by simp
  next
    case (Some d)
    then obtain n a' where d: "(n, d) \<in> set fs" "d j a = Some a'" "decode_members fs kvs a' = Some b"
      using Cons.prems(1) kv find_field_set [OF Some] by (auto split: option.splits)
    show ?thesis by (rule Cons.IH [OF d(3) assms [OF d(1,2) Cons.prems(2)]])
  qed
qed simp

definition generic_message :: "jsonrpc_message \<Rightarrow> bool" where
  "generic_message m \<longleftrightarrow> generic (msg_ID m) \<and> generic (msg_Params m) \<and> generic (msg_Result m)"

lemma ParseMessage_generic:
  assumes "ParseMessage data = Some msg"
  shows "generic_message msg"
proof -
  have field: "generic_message a'" if "(n, d) \<in> set message_fields" "d j a = Some a'" "generic_message a"
    for n d j a a'
    using that
    by (auto simp: message_fields_def dec_string_def dec_iface_def dec_error_ptr_def generic_message_def
        split: json.splits if_splits dest!: to_iface_generic(1))
  have "generic_message zero_message" by (simp add: generic_message_def zero_message_def)
  moreover obtain j where "decode_struct message_fields zero_message j = Some msg"
    using assms by (auto simp: ParseMessage_def split: payload.splits)
  ultimately show ?thesis
    using decode_members_keeps [of message_fields generic_message] field
    by (fastforce simp: decode_struct_def split: json.splits)
qed

lemma generic_member: "generic (GMap m) \<Longrightarrow> map_of m k = Some v \<Longrightarrow> generic v"
  by (auto simp: list_all_iff dest!: map_of_SomeD)

end
