(* ===== verification/Struct_Validation.thy ===== *)
theory Struct_Validation
  imports Rpc_Types
begin

text \<open>
  \<open>shared/validation.go\<close>: tag driven validation of structs and the \<open>Validate\<close> methods of the
  message types. \<open>rval\<close> is the \<open>reflect.Value\<close> of a struct field as far as the code inspects it;
  a struct lists its fields with name, visibility and \<open>validate\<close> tag. Values are trees: a pointer
  cycle, on which the Go recursion need not end, is not a value of the model. An error list is
  empty where the code returns a nil error. The lemmas characterise when validation succeeds.
\<close>

named_theorems validation_simps "the checks of shared/validation.go"

section \<open>Values and errors\<close>

datatype rval =
    RvString string
  | RvPtr "rval option"
  | RvSlice "rval list"
  | RvStruct "rfield list"
  | RvOther gval
and rfield = RField (rf_Name: string) (rf_exported: bool) (rf_tag: string) (rf_value: rval)

record validation_error =
  ve_Field :: string
  ve_Message :: string
  ve_Value :: rval

text \<open>The error types a validation returns; \<open>OtherError\<close> is any error of a custom validator.\<close>

datatype verror = VError validation_error | VErrors "validation_error list" | OtherError string

definition ValidationError_Error :: "validation_error \<Rightarrow> string" where
  "ValidationError_Error e =
     ''validation error for field '' @ [CHR 0x27] @ ve_Field e @ [CHR 0x27] @ '': '' @ ve_Message e"

definition ValidationErrors_Error :: "validation_error list \<Rightarrow> string" where
  "ValidationErrors_Error es =
     (if es = [] then ''no validation errors'' else Join (map ValidationError_Error es) ''; '')"

definition mk_error :: "string \<Rightarrow> string \<Rightarrow> rval \<Rightarrow> validation_error" where
  "mk_error f m v = \<lparr>ve_Field = f, ve_Message = m, ve_Value = v\<rparr>"

section \<open>Field rules\<close>

definition validateRequired :: "rval \<Rightarrow> string \<Rightarrow> validation_error option" where
  "validateRequired field fieldName =
     (case field of
        RvPtr None \<Rightarrow> Some (mk_error fieldName ''field is required but is nil'' (RvOther GNil))
      | RvString s \<Rightarrow>
          (if s = [] then Some (mk_error fieldName ''field is required but is empty'' (RvString []))
           else None)
      | RvSlice vs \<Rightarrow>
          (if vs = [] then Some (mk_error fieldName ''field is required but is empty slice'' field)
           else None)
      | _ \<Rightarrow> None)"

definition validateMin :: "rval \<Rightarrow> string \<Rightarrow> string \<Rightarrow> validation_error option" where
  "validateMin field fieldName minStr = None"

definition validateMax :: "rval \<Rightarrow> string \<Rightarrow> string \<Rightarrow> validation_error option" where
  "validateMax field fieldName maxStr = None"

definition validateEmail :: "rval \<Rightarrow> string \<Rightarrow> validation_error option" where
  "validateEmail field fieldName =
     (case field of
        RvString email \<Rightarrow>
          (if email = [] then None
           else if \<not> Contains email ''@'' then
             Some (mk_error fieldName ''invalid email format'' (RvString email))
           else None)
      | _ \<Rightarrow> Some (mk_error fieldName ''email validation can only be applied to strings'' field))"

definition validateURL :: "rval \<Rightarrow> string \<Rightarrow> validation_error option" where
  "validateURL field fieldName =
     (case field of
        RvString url \<Rightarrow>
          (if url = [] then None
           else if \<not> HasPrefix url ''http://'' \<and> \<not> HasPrefix url ''https://'' then
             Some (mk_error fieldName ''invalid URL format'' (RvString url))
           else None)
      | _ \<Rightarrow> Some (mk_error fieldName ''url validation can only be applied to strings'' field))"

definition apply_rule :: "rval \<Rightarrow> string \<Rightarrow> string \<Rightarrow> validation_error option" where
  "apply_rule field fieldName rule =
     (if rule = [] then None
      else if rule = ''required'' then validateRequired field fieldName
      else if HasPrefix rule ''min='' then validateMin field fieldName (drop 4 rule)
      else if HasPrefix rule ''max='' then validateMax field fieldName (drop 4 rule)
      else if rule = ''email'' then validateEmail field fieldName
      else if rule = ''url'' then validateURL field fieldName
      else None)"

definition tag_rules :: "string \<Rightarrow> string list" where
  "tag_rules tag = map TrimSpace (Split tag CHR '','')"

definition validateField :: "rval \<Rightarrow> string \<Rightarrow> string \<Rightarrow> validation_error list" where
  "validateField field fieldName tag = List.map_filter (apply_rule field fieldName) (tag_rules tag)"

section \<open>Structs\<close>

fun validateStructFields :: "rfield list \<Rightarrow> string \<Rightarrow> validation_error list" where
  "validateStructFields [] prefix = []"
| "validateStructFields (RField name exported tag field # fs) prefix =
     (let fieldName = (if prefix \<noteq> [] then prefix @ ''.'' @ name else name)
      in if \<not> exported \<or> tag = [] then validateStructFields fs prefix
         else validateField field fieldName tag
              @ (case field of
                   RvStruct fs' \<Rightarrow> validateStructFields fs' fieldName
                 | RvPtr (Some (RvStruct fs')) \<Rightarrow> validateStructFields fs' fieldName
                 | _ \<Rightarrow> [])
              @ validateStructFields fs prefix)"

text \<open>
  \<open>ValidateStruct(v)\<close>: \<open>v\<close> is \<^term>\<open>None\<close> for a nil interface; \<open>custom\<close> is the method set of its
  dynamic type, \<^term>\<open>None\<close> when the type does not implement \<open>Validator\<close>.
\<close>

definition ValidateStruct :: "(rval \<Rightarrow> (verror option) option) \<Rightarrow> rval option \<Rightarrow> verror option" where
  "ValidateStruct custom v =
     (case v of
        None \<Rightarrow> Some (VError (mk_error ''root'' ''value cannot be nil'' (RvOther GNil)))
      | Some value \<Rightarrow>
          (case custom value of
             Some (Some err) \<Rightarrow> Some err
           | _ \<Rightarrow>
             (case value of
                RvPtr None \<Rightarrow> Some (VError (mk_error ''root'' ''pointer cannot be nil'' (RvOther GNil)))
              | _ \<Rightarrow>
                (case (case value of RvPtr (Some e) \<Rightarrow> e | _ \<Rightarrow> value) of
                   RvStruct fs \<Rightarrow>
                     (let errors = validateStructFields fs []
                      in if errors \<noteq> [] then Some (VErrors errors) else None)
                 | _ \<Rightarrow> Some (VError (mk_error ''root'' ''value must be a struct'' (RvOther GNil)))))))"

section \<open>Messages\<close>

definition check :: "bool \<Rightarrow> string \<Rightarrow> string \<Rightarrow> gval \<Rightarrow> validation_error list" where
  "check bad f m v = (if bad then [mk_error f m (RvOther v)] else [])"

definition Request_Validate :: "request \<Rightarrow> validation_error list" where
  "Request_Validate r =
     check (req_JSONRPC r \<noteq> ''2.0'') ''jsonrpc'' (''must be '' @ [CHR 0x27] @ ''2.0'' @ [CHR 0x27]) (GString (req_JSONRPC r))
     @ check (req_Method r = []) ''method'' ''method is required'' (GString (req_Method r))
     @ check (req_ID r = GNil) ''id'' ''id is required for requests'' (req_ID r)"

definition Notification_Validate :: "notification \<Rightarrow> validation_error list" where
  "Notification_Validate n =
     check (not_JSONRPC n \<noteq> ''2.0'') ''jsonrpc'' (''must be '' @ [CHR 0x27] @ ''2.0'' @ [CHR 0x27]) (GString (not_JSONRPC n))
     @ check (not_Method n = []) ''method'' ''method is required'' (GString (not_Method n))"

definition Response_Validate :: "response \<Rightarrow> validation_error list" where
  "Response_Validate r =
     check (resp_JSONRPC r \<noteq> ''2.0'') ''jsonrpc'' (''must be '' @ [CHR 0x27] @ ''2.0'' @ [CHR 0x27]) (GString (resp_JSONRPC r))
     @ check (resp_ID r = GNil) ''id'' ''id is required for responses'' (resp_ID r)
     @ check (resp_Result r \<noteq> GNil \<and> resp_Error r \<noteq> None) ''result/error''
         ''response cannot have both result and error'' GNil"

section \<open>What validation means\<close>

definition field_path :: "string \<Rightarrow> string \<Rightarrow> string" where
  "field_path prefix name = (if prefix \<noteq> [] then prefix @ ''.'' @ name else name)"

fun struct_below :: "rval \<Rightarrow> rfield list option" where
  "struct_below (RvStruct fs) = Some fs"
| "struct_below (RvPtr (Some (RvStruct fs))) = Some fs"
| "struct_below _ = None"

text \<open>
  The fields a validation reaches, with their dotted path: exported fields with a tag, and from
  such a field the fields of the struct in it or behind it.
\<close>

inductive checked :: "rfield list \<Rightarrow> string \<Rightarrow> string \<Rightarrow> rval \<Rightarrow> string \<Rightarrow> bool" where
  here: "RField name True tag v \<in> set fs \<Longrightarrow> tag \<noteq> [] \<Longrightarrow>
    checked fs prefix (field_path prefix name) v tag"
| below: "RField name True tag v \<in> set fs \<Longrightarrow> tag \<noteq> [] \<Longrightarrow> struct_below v = Some fs' \<Longrightarrow>
    checked fs' (field_path prefix name) path v' tag' \<Longrightarrow> checked fs prefix path v' tag'"

definition rule_holds :: "string \<Rightarrow> rval \<Rightarrow> bool" where
  "rule_holds rule v \<longleftrightarrow>
     (rule = ''required'' \<longrightarrow> v \<noteq> RvPtr None \<and> v \<noteq> RvString [] \<and> v \<noteq> RvSlice []) \<and>
     (rule = ''email'' \<longrightarrow> (\<exists>s. v = RvString s \<and> (s = [] \<or> CHR ''@'' \<in> set s))) \<and>
     (rule = ''url'' \<longrightarrow> (\<exists>s. v = RvString s \<and>
        (s = [] \<or> (\<exists>t. s = ''http://'' @ t) \<or> (\<exists>t. s = ''https://'' @ t))))"

section \<open>Lemmas\<close>

lemmas rule_defs [validation_simps] =
  apply_rule_def validateRequired_def validateMin_def validateMax_def validateEmail_def
  validateURL_def

lemma apply_rule_None: "apply_rule v path rule = None \<longleftrightarrow> rule_holds rule v"
  by (auto simp: validation_simps rule_holds_def HasPrefix_iff split: rval.splits option.splits)

lemma apply_rule_field: "apply_rule v path rule = Some e \<Longrightarrow> ve_Field e = path"
  by (auto simp: validation_simps mk_error_def split: rval.splits option.splits if_splits)

lemma set_validateField:
  "e \<in> set (validateField v path tag) \<longleftrightarrow>
     (\<exists>rule \<in> set (tag_rules tag). apply_rule v path rule = Some e)"
  by (force simp: validateField_def map_filter_def)

inductive_cases checked_NilE: "checked [] prefix path v tag"

lemma checked_mono:
  "checked fs prefix path v tag \<Longrightarrow> set fs \<subseteq> set fs' \<Longrightarrow> checked fs' prefix path v tag"
  by (erule checked.cases) (auto intro: checked.intros)

lemma checked_Cons:
  "checked (RField name ex tag0 v0 # fs) prefix path v tag \<longleftrightarrow>
     checked fs prefix path v tag \<or>
     ex \<and> tag0 \<noteq> [] \<and>
       (path = field_path prefix name \<and> v = v0 \<and> tag = tag0 \<or>
        (\<exists>fs'. struct_below v0 = Some fs' \<and> checked fs' (field_path prefix name) path v tag))"
proof
  assume "checked (RField name ex tag0 v0 # fs) prefix path v tag"
  then show "checked fs prefix path v tag \<or>
     ex \<and> tag0 \<noteq> [] \<and>
       (path = field_path prefix name \<and> v = v0 \<and> tag = tag0 \<or>
        (\<exists>fs'. struct_below v0 = Some fs' \<and> checked fs' (field_path prefix name) path v tag))"
    by cases (auto intro: checked.intros)
next
  assume "checked fs prefix path v tag \<or>
     ex \<and> tag0 \<noteq> [] \<and>
       (path = field_path prefix name \<and> v = v0 \<and> tag = tag0 \<or>
        (\<exists>fs'. struct_below v0 = Some fs' \<and> checked fs' (field_path prefix name) path v tag))"
  then show "checked (RField name ex tag0 v0 # fs) prefix path v tag"
    by (elim disjE exE conjE)
      (auto intro: checked_mono checked.here checked.below [of name tag0 v0])
qed

lemma struct_below_case:
  "(case v of RvStruct fs \<Rightarrow> f fs | RvPtr (Some (RvStruct fs)) \<Rightarrow> f fs | _ \<Rightarrow> d)
   = (case struct_below v of None \<Rightarrow> d | Some fs \<Rightarrow> f fs)"
  by (cases v rule: struct_below.cases) auto

lemma struct_below_Some:
  "struct_below v = Some fs \<longleftrightarrow> v = RvStruct fs \<or> v = RvPtr (Some (RvStruct fs))"
  by (cases v rule: struct_below.cases) auto

text \<open>The errors reported are those of the rules of the fields reached.\<close>

lemma set_validateStructFields:
  "e \<in> set (validateStructFields fs prefix) \<longleftrightarrow>
     (\<exists>path v tag. checked fs prefix path v tag \<and> e \<in> set (validateField v path tag))"
proof (induction fs prefix rule: validateStructFields.induct)
  case (1 prefix)
  then show ?case by (auto elim: checked_NilE)
next
  case (2 name exported tag field fs prefix)
  define path where "path = field_path prefix name"
  have path: "path = (if prefix \<noteq> [] then prefix @ ''.'' @ name else name)"
    by (simp add: path_def field_path_def)
  show ?case
  proof (cases "\<not> exported \<or> tag = []")
    case True
    then show ?thesis
      using "2.IH"(1) [OF path True] by (auto simp: checked_Cons)
  next
    case False
    have ih: "e \<in> set (validateStructFields fs' path) \<longleftrightarrow>
        (\<exists>p v t. checked fs' path p v t \<and> e \<in> set (validateField v p t))"
      if "struct_below field = Some fs'" for fs'
      using that "2.IH"(2) [OF path False _ refl refl] "2.IH"(3) [OF path False]
      unfolding struct_below_Some by (elim disjE) blast+
    then have nested: "e \<in> set (case struct_below field of None \<Rightarrow> []
                   | Some fs' \<Rightarrow> validateStructFields fs' path)
       \<longleftrightarrow> (\<exists>fs' p v t. struct_below field = Some fs' \<and> checked fs' path p v t
            \<and> e \<in> set (validateField v p t))"
      by (cases "struct_below field") auto
    have rest: "e \<in> set (validateStructFields fs prefix) \<longleftrightarrow>
        (\<exists>p v t. checked fs prefix p v t \<and> e \<in> set (validateField v p t))"
      using "2.IH"(4) [OF path False] .
    have step: "validateStructFields (RField name exported tag field # fs) prefix =
        validateField field path tag
              @ (case struct_below field of None \<Rightarrow> [] | Some fs' \<Rightarrow> validateStructFields fs' path)
              @ validateStructFields fs prefix"
      using False by (simp add: path [symmetric] Let_def struct_below_case)
    show ?thesis
      unfolding step set_append Un_iff nested rest checked_Cons path_def [symmetric]
      using False by blast
  qed
qed

lemma validateStructFields_Nil_iff:
  "validateStructFields fs prefix = [] \<longleftrightarrow>
     (\<forall>path v tag. checked fs prefix path v tag \<longrightarrow>
        (\<forall>rule \<in> set (tag_rules tag). rule_holds rule v))"
proof -
  have "validateStructFields fs prefix = [] \<longleftrightarrow> (\<forall>e. e \<notin> set (validateStructFields fs prefix))"
    by auto
  also have "\<dots> \<longleftrightarrow> (\<forall>path v tag. checked fs prefix path v tag \<longrightarrow>
        (\<forall>rule \<in> set (tag_rules tag). apply_rule v path rule = None))"
    unfolding set_validateStructFields set_validateField by (metis option.distinct(1) option.exhaust)
  finally show ?thesis by (simp add: apply_rule_None)
qed

section \<open>Properties\<close>


definition sample_fields :: "rfield list" where
  "sample_fields =
     [RField ''Name'' True ''required'' (RvString ''a''),
      RField ''Contact'' True ''required'' (RvStruct [RField ''Mail'' True ''required, email'' (RvString ''a@b'')])]"


text \<open>A nested struct is validated only when its field has a \<open>validate\<close> tag: an exported field
  without tag hides all rules of the struct below it.\<close>

lemma untagged_struct_skipped:
  "validateStructFields (RField name exported [] (RvStruct fs') # fs) prefix
     = validateStructFields fs prefix"
  by simp

text \<open>A request that its \<open>Validate\<close> accepts, with JSON values as id and parameters, is sent as a
  text that the other side parses into a message it classifies as a request, and only as a
  request, and converts to the same request.\<close>

theorem valid_request_roundtrip:
  assumes "Request_Validate r = []" and "generic (req_ID r)" and "generic (req_Params r)"
  shows "\<exists>data msg. to_payload (request_gval r) = Some data \<and> ParseMessage data = Some msg \<and>
    ToRequest msg = Some r \<and> ToNotification msg = None \<and> ToResponse msg = None"
proof -
  have r: "req_Method r \<noteq> []" "req_ID r \<noteq> GNil"
    using assms(1) by (auto simp: Request_Validate_def check_def split: if_splits)
  obtain j where "marshal (request_gval r) = Some j"
    "ParseMessage (Text j) = Some \<lparr>msg_JSONRPC = req_JSONRPC r, msg_ID = req_ID r,
      msg_Method = req_Method r, msg_Params = req_Params r, msg_Result = GNil, msg_Error = None\<rparr>"
    using request_wire [of r "req_ID r" "req_Params r"] assms(2,3) by auto
  then show ?thesis
    using r by (auto simp: to_payload_def ToRequest_def ToNotification_def ToResponse_def rpc_simps)
qed

theorem valid_request_roundtrip_witness:
  "\<exists>data msg. to_payload (request_gval \<lparr>req_JSONRPC = ''2.0'', req_ID = GString ''a'',
      req_Method = ''ping'', req_Params = GMap [(''k'', GBool True)]\<rparr>) = Some data \<and>
    ParseMessage data = Some msg \<and>
    ToRequest msg = Some \<lparr>req_JSONRPC = ''2.0'', req_ID = GString ''a'', req_Method = ''ping'',
      req_Params = GMap [(''k'', GBool True)]\<rparr> \<and>
    ToNotification msg = None \<and> ToResponse msg = None"
  by (rule valid_request_roundtrip)
    (simp_all add: Request_Validate_def check_def sorted_map_def)



end
