(* ===== verification/Uri_Template.thy ===== *)
theory Uri_Template
  imports Go_Values
begin

text \<open>
  \<open>shared/uri_template.go\<close>, parsing and expansion: \<open>NewUriTemplate\<close>, \<open>VariableNames\<close>, \<open>Expand\<close>
  and their helpers; the byte index of the parse loop is the rest of the template still to read.
  \<open>url.QueryEscape\<close> is written out. The lemmas relate a template to the segments it is made of,
  and describe the text an expansion produces. Matching is in theory \<open>Uri_Match\<close>.
\<close>

named_theorems uri_simps "definitions of URI template expansion"

section \<open>Templates\<close>

definition MaxTemplateLength :: nat where "MaxTemplateLength = 1000000"

definition MaxVariableLength :: nat where "MaxVariableLength = 1000000"

definition MaxTemplateExpressions :: nat where "MaxTemplateExpressions = 10000"

definition MaxRegexLength :: nat where "MaxRegexLength = 1000000"

record expression_part =
  ep_name :: string
  ep_operator :: string
  ep_names :: "string list"
  ep_exploded :: bool

datatype template_part = LiteralPart string | ExpressionPart expression_part

record uri_template =
  ut_template :: string
  ut_parts :: "template_part list"

type_synonym variables = "string \<rightharpoonup> gval"

text \<open>The class \<open>[^}\s]\<close> of the regular expression \<open>\{[^}\s]+\}\<close>.\<close>

definition expr_char :: "char \<Rightarrow> bool" where
  "expr_char c \<longleftrightarrow> c \<notin> {CHR ''}'', CHR 0x09, CHR 0x0A, CHR 0x0C, CHR 0x0D, CHR 0x20}"

fun IsTemplate :: "string \<Rightarrow> bool" where
  "IsTemplate [] = False"
| "IsTemplate (c # cs) =
     (c = CHR ''{'' \<and> takeWhile expr_char cs \<noteq> [] \<and> HasPrefix (dropWhile expr_char cs) ''}''
      \<or> IsTemplate cs)"

definition validateLength :: "string \<Rightarrow> nat \<Rightarrow> string \<Rightarrow> string option" where
  "validateLength str mx ctxt =
     (if length str > mx then
        Some (ctxt @ '' exceeds maximum length of '' @ fmt_d (int mx) @ '' characters (got ''
              @ fmt_d (int (length str)) @ '')'')
      else None)"

subsection \<open>Parsing\<close>

definition getOperator :: "string \<Rightarrow> string" where
  "getOperator expr =
     (case find (\<lambda>op. HasPrefix expr op) [''+'', ''#'', ''.'', ''/'', ''?'', ''&''] of
        Some op \<Rightarrow> op | None \<Rightarrow> [])"

definition getNames :: "string \<Rightarrow> string list" where
  "getNames expr =
     filter (\<lambda>name. name \<noteq> [])
       (map (\<lambda>name. TrimSpace (DeleteByte CHR ''*'' name))
          (Split (TrimPrefix expr (getOperator expr)) CHR '',''))"

definition expression_of :: "string \<Rightarrow> expression_part" where
  "expression_of expr =
     (let names = getNames expr
      in \<lparr>ep_name = (case names of [] \<Rightarrow> [] | n # _ \<Rightarrow> n), ep_operator = getOperator expr,
          ep_names = names, ep_exploded = Contains expr ''*''\<rparr>)"

definition flush :: "string \<Rightarrow> template_part list" where
  "flush lit = (if lit \<noteq> [] then [LiteralPart lit] else [])"

function parse_loop ::
  "string \<Rightarrow> string \<Rightarrow> template_part list \<Rightarrow> nat \<Rightarrow> template_part list outcome" where
  "parse_loop [] lit parts count = Ok (parts @ flush lit)"
| "parse_loop (c # cs) lit parts count =
     (if c = CHR ''{'' then
        (case Index (c # cs) ''}'' of
           None \<Rightarrow> Err ''unclosed template expression''
         | Some e \<Rightarrow>
             if count + 1 > MaxTemplateExpressions then
               Err (''template contains too many expressions (max ''
                    @ fmt_d (int MaxTemplateExpressions) @ '')'')
             else
               (let expr = take (e - 1) cs
                in case List.map_filter
                          (\<lambda>n. validateLength n MaxVariableLength ''Variable name'') (getNames expr) of
                     err # _ \<Rightarrow> Err err
                   | [] \<Rightarrow> parse_loop (drop e cs) []
                             (parts @ flush lit @ [ExpressionPart (expression_of expr)]) (count + 1)))
      else parse_loop cs (lit @ [c]) parts count)"
  by pat_completeness auto
termination
  by (relation "measure (\<lambda>(s, _, _, _). length s)") auto

definition parse :: "string \<Rightarrow> template_part list outcome" where
  "parse template = parse_loop template [] [] 0"

definition NewUriTemplate :: "string \<Rightarrow> uri_template outcome" where
  "NewUriTemplate template =
     (case validateLength template MaxTemplateLength ''Template'' of
        Some err \<Rightarrow> Err err
      | None \<Rightarrow>
          (case parse template of
             Ok parts \<Rightarrow> Ok \<lparr>ut_template = template, ut_parts = parts\<rparr>
           | Err err \<Rightarrow> Err err
           | Panic msg \<Rightarrow> Panic msg))"

definition UriTemplate_String :: "uri_template \<Rightarrow> string" where
  "UriTemplate_String ut = ut_template ut"

definition VariableNames :: "uri_template \<Rightarrow> string list" where
  "VariableNames ut =
     concat (map (\<lambda>p. case p of LiteralPart _ \<Rightarrow> [] | ExpressionPart e \<Rightarrow> ep_names e) (ut_parts ut))"

subsection \<open>Expansion\<close>

definition unreserved :: "char \<Rightarrow> bool" where
  "unreserved c \<longleftrightarrow>
     (CHR ''a'' \<le> c \<and> c \<le> CHR ''z'') \<or> (CHR ''A'' \<le> c \<and> c \<le> CHR ''Z'') \<or>
     (CHR ''0'' \<le> c \<and> c \<le> CHR ''9'') \<or> c \<in> set ''-_.~''"

definition upperhex :: "nat \<Rightarrow> char" where
  "upperhex n = ''0123456789ABCDEF'' ! n"

definition escape_byte :: "char \<Rightarrow> string" where
  "escape_byte c =
     (if unreserved c then [c]
      else if c = CHR '' '' then ''+''
      else [CHR ''%'', upperhex (of_char c div 16), upperhex (of_char c mod 16)])"

definition QueryEscape :: "string \<Rightarrow> string" where
  "QueryEscape s = concat (map escape_byte s)"

definition encodeValue :: "string \<Rightarrow> string \<Rightarrow> string outcome" where
  "encodeValue value operator =
     (case validateLength value MaxVariableLength ''Variable value'' of
        Some err \<Rightarrow> Err err
      | None \<Rightarrow>
          (if operator = ''+'' \<or> operator = ''#'' then Ok (QueryEscape value)
           else Ok (QueryEscape value)))"

fun encode_all :: "string list \<Rightarrow> string \<Rightarrow> string list outcome" where
  "encode_all [] operator = Ok []"
| "encode_all (v # vs) operator =
     (case encodeValue v operator of
        Ok enc \<Rightarrow> (case encode_all vs operator of
                     Ok encs \<Rightarrow> Ok (enc # encs) | Err e \<Rightarrow> Err e | Panic p \<Rightarrow> Panic p)
      | Err e \<Rightarrow> Err e
      | Panic p \<Rightarrow> Panic p)"

text \<open>The strings a variable stands for: a \<open>[]string\<close> its elements, anything else its \<open>%v\<close> lit.\<close>

definition value_strings :: "(gval \<Rightarrow> string) \<Rightarrow> gval \<Rightarrow> string list" where
  "value_strings other v = (case v of GStrs vs \<Rightarrow> vs | _ \<Rightarrow> [fmt_v other v])"

fun query_pairs ::
  "(gval \<Rightarrow> string) \<Rightarrow> string list \<Rightarrow> string \<Rightarrow> variables \<Rightarrow> string list outcome" where
  "query_pairs other [] operator vars = Ok []"
| "query_pairs other (name # names) operator vars =
     (case vars name of
        None \<Rightarrow> query_pairs other names operator vars
      | Some value \<Rightarrow>
          (case encode_all (value_strings other value) operator of
             Ok encs \<Rightarrow>
               (case query_pairs other names operator vars of
                  Ok pairs \<Rightarrow> Ok ((name @ ''='' @ Join encs '','') # pairs)
                | Err e \<Rightarrow> Err e
                | Panic p \<Rightarrow> Panic p)
           | Err e \<Rightarrow> Err e
           | Panic p \<Rightarrow> Panic p))"

definition apply_operator :: "string \<Rightarrow> string list \<Rightarrow> string" where
  "apply_operator operator values =
     (if operator = [] then Join values '',''
      else if operator = ''+'' then Join values '',''
      else if operator = ''#'' then ''#'' @ Join values '',''
      else if operator = ''.'' then ''.'' @ Join values ''.''
      else if operator = ''/'' then ''/'' @ Join values ''/''
      else Join values '','')"

text \<open>The value of one of several names: only the first element of a non-empty \<open>[]string\<close>.\<close>

definition first_string :: "(gval \<Rightarrow> string) \<Rightarrow> gval \<Rightarrow> string" where
  "first_string other v = (case v of GStrs (x # _) \<Rightarrow> x | _ \<Rightarrow> fmt_v other v)"

definition expandPart ::
  "(gval \<Rightarrow> string) \<Rightarrow> expression_part \<Rightarrow> variables \<Rightarrow> string outcome" where
  "expandPart other part vars =
     (if ep_operator part = ''?'' \<or> ep_operator part = ''&'' then
        (case query_pairs other (ep_names part) (ep_operator part) vars of
           Ok pairs \<Rightarrow>
             if pairs = [] then Ok []
             else Ok ((if ep_operator part = ''&'' then ''&'' else ''?'') @ Join pairs ''&'')
         | Err e \<Rightarrow> Err e
         | Panic p \<Rightarrow> Panic p)
      else if length (ep_names part) > 1 then
        (let values = map (first_string other) (List.map_filter vars (ep_names part))
         in if values = [] then Ok [] else Ok (apply_operator (ep_operator part) values))
      else
        (case vars (ep_name part) of
           None \<Rightarrow> Ok []
         | Some value \<Rightarrow>
             (case encode_all (value_strings other value) (ep_operator part) of
                Ok encs \<Rightarrow> Ok (apply_operator (ep_operator part) encs)
              | Err e \<Rightarrow> Err e
              | Panic p \<Rightarrow> Panic p)))"

fun expand_loop ::
  "(gval \<Rightarrow> string) \<Rightarrow> template_part list \<Rightarrow> variables \<Rightarrow> string \<Rightarrow> bool \<Rightarrow> string outcome" where
  "expand_loop other [] vars result hasQueryParam = Ok result"
| "expand_loop other (LiteralPart p # parts) vars result hasQueryParam =
     expand_loop other parts vars (result @ p) hasQueryParam"
| "expand_loop other (ExpressionPart p # parts) vars result hasQueryParam =
     (case expandPart other p vars of
        Ok expanded \<Rightarrow>
          if expanded = [] then expand_loop other parts vars result hasQueryParam
          else
            (let query = (ep_operator p = ''?'' \<or> ep_operator p = ''&'');
                 expanded' = (if query \<and> hasQueryParam then ReplaceFirst expanded ''?'' ''&''
                              else expanded)
             in expand_loop other parts vars (result @ expanded') (hasQueryParam \<or> query))
      | Err e \<Rightarrow> Err e
      | Panic p \<Rightarrow> Panic p)"

definition Expand :: "(gval \<Rightarrow> string) \<Rightarrow> uri_template \<Rightarrow> variables \<Rightarrow> string outcome" where
  "Expand other ut vars = expand_loop other (ut_parts ut) vars [] False"

section \<open>Segments of a template\<close>

text \<open>
  The grammar of templates: literal text without an opening brace, and expressions between
  braces without a closing brace. Two literals are never neighbours.
\<close>

datatype segment = SLit string | SExpr string

fun show_segment :: "segment \<Rightarrow> string" where
  "show_segment (SLit s) = s"
| "show_segment (SExpr e) = ''{'' @ e @ ''}''"

fun part_of :: "segment \<Rightarrow> template_part" where
  "part_of (SLit s) = LiteralPart s"
| "part_of (SExpr e) = ExpressionPart (expression_of e)"

definition show_segments :: "segment list \<Rightarrow> string" where
  "show_segments segs = concat (map show_segment segs)"

fun wf_segments :: "segment list \<Rightarrow> bool" where
  "wf_segments [] = True"
| "wf_segments (SLit s # segs) =
     (s \<noteq> [] \<and> CHR ''{'' \<notin> set s \<and> (\<forall>t r. segs \<noteq> SLit t # r) \<and> wf_segments segs)"
| "wf_segments (SExpr e # segs) = (CHR ''}'' \<notin> set e \<and> wf_segments segs)"

definition expr_count :: "segment list \<Rightarrow> nat" where
  "expr_count segs = length (filter (\<lambda>s. case s of SLit _ \<Rightarrow> False | SExpr _ \<Rightarrow> True) segs)"

section \<open>Lemmas on parsing\<close>

lemma length_strip_front: "length (strip_front rs s) \<le> length s"
proof (induction rs s rule: strip_front.induct)
  case (1 rs s)
  show ?case
    using 1 by (subst strip_front.simps) (auto split: option.splits intro: order_trans)
qed

lemma length_TrimSpace: "length (TrimSpace s) \<le> length s"
  using length_strip_front [of "map rev space_runes" "rev (strip_front space_runes s)"]
    length_strip_front [of space_runes s]
  by (simp add: TrimSpace_def)

lemma length_Split: "x \<in> set (Split s c) \<Longrightarrow> length x \<le> length s"
proof (induction s arbitrary: x)
  case (Cons a s)
  then show ?case by (fastforce split: if_splits list.splits intro: le_SucI)
qed simp

lemma length_TrimPrefix: "length (TrimPrefix s p) \<le> length s"
  by (simp add: TrimPrefix_def)

lemma getNames_short:
  assumes "n \<in> set (getNames expr)"
  shows "length n \<le> length expr"
proof -
  obtain x where x: "x \<in> set (Split (TrimPrefix expr (getOperator expr)) CHR '','')"
    and n: "n = TrimSpace (DeleteByte CHR ''*'' x)"
    using assms by (auto simp: getNames_def)
  have "length n \<le> length (DeleteByte CHR ''*'' x)" unfolding n by (rule length_TrimSpace)
  also have "\<dots> \<le> length x" by (simp add: DeleteByte_def)
  also have "\<dots> \<le> length (TrimPrefix expr (getOperator expr))" using x by (rule length_Split)
  also have "\<dots> \<le> length expr" by (rule length_TrimPrefix)
  finally show ?thesis .
qed

lemma no_name_too_long:
  assumes "length expr \<le> MaxVariableLength"
  shows "List.map_filter (\<lambda>n. validateLength n MaxVariableLength ctxt) (getNames expr) = []"
  using getNames_short [of _ expr] assms
  by (fastforce simp: map_filter_def validateLength_def filter_empty_conv)

lemma parse_loop_literal:
  "CHR ''{'' \<notin> set l \<Longrightarrow> parse_loop (l @ s) lit parts count = parse_loop s (lit @ l) parts count"
  by (induction l arbitrary: lit) auto

lemma parse_loop_expr:
  assumes "CHR ''}'' \<notin> set e" and "length e \<le> MaxVariableLength" and "count < MaxTemplateExpressions"
  shows "parse_loop (''{'' @ e @ ''}'' @ s) lit parts count =
    parse_loop s [] (parts @ flush lit @ [ExpressionPart (expression_of e)]) (count + 1)"
proof -
  have "Index (CHR ''{'' # e @ CHR ''}'' # s) ''}'' = Some (Suc (length e))"
    using Index_byte_Some [of "CHR ''}''" "CHR ''{'' # e" s] assms(1) by simp
  then show ?thesis
    using assms by (simp add: no_name_too_long Let_def)
qed

lemma parse_loop_segments:
  assumes "wf_segments segs" and "lit \<noteq> [] \<Longrightarrow> (\<forall>t r. segs \<noteq> SLit t # r)"
    and "count + expr_count segs \<le> MaxTemplateExpressions"
    and "length (show_segments segs) \<le> MaxVariableLength"
  shows "parse_loop (show_segments segs) lit parts count = Ok (parts @ flush lit @ map part_of segs)"
  using assms
proof (induction segs arbitrary: lit parts count)
  case Nil
  then show ?case by (simp add: show_segments_def)
next
  case (Cons seg segs)
  show ?case
  proof (cases seg)
    case (SLit l)
    have "lit = []" using Cons.prems(2) SLit by auto
    then have "parse_loop (show_segments (seg # segs)) lit parts count =
        parse_loop (show_segments segs) l parts count"
      using Cons.prems(1) SLit by (simp add: show_segments_def parse_loop_literal)
    also have "\<dots> = Ok (parts @ flush l @ map part_of segs)"
      using Cons.prems SLit
      by (intro Cons.IH) (auto simp: expr_count_def show_segments_def)
    finally show ?thesis
      using Cons.prems(1) SLit \<open>lit = []\<close> by (simp add: flush_def)
  next
    case (SExpr e)
    have "parse_loop (show_segments (seg # segs)) lit parts count =
        parse_loop (show_segments segs) [] (parts @ flush lit @ [ExpressionPart (expression_of e)])
          (count + 1)"
      using parse_loop_expr [of e count "show_segments segs" lit parts] Cons.prems SExpr
      by (simp add: show_segments_def expr_count_def)
    also have "\<dots> = Ok ((parts @ flush lit @ [ExpressionPart (expression_of e)]) @ flush []
        @ map part_of segs)"
      using Cons.prems SExpr
      by (intro Cons.IH) (auto simp: expr_count_def show_segments_def)
    finally show ?thesis using SExpr by (simp add: flush_def)
  qed
qed

lemma parse_loop_Ok:
  assumes "parse_loop s lit parts count = Ok ps" and "CHR ''{'' \<notin> set lit"
  shows "\<exists>segs. wf_segments segs \<and> lit @ s = show_segments segs \<and>
    ps = parts @ map part_of segs \<and> (expr_count segs = 0 \<or> count + expr_count segs \<le> MaxTemplateExpressions)"
  using assms
proof (induction s lit parts count rule: parse_loop.induct)
  case (1 lit parts count)
  then show ?case
    by (intro exI [of _ "if lit = [] then [] else [SLit lit]"])
      (auto simp: show_segments_def flush_def expr_count_def)
next
  case (2 c cs lit parts count)
  show ?case
  proof (cases "c = CHR ''{''")
    case False
    then show ?thesis using "2.IH"(2) "2.prems" by simp
  next
    case True
    from "2.prems"(1) True obtain e where e: "Index (c # cs) ''}'' = Some e"
      and few: "count + 1 \<le> MaxTemplateExpressions"
      by (auto split: option.splits if_splits)
    define ex where "ex = take (e - 1) cs"
    from "2.prems"(1) True e few
    have names: "List.map_filter (\<lambda>n. validateLength n MaxVariableLength ''Variable name'') (getNames ex) = []"
      and rec: "parse_loop (drop e cs) [] (parts @ flush lit @ [ExpressionPart (expression_of ex)])
        (count + 1) = Ok ps"
      by (auto simp: ex_def Let_def split: list.splits if_splits)
    have "\<exists>segs. wf_segments segs \<and> [] @ drop e cs = show_segments segs \<and>
        ps = (parts @ flush lit @ [ExpressionPart (expression_of ex)]) @ map part_of segs \<and>
        (expr_count segs = 0 \<or> count + 1 + expr_count segs \<le> MaxTemplateExpressions)"
      using True e few names rec
      by (intro "2.IH"(1)) (auto simp: ex_def)
    then obtain segs where segs: "wf_segments segs" "drop e cs = show_segments segs"
      "ps = (parts @ flush lit @ [ExpressionPart (expression_of ex)]) @ map part_of segs"
      "expr_count segs = 0 \<or> count + 1 + expr_count segs \<le> MaxTemplateExpressions"
      by auto
    obtain rest where cs: "cs = ex @ CHR ''}'' # rest" and ex: "CHR ''}'' \<notin> set ex"
      and rest: "drop e cs = rest"
    proof -
      have "CHR ''}'' \<in> set cs"
        using e True Index_byte_None [of "c # cs" "CHR ''}''"] by auto
      then obtain p q where pq: "cs = p @ CHR ''}'' # q" "CHR ''}'' \<notin> set p"
        by (metis split_list_first)
      then have "e = Suc (length p)"
        using e True Index_byte_Some [of "CHR ''}''" "c # p" q] by simp
      then show thesis using pq by (intro that [of q]) (auto simp: ex_def)
    qed
    show ?thesis
      using segs cs ex rest True "2.prems"(2) few
      by (intro exI [of _ "(if lit = [] then [] else [SLit lit]) @ SExpr ex # segs"])
        (auto simp: show_segments_def flush_def expr_count_def)
  qed
qed

section \<open>Lemmas on encoding\<close>

fun hex_value :: "char \<Rightarrow> nat" where
  "hex_value c = (if c \<le> CHR ''9'' then of_char c - 48 else of_char c - 55)"

fun QueryUnescape :: "string \<Rightarrow> string" where
  "QueryUnescape [] = []"
| "QueryUnescape (c # cs) =
     (if c = CHR ''+'' then CHR '' '' # QueryUnescape cs
      else if c = CHR ''%'' then
        (case cs of h # l # cs' \<Rightarrow> char_of (16 * hex_value h + hex_value l) # QueryUnescape cs' | _ \<Rightarrow> [])
      else c # QueryUnescape cs)"

lemma hex_digits:
  "list_all (\<lambda>n. hex_value (upperhex n) = n \<and> unreserved (upperhex n)) [0..<16]"
  by code_simp

lemma hex_value_upperhex: "n < 16 \<Longrightarrow> hex_value (upperhex n) = n"
  and unreserved_upperhex: "n < 16 \<Longrightarrow> unreserved (upperhex n)"
  using hex_digits by (auto simp: list_all_iff)

lemma reserved_bytes: "list_all (\<lambda>c. \<not> unreserved c) ''+% ?&=,/#{}''"
  by code_simp

lemma not_unreserved [simp]: "\<not> unreserved CHR ''+''" "\<not> unreserved CHR ''%''"
  using reserved_bytes by simp_all

lemma of_char_div_16: "of_char c div 16 < (16::nat)"
  using nat_of_char_less_256 [of c] by (simp add: less_mult_imp_div_less)

lemma QueryUnescape_escape_byte: "QueryUnescape (escape_byte c @ s) = c # QueryUnescape s"
proof -
  have "16 * (of_char c div 16) + of_char c mod 16 = (of_char c :: nat)" by simp
  then have c: "char_of (16 * hex_value (upperhex (of_char c div 16))
      + hex_value (upperhex (of_char c mod 16))) = c"
    using of_char_div_16 [of c] by (simp add: hex_value_upperhex del: hex_value.simps)
  show ?thesis
  proof (cases "unreserved c")
    case True
    then have "c \<noteq> CHR ''+''" "c \<noteq> CHR ''%''" using not_unreserved by blast+
    then show ?thesis using True by (simp add: escape_byte_def)
  next
    case False
    then show ?thesis using c by (simp add: escape_byte_def del: hex_value.simps)
  qed
qed

lemma QueryUnescape_QueryEscape: "QueryUnescape (QueryEscape s) = s"
proof (induction s)
  case (Cons c s)
  then show ?case
    using QueryUnescape_escape_byte [of c "QueryEscape s"] by (simp add: QueryEscape_def)
qed (simp add: QueryEscape_def)

lemma escape_byte_safe:
  assumes "d \<in> set (escape_byte c)"
  shows "unreserved d \<or> d = CHR ''+'' \<or> d = CHR ''%''"
proof (cases "unreserved c")
  case False
  have "unreserved (upperhex (of_char c div 16))" "unreserved (upperhex (of_char c mod 16))"
    using of_char_div_16 [of c] by (simp_all add: unreserved_upperhex)
  with False assms show ?thesis by (auto simp: escape_byte_def split: if_splits)
qed (use assms in \<open>simp add: escape_byte_def\<close>)

lemma QueryEscape_safe:
  "c \<in> set (QueryEscape s) \<Longrightarrow> unreserved c \<or> c = CHR ''+'' \<or> c = CHR ''%''"
  by (auto simp: QueryEscape_def dest: escape_byte_safe)

lemma QueryEscape_excludes:
  assumes "c \<in> set '' ?&=,/#{}''"
  shows "c \<notin> set (QueryEscape s)"
proof -
  have "list_all (\<lambda>c. \<not> (unreserved c \<or> c = CHR ''+'' \<or> c = CHR ''%'')) '' ?&=,/#{}''"
    by code_simp
  with assms have "\<not> (unreserved c \<or> c = CHR ''+'' \<or> c = CHR ''%'')"
    unfolding list_all_iff by blast
  then show ?thesis using QueryEscape_safe by blast
qed

lemma escape_byte_not_Nil [simp]: "escape_byte c \<noteq> []"
  by (simp add: escape_byte_def)

lemma QueryEscape_eq_Nil [simp]: "QueryEscape s = [] \<longleftrightarrow> s = []"
  by (cases s) (simp_all add: QueryEscape_def)

lemma encodeValue_Ok:
  "encodeValue v operator = Ok enc \<longleftrightarrow> length v \<le> MaxVariableLength \<and> enc = QueryEscape v"
  by (auto simp: encodeValue_def validateLength_def)

lemma encodeValue_not_Panic [simp]: "encodeValue v operator \<noteq> Panic p"
  by (auto simp: encodeValue_def validateLength_def)

lemma encode_all_Ok:
  "encode_all vs operator = Ok encs \<longleftrightarrow>
     (\<forall>v \<in> set vs. length v \<le> MaxVariableLength) \<and> encs = map QueryEscape vs"
proof (induction vs arbitrary: encs)
  case (Cons v vs)
  show ?case
  proof (cases "length v \<le> MaxVariableLength")
    case True
    then have "encodeValue v operator = Ok (QueryEscape v)" by (simp add: encodeValue_Ok)
    with True Cons.IH show ?thesis
      by (cases "encode_all vs operator") auto
  next
    case False
    then show ?thesis
      by (cases "encodeValue v operator") (auto simp: encodeValue_Ok)
  qed
qed auto

section \<open>Lemmas on expansion\<close>

lemma count_list_Join:
  "c \<notin> set sep \<Longrightarrow> count_list (Join xs sep) c = sum_list (map (\<lambda>x. count_list x c) xs)"
  by (induction xs sep rule: Join.induct) (auto simp: count_list_0_iff)

lemma set_Join: "set (Join xs sep) \<subseteq> \<Union> (set ` set xs) \<union> set sep"
  by (induction xs sep rule: Join.induct) auto

lemma query_pairs_no_mark:
  assumes "query_pairs other names operator vars = Ok pairs"
    and "\<forall>n \<in> set names. CHR ''?'' \<notin> set n"
  shows "\<forall>p \<in> set pairs. CHR ''?'' \<notin> set p"
  using assms
proof (induction names arbitrary: pairs)
  case (Cons n names)
  show ?case
  proof (cases "vars n")
    case None
    then show ?thesis using Cons by simp
  next
    case (Some v)
    then obtain encs ps where encs: "encode_all (value_strings other v) operator = Ok encs"
      and ps: "query_pairs other names operator vars = Ok ps"
      and pairs: "pairs = (n @ ''='' @ Join encs '','') # ps"
      using Cons.prems(1) by (auto split: outcome.splits)
    have "CHR ''?'' \<notin> set (Join encs '','')"
      using encs set_Join [of encs "'',''"] QueryEscape_excludes [of "CHR ''?''"]
      by (auto simp: encode_all_Ok)
    then show ?thesis
      using Cons.IH [OF ps] Cons.prems(2) pairs by simp
  qed
qed simp

text \<open>A template whose literals and names have no question mark, and no unencoded expansion.\<close>

fun mark_free :: "template_part \<Rightarrow> bool" where
  "mark_free (LiteralPart l) = (CHR ''?'' \<notin> set l)"
| "mark_free (ExpressionPart p) =
     ((\<forall>n \<in> set (ep_names p). CHR ''?'' \<notin> set n) \<and>
      (ep_operator p = ''?'' \<or> ep_operator p = ''&'' \<or> length (ep_names p) \<le> 1))"

lemma apply_operator_no_mark:
  assumes "\<forall>v \<in> set vs. CHR ''?'' \<notin> set v"
  shows "CHR ''?'' \<notin> set (apply_operator operator vs)"
  using assms set_Join [of vs "'',''"] set_Join [of vs "''.''"] set_Join [of vs "''/''"]
  by (auto simp: apply_operator_def)

text \<open>One expression yields a question mark only as its first character, and only for \<open>?\<close>.\<close>

lemma expandPart_mark:
  assumes "expandPart other p vars = Ok r" and "mark_free (ExpressionPart p)"
  shows "CHR ''?'' \<notin> set r \<or>
    ep_operator p = ''?'' \<and> (\<exists>t. r = ''?'' @ t \<and> CHR ''?'' \<notin> set t)"
proof (cases "ep_operator p = ''?'' \<or> ep_operator p = ''&''")
  case True
  then obtain pairs where pairs: "query_pairs other (ep_names p) (ep_operator p) vars = Ok pairs"
    using assms(1) by (auto simp: expandPart_def split: outcome.splits)
  have "CHR ''?'' \<notin> set (Join pairs ''&'')"
    using query_pairs_no_mark [OF pairs] assms(2) set_Join [of pairs "''&''"] by auto
  then show ?thesis using assms(1) True pairs by (auto simp: expandPart_def split: if_splits)
next
  case False
  then have "length (ep_names p) \<le> 1" using assms(2) by auto
  then have "r = [] \<or> (\<exists>vs operator. r = apply_operator operator (map QueryEscape vs))"
    using assms(1) False
    by (auto simp: expandPart_def encode_all_Ok split: option.splits outcome.splits)
  then show ?thesis
    using apply_operator_no_mark [of "map QueryEscape _"] QueryEscape_excludes [of "CHR ''?''"]
    by auto
qed

lemma ReplaceFirst_mark:
  "CHR ''?'' \<notin> set t \<Longrightarrow> ReplaceFirst (''?'' @ t) ''?'' ''&'' = ''&'' @ t"
  by (simp add: ReplaceFirst_def)

lemma ReplaceFirst_no_mark: "CHR ''?'' \<notin> set t \<Longrightarrow> ReplaceFirst t ''?'' u = t"
  by (simp add: ReplaceFirst_def Index_byte_None [THEN iffD2])

lemma expand_loop_mark:
  assumes "expand_loop other parts vars result q = Ok r" and "\<forall>p \<in> set parts. mark_free p"
    and "count_list result CHR ''?'' \<le> (if q then 1 else 0)"
  shows "count_list r CHR ''?'' \<le> 1"
  using assms
proof (induction other parts vars result q rule: expand_loop.induct)
  case (1 other vars result q)
  then show ?case by (auto split: if_splits)
next
  case (2 other l parts vars result q)
  then show ?case by (simp add: count_list_0_iff)
next
  case (3 other p parts vars result q)
  from "3.prems"(1) obtain ex where ex: "expandPart other p vars = Ok ex"
    by (auto split: outcome.splits)
  show ?case
  proof (cases "ex = []")
    case True
    then show ?thesis using 3 ex by simp
  next
    case False
    define query where "query = (ep_operator p = ''?'' \<or> ep_operator p = ''&'')"
    define ex' where "ex' = (if query \<and> q then ReplaceFirst ex ''?'' ''&'' else ex)"
    have "CHR ''?'' \<notin> set ex \<or> ep_operator p = ''?'' \<and> (\<exists>t. ex = ''?'' @ t \<and> CHR ''?'' \<notin> set t)"
      using expandPart_mark [OF ex] "3.prems"(2) by simp
    then have "count_list ex' CHR ''?'' \<le> (if query \<and> \<not> q then 1 else 0)"
      by (auto simp: ex'_def query_def ReplaceFirst_mark ReplaceFirst_no_mark count_list_0_iff
          simp del: append.simps)
    then have "count_list (result @ ex') CHR ''?'' \<le> (if q \<or> query then 1 else 0)"
      using "3.prems"(3) by (auto split: if_splits)
    then show ?thesis
      using "3.IH"(2) [OF ex False query_def ex'_def] "3.prems" ex False
      by (simp add: Let_def query_def ex'_def)
  qed
qed

text \<open>Templates whose expressions are single names without operator.\<close>

fun simple_segment :: "segment \<Rightarrow> bool" where
  "simple_segment (SLit s) = True"
| "simple_segment (SExpr e) = (getOperator e = [] \<and> getNames e = [e])"

fun expand_segment :: "(string \<Rightarrow> string) \<Rightarrow> segment \<Rightarrow> string" where
  "expand_segment v (SLit s) = s"
| "expand_segment v (SExpr e) = QueryEscape (v e)"

lemma expand_loop_simple:
  assumes "\<forall>s \<in> set segs. simple_segment s"
    and "\<forall>e. SExpr e \<in> set segs \<longrightarrow> vars e = Some (GString (v e)) \<and> length (v e) \<le> MaxVariableLength"
  shows "expand_loop other (map part_of segs) vars result q =
    Ok (result @ concat (map (expand_segment v) segs))"
  using assms
proof (induction segs arbitrary: result)
  case (Cons seg segs)
  show ?case
  proof (cases seg)
    case (SExpr e)
    then have "expandPart other (expression_of e) vars = Ok (QueryEscape (v e))"
      and op: "ep_operator (expression_of e) = []"
      using Cons.prems
      by (simp_all add: expression_of_def Let_def expandPart_def value_strings_def
          encodeValue_Ok [THEN iffD2] apply_operator_def)
    then show ?thesis
      using Cons SExpr by (cases "v e = []") (simp_all add: Let_def)
  qed (use Cons in simp)
qed simp

lemma NewUriTemplate_show:
  assumes "wf_segments segs" and "length (show_segments segs) \<le> MaxTemplateLength"
    and "expr_count segs \<le> MaxTemplateExpressions"
  shows "NewUriTemplate (show_segments segs) =
    Ok \<lparr>ut_template = show_segments segs, ut_parts = map part_of segs\<rparr>"
  using parse_loop_segments [of segs "[]" 0 "[]"] assms
  by (simp add: NewUriTemplate_def parse_def validateLength_def flush_def MaxTemplateLength_def
      MaxVariableLength_def)

section \<open>Properties\<close>

text \<open>
  C10: \<open>NewUriTemplate\<close> accepts exactly the texts made of literals without an opening brace and
  expressions in braces, within its limits, and then yields the parts of that segmentation in
  order; every other text is rejected.
\<close>

theorem NewUriTemplate_iff:
  "NewUriTemplate t = Ok ut \<longleftrightarrow>
     length t \<le> MaxTemplateLength \<and> ut_template ut = t \<and>
     (\<exists>segs. wf_segments segs \<and> t = show_segments segs \<and> ut_parts ut = map part_of segs \<and>
       expr_count segs \<le> MaxTemplateExpressions)"
proof
  assume l: "NewUriTemplate t = Ok ut"
  then have "parse_loop t [] [] 0 = Ok (ut_parts ut)" and len: "length t \<le> MaxTemplateLength"
    and "ut_template ut = t"
    by (auto simp: NewUriTemplate_def parse_def validateLength_def split: outcome.splits if_splits)
  then show "length t \<le> MaxTemplateLength \<and> ut_template ut = t \<and>
     (\<exists>segs. wf_segments segs \<and> t = show_segments segs \<and> ut_parts ut = map part_of segs \<and>
       expr_count segs \<le> MaxTemplateExpressions)"
    using parse_loop_Ok [of t "[]" "[]" 0 "ut_parts ut"] by auto
next
  assume r: "length t \<le> MaxTemplateLength \<and> ut_template ut = t \<and>
     (\<exists>segs. wf_segments segs \<and> t = show_segments segs \<and> ut_parts ut = map part_of segs \<and>
       expr_count segs \<le> MaxTemplateExpressions)"
  then obtain segs where "wf_segments segs" "t = show_segments segs" "ut_parts ut = map part_of segs"
    "expr_count segs \<le> MaxTemplateExpressions" by auto
  then show "NewUriTemplate t = Ok ut"
    using r NewUriTemplate_show [of segs] by (cases ut) simp
qed

text \<open>
  Expanding a template whose expressions are single names without operator, each bound to a
  string within the length limit, yields the template with every expression replaced by the
  query-escaped value, whatever else is bound.
\<close>

theorem Expand_simple:
  assumes "wf_segments segs" and "length (show_segments segs) \<le> MaxTemplateLength"
    and "expr_count segs \<le> MaxTemplateExpressions"
    and "\<forall>s \<in> set segs. simple_segment s"
    and "\<forall>e. SExpr e \<in> set segs \<longrightarrow> vars e = Some (GString (v e)) \<and> length (v e) \<le> MaxVariableLength"
  shows "\<exists>ut. NewUriTemplate (show_segments segs) = Ok ut \<and>
    Expand other ut vars = Ok (concat (map (expand_segment v) segs))"
  using NewUriTemplate_show [OF assms(1-3)] expand_loop_simple [OF assms(4,5), of other "[]" False]
  by (simp add: Expand_def)

lemma names_id: "getOperator ''id'' = [] \<and> getNames ''id'' = [''id'']"
  by code_simp

theorem Expand_simple_witness:
  "\<exists>ut. NewUriTemplate ''/users/{id}/posts'' = Ok ut \<and>
     Expand (\<lambda>_. []) ut [''id'' \<mapsto> GString ''a b''] = Ok ''/users/a+b/posts''"
proof -
  let ?segs = "[SLit ''/users/'', SExpr ''id'', SLit ''/posts'']"
  have q: "QueryEscape ''a b'' = ''a+b''"
    by code_simp
  show ?thesis
    using Expand_simple [of ?segs "[''id'' \<mapsto> GString ''a b'']" "\<lambda>_. ''a b''" "\<lambda>_. []"] q
    by (simp add: show_segments_def expr_count_def MaxTemplateLength_def MaxTemplateExpressions_def
        MaxVariableLength_def names_id)
qed

text \<open>
  The encoding of variable values loses nothing: two values with the same encoded text are
  equal, and the text holds only unreserved characters, plus signs and percent escapes, so it
  never contains a delimiter of a URI.
\<close>

theorem encodeValue_injective:
  assumes "encodeValue v operator = Ok e" and "encodeValue w operator' = Ok e"
  shows "v = w \<and> (\<forall>c \<in> set e. unreserved c \<or> c = CHR ''+'' \<or> c = CHR ''%'')"
proof -
  have "e = QueryEscape v" and "e = QueryEscape w"
    using assms by (simp_all only: encodeValue_Ok)
  then show ?thesis
    using QueryEscape_safe by (metis QueryUnescape_QueryEscape)
qed

theorem encodeValue_injective_witness:
  "encodeValue ''a b'' ''+'' = Ok ''a+b'' \<and> list_all (\<lambda>c. unreserved c \<or> c = CHR ''+'' \<or> c = CHR ''%'') ''a+b''"
proof -
  have q: "QueryEscape ''a b'' = ''a+b''" by code_simp
  then have e: "encodeValue ''a b'' ''+'' = Ok ''a+b''"
    by (simp add: encodeValue_Ok MaxVariableLength_def)
  show ?thesis using encodeValue_injective [OF e e] e unfolding list_all_iff by blast
qed

text \<open>
  However many query expressions a template has, the expanded URI holds at most one question
  mark (when the literals and variable names hold none): later query expressions are joined with
  an ampersand.
\<close>

theorem Expand_one_question_mark:
  assumes "Expand other ut vars = Ok r" and "\<forall>p \<in> set (ut_parts ut). mark_free p"
  shows "count_list r CHR ''?'' \<le> 1"
proof -
  have "expand_loop other (ut_parts ut) vars [] False = Ok r"
    using assms(1) by (simp add: Expand_def)
  then show ?thesis by (rule expand_loop_mark) (use assms(2) in auto)
qed

definition two_queries :: uri_template where
  "two_queries = \<lparr>ut_template = ''/s{?q}{?page}'', ut_parts =
     [LiteralPart ''/s'',
      ExpressionPart \<lparr>ep_name = ''q'', ep_operator = ''?'', ep_names = [''q''], ep_exploded = False\<rparr>,
      ExpressionPart \<lparr>ep_name = ''page'', ep_operator = ''?'', ep_names = [''page''], ep_exploded = False\<rparr>]\<rparr>"

theorem Expand_one_question_mark_witness:
  "Expand (\<lambda>_. []) two_queries [''q'' \<mapsto> GString ''x'', ''page'' \<mapsto> GString ''2''] = Ok ''/s?q=x&page=2''
   \<and> count_list ''/s?q=x&page=2'' CHR ''?'' \<le> 1"
proof -
  have q: "QueryEscape ''x'' = ''x''" "QueryEscape ''2'' = ''2''" by code_simp+
  have e: "Expand (\<lambda>_. []) two_queries [''q'' \<mapsto> GString ''x'', ''page'' \<mapsto> GString ''2'']
      = Ok ''/s?q=x&page=2''"
    by (simp add: Expand_def two_queries_def expandPart_def value_strings_def encodeValue_Ok [THEN iffD2]
        MaxVariableLength_def q ReplaceFirst_def Let_def)
  show ?thesis
    using Expand_one_question_mark [OF e] e by (simp add: two_queries_def)
qed

end
