(* ===== verification/Message_Handler.thy ===== *)
theory Message_Handler
  imports Rpc_Types
begin

text \<open>
  \<open>internal/jsonrpc.go\<close>: the message handler between a transport and a client or server. Its
  state is the record \<open>mh_state\<close>: the five buffered channels, the map of pending requests, the
  id counter, the context, the statistics, and the objects a request allocates (its response
  channel, its timer, its context), which all have the number of the request's channel.
  Each function is a definition; a blocked \<open>select\<close> is \<^term>\<open>None\<close>, and a branch that \<open>select\<close>
  may choose freely is an argument \<open>pick\<close>. Every function runs without interruption.
  The lemmas establish the invariant that ties
  pending requests, channels and timers together, and how a response finds its request.
\<close>

named_theorems mh_simps "definitions of the message handler"

section \<open>State\<close>

text \<open>A response channel has capacity 1; its request's context is cancelled or not.\<close>

record rchan =
  rc_buf :: "response list"
  rc_closed :: bool
  rc_cancelled :: bool

record pending_request =
  pend_ID :: gval
  pend_Response :: nat

record message_stats =
  ms_RequestsSent :: int64
  ms_ResponsesReceived :: int64
  ms_NotificationsSent :: int64
  ms_Errors :: int64
  ms_Timeouts :: int64

record mh_config =
  mhc_RequestTimeout :: int
  mhc_BufferSize :: int

record mh_state =
  mh_incomingChan :: "payload list"
  mh_outgoingChan :: "payload list"
  mh_requestChan :: "request list"
  mh_notificationChan :: "notification list"
  mh_responseChan :: "response list"
  mh_pendingRequests :: "gval \<rightharpoonup> pending_request"
  mh_counter :: int64
  mh_ctx :: "string option"          \<comment> \<open>\<open>ctx.Err()\<close>: \<open>None\<close> while the context is live\<close>
  mh_requestTimeout :: int
  mh_bufferSize :: nat
  mh_stats :: message_stats
  mh_chans :: "rchan list"
  mh_timers :: "nat \<rightharpoonup> gval"         \<comment> \<open>the armed timers, with the id their function captured\<close>

definition default_timeout :: int where
  \<comment> \<open>\<open>30 * time.Second\<close>\<close>
  "default_timeout = 30 * 1000000000"

text \<open>\<open>make(chan T, n)\<close> panics on a negative size.\<close>

definition NewMessageHandler :: "string option \<Rightarrow> mh_config \<Rightarrow> mh_state outcome" where
  "NewMessageHandler ctx config =
     (let timeout = (if mhc_RequestTimeout config = 0 then default_timeout
                     else mhc_RequestTimeout config);
          size = (if mhc_BufferSize config = 0 then 100 else mhc_BufferSize config)
      in if size < 0 then Panic ''makechan: size out of range''
         else Ok \<lparr>mh_incomingChan = [], mh_outgoingChan = [], mh_requestChan = [],
                  mh_notificationChan = [], mh_responseChan = [], mh_pendingRequests = Map.empty,
                  mh_counter = 0, mh_ctx = ctx, mh_requestTimeout = timeout,
                  mh_bufferSize = nat size,
                  mh_stats = \<lparr>ms_RequestsSent = 0, ms_ResponsesReceived = 0,
                    ms_NotificationsSent = 0, ms_Errors = 0, ms_Timeouts = 0\<rparr>,
                  mh_chans = [], mh_timers = Map.empty\<rparr>)"

definition RequestID_Next :: "mh_state \<Rightarrow> int64 \<times> mh_state" where
  "RequestID_Next s = (mh_counter s + 1, s\<lparr>mh_counter := mh_counter s + 1\<rparr>)"

section \<open>Operations on a request's objects\<close>

definition stats_update :: "(message_stats \<Rightarrow> message_stats) \<Rightarrow> mh_state \<Rightarrow> mh_state" where
  "stats_update f s = s\<lparr>mh_stats := f (mh_stats s)\<rparr>"

definition chan_update :: "nat \<Rightarrow> (rchan \<Rightarrow> rchan) \<Rightarrow> mh_state \<Rightarrow> mh_state" where
  "chan_update c f s = s\<lparr>mh_chans := (mh_chans s)[c := f (mh_chans s ! c)]\<rparr>"

definition timer_stop :: "nat \<Rightarrow> mh_state \<Rightarrow> mh_state" where
  "timer_stop c s = s\<lparr>mh_timers := (mh_timers s)(c := None)\<rparr>"

definition ctx_cancel :: "nat \<Rightarrow> mh_state \<Rightarrow> mh_state" where
  "ctx_cancel c = chan_update c (\<lambda>ch. ch\<lparr>rc_cancelled := True\<rparr>)"

definition chan_close :: "nat \<Rightarrow> mh_state \<Rightarrow> mh_state outcome" where
  "chan_close c s =
     (if rc_closed (mh_chans s ! c) then Panic ''close of closed channel''
      else Ok (chan_update c (\<lambda>ch. ch\<lparr>rc_closed := True\<rparr>) s))"

text \<open>\<open>select { case ch <- r: counted; default: }\<close>; sending on a closed channel panics.\<close>

definition chan_offer :: "nat \<Rightarrow> response \<Rightarrow> mh_state \<Rightarrow> mh_state outcome" where
  "chan_offer c r s =
     (if rc_closed (mh_chans s ! c) then Panic ''send on closed channel''
      else if rc_buf (mh_chans s ! c) = [] then
        Ok (stats_update (\<lambda>st. st\<lparr>ms_ResponsesReceived := ms_ResponsesReceived st + 1\<rparr>)
             (chan_update c (\<lambda>ch. ch\<lparr>rc_buf := [r]\<rparr>) s))
      else Ok s)"

definition removePendingRequest :: "gval \<Rightarrow> mh_state \<Rightarrow> mh_state" where
  "removePendingRequest ident s =
     (case mh_pendingRequests s ident of
        None \<Rightarrow> s
      | Some p \<Rightarrow>
          ctx_cancel (pend_Response p)
            (timer_stop (pend_Response p)
              (s\<lparr>mh_pendingRequests := (mh_pendingRequests s)(ident := None)\<rparr>)))"

text \<open>The function given to \<open>time.AfterFunc\<close> for the request \<open>ident\<close> with channel \<open>c\<close>.\<close>

definition timeout_callback :: "gval \<Rightarrow> nat \<Rightarrow> mh_state \<Rightarrow> mh_state outcome" where
  "timeout_callback ident c s =
     chan_close c
       (ctx_cancel c
         (removePendingRequest ident
           (stats_update (\<lambda>st. st\<lparr>ms_Timeouts := ms_Timeouts st + 1\<rparr>) s)))"

section \<open>Sending\<close>

text \<open>
  \<open>select { case ch <- x: ...; case <-ctx.Done(): ... }\<close>. With both cases ready Go takes any of
  them; \<open>pick\<close> is that choice.
\<close>

datatype 'a select_result = Sent "'a list" | Cancelled string | Blocked

definition select_send ::
  "bool \<Rightarrow> nat \<Rightarrow> 'a list \<Rightarrow> 'a \<Rightarrow> string option \<Rightarrow> 'a select_result" where
  "select_send pick cap buf x ctx =
     (case (chan_send cap buf x, ctx) of
        (Some buf', None) \<Rightarrow> Sent buf'
      | (Some buf', Some e) \<Rightarrow> if pick then Sent buf' else Cancelled e
      | (None, Some e) \<Rightarrow> Cancelled e
      | (None, None) \<Rightarrow> Blocked)"

text \<open>Lines 126-143: the id, the channel, the context and the timer of a new request.\<close>

definition new_call :: "mh_state \<Rightarrow> gval \<times> nat \<times> mh_state" where
  "new_call s =
     (let (n, s1) = RequestID_Next s; c = length (mh_chans s1)
      in (GInt64 n, c,
          s1\<lparr>mh_chans := mh_chans s1 @ [\<lparr>rc_buf = [], rc_closed = False, rc_cancelled = False\<rparr>],
             mh_timers := (mh_timers s1)(c \<mapsto> GInt64 n)\<rparr>))"

definition store_pending :: "gval \<Rightarrow> nat \<Rightarrow> mh_state \<Rightarrow> mh_state" where
  "store_pending ident c s =
     s\<lparr>mh_pendingRequests :=
         (mh_pendingRequests s)(ident \<mapsto> \<lparr>pend_ID = ident, pend_Response = c\<rparr>)\<rparr>"

text \<open>Lines 164-171: hand the encoded request to the transport, or give up with the context.\<close>

definition finish_request ::
  "bool \<Rightarrow> gval \<Rightarrow> nat \<Rightarrow> payload \<Rightarrow> mh_state \<Rightarrow> (mh_state \<times> nat outcome) option" where
  "finish_request pick ident c data s =
     (case select_send pick (mh_bufferSize s) (mh_outgoingChan s) data (mh_ctx s) of
        Sent buf \<Rightarrow>
          Some (stats_update (\<lambda>st. st\<lparr>ms_RequestsSent := ms_RequestsSent st + 1\<rparr>)
                  (s\<lparr>mh_outgoingChan := buf\<rparr>), Ok c)
      | Cancelled e \<Rightarrow> Some (removePendingRequest ident s, Err e)
      | Blocked \<Rightarrow> None)"

definition SendRequest ::
  "bool \<Rightarrow> string \<Rightarrow> gval \<Rightarrow> mh_state \<Rightarrow> (mh_state \<times> nat outcome) option" where
  "SendRequest pick meth params s =
     (case mh_ctx s of
        Some e \<Rightarrow> Some (s, Err e)
      | None \<Rightarrow>
          (let (ident, c, s1) = new_call s;
               s2 = store_pending ident c s1;
               request = \<lparr>req_JSONRPC = ''2.0'', req_ID = ident, req_Method = meth,
                          req_Params = params\<rparr>
           in case to_payload (request_gval request) of
                None \<Rightarrow> Some (removePendingRequest ident s2, Err ''failed to marshal request'')
              | Some data \<Rightarrow> finish_request pick ident c data s2))"

definition SendNotification ::
  "bool \<Rightarrow> string \<Rightarrow> gval \<Rightarrow> mh_state \<Rightarrow> (mh_state \<times> unit outcome) option" where
  "SendNotification pick meth params s =
     (case mh_ctx s of
        Some e \<Rightarrow> Some (s, Err e)
      | None \<Rightarrow>
          (case to_payload (notification_gval
                 \<lparr>not_JSONRPC = ''2.0'', not_Method = meth, not_Params = params\<rparr>) of
             None \<Rightarrow> Some (s, Err ''failed to marshal notification'')
           | Some data \<Rightarrow>
               (case select_send pick (mh_bufferSize s) (mh_outgoingChan s) data (mh_ctx s) of
                  Sent buf \<Rightarrow>
                    Some (stats_update (\<lambda>st. st\<lparr>ms_NotificationsSent := ms_NotificationsSent st + 1\<rparr>)
                            (s\<lparr>mh_outgoingChan := buf\<rparr>), Ok ())
                | Cancelled e \<Rightarrow> Some (s, Err e)
                | Blocked \<Rightarrow> None)))"

definition SendResponse ::
  "bool \<Rightarrow> gval \<Rightarrow> gval \<Rightarrow> rpc_error option \<Rightarrow> mh_state \<Rightarrow> (mh_state \<times> unit outcome) option" where
  "SendResponse pick ident result err s =
     (case mh_ctx s of
        Some e \<Rightarrow> Some (s, Err e)
      | None \<Rightarrow>
          (case to_payload (response_gval
                 \<lparr>resp_JSONRPC = ''2.0'', resp_ID = ident, resp_Result = result, resp_Error = err\<rparr>) of
             None \<Rightarrow> Some (s, Err ''failed to marshal response'')
           | Some data \<Rightarrow>
               (case select_send pick (mh_bufferSize s) (mh_outgoingChan s) data (mh_ctx s) of
                  Sent buf \<Rightarrow> Some (s\<lparr>mh_outgoingChan := buf\<rparr>, Ok ())
                | Cancelled e \<Rightarrow> Some (s, Err e)
                | Blocked \<Rightarrow> None)))"

section \<open>Receiving\<close>

definition handleIncomingMessage :: "bool \<Rightarrow> payload \<Rightarrow> mh_state \<Rightarrow> mh_state option" where
  "handleIncomingMessage pick data s =
     (case ParseMessage data of
        None \<Rightarrow> Some (stats_update (\<lambda>st. st\<lparr>ms_Errors := ms_Errors st + 1\<rparr>) s)
      | Some msg \<Rightarrow>
          if IsRequest msg then
            (case ToRequest msg of
               None \<Rightarrow> Some s
             | Some req \<Rightarrow>
                 (case select_send pick (mh_bufferSize s) (mh_requestChan s) req (mh_ctx s) of
                    Sent buf \<Rightarrow> Some (s\<lparr>mh_requestChan := buf\<rparr>)
                  | Cancelled _ \<Rightarrow> Some s
                  | Blocked \<Rightarrow> None))
          else if IsNotification msg then
            (case ToNotification msg of
               None \<Rightarrow> Some s
             | Some notif \<Rightarrow>
                 (case select_send pick (mh_bufferSize s) (mh_notificationChan s) notif (mh_ctx s) of
                    Sent buf \<Rightarrow> Some (s\<lparr>mh_notificationChan := buf\<rparr>)
                  | Cancelled _ \<Rightarrow> Some s
                  | Blocked \<Rightarrow> None))
          else if IsResponse msg then
            (case ToResponse msg of
               None \<Rightarrow> Some s
             | Some resp \<Rightarrow>
                 (case select_send pick (mh_bufferSize s) (mh_responseChan s) resp (mh_ctx s) of
                    Sent buf \<Rightarrow> Some (s\<lparr>mh_responseChan := buf\<rparr>)
                  | Cancelled _ \<Rightarrow> Some s
                  | Blocked \<Rightarrow> None))
          else Some s)"

text \<open>
  One iteration of the goroutine \<open>processIncomingMessages\<close>: the new state and whether it goes
  on. \<^term>\<open>None\<close> while it waits for a message or for room in a channel.
\<close>

definition processIncomingMessages :: "bool \<Rightarrow> bool \<Rightarrow> mh_state \<Rightarrow> (mh_state \<times> bool) option" where
  "processIncomingMessages pick pick' s =
     (case (mh_incomingChan s, mh_ctx s) of
        ([], None) \<Rightarrow> None
      | ([], Some _) \<Rightarrow> Some (s, False)
      | (data # rest, ctx) \<Rightarrow>
          if ctx \<noteq> None \<and> \<not> pick then Some (s, False)
          else map_option (\<lambda>s'. (s', True))
                 (handleIncomingMessage pick' data (s\<lparr>mh_incomingChan := rest\<rparr>)))"

text \<open>
  Lines 291-316, under the lock: the pending request of a response, with the response as it will
  be delivered. The id is tried as it is and, for a number, as an \<open>int64\<close>.
\<close>

definition find_pending ::
  "(float64 \<Rightarrow> int64) \<Rightarrow> response \<Rightarrow> mh_state \<Rightarrow> (pending_request \<times> response) option" where
  "find_pending oor response s =
     (case mh_pendingRequests s (resp_ID response) of
        Some p \<Rightarrow> Some (p, response)
      | None \<Rightarrow>
          (case resp_ID response of
             GFloat f \<Rightarrow>
               (let intID = GInt64 (float_to_int64 oor f)
                in map_option (\<lambda>p. (p, response\<lparr>resp_ID := intID\<rparr>)) (mh_pendingRequests s intID))
           | _ \<Rightarrow> None))"

definition take_pending :: "pending_request \<Rightarrow> mh_state \<Rightarrow> mh_state" where
  "take_pending p s = s\<lparr>mh_pendingRequests := (mh_pendingRequests s)(pend_ID p := None)\<rparr>"

text \<open>Lines 318-329, after the lock is released.\<close>

definition deliver :: "pending_request \<Rightarrow> response \<Rightarrow> mh_state \<Rightarrow> mh_state outcome" where
  "deliver p response s =
     (case chan_offer (pend_Response p) response
             (ctx_cancel (pend_Response p) (timer_stop (pend_Response p) s)) of
        Ok s' \<Rightarrow> chan_close (pend_Response p) s'
      | Err e \<Rightarrow> Err e
      | Panic m \<Rightarrow> Panic m)"

definition correlateResponse ::
  "(float64 \<Rightarrow> int64) \<Rightarrow> response \<Rightarrow> mh_state \<Rightarrow> mh_state outcome" where
  "correlateResponse oor response s =
     (if \<not> hashable (resp_ID response) then Panic ''hash of unhashable type''
      else case find_pending oor response s of
             None \<Rightarrow> Ok s
           | Some (p, response') \<Rightarrow> deliver p response' (take_pending p s))"

text \<open>One iteration of the goroutine \<open>handleResponses\<close>.\<close>

definition handleResponses ::
  "(float64 \<Rightarrow> int64) \<Rightarrow> bool \<Rightarrow> mh_state \<Rightarrow> (mh_state \<times> bool) outcome option" where
  "handleResponses oor pick s =
     (case (mh_responseChan s, mh_ctx s) of
        ([], None) \<Rightarrow> None
      | ([], Some _) \<Rightarrow> Some (Ok (s, False))
      | (response # rest, ctx) \<Rightarrow>
          if ctx \<noteq> None \<and> \<not> pick then Some (Ok (s, False))
          else Some (case correlateResponse oor response (s\<lparr>mh_responseChan := rest\<rparr>) of
                       Ok s' \<Rightarrow> Ok (s', True) | Err e \<Rightarrow> Err e | Panic m \<Rightarrow> Panic m))"

section \<open>Closing\<close>

fun close_pending :: "pending_request list \<Rightarrow> mh_state \<Rightarrow> mh_state outcome" where
  "close_pending [] s = Ok s"
| "close_pending (p # ps) s =
     (case chan_close (pend_Response p) (ctx_cancel (pend_Response p) (timer_stop (pend_Response p) s)) of
        Ok s' \<Rightarrow> close_pending ps s'
      | Err e \<Rightarrow> Err e
      | Panic m \<Rightarrow> Panic m)"

definition cancel :: "mh_state \<Rightarrow> mh_state" where
  "cancel s = s\<lparr>mh_ctx := (case mh_ctx s of None \<Rightarrow> Some ''context canceled'' | Some e \<Rightarrow> Some e)\<rparr>"

text \<open>\<open>ks\<close> is the order in which the loop visits the pending requests.\<close>

definition MessageHandler_Close :: "gval list \<Rightarrow> mh_state \<Rightarrow> mh_state outcome" where
  "MessageHandler_Close ks s =
     (case close_pending (range_values (mh_pendingRequests s) ks) (cancel s) of
        Ok s' \<Rightarrow> Ok (s'\<lparr>mh_pendingRequests := Map.empty\<rparr>)
      | Err e \<Rightarrow> Err e
      | Panic m \<Rightarrow> Panic m)"

definition MessageHandler_GetStats :: "mh_state \<Rightarrow> message_stats" where
  "MessageHandler_GetStats s = mh_stats s"

section \<open>The handler as a transition system\<close>

text \<open>
  The moves of a handler and its surroundings: the transport delivers and takes messages, the
  application takes requests and notifications and reads response channels, the two goroutines
  work, a timer fires, the parent context ends, and any exported function is called.
\<close>

inductive mh_step :: "(float64 \<Rightarrow> int64) \<Rightarrow> mh_state \<Rightarrow> mh_state \<Rightarrow> bool" for oor where
  deliver_in: "chan_send (mh_bufferSize s) (mh_incomingChan s) data = Some buf \<Longrightarrow>
    mh_step oor s (s\<lparr>mh_incomingChan := buf\<rparr>)"
| take_out: "mh_outgoingChan s = data # rest \<Longrightarrow> mh_step oor s (s\<lparr>mh_outgoingChan := rest\<rparr>)"
| take_request: "mh_requestChan s = req # reqs \<Longrightarrow> mh_step oor s (s\<lparr>mh_requestChan := reqs\<rparr>)"
| take_notification: "mh_notificationChan s = notif # notifs \<Longrightarrow>
    mh_step oor s (s\<lparr>mh_notificationChan := notifs\<rparr>)"
| read_response: "c < length (mh_chans s) \<Longrightarrow> mh_step oor s (chan_update c (\<lambda>ch. ch\<lparr>rc_buf := []\<rparr>) s)"
| send_request: "SendRequest pick meth params s = Some (s', res) \<Longrightarrow> mh_step oor s s'"
| send_notification: "SendNotification pick meth params s = Some (s', ures) \<Longrightarrow> mh_step oor s s'"
| send_response: "SendResponse pick ident result err s = Some (s', ures) \<Longrightarrow> mh_step oor s s'"
| process: "processIncomingMessages pick pick' s = Some (s', b) \<Longrightarrow> mh_step oor s s'"
| responses: "handleResponses oor pick s = Some (Ok (s', b)) \<Longrightarrow> mh_step oor s s'"
| fire: "mh_timers s c = Some ident \<Longrightarrow> timeout_callback ident c (timer_stop c s) = Ok s' \<Longrightarrow>
    mh_step oor s s'"
| parent_done: "mh_ctx s = None \<Longrightarrow> mh_step oor s (s\<lparr>mh_ctx := Some e\<rparr>)"
| closing: "range_order (mh_pendingRequests s) ks \<Longrightarrow> MessageHandler_Close ks s = Ok s' \<Longrightarrow>
    mh_step oor s s'"

inductive mh_reachable :: "(float64 \<Rightarrow> int64) \<Rightarrow> mh_state \<Rightarrow> bool" for oor where
  start: "NewMessageHandler ctx config = Ok s \<Longrightarrow> mh_reachable oor s"
| step: "mh_reachable oor s \<Longrightarrow> mh_step oor s s' \<Longrightarrow> mh_reachable oor s'"

text \<open>The id of the request with channel \<open>c\<close>: the counter starts at 0 and is increased first.\<close>

definition ident_of :: "nat \<Rightarrow> gval" where
  "ident_of c = GInt64 (of_nat (Suc c))"

definition fresh_chan :: rchan where
  "fresh_chan = \<lparr>rc_buf = [], rc_closed = False, rc_cancelled = False\<rparr>"

definition settled_chan :: "nat \<Rightarrow> rchan \<Rightarrow> bool" where
  "settled_chan c ch \<longleftrightarrow>
     rc_cancelled ch \<and>
     (rc_buf ch = [] \<or> (\<exists>r. rc_buf ch = [r] \<and> resp_ID r = ident_of c \<and> rc_closed ch))"

text \<open>A request is pending, with its timer armed and nothing delivered, or it is settled.\<close>

definition call_ok :: "mh_state \<Rightarrow> nat \<Rightarrow> bool" where
  "call_ok s c \<longleftrightarrow>
     (case mh_pendingRequests s (ident_of c) of
        Some p \<Rightarrow> p = \<lparr>pend_ID = ident_of c, pend_Response = c\<rparr> \<and> mh_timers s c = Some (ident_of c)
                  \<and> mh_chans s ! c = fresh_chan
      | None \<Rightarrow> mh_timers s c = None \<and> settled_chan c (mh_chans s ! c))"

definition mh_inv :: "mh_state \<Rightarrow> bool" where
  "mh_inv s \<longleftrightarrow>
     mh_counter s = of_nat (length (mh_chans s)) \<and>
     length (mh_chans s) < 2 ^ 64 \<and>
     (\<forall>c < length (mh_chans s). call_ok s c) \<and>
     dom (mh_pendingRequests s) \<subseteq> ident_of ` {..<length (mh_chans s)} \<and>
     dom (mh_timers s) \<subseteq> {..<length (mh_chans s)}"

section \<open>Lemmas\<close>

lemmas heap_defs [mh_simps] =
  stats_update_def chan_update_def timer_stop_def ctx_cancel_def chan_close_def chan_offer_def

lemma ident_of_inject:
  "c < 2 ^ 64 - 1 \<Longrightarrow> c' < 2 ^ 64 - 1 \<Longrightarrow> ident_of c = ident_of c' \<longleftrightarrow> c = c'"
  unfolding ident_of_def
  by (simp del: of_nat_Suc add: of_nat_inverse word_of_nat_eq_iff take_bit_nat_eq_self)

lemma mh_inv_pending:
  assumes "mh_inv s" and "mh_pendingRequests s k = Some p"
  obtains c where "c < length (mh_chans s)" and "k = ident_of c"
    and "p = \<lparr>pend_ID = k, pend_Response = c\<rparr>" and "mh_timers s c = Some k"
    and "mh_chans s ! c = fresh_chan"
proof -
  have "k \<in> dom (mh_pendingRequests s)" using assms(2) by blast
  then obtain c where c: "c < length (mh_chans s)" "k = ident_of c"
    using assms(1) unfolding mh_inv_def by blast
  then have "call_ok s c" using assms(1) by (simp add: mh_inv_def)
  then show thesis using c assms(2) by (intro that [of c]) (auto simp: call_ok_def)
qed

lemma mh_inv_timer:
  assumes "mh_inv s" and "mh_timers s c = Some k"
  shows "c < length (mh_chans s)" and "k = ident_of c"
    and "mh_pendingRequests s k = Some \<lparr>pend_ID = k, pend_Response = c\<rparr>"
proof -
  have c: "c < length (mh_chans s)" using assms by (auto simp: mh_inv_def)
  then have "call_ok s c" using assms(1) by (simp add: mh_inv_def)
  then have *: "k = ident_of c \<and> mh_pendingRequests s k = Some \<lparr>pend_ID = k, pend_Response = c\<rparr>"
    using assms(2) by (auto simp: call_ok_def split: option.splits)
  show "c < length (mh_chans s)" by (fact c)
  show "k = ident_of c" and "mh_pendingRequests s k = Some \<lparr>pend_ID = k, pend_Response = c\<rparr>"
    using * by blast+
qed

text \<open>Only the objects of requests and the map of pending ones matter to the invariant.\<close>

lemma mh_inv_cong:
  assumes "mh_counter s' = mh_counter s" and "mh_pendingRequests s' = mh_pendingRequests s"
    and "mh_timers s' = mh_timers s" and "mh_chans s' = mh_chans s"
  shows "mh_inv s' = mh_inv s"
  unfolding mh_inv_def call_ok_def assms by (rule refl)

text \<open>A request leaves the map: its timer is stopped and its channel settled.\<close>

lemma mh_inv_settle:
  assumes inv: "mh_inv s" and c: "c < length (mh_chans s)" and ch: "settled_chan c ch"
    and "mh_counter s' = mh_counter s"
    and "mh_pendingRequests s' = (mh_pendingRequests s)(ident_of c := None)"
    and "mh_timers s' = (mh_timers s)(c := None)" and "mh_chans s' = (mh_chans s)[c := ch]"
  shows "mh_inv s'"
proof -
  have "call_ok s' c'" if "c' < length (mh_chans s)" for c'
  proof (cases "c' = c")
    case True
    then show ?thesis using c ch assms(4-) by (simp add: call_ok_def)
  next
    case False
    have "length (mh_chans s) < 2 ^ 64" using inv by (simp add: mh_inv_def)
    then have "ident_of c' \<noteq> ident_of c"
      using False c that ident_of_inject [of c' c] by simp
    moreover have "call_ok s c'" using inv that by (simp add: mh_inv_def)
    ultimately show ?thesis using False assms(4-) by (simp add: call_ok_def split: option.splits)
  qed
  then show ?thesis
    using inv assms(4-) unfolding mh_inv_def by (auto simp: assms(4-))
qed

lemma removePendingRequest_inv:
  assumes "mh_inv s"
  shows "mh_inv (removePendingRequest k s)"
proof (cases "mh_pendingRequests s k")
  case None
  then show ?thesis using assms by (simp add: removePendingRequest_def)
next
  case (Some p)
  obtain c where c: "c < length (mh_chans s)" "k = ident_of c"
    "p = \<lparr>pend_ID = k, pend_Response = c\<rparr>" "mh_chans s ! c = fresh_chan"
    using mh_inv_pending [OF assms Some] by metis
  show ?thesis
    by (rule mh_inv_settle [OF assms c(1), where ch = "fresh_chan\<lparr>rc_cancelled := True\<rparr>"])
      (use Some c in \<open>auto simp: removePendingRequest_def mh_simps settled_chan_def fresh_chan_def\<close>)
qed

text \<open>
  The effect of the functions that settle a request, when it is pending and the invariant holds:
  none of them panics.
\<close>

lemma timeout_callback_Ok:
  assumes "mh_inv s" and "mh_timers s c = Some k"
  shows "timeout_callback k c (timer_stop c s) =
    Ok (s\<lparr>mh_stats := (mh_stats s)\<lparr>ms_Timeouts := ms_Timeouts (mh_stats s) + 1\<rparr>,
          mh_timers := (mh_timers s)(c := None),
          mh_pendingRequests := (mh_pendingRequests s)(k := None),
          mh_chans := (mh_chans s)[c := \<lparr>rc_buf = [], rc_closed = True, rc_cancelled = True\<rparr>]\<rparr>)"
proof -
  note t = mh_inv_timer [OF assms]
  have ch: "mh_chans s ! c = fresh_chan"
    using mh_inv_pending [OF assms(1) t(3)] by auto
  show ?thesis
    using t ch by (simp add: timeout_callback_def removePendingRequest_def mh_simps fresh_chan_def)
qed

lemma deliver_Ok:
  assumes "mh_inv s" and "mh_pendingRequests s k = Some p"
  shows "deliver p r (take_pending p s) =
    Ok (s\<lparr>mh_stats := (mh_stats s)\<lparr>ms_ResponsesReceived := ms_ResponsesReceived (mh_stats s) + 1\<rparr>,
          mh_timers := (mh_timers s)(pend_Response p := None),
          mh_pendingRequests := (mh_pendingRequests s)(k := None),
          mh_chans := (mh_chans s)
            [pend_Response p := \<lparr>rc_buf = [r], rc_closed = True, rc_cancelled = True\<rparr>]\<rparr>)"
proof -
  obtain c where c: "c < length (mh_chans s)"
    "p = \<lparr>pend_ID = k, pend_Response = c\<rparr>" "mh_chans s ! c = fresh_chan"
    using mh_inv_pending [OF assms] by metis
  show ?thesis
    using c by (simp add: deliver_def take_pending_def mh_simps fresh_chan_def)
qed

lemma find_pending_Some:
  assumes "find_pending oor r s = Some (p, r')" and "mh_inv s"
  shows "mh_pendingRequests s (pend_ID p) = Some p" and "resp_ID r' = pend_ID p"
proof -
  have "mh_pendingRequests s (resp_ID r') = Some p"
    using assms(1) by (auto simp: find_pending_def Let_def split: option.splits gval.splits)
  then show "mh_pendingRequests s (pend_ID p) = Some p" and "resp_ID r' = pend_ID p"
    using mh_inv_pending [OF assms(2)] by fastforce+
qed

lemma correlateResponse_inv:
  assumes inv: "mh_inv s" and ok: "correlateResponse oor r s = Ok s'"
  shows "mh_inv s'"
proof (cases "find_pending oor r s")
  case None
  then show ?thesis using assms by (auto simp: correlateResponse_def split: if_splits)
next
  case (Some pr)
  then obtain p r' where pr: "find_pending oor r s = Some (p, r')" by (cases pr) auto
  note f = find_pending_Some [OF pr inv]
  obtain c where c: "c < length (mh_chans s)" "pend_ID p = ident_of c" "pend_Response p = c"
    using mh_inv_pending [OF inv f(1)] by (metis pending_request.select_convs(2))
  have s': "deliver p r' (take_pending p s) = Ok s'"
    using ok pr by (auto simp: correlateResponse_def split: if_splits)
  show ?thesis
    by (rule mh_inv_settle [OF inv c(1), where
          ch = "\<lparr>rc_buf = [r'], rc_closed = True, rc_cancelled = True\<rparr>"])
      (use s' c f in \<open>auto simp: deliver_Ok [OF inv f(1)] settled_chan_def\<close>)
qed

subsection \<open>Sending\<close>

lemma store_new_call_inv:
  assumes inv: "mh_inv s" and nc: "new_call s = (ident, c, s1)"
    and room: "Suc (length (mh_chans s)) < 2 ^ 64"
  shows "mh_inv (store_pending ident c s1)"
    and "ident = ident_of (length (mh_chans s))" and "c = length (mh_chans s)"
    and "mh_chans s1 = mh_chans s @ [fresh_chan]"
proof -
  let ?n = "length (mh_chans s)"
  have ctr: "mh_counter s = of_nat ?n" using inv by (simp add: mh_inv_def)
  have id: "ident = ident_of ?n" and cn: "c = ?n"
    and s1: "s1 = s\<lparr>mh_counter := of_nat (Suc ?n), mh_chans := mh_chans s @ [fresh_chan],
                   mh_timers := (mh_timers s)(?n \<mapsto> ident_of ?n)\<rparr>"
    using nc ctr by (auto simp: new_call_def RequestID_Next_def ident_of_def fresh_chan_def Let_def add.commute)
  then show "ident = ident_of (length (mh_chans s))" and "c = length (mh_chans s)"
    and "mh_chans s1 = mh_chans s @ [fresh_chan]"
    by simp_all
  have "call_ok (store_pending ident c s1) c'" if "c' < Suc ?n" for c'
  proof (cases "c' = ?n")
    case True
    then show ?thesis by (simp add: call_ok_def store_pending_def id cn s1)
  next
    case False
    then have c': "c' < ?n" using that by simp
    have "ident_of c' \<noteq> ident_of ?n"
      using c' room ident_of_inject [of c' ?n] by simp
    moreover have "call_ok s c'" using inv c' by (simp add: mh_inv_def)
    ultimately show ?thesis
      using c' by (simp add: call_ok_def store_pending_def id cn s1 nth_append split: option.splits)
  qed
  then show "mh_inv (store_pending ident c s1)"
    using inv room unfolding mh_inv_def by (auto simp: store_pending_def id cn s1)
qed

lemma removePendingRequest_length [simp]:
  "length (mh_chans (removePendingRequest k s)) = length (mh_chans s)"
  by (simp add: removePendingRequest_def mh_simps split: option.splits)

lemma finish_request_inv:
  assumes "finish_request pick ident c data s = Some (s', res)" and "mh_inv s"
  shows "mh_inv s'" and "length (mh_chans s') = length (mh_chans s)"
  using assms removePendingRequest_inv [of s ident]
  by (auto simp: finish_request_def stats_update_def split: select_result.splits
      elim!: mh_inv_cong [THEN iffD1, rotated -1])

lemma SendRequest_length:
  "SendRequest pick meth params s = Some (s', res) \<Longrightarrow>
     length (mh_chans s') = length (mh_chans s) \<or> length (mh_chans s') = Suc (length (mh_chans s))"
  by (auto simp: SendRequest_def new_call_def RequestID_Next_def store_pending_def finish_request_def
      stats_update_def Let_def split: option.splits select_result.splits)

lemma SendRequest_inv:
  assumes "mh_inv s" and "SendRequest pick meth params s = Some (s', res)"
    and "length (mh_chans s') < 2 ^ 64"
  shows "mh_inv s'"
proof (cases "mh_ctx s")
  case (Some e)
  then show ?thesis using assms by (auto simp: SendRequest_def)
next
  case None
  obtain ident c s1 where nc: "new_call s = (ident, c, s1)" by (cases "new_call s") auto
  define data where "data = to_payload (request_gval \<lparr>req_JSONRPC = ''2.0'', req_ID = ident,
     req_Method = meth, req_Params = params\<rparr>)"
  have send: "(case data of
      None \<Rightarrow> Some (removePendingRequest ident (store_pending ident c s1), Err ''failed to marshal request'')
    | Some d \<Rightarrow> finish_request pick ident c d (store_pending ident c s1)) = Some (s', res)"
    using assms(2) None nc by (simp add: SendRequest_def data_def Let_def)
  have "length (mh_chans s') = length (mh_chans s1)"
    using send by (auto simp: finish_request_def stats_update_def store_pending_def split: option.splits select_result.splits)
  moreover have "mh_chans s1 = mh_chans s @ [fresh_chan]"
    using nc by (auto simp: new_call_def RequestID_Next_def fresh_chan_def Let_def)
  ultimately have "Suc (length (mh_chans s)) < 2 ^ 64"
    using assms(3) by simp
  then have "mh_inv (store_pending ident c s1)"
    using store_new_call_inv(1) [OF assms(1) nc] by blast
  then show ?thesis
    using send by (auto split: option.splits intro: removePendingRequest_inv dest: finish_request_inv)
qed

subsection \<open>Closing\<close>

definition closed_chan :: rchan where
  "closed_chan = \<lparr>rc_buf = [], rc_closed = True, rc_cancelled = True\<rparr>"

lemma close_pending_Ok:
  assumes "distinct (map pend_Response ps)"
    and "\<forall>p \<in> set ps. pend_Response p < length (mh_chans s) \<and> mh_chans s ! pend_Response p = fresh_chan"
  shows "\<exists>chans. close_pending ps s =
      Ok (s\<lparr>mh_timers := mh_timers s |` (- pend_Response ` set ps), mh_chans := chans\<rparr>) \<and>
    length chans = length (mh_chans s) \<and>
    (\<forall>c < length chans. chans ! c = (if c \<in> pend_Response ` set ps then closed_chan else mh_chans s ! c))"
  using assms
proof (induction ps arbitrary: s)
  case Nil
  have "mh_timers s |` UNIV = mh_timers s" by (auto simp: restrict_map_def)
  then show ?case by (intro exI [of _ "mh_chans s"]) simp
next
  case (Cons p ps)
  let ?c = "pend_Response p"
  define s1 where "s1 = s\<lparr>mh_timers := (mh_timers s)(?c := None), mh_chans := (mh_chans s)[?c := closed_chan]\<rparr>"
  have step: "close_pending (p # ps) s = close_pending ps s1"
    using Cons.prems by (simp add: mh_simps fresh_chan_def closed_chan_def s1_def)
  have dist: "?c \<notin> pend_Response ` set ps" "distinct (map pend_Response ps)"
    using Cons.prems(1) by auto
  have "\<forall>q \<in> set ps. pend_Response q < length (mh_chans s1) \<and> mh_chans s1 ! pend_Response q = fresh_chan"
    using Cons.prems(2) dist(1) by (auto simp: s1_def nth_list_update)
  then obtain chans where IH: "close_pending ps s1 =
      Ok (s1\<lparr>mh_timers := mh_timers s1 |` (- pend_Response ` set ps), mh_chans := chans\<rparr>)"
    "length chans = length (mh_chans s1)"
    "\<forall>c < length chans. chans ! c = (if c \<in> pend_Response ` set ps then closed_chan else mh_chans s1 ! c)"
    using Cons.IH [OF dist(2), of s1] by blast
  have "mh_timers s1 |` (- pend_Response ` set ps) = mh_timers s |` (- pend_Response ` set (p # ps))"
    by (auto simp: s1_def restrict_map_def)
  then show ?case
    using IH Cons.prems(2) dist(1) unfolding step
    by (intro exI [of _ chans] conjI) (simp_all add: s1_def nth_list_update)
qed

lemma range_values_set:
  "range_order m ks \<Longrightarrow> p \<in> set (range_values m ks) \<longleftrightarrow> (\<exists>k. m k = Some p)"
  by (simp add: set_range_values ran_def)

lemma distinct_pending_chans:
  assumes inv: "mh_inv s" and ro: "range_order (mh_pendingRequests s) ks"
  shows "distinct (map pend_Response (range_values (mh_pendingRequests s) ks))"
proof -
  have dist: "distinct ks" and dom: "set ks = dom (mh_pendingRequests s)"
    using ro by (auto simp: range_order_def)
  have "inj_on (\<lambda>k. pend_Response (the (mh_pendingRequests s k))) (set ks)"
  proof (rule inj_onI)
    fix k k' assume *: "k \<in> set ks" "k' \<in> set ks"
      "pend_Response (the (mh_pendingRequests s k)) = pend_Response (the (mh_pendingRequests s k'))"
    then obtain p p' where p: "mh_pendingRequests s k = Some p" "mh_pendingRequests s k' = Some p'"
      using dom by auto
    show "k = k'"
      using mh_inv_pending [OF inv p(1)] mh_inv_pending [OF inv p(2)] * p
      by (metis option.sel pending_request.select_convs(2))
  qed
  then show ?thesis
    using dist range_values_map [OF ro] by (simp add: distinct_map inj_on_def)
qed

lemma Close_Ok:
  assumes inv: "mh_inv s" and ro: "range_order (mh_pendingRequests s) ks"
  shows "\<exists>chans. MessageHandler_Close ks s =
      Ok ((cancel s)\<lparr>mh_timers := Map.empty, mh_pendingRequests := Map.empty, mh_chans := chans\<rparr>) \<and>
    length chans = length (mh_chans s) \<and>
    (\<forall>c < length chans. chans ! c =
       (if mh_pendingRequests s (ident_of c) \<noteq> None then closed_chan else mh_chans s ! c))"
proof -
  let ?ps = "range_values (mh_pendingRequests s) ks" and ?s = "cancel s"
  have heap: "mh_chans ?s = mh_chans s" "mh_timers ?s = mh_timers s" by (simp_all add: cancel_def)
  have "\<forall>p \<in> set ?ps. pend_Response p < length (mh_chans ?s) \<and> mh_chans ?s ! pend_Response p = fresh_chan"
    unfolding heap using range_values_set [OF ro] mh_inv_pending [OF inv]
    by (metis pending_request.select_convs(2))
  from close_pending_Ok [OF distinct_pending_chans [OF assms] this]
  obtain chans where C: "close_pending ?ps ?s =
      Ok (?s\<lparr>mh_timers := mh_timers s |` (- pend_Response ` set ?ps), mh_chans := chans\<rparr>)"
    "length chans = length (mh_chans s)"
    "\<forall>c < length chans. chans ! c = (if c \<in> pend_Response ` set ?ps then closed_chan else mh_chans s ! c)"
    unfolding heap by blast
  have R: "c \<in> pend_Response ` set ?ps \<longleftrightarrow> mh_pendingRequests s (ident_of c) \<noteq> None"
    if "c < length (mh_chans s)" for c
  proof
    assume "c \<in> pend_Response ` set ?ps"
    then obtain p where "p \<in> set ?ps" and pc: "pend_Response p = c" by blast
    then obtain k where k: "mh_pendingRequests s k = Some p"
      using range_values_set [OF ro] by blast
    show "mh_pendingRequests s (ident_of c) \<noteq> None"
      using mh_inv_pending [OF inv k] k pc by (metis option.simps(3) pending_request.select_convs(2))
  next
    assume "mh_pendingRequests s (ident_of c) \<noteq> None"
    then obtain p where p: "mh_pendingRequests s (ident_of c) = Some p" by blast
    have "call_ok s c" using inv that by (simp add: mh_inv_def)
    then have "pend_Response p = c" using p by (simp add: call_ok_def)
    then show "c \<in> pend_Response ` set ?ps"
      using p range_values_set [OF ro] by blast
  qed
  have "mh_timers s |` (- pend_Response ` set ?ps) = Map.empty"
  proof
    fix c
    show "(mh_timers s |` (- pend_Response ` set ?ps)) c = Map.empty c"
    proof (cases "mh_timers s c")
      case (Some k)
      then show ?thesis
        using mh_inv_timer [OF inv Some] R [of c] by (auto simp: restrict_map_def)
    qed (auto simp: restrict_map_def)
  qed
  then show ?thesis
    using C R by (intro exI [of _ chans]) (auto simp: MessageHandler_Close_def)
qed

lemma Close_inv:
  assumes inv: "mh_inv s" and "range_order (mh_pendingRequests s) ks"
    and close: "MessageHandler_Close ks s = Ok s'"
  shows "mh_inv s'"
proof -
  obtain chans where C: "s' = (cancel s)\<lparr>mh_timers := Map.empty, mh_pendingRequests := Map.empty,
      mh_chans := chans\<rparr>" "length chans = length (mh_chans s)"
    "\<forall>c < length chans. chans ! c =
       (if mh_pendingRequests s (ident_of c) \<noteq> None then closed_chan else mh_chans s ! c)"
    using Close_Ok [OF assms(1,2)] close by auto
  have "call_ok s' c" if "c < length chans" for c
  proof -
    have "call_ok s c" using inv that C(2) by (simp add: mh_inv_def)
    then show ?thesis
      using that C by (auto simp: call_ok_def settled_chan_def closed_chan_def split: option.splits)
  qed
  then show ?thesis
    using inv C unfolding mh_inv_def by (simp add: cancel_def)
qed

subsection \<open>Reachable states\<close>

text \<open>Everything else leaves pending requests, timers, channels and the counter alone.\<close>

definition same_calls :: "mh_state \<Rightarrow> mh_state \<Rightarrow> bool" where
  "same_calls s s' \<longleftrightarrow>
     mh_counter s' = mh_counter s \<and> mh_pendingRequests s' = mh_pendingRequests s \<and>
     mh_timers s' = mh_timers s \<and> mh_chans s' = mh_chans s"

lemma same_calls_inv: "same_calls s s' \<Longrightarrow> mh_inv s' = mh_inv s"
  unfolding same_calls_def by (rule mh_inv_cong) auto

lemma handleIncomingMessage_same:
  "handleIncomingMessage pick data s = Some s' \<Longrightarrow> same_calls s s'"
  by (auto simp: handleIncomingMessage_def same_calls_def stats_update_def
      split: option.splits if_splits select_result.splits)

lemma processIncomingMessages_same:
  assumes "processIncomingMessages pick pick' s = Some (s', b)"
  shows "same_calls s s'"
proof -
  have "same_calls s s'" if "handleIncomingMessage pick' data (s\<lparr>mh_incomingChan := rest\<rparr>) = Some s'"
    for data rest
    using handleIncomingMessage_same [OF that] by (simp add: same_calls_def)
  moreover have "same_calls s s" by (simp add: same_calls_def)
  ultimately show ?thesis
    using assms by (auto simp: processIncomingMessages_def split: list.splits option.splits if_splits)
qed

lemma SendNotification_same: "SendNotification pick meth params s = Some (s', res) \<Longrightarrow> same_calls s s'"
  by (auto simp: SendNotification_def same_calls_def stats_update_def
      split: option.splits select_result.splits)

lemma SendResponse_same: "SendResponse pick ident result err s = Some (s', res) \<Longrightarrow> same_calls s s'"
  by (auto simp: SendResponse_def same_calls_def split: option.splits select_result.splits)

lemma handleResponses_cases:
  assumes "handleResponses oor pick s = Some (Ok (s', b))"
  obtains "s' = s" | r rest where "mh_responseChan s = r # rest"
    and "correlateResponse oor r (s\<lparr>mh_responseChan := rest\<rparr>) = Ok s'"
  using assms by (auto simp: handleResponses_def split: list.splits option.splits if_splits outcome.splits)

lemma correlateResponse_length:
  "correlateResponse oor r s = Ok s' \<Longrightarrow> length (mh_chans s') = length (mh_chans s)"
  by (auto simp: correlateResponse_def deliver_def take_pending_def mh_simps
      split: if_splits option.splits outcome.splits)

lemma timeout_callback_length:
  "timeout_callback k c s = Ok s' \<Longrightarrow> length (mh_chans s') = length (mh_chans s)"
  by (auto simp: timeout_callback_def chan_close_def chan_update_def ctx_cancel_def stats_update_def
      split: if_splits)

lemma close_pending_length:
  "close_pending ps s = Ok s' \<Longrightarrow> length (mh_chans s') = length (mh_chans s)"
  by (induction ps arbitrary: s) (auto simp: mh_simps split: outcome.splits if_splits)

lemma Close_length:
  "MessageHandler_Close ks s = Ok s' \<Longrightarrow> length (mh_chans s') = length (mh_chans s)"
  by (auto simp: MessageHandler_Close_def cancel_def split: outcome.splits dest: close_pending_length)

lemma step_length: "mh_step oor s s' \<Longrightarrow> length (mh_chans s) \<le> length (mh_chans s')"
proof (induction rule: mh_step.cases)
  case (send_request pick meth params s s' res)
  then show ?case using SendRequest_length by fastforce
next
  case (responses pick s s' b)
  then show ?case
    by (auto elim!: handleResponses_cases dest!: correlateResponse_length)
next
  case (fire s c ident s')
  then show ?case by (auto simp: timer_stop_def dest: timeout_callback_length)
next
  case (closing s ks s')
  then show ?case by (simp add: Close_length)
qed (auto simp: chan_update_def dest!: processIncomingMessages_same SendNotification_same
      SendResponse_same simp: same_calls_def)

lemma read_response_inv:
  assumes "mh_inv s" and "c < length (mh_chans s)"
  shows "mh_inv (chan_update c (\<lambda>ch. ch\<lparr>rc_buf := []\<rparr>) s)"
proof -
  let ?s = "chan_update c (\<lambda>ch. ch\<lparr>rc_buf := []\<rparr>) s"
  have "call_ok ?s c'" if "c' < length (mh_chans s)" for c'
  proof -
    have "call_ok s c'" using assms(1) that by (simp add: mh_inv_def)
    then show ?thesis
      using assms(2)
      by (auto simp: call_ok_def chan_update_def settled_chan_def fresh_chan_def nth_list_update
          split: option.splits)
  qed
  then show ?thesis
    using assms unfolding mh_inv_def by (simp add: chan_update_def)
qed

lemma step_inv:
  assumes "mh_step oor s s'" and "mh_inv s" and "length (mh_chans s') < 2 ^ 64"
  shows "mh_inv s'"
  using assms
proof (induction rule: mh_step.cases)
  case (read_response c s)
  then show ?case by (auto intro: read_response_inv)
next
  case (send_request pick meth params s s' res)
  then show ?case by (auto intro: SendRequest_inv)
next
  case (responses pick s s' b)
  from responses(3) show ?case
  proof (cases rule: handleResponses_cases)
    case 1
    then show ?thesis using responses by simp
  next
    case (2 r rest)
    have "mh_inv s" using responses by simp
    then have "mh_inv (s\<lparr>mh_responseChan := rest\<rparr>)"
      by (rule same_calls_inv [THEN iffD2, rotated]) (simp add: same_calls_def)
    then show ?thesis using 2 responses correlateResponse_inv by blast
  qed
next
  case (fire s c ident s')
  have s': "s' = s\<lparr>mh_stats := (mh_stats s)\<lparr>ms_Timeouts := ms_Timeouts (mh_stats s) + 1\<rparr>,
          mh_timers := (mh_timers s)(c := None),
          mh_pendingRequests := (mh_pendingRequests s)(ident := None),
          mh_chans := (mh_chans s)[c := closed_chan]\<rparr>"
    using fire timeout_callback_Ok [of s c ident] by (simp add: closed_chan_def)
  have "c < length (mh_chans s)" "ident = ident_of c"
    using mh_inv_timer fire by blast+
  then have "mh_inv s'"
    using fire by (intro mh_inv_settle [of s c closed_chan s'])
      (auto simp: s' settled_chan_def closed_chan_def)
  then show ?case using fire by simp
next
  case (closing s ks s')
  then show ?case using Close_inv by blast
next
  case (process pick pick' s s' b)
  then show ?case using processIncomingMessages_same same_calls_inv by blast
next
  case (send_notification pick meth params s s' ures)
  then show ?case using SendNotification_same same_calls_inv by blast
next
  case (send_response pick ident result err s s' ures)
  then show ?case using SendResponse_same same_calls_inv by blast
qed (erule same_calls_inv [THEN iffD2, rotated], simp add: same_calls_def)+

lemma NewMessageHandler_inv: "NewMessageHandler ctx config = Ok s \<Longrightarrow> mh_inv s"
  by (auto simp: NewMessageHandler_def Let_def mh_inv_def split: if_splits)

lemma reachable_inv:
  "mh_reachable oor s \<Longrightarrow> length (mh_chans s) < 2 ^ 64 \<Longrightarrow> mh_inv s"
proof (induction rule: mh_reachable.induct)
  case (start ctx config s)
  then show ?case by (blast intro: NewMessageHandler_inv)
next
  case (step s s')
  then show ?case using step_length [of oor s s'] step_inv by (metis le_less_trans)
qed

subsection \<open>Settled requests\<close>

lemma settled_step:
  assumes "mh_step oor s s'" and "mh_inv s" and "length (mh_chans s') < 2 ^ 64"
    and "c < length (mh_chans s)" and "mh_pendingRequests s (ident_of c) = None"
    and "rc_buf (mh_chans s ! c) = []"
  shows "mh_pendingRequests s' (ident_of c) = None \<and> rc_buf (mh_chans s' ! c) = []"
  using assms(1)
proof cases
  case (read_response c')
  then show ?thesis
    using assms by (cases "c' = c") (auto simp: chan_update_def)
next
  case (send_request pick meth params res)
  show ?thesis
  proof (cases "mh_ctx s")
    case (Some e)
    then show ?thesis using send_request assms by (auto simp: SendRequest_def)
  next
    case None
    obtain ident c' s1 where nc: "new_call s = (ident, c', s1)" by (cases "new_call s") auto
    note sr = send_request [unfolded SendRequest_def nc]
    have c': "c' = length (mh_chans s)" and s1: "mh_chans s1 = mh_chans s @ [fresh_chan]"
      "mh_pendingRequests s1 = mh_pendingRequests s"
      using nc by (auto simp: new_call_def RequestID_Next_def fresh_chan_def Let_def)
    have "length (mh_chans s') = Suc (length (mh_chans s))"
      using sr None s1 by (auto simp: finish_request_def stats_update_def store_pending_def Let_def
          split: option.splits select_result.splits)
    then have room: "Suc (length (mh_chans s)) < 2 ^ 64" using assms(3) by simp
    have ident: "ident = ident_of (length (mh_chans s))"
      using store_new_call_inv [OF assms(2) nc room] by blast
    have "ident \<noteq> ident_of c"
      using ident room assms(4) ident_of_inject [of c "length (mh_chans s)"] by auto
    then show ?thesis
      using sr None c' s1 assms(4-)
      by (auto simp: finish_request_def removePendingRequest_def store_pending_def mh_simps nth_append
          Let_def split: option.splits select_result.splits)
  qed
next
  case (send_notification pick meth params ures)
  then show ?thesis using assms SendNotification_same by (fastforce simp: same_calls_def)
next
  case (send_response pick ident result err ures)
  then show ?thesis using assms SendResponse_same by (fastforce simp: same_calls_def)
next
  case (process pick pick' b)
  then show ?thesis using assms processIncomingMessages_same by (fastforce simp: same_calls_def)
next
  case (responses pick b)
  then show ?thesis
  proof (cases rule: handleResponses_cases)
    case 1
    then show ?thesis using assms by simp
  next
    case (2 r rest)
    let ?s = "s\<lparr>mh_responseChan := rest\<rparr>"
    have inv: "mh_inv ?s"
      using assms(2) by (rule same_calls_inv [THEN iffD2, rotated]) (simp add: same_calls_def)
    show ?thesis
    proof (cases "find_pending oor r ?s")
      case None
      then show ?thesis using 2 assms by (auto simp: correlateResponse_def split: if_splits)
    next
      case (Some pr)
      then obtain p r' where pr: "find_pending oor r ?s = Some (p, r')" by (cases pr) auto
      note f = find_pending_Some(1) [OF pr inv]
      have idp: "pend_ID p \<noteq> ident_of c" using f assms(5) by auto
      moreover obtain d where "pend_ID p = ident_of d" "pend_Response p = d"
        using mh_inv_pending [OF inv f] by (metis pending_request.select_convs(2))
      ultimately have "pend_Response p \<noteq> c" by auto
      moreover have "deliver p r' (take_pending p ?s) = Ok s'"
        using 2(2) pr by (auto simp: correlateResponse_def split: if_splits)
      ultimately show ?thesis
        using assms(5,6) idp unfolding deliver_Ok [OF inv f] by auto
    qed
  qed
next
  case (fire c' ident)
  note t = mh_inv_timer [OF assms(2) fire(1)]
  have "c' \<noteq> c" using t assms(5) by auto
  then show ?thesis
    using fire assms t timeout_callback_Ok [OF assms(2) fire(1)] by auto
next
  case (closing ks)
  then show ?thesis
    using Close_Ok [OF assms(2) closing(1)] assms by auto
qed (use assms in auto)

lemma settled_steps:
  assumes "(mh_step oor)\<^sup>*\<^sup>* s s'" and "mh_inv s" and "length (mh_chans s') < 2 ^ 64"
    and "c < length (mh_chans s)" and "mh_pendingRequests s (ident_of c) = None"
    and "rc_buf (mh_chans s ! c) = []"
  shows "mh_inv s' \<and> length (mh_chans s) \<le> length (mh_chans s') \<and>
    mh_pendingRequests s' (ident_of c) = None \<and> rc_buf (mh_chans s' ! c) = []"
  using assms(1,3)
proof (induction rule: rtranclp_induct)
  case base
  then show ?case using assms by simp
next
  case (step t t')
  note len = step_length [OF step(2)]
  then have IH: "mh_inv t" "length (mh_chans s) \<le> length (mh_chans t)"
    "mh_pendingRequests t (ident_of c) = None" "rc_buf (mh_chans t ! c) = []"
    using step.IH step.prems by auto
  show ?case
    using settled_step [OF step(2) IH(1) step.prems _ IH(3,4)] step_inv [OF step(2) IH(1) step.prems]
      IH(2) len assms(4) by auto
qed

subsection \<open>Ids on the wire\<close>

lemma ident_of_wire:
  assumes "Suc c \<le> 2 ^ 53"
  shows "wire_view (ident_of c) = Some (GFloat (F64 (of_nat (Suc c))))"
proof -
  have "sint (of_nat (Suc c) :: int64) = int (Suc c)"
    using assms sint_word_of_int_range [of "int (Suc c)"] by simp
  then show ?thesis
    using assms wire_view_GInt64 [of "of_nat (Suc c)"] by (simp add: ident_of_def)
qed

lemma wire_ident_generic:
  "Suc c \<le> 2 ^ 53 \<Longrightarrow> generic (GFloat (F64 (of_nat (Suc c))))"
  using ident_of_wire wire_view_is_generic by blast

lemma float_to_int64_trunc:
  "- (2 ^ 63) \<le> rat_trunc q \<Longrightarrow> rat_trunc q < 2 ^ 63 \<Longrightarrow>
     float_to_int64 oor (F64 q) = word_of_int (rat_trunc q)"
  by (simp add: float_to_int64_def)

lemma float_to_ident:
  assumes "rat_trunc q = int (Suc c)" and "int (Suc c) < 2 ^ 63"
  shows "GInt64 (float_to_int64 oor (F64 q)) = ident_of c"
  using assms float_to_int64_trunc [of q oor] by (simp add: ident_of_def)

lemma pending_float_None:
  assumes "mh_inv s"
  shows "mh_pendingRequests s (GFloat f) = None"
proof (rule ccontr)
  assume "mh_pendingRequests s (GFloat f) \<noteq> None"
  then obtain p where "mh_pendingRequests s (GFloat f) = Some p" by blast
  then obtain c where "GFloat f = ident_of c"
    using mh_inv_pending [OF assms] by metis
  then show False by (simp add: ident_of_def)
qed

lemma correlate_truncated:
  assumes inv: "mh_inv s" and c: "c < length (mh_chans s)"
    and p: "mh_pendingRequests s (ident_of c) = Some p"
    and id: "resp_ID r = GFloat (F64 q)" and q: "rat_trunc q = int (Suc c)" "int (Suc c) < 2 ^ 63"
  shows "\<exists>s'. correlateResponse oor r s = Ok s' \<and> mh_pendingRequests s' (ident_of c) = None \<and>
    mh_chans s' ! c = \<lparr>rc_buf = [r\<lparr>resp_ID := ident_of c\<rparr>], rc_closed = True, rc_cancelled = True\<rparr>"
proof -
  have "find_pending oor r s = Some (p, r\<lparr>resp_ID := ident_of c\<rparr>)"
    by (simp add: find_pending_def id pending_float_None [OF inv] float_to_ident [OF q] p Let_def)
  moreover have "pend_Response p = c"
  proof -
    have "call_ok s c" using inv c by (simp add: mh_inv_def)
    then show ?thesis using p by (simp add: call_ok_def)
  qed
  ultimately show ?thesis
    using c by (simp add: correlateResponse_def id deliver_Ok [OF inv p])
qed

section \<open>Concrete runs\<close>

text \<open>
  A handler with the default configuration after one request for \<open>ping\<close>, and after the response
  to it was received, for the witnesses below.
\<close>

definition ping_payload :: payload where
  "ping_payload = Text (JObj [(''jsonrpc'', JStr ''2.0''), (''id'', JInt 1), (''method'', JStr ''ping'')])"

definition mh_fresh :: mh_state where
  "mh_fresh = \<lparr>mh_incomingChan = [], mh_outgoingChan = [], mh_requestChan = [],
     mh_notificationChan = [], mh_responseChan = [], mh_pendingRequests = Map.empty,
     mh_counter = 0, mh_ctx = None, mh_requestTimeout = default_timeout, mh_bufferSize = 100,
     mh_stats = \<lparr>ms_RequestsSent = 0, ms_ResponsesReceived = 0, ms_NotificationsSent = 0,
       ms_Errors = 0, ms_Timeouts = 0\<rparr>,
     mh_chans = [], mh_timers = Map.empty\<rparr>"

definition mh_asked :: mh_state where
  "mh_asked = mh_fresh\<lparr>mh_outgoingChan := [ping_payload],
     mh_pendingRequests := [ident_of 0 \<mapsto> \<lparr>pend_ID = ident_of 0, pend_Response = 0\<rparr>],
     mh_counter := 1,
     mh_stats := \<lparr>ms_RequestsSent = 1, ms_ResponsesReceived = 0, ms_NotificationsSent = 0,
       ms_Errors = 0, ms_Timeouts = 0\<rparr>,
     mh_chans := [fresh_chan], mh_timers := [0 \<mapsto> ident_of 0]\<rparr>"

definition pong :: response where
  "pong = \<lparr>resp_JSONRPC = ''2.0'', resp_ID = ident_of 0, resp_Result = GString ''pong'', resp_Error = None\<rparr>"

definition pong_payload :: payload where
  "pong_payload = Text (JObj [(''jsonrpc'', JStr ''2.0''), (''id'', JInt 1), (''result'', JStr ''pong'')])"

definition mh_answered :: mh_state where
  "mh_answered = mh_asked\<lparr>mh_pendingRequests := Map.empty,
     mh_stats := \<lparr>ms_RequestsSent = 1, ms_ResponsesReceived = 1, ms_NotificationsSent = 0,
       ms_Errors = 0, ms_Timeouts = 0\<rparr>,
     mh_chans := [\<lparr>rc_buf = [pong], rc_closed = True, rc_cancelled = True\<rparr>],
     mh_timers := Map.empty\<rparr>"

lemma fresh_reachable: "mh_reachable oor mh_fresh"
  by (rule mh_reachable.start [of None "\<lparr>mhc_RequestTimeout = 0, mhc_BufferSize = 0\<rparr>"])
    (simp add: NewMessageHandler_def mh_fresh_def Let_def)

lemma SendRequest_ping: "SendRequest pick ''ping'' GNil mh_fresh = Some (mh_asked, Ok 0)"
  by (simp add: SendRequest_def mh_fresh_def mh_asked_def new_call_def RequestID_Next_def
      store_pending_def finish_request_def select_send_def chan_send_def to_payload_def
      request_gval_def omit_nil_def ping_payload_def ident_of_def fresh_chan_def stats_update_def Let_def)

lemma asked_reachable: "mh_reachable oor mh_asked"
  using fresh_reachable SendRequest_ping by (blast intro: mh_reachable.step mh_step.send_request)

lemma wire_one: "to_iface (JInt 1) = Some (GFloat (F64 1))"
  using parse_float_of_int [of 1] by simp

lemma pong_parsed:
  "ParseMessage pong_payload = Some \<lparr>msg_JSONRPC = ''2.0'', msg_ID = GFloat (F64 1), msg_Method = [],
     msg_Params = GNil, msg_Result = GString ''pong'', msg_Error = None\<rparr>"
  by (simp add: ParseMessage_def pong_payload_def decode_struct_def find_message_field dec_string_def
      dec_iface_def wire_one zero_message_def del: to_iface.simps(3))

lemma answered_reachable: "mh_reachable oor mh_answered"
proof -
  let ?r = "pong\<lparr>resp_ID := GFloat (F64 1)\<rparr>"
  have "mh_reachable oor (mh_asked\<lparr>mh_incomingChan := [pong_payload]\<rparr>)"
    by (rule mh_reachable.step [OF asked_reachable], rule mh_step.deliver_in)
      (simp add: chan_send_def mh_asked_def mh_fresh_def)
  then have "mh_reachable oor (mh_asked\<lparr>mh_responseChan := [?r]\<rparr>)"
    by (rule mh_reachable.step, intro mh_step.process [where pick = True and pick' = True and b = True])
      (simp add: processIncomingMessages_def handleIncomingMessage_def pong_parsed IsRequest_def
        IsNotification_def IsResponse_def ToResponse_def select_send_def chan_send_def mh_asked_def
        mh_fresh_def pong_def)
  moreover have "correlateResponse oor ?r mh_asked = Ok mh_answered"
    by (simp add: correlateResponse_def find_pending_def float_to_int64_def rat_trunc_def pong_def
        ident_of_def deliver_def take_pending_def mh_simps mh_asked_def mh_answered_def mh_fresh_def
        fresh_chan_def Let_def)
  ultimately show ?thesis
    by (elim mh_reachable.step, intro mh_step.responses [where pick = True and b = True])
      (simp add: handleResponses_def, simp add: mh_asked_def mh_fresh_def)
qed

section \<open>Properties\<close>

text \<open>C1: What a caller reads from the channel of its request is one response that carries the
  request's own id, whatever the other side sent and whatever else the handler did: the channel is
  then closed, and the request is neither pending nor able to time out.\<close>

theorem delivered_own_response:
  assumes "mh_reachable oor s" and "length (mh_chans s) < 2 ^ 64"
    and "c < length (mh_chans s)" and "rc_buf (mh_chans s ! c) \<noteq> []"
  shows "\<exists>r. rc_buf (mh_chans s ! c) = [r] \<and> resp_ID r = ident_of c \<and>
    rc_closed (mh_chans s ! c) \<and> mh_pendingRequests s (ident_of c) = None \<and> mh_timers s c = None"
proof -
  have "call_ok s c"
    using reachable_inv [OF assms(1,2)] assms(3) by (simp add: mh_inv_def)
  then show ?thesis
    using assms(4) by (auto simp: call_ok_def settled_chan_def fresh_chan_def split: option.splits)
qed

theorem delivered_own_response_witness:
  "\<exists>r. rc_buf (mh_chans mh_answered ! 0) = [r] \<and> resp_ID r = ident_of 0 \<and>
    rc_closed (mh_chans mh_answered ! 0) \<and> mh_pendingRequests mh_answered (ident_of 0) = None \<and>
    mh_timers mh_answered 0 = None"
  using delivered_own_response [OF answered_reachable [of "\<lambda>_. 0"], of 0]
  by (simp add: mh_answered_def)

text \<open>A response is delivered at most once: after a request was answered (and the answer read),
  timed out or was cancelled, no later message, timeout or call makes it pending again or puts
  another response into its channel.\<close>

theorem delivered_at_most_once:
  assumes "mh_reachable oor s" and "(mh_step oor)\<^sup>*\<^sup>* s s'" and "length (mh_chans s') < 2 ^ 64"
    and "c < length (mh_chans s)" and "mh_pendingRequests s (ident_of c) = None"
    and "rc_buf (mh_chans s ! c) = []"
  shows "mh_pendingRequests s' (ident_of c) = None \<and> rc_buf (mh_chans s' ! c) = []"
proof -
  have "length (mh_chans s) \<le> length (mh_chans s')"
    using assms(2) by (induction rule: rtranclp_induct) (auto dest: step_length)
  then have "mh_inv s" using reachable_inv [OF assms(1)] assms(3) by simp
  then show ?thesis using settled_steps [OF assms(2)] assms by blast
qed

definition mh_read :: mh_state where
  "mh_read = chan_update 0 (\<lambda>ch. ch\<lparr>rc_buf := []\<rparr>) mh_answered"

definition mh_read_in :: mh_state where
  "mh_read_in = mh_read\<lparr>mh_incomingChan := [pong_payload]\<rparr>"

theorem delivered_at_most_once_witness:
  "mh_pendingRequests mh_read_in (ident_of 0) = None \<and> rc_buf (mh_chans mh_read_in ! 0) = []"
proof (rule delivered_at_most_once)
  show "mh_reachable (\<lambda>_. 0) mh_read"
    unfolding mh_read_def
    by (rule mh_reachable.step [OF answered_reachable], rule mh_step.read_response)
      (simp add: mh_answered_def)
  show "(mh_step (\<lambda>_. 0))\<^sup>*\<^sup>* mh_read mh_read_in"
    unfolding mh_read_in_def
    by (rule r_into_rtranclp, rule mh_step.deliver_in)
      (simp add: mh_read_def chan_send_def chan_update_def mh_answered_def mh_asked_def mh_fresh_def)
qed (simp_all add: mh_read_def mh_read_in_def chan_update_def mh_answered_def)



text \<open>C2: Request and response over the wire: while fewer than \<open>2^53\<close> requests were made, the request
  with channel \<open>c\<close> is parsed by the other side as a request with its method and parameters, and the
  answer that side sends back under the id it parsed (a \<open>float64\<close>) is correlated with exactly
  that request and delivered into channel \<open>c\<close> with the original \<open>int64\<close> id and the result.\<close>

theorem answer_reaches_caller:
  assumes "mh_reachable oor s" and "c < length (mh_chans s)" and "length (mh_chans s) \<le> 2 ^ 53"
    and "mh_pendingRequests s (ident_of c) = Some p" and "meth \<noteq> []"
    and "wire_view params = Some ps" and "wire_view result = Some v"
  shows "\<exists>data msg data' msg' resp s'.
    to_payload (request_gval \<lparr>req_JSONRPC = ''2.0'', req_ID = ident_of c, req_Method = meth,
      req_Params = params\<rparr>) = Some data \<and>
    ParseMessage data = Some msg \<and>
    ToRequest msg = Some \<lparr>req_JSONRPC = ''2.0'', req_ID = msg_ID msg, req_Method = meth, req_Params = ps\<rparr> \<and>
    to_payload (response_gval \<lparr>resp_JSONRPC = ''2.0'', resp_ID = msg_ID msg, resp_Result = result,
      resp_Error = None\<rparr>) = Some data' \<and>
    ParseMessage data' = Some msg' \<and> ToResponse msg' = Some resp \<and>
    correlateResponse oor resp s = Ok s' \<and> mh_pendingRequests s' (ident_of c) = None \<and>
    rc_buf (mh_chans s' ! c) = [\<lparr>resp_JSONRPC = ''2.0'', resp_ID = ident_of c, resp_Result = v,
      resp_Error = None\<rparr>]"
proof -
  have inv: "mh_inv s" using reachable_inv [OF assms(1)] assms(3) by simp
  have c: "Suc c \<le> 2 ^ 53" using assms(2,3) by simp
  let ?f = "GFloat (F64 (of_nat (Suc c)))"
  obtain j where j: "marshal (request_gval \<lparr>req_JSONRPC = ''2.0'', req_ID = ident_of c,
      req_Method = meth, req_Params = params\<rparr>) = Some j"
    "ParseMessage (Text j) = Some \<lparr>msg_JSONRPC = ''2.0'', msg_ID = ?f, msg_Method = meth,
      msg_Params = ps, msg_Result = GNil, msg_Error = None\<rparr>"
    using request_wire [of "\<lparr>req_JSONRPC = ''2.0'', req_ID = ident_of c,
      req_Method = meth, req_Params = params\<rparr>" ?f ps] ident_of_wire [OF c] assms(6) by auto
  obtain j' where j': "marshal (response_gval \<lparr>resp_JSONRPC = ''2.0'', resp_ID = ?f,
      resp_Result = result, resp_Error = None\<rparr>) = Some j'"
    "ParseMessage (Text j') = Some \<lparr>msg_JSONRPC = ''2.0'', msg_ID = ?f, msg_Method = [],
      msg_Params = GNil, msg_Result = v, msg_Error = None\<rparr>"
    using response_wire [of "\<lparr>resp_JSONRPC = ''2.0'', resp_ID = ?f, resp_Result = result,
      resp_Error = None\<rparr>" ?f v "\<lambda>_. GNil"] wire_ident_generic [OF c] assms(7) by auto
  let ?r = "\<lparr>resp_JSONRPC = ''2.0'', resp_ID = ?f, resp_Result = v, resp_Error = None\<rparr>"
  let ?m = "\<lparr>msg_JSONRPC = ''2.0'', msg_ID = ?f, msg_Method = meth, msg_Params = ps,
      msg_Result = GNil, msg_Error = None\<rparr>"
  let ?m' = "\<lparr>msg_JSONRPC = ''2.0'', msg_ID = ?f, msg_Method = [], msg_Params = GNil,
      msg_Result = v, msg_Error = None\<rparr>"
  have tr: "rat_trunc (of_nat (Suc c)) = int (Suc c)"
    unfolding rat_trunc_def by (simp only: of_nat_0_le_iff if_True floor_of_nat)
  obtain s' where s': "correlateResponse oor ?r s = Ok s'" "mh_pendingRequests s' (ident_of c) = None"
    "mh_chans s' ! c = \<lparr>rc_buf = [?r\<lparr>resp_ID := ident_of c\<rparr>], rc_closed = True, rc_cancelled = True\<rparr>"
    using correlate_truncated [OF inv assms(2,4), of ?r, OF _ tr] c by fastforce
  show ?thesis
    by (rule exI [of _ "Text j"], rule exI [of _ ?m], rule exI [of _ "Text j'"], rule exI [of _ ?m'],
        rule exI [of _ ?r], rule exI [of _ s'])
      (use j j' s' assms(5) in \<open>auto simp: to_payload_def ToRequest_def ToResponse_def
         message_class_defs\<close>)
qed

theorem answer_reaches_caller_witness:
  "\<exists>data msg data' msg' resp s'.
    to_payload (request_gval \<lparr>req_JSONRPC = ''2.0'', req_ID = ident_of 0, req_Method = ''ping'',
      req_Params = GNil\<rparr>) = Some data \<and>
    ParseMessage data = Some msg \<and>
    ToRequest msg = Some \<lparr>req_JSONRPC = ''2.0'', req_ID = msg_ID msg, req_Method = ''ping'', req_Params = GNil\<rparr> \<and>
    to_payload (response_gval \<lparr>resp_JSONRPC = ''2.0'', resp_ID = msg_ID msg,
      resp_Result = GString ''pong'', resp_Error = None\<rparr>) = Some data' \<and>
    ParseMessage data' = Some msg' \<and> ToResponse msg' = Some resp \<and>
    correlateResponse (\<lambda>_. 0) resp mh_asked = Ok s' \<and> mh_pendingRequests s' (ident_of 0) = None \<and>
    rc_buf (mh_chans s' ! 0) = [pong]"
  using answer_reaches_caller [OF asked_reachable [of "\<lambda>_. 0"], of 0 _ "''ping''" GNil GNil
      "GString ''pong''" "GString ''pong''"]
  by (simp add: mh_asked_def pong_def)

text \<open>Ids are compared after dropping the fraction: a response whose id is any number between
  \<open>n\<close> and \<open>n + 1\<close> settles the pending request \<open>n\<close> and is delivered to it as its answer.\<close>

theorem fractional_id_settles:
  assumes "mh_reachable oor s" and "length (mh_chans s) < 2 ^ 63" and "c < length (mh_chans s)"
    and "mh_pendingRequests s (ident_of c) = Some p"
    and "of_nat (Suc c) \<le> q" and "q < of_nat (Suc c) + 1" and "resp_ID r = GFloat (F64 q)"
  shows "\<exists>s'. correlateResponse oor r s = Ok s' \<and> mh_pendingRequests s' (ident_of c) = None \<and>
    rc_buf (mh_chans s' ! c) = [r\<lparr>resp_ID := ident_of c\<rparr>]"
proof -
  have inv: "mh_inv s" using reachable_inv [OF assms(1)] assms(2) by simp
  have "\<lfloor>q\<rfloor> = int (Suc c)"
    using assms(5,6) by (intro floor_unique) auto
  moreover have "0 \<le> q"
    using assms(5) by (rule order_trans [rotated]) simp
  ultimately have "rat_trunc q = int (Suc c)"
    by (simp add: rat_trunc_def)
  moreover have "int (Suc c) < 2 ^ 63" using assms(2,3) by simp
  ultimately show ?thesis
    using correlate_truncated [OF inv assms(3,4,7)] by fastforce
qed

theorem fractional_id_settles_witness:
  "\<exists>s'. correlateResponse (\<lambda>_. 0) (pong\<lparr>resp_ID := GFloat (F64 (3 / 2))\<rparr>) mh_asked = Ok s' \<and>
    mh_pendingRequests s' (ident_of 0) = None \<and> rc_buf (mh_chans s' ! 0) = [pong]"
  using fractional_id_settles [OF asked_reachable [of "\<lambda>_. 0"], of 0 _ "3 / 2"
      "pong\<lparr>resp_ID := GFloat (F64 (3 / 2))\<rparr>"]
  by (simp add: mh_asked_def pong_def)

text \<open>C4: Closing settles everything: every pending request's channel is closed and its timer and
  context are stopped, nothing stays pending, and from then on no request, notification or response
  can be sent.\<close>

theorem Close_settles_all:
  assumes "mh_reachable oor s" and "length (mh_chans s) < 2 ^ 64"
    and "range_order (mh_pendingRequests s) ks"
  shows "\<exists>s'. MessageHandler_Close ks s = Ok s' \<and> mh_pendingRequests s' = Map.empty \<and>
    mh_timers s' = Map.empty \<and> length (mh_chans s') = length (mh_chans s) \<and>
    (\<forall>c < length (mh_chans s). rc_cancelled (mh_chans s' ! c) \<and>
       (mh_pendingRequests s (ident_of c) \<noteq> None \<longrightarrow> rc_closed (mh_chans s' ! c))) \<and>
    (\<exists>e. \<forall>pick meth v res err. SendRequest pick meth v s' = Some (s', Err e) \<and>
       SendNotification pick meth v s' = Some (s', Err e) \<and>
       SendResponse pick v res err s' = Some (s', Err e))"
proof -
  note inv = reachable_inv [OF assms(1,2)]
  obtain chans where C: "MessageHandler_Close ks s =
      Ok ((cancel s)\<lparr>mh_timers := Map.empty, mh_pendingRequests := Map.empty, mh_chans := chans\<rparr>)"
    "length chans = length (mh_chans s)"
    "\<forall>c < length chans. chans ! c =
       (if mh_pendingRequests s (ident_of c) \<noteq> None then closed_chan else mh_chans s ! c)"
    using Close_Ok [OF inv assms(3)] by blast
  have settled: "rc_cancelled (chans ! c) \<and>
       (mh_pendingRequests s (ident_of c) \<noteq> None \<longrightarrow> rc_closed (chans ! c))"
    if "c < length (mh_chans s)" for c
  proof -
    have "call_ok s c" using inv that by (simp add: mh_inv_def)
    then show ?thesis
      using C that by (auto simp: call_ok_def settled_chan_def closed_chan_def split: option.splits)
  qed
  obtain e where "mh_ctx (cancel s) = Some e" by (cases "mh_ctx s") (auto simp: cancel_def)
  then show ?thesis
    using C(1,2) settled
    by (auto simp: SendRequest_def SendNotification_def SendResponse_def)
qed

theorem Close_settles_all_witness:
  "\<exists>s'. MessageHandler_Close [ident_of 0] mh_asked = Ok s' \<and> mh_pendingRequests s' = Map.empty \<and>
    rc_closed (mh_chans s' ! 0) \<and> (\<exists>e. SendRequest True ''ping'' GNil s' = Some (s', Err e))"
proof -
  have "range_order (mh_pendingRequests mh_asked) [ident_of 0]"
    and "length (mh_chans mh_asked) < 2 ^ 64" and "0 < length (mh_chans mh_asked)"
    and "mh_pendingRequests mh_asked (ident_of 0) \<noteq> None"
    by (simp_all add: mh_asked_def range_order_def)
  then show ?thesis
    using Close_settles_all [OF asked_reachable [of "\<lambda>_. 0"]] by meson
qed

end
