(* ===== verification/Interfaces.thy ===== *)
theory Interfaces
  imports Go_Prelude
begin

text \<open>
  The interfaces between components, as locales. \<open>store\<close> is the contract of the tables that
  the server side keeps under a name (resources, tools, prompts): what a lookup finds after an
  entry was registered; \<open>registry\<close> extends it with unregistering. \<open>token_pool\<close> is the contract of the channels that are
  used as counting semaphores for workers. The components that provide an interface interpret
  its locale on their own operations.
\<close>

section \<open>Registries\<close>

text \<open>An operation of a history: register an entry under a name, or unregister the name.\<close>

datatype ('k, 'v) reg_op = Register 'k 'v | Unregister 'k

fun reg_effect :: "('k, 'v) reg_op \<Rightarrow> ('k \<rightharpoonup> 'v) \<Rightarrow> ('k \<rightharpoonup> 'v)" where
  "reg_effect (Register k v) m = m(k \<mapsto> v)"
| "reg_effect (Unregister k) m = m(k := None)"

text \<open>\<open>store\<close>: entries can only be added. \<open>registry\<close> extends it with removal.\<close>

locale store =
  fixes inv :: "'s \<Rightarrow> bool"
    and register :: "'k \<Rightarrow> 'v \<Rightarrow> 's \<Rightarrow> 's"
    and look_up :: "'s \<Rightarrow> 'k \<Rightarrow> 'v option"
  assumes inv_register: "inv s \<Longrightarrow> inv (register k v s)"
    and look_up_register: "inv s \<Longrightarrow> look_up (register k v s) = (look_up s)(k \<mapsto> v)"
begin

text \<open>After any sequence of registrations a name has its last entry.\<close>

lemma register_all:
  "inv s \<Longrightarrow> inv (fold (\<lambda>(k, v). register k v) kvs s) \<and>
     look_up (fold (\<lambda>(k, v). register k v) kvs s) = look_up s ++ map_of (rev kvs)"
  by (induction kvs arbitrary: s) (auto simp: inv_register look_up_register)

end

locale registry = store inv register look_up
  for inv :: "'s \<Rightarrow> bool" and register :: "'k \<Rightarrow> 'v \<Rightarrow> 's \<Rightarrow> 's" and look_up :: "'s \<Rightarrow> 'k \<Rightarrow> 'v option" +
  fixes unregister :: "'k \<Rightarrow> 's \<Rightarrow> 's \<times> bool"
  assumes inv_unregister: "inv s \<Longrightarrow> inv (fst (unregister k s))"
    and look_up_unregister: "inv s \<Longrightarrow> look_up (fst (unregister k s)) = (look_up s)(k := None)"
    and unregister_result: "inv s \<Longrightarrow> snd (unregister k s) \<longleftrightarrow> look_up s k \<noteq> None"
begin

fun reg_apply :: "('k, 'v) reg_op \<Rightarrow> 's \<Rightarrow> 's" where
  "reg_apply (Register k v) s = register k v s"
| "reg_apply (Unregister k) s = fst (unregister k s)"

lemma reg_apply_refines:
  "inv s \<Longrightarrow> inv (reg_apply op s) \<and> look_up (reg_apply op s) = reg_effect op (look_up s)"
  by (cases op) (simp_all add: inv_register inv_unregister look_up_register look_up_unregister)

text \<open>Any history of operations is simulated by the same history on a partial function.\<close>

lemma history_refines:
  "inv s \<Longrightarrow> inv (fold reg_apply ops s) \<and> look_up (fold reg_apply ops s) = fold reg_effect ops (look_up s)"
  by (induction ops arbitrary: s) (simp_all add: reg_apply_refines)

lemma register_then_unregister:
  assumes "inv s"
  shows "look_up (fst (unregister k (register k v s))) = (look_up s)(k := None)"
    and "snd (unregister k (register k v s))"
  using assms by (simp_all add: inv_register look_up_unregister look_up_register unregister_result)

lemma unregister_twice:
  assumes "inv s"
  shows "\<not> snd (unregister k (fst (unregister k s)))"
  using assms by (simp add: inv_unregister unregister_result look_up_unregister)

end

text \<open>What a history leaves under a name: the entry of the last operation on that name.\<close>

fun last_entry :: "('k, 'v) reg_op list \<Rightarrow> 'k \<Rightarrow> 'v option \<Rightarrow> 'v option" where
  "last_entry [] k x = x"
| "last_entry (Register k' v # ops) k x = last_entry ops k (if k' = k then Some v else x)"
| "last_entry (Unregister k' # ops) k x = last_entry ops k (if k' = k then None else x)"

lemma fold_reg_effect: "fold reg_effect ops m k = last_entry ops k (m k)"
proof (induction ops arbitrary: m)
  case (Cons op ops)
  then show ?case by (cases op) auto
qed simp

section \<open>Worker pools\<close>

locale token_pool =
  fixes capacity :: "'s \<Rightarrow> nat" and free :: "'s \<Rightarrow> nat" and busy :: "'s \<Rightarrow> nat"
    and wanted :: "'s \<Rightarrow> bool"
    and acquires :: "'s \<Rightarrow> 's \<Rightarrow> bool" and releases :: "'s \<Rightarrow> 's \<Rightarrow> bool"
  assumes acquire_iff: "wanted s \<Longrightarrow> (\<exists>s'. acquires s s') \<longleftrightarrow> 0 < free s"
    and acquire_effect: "acquires s s' \<Longrightarrow>
      free s' + 1 = free s \<and> busy s' = busy s + 1 \<and> capacity s' = capacity s"
    and release_effect: "releases s s' \<Longrightarrow>
      free s' = free s + 1 \<and> busy s' + 1 = busy s \<and> capacity s' = capacity s"
begin

definition balanced :: "'s \<Rightarrow> bool" where
  "balanced s \<longleftrightarrow> free s + busy s = capacity s"

lemma acquire_balanced: "balanced s \<Longrightarrow> acquires s s' \<Longrightarrow> balanced s'"
  using acquire_effect [of s s'] by (simp add: balanced_def)

lemma release_balanced: "balanced s \<Longrightarrow> releases s s' \<Longrightarrow> balanced s'"
  using release_effect [of s s'] by (simp add: balanced_def)

lemma busy_bounded: "balanced s \<Longrightarrow> busy s \<le> capacity s"
  by (simp add: balanced_def)

text \<open>Acquiring blocks exactly while all workers are busy; returning a token never blocks.\<close>

lemma acquire_blocks: "balanced s \<Longrightarrow> wanted s \<Longrightarrow> (\<nexists>s'. acquires s s') \<longleftrightarrow> busy s = capacity s"
  using acquire_iff [of s] by (auto simp: balanced_def)

lemma release_room: "balanced s \<Longrightarrow> releases s s' \<Longrightarrow> free s < capacity s"
  using release_effect [of s s'] by (simp add: balanced_def)

end

end
