(* ===== verification/Mcp_Server.thy ===== *)
theory Mcp_Server
  imports Rpc_Types Interfaces "HOL-Library.Multiset"
begin

text \<open>
  \<open>server/server.go\<close>: the MCP server. \<open>server_state\<close> is the struct \<open>Server\<close> with its request
  queue, its worker tokens, the work its goroutines hold, and the calls it made on its transport
  (\<open>srv_sent\<close>, oldest first). Application handlers are arguments: functions from the call to its
  outcome. A registry is a pair of maps (handlers and metadata), as in the code. The counters
  \<open>requestsProcessed\<close>, \<open>requestsActive\<close> and \<open>errors\<close> are left out: no code reads or writes them.
  The lemmas show that the registries implement the interface \<open>registry\<close>, the worker pool the
  interface \<open>token_pool\<close>, what every request is answered with, and that no request is lost.
\<close>

named_theorems srv_simps "definitions of the server"

section \<open>State\<close>

text \<open>
  A handler sees the progress token of its context, and returns content, a Go error or a panic. A
  nil slice of content is \<^term>\<open>None\<close>.
\<close>

type_synonym arguments = "(string \<times> gval) list option"
type_synonym contents = "content list option"

record prompt_message =
  pm_Role :: string
  pm_Content :: contents

type_synonym resource_handler = "string \<Rightarrow> contents outcome"
type_synonym tool_handler = "gval \<Rightarrow> string \<Rightarrow> arguments \<Rightarrow> contents outcome"
type_synonym prompt_handler = "string \<Rightarrow> arguments \<Rightarrow> prompt_message outcome"
type_synonym handler_func = "gval \<Rightarrow> gval outcome"

datatype sent =
    SentResponse gval gval "rpc_error option"
  | SentNotification string gval
  | SentClose

record server_config =
  sc_Name :: string
  sc_Version :: string
  sc_MaxConcurrentRequests :: int
  sc_RequestTimeout :: int
  sc_Capabilities :: server_capabilities

record server_state =
  srv_info :: implementation
  srv_capabilities :: server_capabilities
  srv_resourceHandlers :: "string \<rightharpoonup> resource_handler"
  srv_resourceMeta :: "string \<rightharpoonup> resource"
  srv_toolHandlers :: "string \<rightharpoonup> tool_handler"
  srv_toolMeta :: "string \<rightharpoonup> tool"
  srv_promptHandlers :: "string \<rightharpoonup> prompt_handler"
  srv_promptMeta :: "string \<rightharpoonup> prompt"
  srv_requestHandlers :: "string \<rightharpoonup> handler_func"
  srv_done :: bool
  srv_closeOnce :: bool
  srv_maxConcurrentRequests :: nat
  srv_requestTimeout :: int
  srv_requestChan :: "request list"
  srv_workerPool :: nat                \<comment> \<open>tokens in the channel\<close>
  srv_dispatching :: "request option"  \<comment> \<open>taken by the dispatcher, waiting for a token\<close>
  srv_running :: "request list"        \<comment> \<open>the \<open>handleRequest\<close> goroutines\<close>
  srv_sent :: "sent list"

definition NewServer :: "bool \<Rightarrow> server_config \<Rightarrow> server_state outcome" where
  "NewServer ctx_done config =
     (let mx = (if sc_MaxConcurrentRequests config = 0 then 100 else sc_MaxConcurrentRequests config);
          timeout = (if sc_RequestTimeout config = 0 then 30 * 1000000000
                     else sc_RequestTimeout config)
      in if mx < 0 then Panic ''makechan: size out of range''
         else Ok \<lparr>srv_info = \<lparr>impl_Name = sc_Name config, impl_Version = sc_Version config,
                    impl_ProtocolVersion = []\<rparr>,
                  srv_capabilities = sc_Capabilities config,
                  srv_resourceHandlers = Map.empty, srv_resourceMeta = Map.empty,
                  srv_toolHandlers = Map.empty, srv_toolMeta = Map.empty,
                  srv_promptHandlers = Map.empty, srv_promptMeta = Map.empty,
                  srv_requestHandlers = Map.empty, srv_done = ctx_done, srv_closeOnce = False,
                  srv_maxConcurrentRequests = nat mx, srv_requestTimeout = timeout,
                  srv_requestChan = [], srv_workerPool = nat mx, srv_dispatching = None,
                  srv_running = [], srv_sent = []\<rparr>)"

section \<open>Registration\<close>

definition Server_SendNotification :: "string \<Rightarrow> gval \<Rightarrow> server_state \<Rightarrow> server_state" where
  "Server_SendNotification meth params s =
     s\<lparr>srv_sent := srv_sent s @ [SentNotification meth params]\<rparr>"

definition resources_changed :: "server_state \<Rightarrow> server_state" where
  "resources_changed s =
     (case scap_Resources (srv_capabilities s) of
        None \<Rightarrow> s
      | Some c \<Rightarrow> if rescap_ListChanged c
                 then Server_SendNotification ''notifications/resources/list_changed'' GNil s else s)"

definition tools_changed :: "server_state \<Rightarrow> server_state" where
  "tools_changed s =
     (case scap_Tools (srv_capabilities s) of
        None \<Rightarrow> s
      | Some listChanged \<Rightarrow> if listChanged
                 then Server_SendNotification ''notifications/tools/list_changed'' GNil s else s)"

definition prompts_changed :: "server_state \<Rightarrow> server_state" where
  "prompts_changed s =
     (case scap_Prompts (srv_capabilities s) of
        None \<Rightarrow> s
      | Some listChanged \<Rightarrow> if listChanged
                 then Server_SendNotification ''notifications/prompts/list_changed'' GNil s else s)"

definition RegisterResource ::
  "string \<Rightarrow> string \<Rightarrow> string \<Rightarrow> resource_handler \<Rightarrow> server_state \<Rightarrow> server_state" where
  "RegisterResource uri name description handler s =
     resources_changed
       (s\<lparr>srv_resourceHandlers := (srv_resourceHandlers s)(uri \<mapsto> handler),
          srv_resourceMeta := (srv_resourceMeta s)(uri \<mapsto>
            \<lparr>res_URI = uri, res_Name = name, res_Description = description, res_MimeType = [],
             res_Annotations = GNil\<rparr>)\<rparr>)"

definition UnregisterResource :: "string \<Rightarrow> server_state \<Rightarrow> server_state \<times> bool" where
  "UnregisterResource uri s =
     (if srv_resourceHandlers s uri \<noteq> None \<or> srv_resourceMeta s uri \<noteq> None then
        (resources_changed
          (s\<lparr>srv_resourceHandlers := (srv_resourceHandlers s)(uri := None),
             srv_resourceMeta := (srv_resourceMeta s)(uri := None)\<rparr>), True)
      else (s, False))"

definition RegisterTool ::
  "string \<Rightarrow> string \<Rightarrow> arguments \<Rightarrow> tool_handler \<Rightarrow> server_state \<Rightarrow> server_state" where
  "RegisterTool name description inputSchema handler s =
     tools_changed
       (s\<lparr>srv_toolHandlers := (srv_toolHandlers s)(name \<mapsto> handler),
          srv_toolMeta := (srv_toolMeta s)(name \<mapsto>
            \<lparr>tool_Name = name, tool_Description = description, tool_InputSchema = inputSchema\<rparr>)\<rparr>)"

definition UnregisterTool :: "string \<Rightarrow> server_state \<Rightarrow> server_state \<times> bool" where
  "UnregisterTool name s =
     (if srv_toolHandlers s name \<noteq> None \<or> srv_toolMeta s name \<noteq> None then
        (tools_changed
          (s\<lparr>srv_toolHandlers := (srv_toolHandlers s)(name := None),
             srv_toolMeta := (srv_toolMeta s)(name := None)\<rparr>), True)
      else (s, False))"

definition RegisterPrompt ::
  "string \<Rightarrow> string \<Rightarrow> prompt_argument list \<Rightarrow> prompt_handler \<Rightarrow> server_state \<Rightarrow> server_state" where
  "RegisterPrompt name description args handler s =
     prompts_changed
       (s\<lparr>srv_promptHandlers := (srv_promptHandlers s)(name \<mapsto> handler),
          srv_promptMeta := (srv_promptMeta s)(name \<mapsto>
            \<lparr>prompt_Name = name, prompt_Description = description, prompt_Arguments = args\<rparr>)\<rparr>)"

definition UnregisterPrompt :: "string \<Rightarrow> server_state \<Rightarrow> server_state \<times> bool" where
  "UnregisterPrompt name s =
     (if srv_promptHandlers s name \<noteq> None \<or> srv_promptMeta s name \<noteq> None then
        (prompts_changed
          (s\<lparr>srv_promptHandlers := (srv_promptHandlers s)(name := None),
             srv_promptMeta := (srv_promptMeta s)(name := None)\<rparr>), True)
      else (s, False))"

definition RegisterHandler :: "string \<Rightarrow> handler_func \<Rightarrow> server_state \<Rightarrow> server_state" where
  "RegisterHandler meth handler s =
     s\<lparr>srv_requestHandlers := (srv_requestHandlers s)(meth \<mapsto> handler)\<rparr>"

section \<open>Request handlers\<close>

type_synonym reply = "(gval \<times> rpc_error option) outcome"

definition rpc_err :: "int \<Rightarrow> string \<Rightarrow> rpc_error" where
  "rpc_err code msg = \<lparr>err_Code = code, err_Message = msg, err_Data = GNil\<rparr>"

definition fail_with :: "int \<Rightarrow> string \<Rightarrow> reply" where
  "fail_with code msg = Ok (GNil, Some (rpc_err code msg))"

definition contents_gval :: "contents \<Rightarrow> gval" where
  "contents_gval cs = (case cs of None \<Rightarrow> GNil | Some xs \<Rightarrow> GSlice (map content_gval xs))"

definition prompt_message_gval :: "prompt_message \<Rightarrow> gval" where
  "prompt_message_gval pm =
     GStruct [(''role'', GString (pm_Role pm)),
              (''content'', case pm_Content pm of
                              Some [c] \<Rightarrow> content_gval c
                            | _ \<Rightarrow> contents_gval (pm_Content pm))]"

text \<open>\<open>unmarshalParams\<close> into a struct with the decoders \<open>fs\<close> and the zero value \<open>zero\<close>.\<close>

definition unmarshalParams :: "'a fields \<Rightarrow> 'a \<Rightarrow> gval \<Rightarrow> 'a option" where
  "unmarshalParams fs zero params =
     (if params = GNil then Some zero
      else case marshal params of None \<Rightarrow> None | Some j \<Rightarrow> decode_struct fs zero j)"

record call_params =
  cp_Name :: string
  cp_Arguments :: arguments
  cp_Meta :: arguments

definition zero_call :: call_params where
  "zero_call = \<lparr>cp_Name = [], cp_Arguments = None, cp_Meta = None\<rparr>"

definition call_fields :: "call_params fields" where
  "call_fields =
     [(''name'', dec_string (\<lambda>s c. c\<lparr>cp_Name := s\<rparr>)),
      (''arguments'', dec_map cp_Arguments (\<lambda>m c. c\<lparr>cp_Arguments := m\<rparr>)),
      (''_meta'', dec_map cp_Meta (\<lambda>m c. c\<lparr>cp_Meta := m\<rparr>))]"

definition get_fields :: "call_params fields" where
  "get_fields =
     [(''name'', dec_string (\<lambda>s c. c\<lparr>cp_Name := s\<rparr>)),
      (''arguments'', dec_map cp_Arguments (\<lambda>m c. c\<lparr>cp_Arguments := m\<rparr>))]"

definition uri_fields :: "string fields" where
  "uri_fields = [(''uri'', dec_string (\<lambda>s _. s))]"

definition handleInitialize :: "server_state \<Rightarrow> gval \<Rightarrow> reply" where
  "handleInitialize s params =
     Ok (initialize_response_gval
           \<lparr>initr_ProtocolVersion = ProtocolVersion, initr_Capabilities = srv_capabilities s,
            initr_ServerInfo = srv_info s, initr_Instructions = []\<rparr>, None)"

text \<open>The list handlers range over a map: \<open>ks\<close> is the order of the keys.\<close>

definition handleResourcesList :: "string list \<Rightarrow> server_state \<Rightarrow> gval \<Rightarrow> reply" where
  "handleResourcesList ks s params =
     Ok (GMap [(''resources'', GSlice (map resource_gval (range_values (srv_resourceMeta s) ks)))], None)"

definition handleToolsList :: "string list \<Rightarrow> server_state \<Rightarrow> gval \<Rightarrow> reply" where
  "handleToolsList ks s params =
     Ok (GMap [(''tools'', GSlice (map tool_gval (range_values (srv_toolMeta s) ks)))], None)"

definition handlePromptsList :: "string list \<Rightarrow> server_state \<Rightarrow> gval \<Rightarrow> reply" where
  "handlePromptsList ks s params =
     Ok (GMap [(''prompts'', GSlice (map prompt_gval (range_values (srv_promptMeta s) ks)))], None)"

definition handleResourcesRead :: "server_state \<Rightarrow> gval \<Rightarrow> reply" where
  "handleResourcesRead s params =
     (case (case params of GString u \<Rightarrow> Some u | _ \<Rightarrow> unmarshalParams uri_fields [] params) of
        None \<Rightarrow> fail_with (- 32602) ''Invalid params: expected string URI or object with uri field''
      | Some uri \<Rightarrow>
          (case srv_resourceHandlers s uri of
             None \<Rightarrow> fail_with (- 32602) (''Resource not found: '' @ uri)
           | Some handler \<Rightarrow>
               (case handler uri of
                  Ok cs \<Rightarrow> Ok (GMap [(''contents'', contents_gval cs)], None)
                | Err e \<Rightarrow> fail_with (- 32603) e
                | Panic p \<Rightarrow> Panic p)))"

definition progress_token :: "call_params \<Rightarrow> gval" where
  "progress_token req =
     (case cp_Meta req of
        None \<Rightarrow> GNil
      | Some m \<Rightarrow> (case map_of m ''progressToken'' of None \<Rightarrow> GNil | Some token \<Rightarrow> token))"

definition handleToolsCall :: "server_state \<Rightarrow> gval \<Rightarrow> reply" where
  "handleToolsCall s params =
     (case unmarshalParams call_fields zero_call params of
        None \<Rightarrow> fail_with (- 32602) ''Invalid params''
      | Some req \<Rightarrow>
          (case srv_toolHandlers s (cp_Name req) of
             None \<Rightarrow> fail_with (- 32602) (''Tool not found: '' @ cp_Name req)
           | Some handler \<Rightarrow>
               (case handler (progress_token req) (cp_Name req) (cp_Arguments req) of
                  Ok cs \<Rightarrow> Ok (GMap [(''content'', contents_gval cs)], None)
                | Err e \<Rightarrow> fail_with (- 32603) e
                | Panic p \<Rightarrow> Panic p)))"

definition handlePromptsGet :: "server_state \<Rightarrow> gval \<Rightarrow> reply" where
  "handlePromptsGet s params =
     (case unmarshalParams get_fields zero_call params of
        None \<Rightarrow> fail_with (- 32602) ''Invalid params''
      | Some req \<Rightarrow>
          (case srv_promptHandlers s (cp_Name req) of
             None \<Rightarrow> fail_with (- 32602) (''Prompt not found: '' @ cp_Name req)
           | Some handler \<Rightarrow>
               (case handler (cp_Name req) (cp_Arguments req) of
                  Ok pm \<Rightarrow> Ok (GMap [(''messages'', GSlice [prompt_message_gval pm])], None)
                | Err e \<Rightarrow> fail_with (- 32603) e
                | Panic p \<Rightarrow> Panic p)))"

definition handleCustom :: "server_state \<Rightarrow> request \<Rightarrow> reply" where
  "handleCustom s request =
     (case srv_requestHandlers s (req_Method request) of
        None \<Rightarrow> fail_with (- 32601) (''Method not found: '' @ req_Method request)
      | Some handler \<Rightarrow>
          (case handler (req_Params request) of
             Ok v \<Rightarrow> Ok (v, None)
           | Err e \<Rightarrow> fail_with (- 32603) e
           | Panic p \<Rightarrow> Panic p))"

definition route :: "string list \<Rightarrow> server_state \<Rightarrow> request \<Rightarrow> reply" where
  "route ks s request =
     (let params = req_Params request; meth = req_Method request
      in if meth = ''initialize'' then handleInitialize s params
         else if meth = ''resources/list'' then handleResourcesList ks s params
         else if meth = ''resources/read'' then handleResourcesRead s params
         else if meth = ''tools/list'' then handleToolsList ks s params
         else if meth = ''tools/call'' then handleToolsCall s params
         else if meth = ''prompts/list'' then handlePromptsList ks s params
         else if meth = ''prompts/get'' then handlePromptsGet s params
         else handleCustom s request)"

definition Server_SendResponse :: "gval \<Rightarrow> gval \<Rightarrow> rpc_error option \<Rightarrow> server_state \<Rightarrow> server_state" where
  "Server_SendResponse ident result err s =
     s\<lparr>srv_sent := srv_sent s @ [SentResponse ident result err]\<rparr>"

definition return_token :: "server_state \<Rightarrow> server_state" where
  "return_token s = s\<lparr>srv_workerPool := srv_workerPool s + 1\<rparr>"

text \<open>
  \<open>handleRequest\<close>: the worker's token is returned by a deferred call, so also while a handler's
  panic unwinds (which ends the process: nothing recovers it).
\<close>

definition handleRequest :: "string list \<Rightarrow> request \<Rightarrow> server_state \<Rightarrow> server_state outcome" where
  "handleRequest ks request s =
     (case route ks s request of
        Ok (result, err) \<Rightarrow> Ok (return_token (Server_SendResponse (req_ID request) result err s))
      | Err e \<Rightarrow> Err e
      | Panic p \<Rightarrow> Panic p)"

definition handleNotification :: "notification \<Rightarrow> server_state \<Rightarrow> server_state" where
  "handleNotification notif s = s"

section \<open>The goroutines\<close>

text \<open>
  \<open>processRequests\<close> on one request it received. With room in the queue and the context done,
  \<open>select\<close> takes any of the two cases (\<open>pick\<close>); the default case needs both not to be ready.
  The second component says whether the goroutine goes on.
\<close>

definition processRequest :: "bool \<Rightarrow> request \<Rightarrow> server_state \<Rightarrow> server_state \<times> bool" where
  "processRequest pick request s =
     (let room = length (srv_requestChan s) < srv_maxConcurrentRequests s
      in if room \<and> (\<not> srv_done s \<or> pick)
         then (s\<lparr>srv_requestChan := srv_requestChan s @ [request]\<rparr>, True)
         else if srv_done s then (s, False)
         else (Server_SendResponse (req_ID request) GNil
                 (Some (rpc_err (- 32000) ''Server overloaded'')) s, True))"

text \<open>\<open>dispatchRequests\<close> takes a request from the queue, then a token for it.\<close>

definition dispatch_take :: "server_state \<Rightarrow> server_state option" where
  "dispatch_take s =
     (case (srv_dispatching s, srv_requestChan s) of
        (None, request # rest) \<Rightarrow> Some (s\<lparr>srv_requestChan := rest, srv_dispatching := Some request\<rparr>)
      | _ \<Rightarrow> None)"

definition take_token :: "server_state \<Rightarrow> server_state option" where
  "take_token s =
     (if srv_workerPool s = 0 then None else Some (s\<lparr>srv_workerPool := srv_workerPool s - 1\<rparr>))"

definition dispatch_start :: "server_state \<Rightarrow> server_state option" where
  "dispatch_start s =
     (case srv_dispatching s of
        None \<Rightarrow> None
      | Some request \<Rightarrow>
          map_option (\<lambda>s'. s'\<lparr>srv_dispatching := None, srv_running := srv_running s @ [request]\<rparr>)
            (take_token s))"

text \<open>The \<open>i\<close>-th worker goroutine handles its request to the end.\<close>

definition finish_worker :: "string list \<Rightarrow> nat \<Rightarrow> server_state \<Rightarrow> server_state outcome" where
  "finish_worker ks i s =
     handleRequest ks (srv_running s ! i)
       (s\<lparr>srv_running := take i (srv_running s) @ drop (Suc i) (srv_running s)\<rparr>)"

text \<open>
  \<open>Close\<close>: only the first call does anything. The transport's own error is the argument
  \<open>terr\<close>; the call waits for the three goroutines, which stop when the context is done.
\<close>

definition Server_Close :: "string option \<Rightarrow> server_state \<Rightarrow> server_state \<times> string option" where
  "Server_Close terr s =
     (if srv_closeOnce s then (s, None)
      else (s\<lparr>srv_closeOnce := True, srv_done := True, srv_dispatching := None,
              srv_sent := srv_sent s @ [SentClose]\<rparr>, terr))"

section \<open>Registries as an interface\<close>

definition resource_entry :: "server_state \<Rightarrow> string \<Rightarrow> (string \<times> string \<times> resource_handler) option" where
  "resource_entry s uri =
     (case (srv_resourceHandlers s uri, srv_resourceMeta s uri) of
        (Some h, Some r) \<Rightarrow> Some (res_Name r, res_Description r, h) | _ \<Rightarrow> None)"

definition tool_entry :: "server_state \<Rightarrow> string \<Rightarrow> (string \<times> arguments \<times> tool_handler) option" where
  "tool_entry s name =
     (case (srv_toolHandlers s name, srv_toolMeta s name) of
        (Some h, Some t) \<Rightarrow> Some (tool_Description t, tool_InputSchema t, h) | _ \<Rightarrow> None)"

definition prompt_entry ::
  "server_state \<Rightarrow> string \<Rightarrow> (string \<times> prompt_argument list \<times> prompt_handler) option" where
  "prompt_entry s name =
     (case (srv_promptHandlers s name, srv_promptMeta s name) of
        (Some h, Some p) \<Rightarrow> Some (prompt_Description p, prompt_Arguments p, h) | _ \<Rightarrow> None)"

text \<open>Handlers and metadata have the same keys, and metadata names its own key.\<close>

definition resources_ok :: "server_state \<Rightarrow> bool" where
  "resources_ok s \<longleftrightarrow> dom (srv_resourceHandlers s) = dom (srv_resourceMeta s) \<and>
     (\<forall>k r. srv_resourceMeta s k = Some r \<longrightarrow>
        res_URI r = k \<and> res_MimeType r = [] \<and> res_Annotations r = GNil)"

definition tools_ok :: "server_state \<Rightarrow> bool" where
  "tools_ok s \<longleftrightarrow> dom (srv_toolHandlers s) = dom (srv_toolMeta s) \<and>
     (\<forall>k t. srv_toolMeta s k = Some t \<longrightarrow> tool_Name t = k)"

definition prompts_ok :: "server_state \<Rightarrow> bool" where
  "prompts_ok s \<longleftrightarrow> dom (srv_promptHandlers s) = dom (srv_promptMeta s) \<and>
     (\<forall>k p. srv_promptMeta s k = Some p \<longrightarrow> prompt_Name p = k)"

definition registries_ok :: "server_state \<Rightarrow> bool" where
  "registries_ok s \<longleftrightarrow> resources_ok s \<and> tools_ok s \<and> prompts_ok s"

fun resource_apply :: "(string, string \<times> string \<times> resource_handler) reg_op \<Rightarrow> server_state \<Rightarrow> server_state" where
  "resource_apply (Register uri (n, d, h)) s = RegisterResource uri n d h s"
| "resource_apply (Unregister uri) s = fst (UnregisterResource uri s)"

fun tool_apply :: "(string, string \<times> arguments \<times> tool_handler) reg_op \<Rightarrow> server_state \<Rightarrow> server_state" where
  "tool_apply (Register name (d, sch, h)) s = RegisterTool name d sch h s"
| "tool_apply (Unregister name) s = fst (UnregisterTool name s)"

fun prompt_apply :: "(string, string \<times> prompt_argument list \<times> prompt_handler) reg_op \<Rightarrow> server_state \<Rightarrow> server_state" where
  "prompt_apply (Register name (d, args, h)) s = RegisterPrompt name d args h s"
| "prompt_apply (Unregister name) s = fst (UnregisterPrompt name s)"

lemmas changed_defs [srv_simps] =
  resources_changed_def tools_changed_def prompts_changed_def Server_SendNotification_def

lemma changed_fields [simp]:
  "srv_resourceHandlers (resources_changed s) = srv_resourceHandlers s"
  "srv_resourceMeta (resources_changed s) = srv_resourceMeta s"
  "srv_toolHandlers (tools_changed s) = srv_toolHandlers s"
  "srv_toolMeta (tools_changed s) = srv_toolMeta s"
  "srv_promptHandlers (prompts_changed s) = srv_promptHandlers s"
  "srv_promptMeta (prompts_changed s) = srv_promptMeta s"
  by (simp_all add: srv_simps split: option.splits)

lemma entry_None_iff:
  "resources_ok s \<Longrightarrow> resource_entry s k = None \<longleftrightarrow> srv_resourceHandlers s k = None"
  "resources_ok s \<Longrightarrow> resource_entry s k = None \<longleftrightarrow> srv_resourceMeta s k = None"
  "tools_ok s \<Longrightarrow> tool_entry s k = None \<longleftrightarrow> srv_toolHandlers s k = None"
  "tools_ok s \<Longrightarrow> tool_entry s k = None \<longleftrightarrow> srv_toolMeta s k = None"
  "prompts_ok s \<Longrightarrow> prompt_entry s k = None \<longleftrightarrow> srv_promptHandlers s k = None"
  "prompts_ok s \<Longrightarrow> prompt_entry s k = None \<longleftrightarrow> srv_promptMeta s k = None"
  unfolding resources_ok_def tools_ok_def prompts_ok_def resource_entry_def tool_entry_def prompt_entry_def
  by (auto split: option.splits dest: dom_eq_None [of _ _ k])

interpretation resources: registry resources_ok
  "\<lambda>uri (n, d, h). RegisterResource uri n d h" resource_entry UnregisterResource
proof unfold_locales
  fix s k v
  show "resources_ok s \<Longrightarrow> resources_ok ((case v of (n, d, h) \<Rightarrow> RegisterResource k n d h) s)"
    by (cases v) (auto simp: resources_ok_def RegisterResource_def)
  show "resources_ok s \<Longrightarrow> resources_ok (fst (UnregisterResource k s))"
    by (auto simp: resources_ok_def UnregisterResource_def)
  show "resources_ok s \<Longrightarrow> resource_entry ((case v of (n, d, h) \<Rightarrow> RegisterResource k n d h) s) = (resource_entry s)(k \<mapsto> v)"
    by (cases v) (auto simp: resource_entry_def RegisterResource_def fun_eq_iff)
  show "resources_ok s \<Longrightarrow> resource_entry (fst (UnregisterResource k s)) = (resource_entry s)(k := None)"
    by (auto simp: resource_entry_def UnregisterResource_def fun_eq_iff split: option.splits)
  show "resources_ok s \<Longrightarrow> snd (UnregisterResource k s) = (resource_entry s k \<noteq> None)"
    using entry_None_iff(1,2) [of s k] by (auto simp: UnregisterResource_def)
qed

interpretation tools: registry tools_ok
  "\<lambda>name (d, sch, h). RegisterTool name d sch h" tool_entry UnregisterTool
proof unfold_locales
  fix s k v
  show "tools_ok s \<Longrightarrow> tools_ok ((case v of (d, sch, h) \<Rightarrow> RegisterTool k d sch h) s)"
    by (cases v) (auto simp: tools_ok_def RegisterTool_def)
  show "tools_ok s \<Longrightarrow> tools_ok (fst (UnregisterTool k s))"
    by (auto simp: tools_ok_def UnregisterTool_def)
  show "tools_ok s \<Longrightarrow> tool_entry ((case v of (d, sch, h) \<Rightarrow> RegisterTool k d sch h) s) = (tool_entry s)(k \<mapsto> v)"
    by (cases v) (auto simp: tool_entry_def RegisterTool_def fun_eq_iff)
  show "tools_ok s \<Longrightarrow> tool_entry (fst (UnregisterTool k s)) = (tool_entry s)(k := None)"
    by (auto simp: tool_entry_def UnregisterTool_def fun_eq_iff split: option.splits)
  show "tools_ok s \<Longrightarrow> snd (UnregisterTool k s) = (tool_entry s k \<noteq> None)"
    using entry_None_iff(3,4) [of s k] by (auto simp: UnregisterTool_def)
qed

interpretation prompts: registry prompts_ok
  "\<lambda>name (d, args, h). RegisterPrompt name d args h" prompt_entry UnregisterPrompt
proof unfold_locales
  fix s k v
  show "prompts_ok s \<Longrightarrow> prompts_ok ((case v of (d, args, h) \<Rightarrow> RegisterPrompt k d args h) s)"
    by (cases v) (auto simp: prompts_ok_def RegisterPrompt_def)
  show "prompts_ok s \<Longrightarrow> prompts_ok (fst (UnregisterPrompt k s))"
    by (auto simp: prompts_ok_def UnregisterPrompt_def)
  show "prompts_ok s \<Longrightarrow> prompt_entry ((case v of (d, args, h) \<Rightarrow> RegisterPrompt k d args h) s) = (prompt_entry s)(k \<mapsto> v)"
    by (cases v) (auto simp: prompt_entry_def RegisterPrompt_def fun_eq_iff)
  show "prompts_ok s \<Longrightarrow> prompt_entry (fst (UnregisterPrompt k s)) = (prompt_entry s)(k := None)"
    by (auto simp: prompt_entry_def UnregisterPrompt_def fun_eq_iff split: option.splits)
  show "prompts_ok s \<Longrightarrow> snd (UnregisterPrompt k s) = (prompt_entry s k \<noteq> None)"
    using entry_None_iff(5,6) [of s k] by (auto simp: UnregisterPrompt_def)
qed

lemma apply_eq:
  "resource_apply = resources.reg_apply" "tool_apply = tools.reg_apply"
  "prompt_apply = prompts.reg_apply"
proof -
  show "resource_apply = resources.reg_apply"
    by (intro ext, rename_tac op s, case_tac op) auto
  show "tool_apply = tools.reg_apply"
    by (intro ext, rename_tac op s, case_tac op) auto
  show "prompt_apply = prompts.reg_apply"
    by (intro ext, rename_tac op s, case_tac op) auto
qed

lemma tool_history:
  "tools_ok s \<Longrightarrow> tools_ok (fold tool_apply ops s) \<and>
     tool_entry (fold tool_apply ops s) k = last_entry ops k (tool_entry s k)"
  using tools.history_refines [of s ops] by (simp add: apply_eq fold_reg_effect)

lemma resource_history:
  "resources_ok s \<Longrightarrow> resources_ok (fold resource_apply ops s) \<and>
     resource_entry (fold resource_apply ops s) k = last_entry ops k (resource_entry s k)"
  using resources.history_refines [of s ops] by (simp add: apply_eq fold_reg_effect)

lemma prompt_history:
  "prompts_ok s \<Longrightarrow> prompts_ok (fold prompt_apply ops s) \<and>
     prompt_entry (fold prompt_apply ops s) k = last_entry ops k (prompt_entry s k)"
  using prompts.history_refines [of s ops] by (simp add: apply_eq fold_reg_effect)

lemma tool_entry_handler:
  "tools_ok s \<Longrightarrow> srv_toolHandlers s k = map_option (\<lambda>(d, sch, h). h) (tool_entry s k)"
  using entry_None_iff(3,4) [of s k] by (auto simp: tool_entry_def split: option.splits)

lemma tool_entry_meta:
  "tools_ok s \<Longrightarrow> srv_toolMeta s k =
     map_option (\<lambda>(d, sch, h). \<lparr>tool_Name = k, tool_Description = d, tool_InputSchema = sch\<rparr>) (tool_entry s k)"
  using entry_None_iff(3,4) [of s k]
  by (auto simp: tool_entry_def tools_ok_def split: option.splits)

section \<open>The server as a transition system\<close>

text \<open>
  The moves of a server, each labelled with the requests it received from its transport (one when
  \<open>processRequests\<close> reads one, none otherwise). Application code may call the exported functions
  at any time.
\<close>

inductive srv_step :: "server_state \<Rightarrow> request list \<Rightarrow> server_state \<Rightarrow> bool" where
  receive: "processRequest pick request s = (s', go) \<Longrightarrow> srv_step s [request] s'"
| take: "dispatch_take s = Some s' \<Longrightarrow> srv_step s [] s'"
| start: "dispatch_start s = Some s' \<Longrightarrow> srv_step s [] s'"
| finish: "i < length (srv_running s) \<Longrightarrow> finish_worker ks i s = Ok s' \<Longrightarrow> srv_step s [] s'"
| resource: "srv_step s [] (resource_apply rsop s)"
| tool: "srv_step s [] (tool_apply tlop s)"
| prompt: "srv_step s [] (prompt_apply prmop s)"
| custom: "srv_step s [] (RegisterHandler meth handler s)"
| notify: "srv_step s [] (Server_SendNotification meth params s)"
| parent_done: "srv_step s [] (s\<lparr>srv_done := True\<rparr>)"
| closing: "Server_Close terr s = (s', e) \<Longrightarrow> srv_step s [] s'"

inductive srv_run :: "server_config \<Rightarrow> request list \<Rightarrow> server_state \<Rightarrow> bool" for config where
  start: "NewServer ctx_done config = Ok s \<Longrightarrow> srv_run config [] s"
| step: "srv_run config rs s \<Longrightarrow> srv_step s rs' s' \<Longrightarrow> srv_run config (rs @ rs') s'"

text \<open>The requests the server holds, and the ids of the responses it sent.\<close>

definition held :: "server_state \<Rightarrow> request list" where
  "held s = srv_requestChan s @ (case srv_dispatching s of None \<Rightarrow> [] | Some r \<Rightarrow> [r]) @ srv_running s"

definition response_ids :: "sent list \<Rightarrow> gval list" where
  "response_ids xs = List.map_filter (\<lambda>x. case x of SentResponse ident _ _ \<Rightarrow> Some ident | _ \<Rightarrow> None) xs"

lemma response_ids_simps [simp]:
  "response_ids [] = []"
  "response_ids (SentResponse i r e # xs) = i # response_ids xs"
  "response_ids (SentNotification m p # xs) = response_ids xs"
  "response_ids (SentClose # xs) = response_ids xs"
  "response_ids (xs @ ys) = response_ids xs @ response_ids ys"
  by (simp_all add: response_ids_def map_filter_def)

definition srv_inv :: "server_state \<Rightarrow> bool" where
  "srv_inv s \<longleftrightarrow>
     registries_ok s \<and>
     srv_workerPool s + length (srv_running s) = srv_maxConcurrentRequests s \<and>
     length (srv_requestChan s) \<le> srv_maxConcurrentRequests s"

definition accounted :: "request list \<Rightarrow> server_state \<Rightarrow> bool" where
  "accounted rs s \<longleftrightarrow>
     mset (response_ids (srv_sent s)) + image_mset req_ID (mset (held s)) \<subseteq># image_mset req_ID (mset rs) \<and>
     (\<not> srv_done s \<longrightarrow>
       mset (response_ids (srv_sent s)) + image_mset req_ID (mset (held s)) = image_mset req_ID (mset rs))"

text \<open>A change of the registries leaves the rest alone, but for notifications sent.\<close>

definition same_work :: "server_state \<Rightarrow> server_state \<Rightarrow> bool" where
  "same_work s s' \<longleftrightarrow>
     srv_requestChan s' = srv_requestChan s \<and> srv_dispatching s' = srv_dispatching s \<and>
     srv_running s' = srv_running s \<and> srv_workerPool s' = srv_workerPool s \<and>
     srv_maxConcurrentRequests s' = srv_maxConcurrentRequests s \<and> srv_done s' = srv_done s \<and>
     response_ids (srv_sent s') = response_ids (srv_sent s)"

lemma same_work_refl [simp]: "same_work s s"
  by (simp add: same_work_def)

lemma accounted_same_work: "same_work s s' \<Longrightarrow> accounted rs s' = accounted rs s"
  by (simp add: same_work_def accounted_def held_def)

lemma apply_same_work:
  "same_work s (resource_apply rsop s)" "same_work s (tool_apply tlop s)" "same_work s (prompt_apply prmop s)"
proof -
  show "same_work s (resource_apply rsop s)"
    by (cases rsop) (force simp: same_work_def RegisterResource_def UnregisterResource_def srv_simps
      split: option.splits)+
  show "same_work s (tool_apply tlop s)"
    by (cases tlop) (force simp: same_work_def RegisterTool_def UnregisterTool_def srv_simps
      split: option.splits)+
  show "same_work s (prompt_apply prmop s)"
    by (cases prmop) (force simp: same_work_def RegisterPrompt_def UnregisterPrompt_def srv_simps
      split: option.splits)+
qed

lemma finish_worker_Ok:
  assumes "finish_worker ks i s = Ok s'"
  obtains result err where "s' = s\<lparr>srv_running := take i (srv_running s) @ drop (Suc i) (srv_running s),
      srv_sent := srv_sent s @ [SentResponse (req_ID (srv_running s ! i)) result err],
      srv_workerPool := srv_workerPool s + 1\<rparr>"
  using assms
  by (auto simp: finish_worker_def handleRequest_def return_token_def Server_SendResponse_def
      split: outcome.splits prod.splits)

interpretation pool: token_pool srv_maxConcurrentRequests srv_workerPool "\<lambda>s. length (srv_running s)"
  "\<lambda>s. srv_dispatching s \<noteq> None" "\<lambda>s s'. dispatch_start s = Some s'"
  "\<lambda>s s'. \<exists>ks i. i < length (srv_running s) \<and> finish_worker ks i s = Ok s'"
proof unfold_locales
  fix s s'
  show "srv_dispatching s \<noteq> None \<Longrightarrow> (\<exists>s'. dispatch_start s = Some s') = (0 < srv_workerPool s)"
    by (auto simp: dispatch_start_def take_token_def split: if_splits)
  show "dispatch_start s = Some s' \<Longrightarrow> srv_workerPool s' + 1 = srv_workerPool s \<and>
      length (srv_running s') = length (srv_running s) + 1 \<and>
      srv_maxConcurrentRequests s' = srv_maxConcurrentRequests s"
    by (auto simp: dispatch_start_def take_token_def split: option.splits if_splits)
  show "\<exists>ks i. i < length (srv_running s) \<and> finish_worker ks i s = Ok s' \<Longrightarrow>
      srv_workerPool s' = srv_workerPool s + 1 \<and> length (srv_running s') + 1 = length (srv_running s) \<and>
      srv_maxConcurrentRequests s' = srv_maxConcurrentRequests s"
    by (auto elim!: finish_worker_Ok)
qed

lemma srv_inv_pool: "srv_inv s \<Longrightarrow> pool.balanced s"
  by (simp add: srv_inv_def pool.balanced_def)

lemma registries_cong:
  assumes "srv_resourceHandlers s' = srv_resourceHandlers s" "srv_resourceMeta s' = srv_resourceMeta s"
    "srv_toolHandlers s' = srv_toolHandlers s" "srv_toolMeta s' = srv_toolMeta s"
    "srv_promptHandlers s' = srv_promptHandlers s" "srv_promptMeta s' = srv_promptMeta s"
  shows "registries_ok s' = registries_ok s"
  unfolding registries_ok_def resources_ok_def tools_ok_def prompts_ok_def assms by (rule refl)

lemma apply_registries_ok:
  assumes "registries_ok s"
  shows "registries_ok (resource_apply rsop s)" "registries_ok (tool_apply tlop s)"
    "registries_ok (prompt_apply prmop s)"
proof -
  have ok: "resources_ok s" "tools_ok s" "prompts_ok s"
    using assms by (simp_all add: registries_ok_def)
  have others: "tools_ok (resource_apply rsop s) = tools_ok s" "prompts_ok (resource_apply rsop s) = prompts_ok s"
    "resources_ok (tool_apply tlop s) = resources_ok s" "prompts_ok (tool_apply tlop s) = prompts_ok s"
    "resources_ok (prompt_apply prmop s) = resources_ok s" "tools_ok (prompt_apply prmop s) = tools_ok s"
    by (cases rsop; cases tlop; cases prmop;
        force simp: resources_ok_def tools_ok_def prompts_ok_def RegisterResource_def
          UnregisterResource_def RegisterTool_def UnregisterTool_def RegisterPrompt_def
          UnregisterPrompt_def srv_simps split: option.splits)+
  show "registries_ok (resource_apply rsop s)" "registries_ok (tool_apply tlop s)"
    "registries_ok (prompt_apply prmop s)"
    using ok others resource_history [of s "[rsop]"] tool_history [of s "[tlop]"] prompt_history [of s "[prmop]"]
    by (simp_all add: registries_ok_def)
qed

subsection \<open>Invariants of a run\<close>

lemma handler_fields_receive:
  "processRequest pick request s = (s', go) \<Longrightarrow> registries_ok s' = registries_ok s"
  by (rule registries_cong)
    (auto simp: processRequest_def Server_SendResponse_def Let_def split: if_splits)

lemma srv_step_inv:
  assumes "srv_step s rs s'" and "srv_inv s"
  shows "srv_inv s'"
  using assms(1)
proof cases
  case (receive pick request go)
  then show ?thesis
    using assms(2) handler_fields_receive [of pick request s s' go]
    by (auto simp: srv_inv_def processRequest_def Server_SendResponse_def Let_def split: if_splits)
next
  case take
  then have "registries_ok s' = registries_ok s"
    by (intro registries_cong) (auto simp: dispatch_take_def split: option.splits list.splits)
  then show ?thesis
    using assms(2) take by (auto simp: srv_inv_def dispatch_take_def split: option.splits list.splits)
next
  case start
  then have "registries_ok s' = registries_ok s"
    by (intro registries_cong) (auto simp: dispatch_start_def take_token_def split: option.splits if_splits)
  then show ?thesis
    using assms(2) start
    by (auto simp: srv_inv_def dispatch_start_def take_token_def split: option.splits if_splits)
next
  case (finish i ks)
  from finish(3) obtain result err where s': "s' = s\<lparr>srv_running := take i (srv_running s) @ drop (Suc i) (srv_running s),
      srv_sent := srv_sent s @ [SentResponse (req_ID (srv_running s ! i)) result err],
      srv_workerPool := srv_workerPool s + 1\<rparr>" by (rule finish_worker_Ok)
  have "registries_ok s' = registries_ok s"
    by (rule registries_cong) (simp_all add: s')
  then show ?thesis
    using assms(2) finish(2) by (simp add: srv_inv_def s')
next
  case (resource rsop)
  then show ?thesis
    using assms(2) apply_same_work(1) [of s rsop] by (simp add: srv_inv_def apply_registries_ok same_work_def)
next
  case (tool tlop)
  then show ?thesis
    using assms(2) apply_same_work(2) [of s tlop] by (simp add: srv_inv_def apply_registries_ok same_work_def)
next
  case (prompt prmop)
  then show ?thesis
    using assms(2) apply_same_work(3) [of s prmop] by (simp add: srv_inv_def apply_registries_ok same_work_def)
next
  case (custom meth handler)
  have "registries_ok s' = registries_ok s"
    unfolding custom by (rule registries_cong) (simp_all add: RegisterHandler_def)
  then show ?thesis using assms(2) by (simp add: srv_inv_def custom RegisterHandler_def)
next
  case (notify meth params)
  have "registries_ok s' = registries_ok s"
    unfolding notify by (rule registries_cong) (simp_all add: Server_SendNotification_def)
  then show ?thesis using assms(2) by (simp add: srv_inv_def notify Server_SendNotification_def)
next
  case parent_done
  have "registries_ok s' = registries_ok s"
    unfolding parent_done by (rule registries_cong) simp_all
  then show ?thesis using assms(2) by (simp add: srv_inv_def parent_done)
next
  case (closing terr e)
  then have "registries_ok s' = registries_ok s"
    by (intro registries_cong) (auto simp: Server_Close_def split: if_splits)
  then show ?thesis
    using assms(2) closing by (auto simp: srv_inv_def Server_Close_def split: if_splits)
qed

lemma mset_drop_nth:
  "i < length xs \<Longrightarrow> mset xs = add_mset (xs ! i) (mset (take i xs @ drop (Suc i) xs))"
  by (metis id_take_nth_drop mset.simps(2) mset_append union_mset_add_mset_right)

lemma accounted_step:
  assumes "srv_step s rs' s'" and "accounted rs s"
  shows "accounted (rs @ rs') s'"
  using assms(1)
proof cases
  case (receive pick request go)
  then show ?thesis
    using assms(2)
    by (auto simp: accounted_def held_def processRequest_def Server_SendResponse_def Let_def
        split: if_splits intro: subset_mset.order_trans)
next
  case take
  then show ?thesis
    using assms(2) by (auto simp: accounted_def held_def dispatch_take_def split: option.splits list.splits)
next
  case start
  then show ?thesis
    using assms(2)
    by (auto simp: accounted_def held_def dispatch_start_def take_token_def split: option.splits if_splits)
next
  case (finish i ks)
  from finish(3) obtain result err where s': "s' = s\<lparr>srv_running := take i (srv_running s) @ drop (Suc i) (srv_running s),
      srv_sent := srv_sent s @ [SentResponse (req_ID (srv_running s ! i)) result err],
      srv_workerPool := srv_workerPool s + 1\<rparr>" by (rule finish_worker_Ok)
  have "mset (response_ids (srv_sent s')) + image_mset req_ID (mset (held s')) =
    mset (response_ids (srv_sent s)) + image_mset req_ID (mset (held s))"
    using mset_drop_nth [OF finish(2)] by (simp add: s' held_def)
  then show ?thesis
    using assms(2) finish(1) by (simp add: accounted_def) (simp add: s')
next
  case (closing terr e)
  have "mset (held s') \<subseteq># mset (held s)" and "response_ids (srv_sent s') = response_ids (srv_sent s)"
    using closing by (auto simp: Server_Close_def held_def split: if_splits option.splits)
  then have "mset (response_ids (srv_sent s')) + image_mset req_ID (mset (held s')) \<subseteq>#
      mset (response_ids (srv_sent s)) + image_mset req_ID (mset (held s))"
    by (simp add: image_mset_subseteq_mono)
  moreover have "srv_done s' \<or> s' = s"
    using closing by (auto simp: Server_Close_def split: if_splits)
  ultimately show ?thesis
    using assms(2) closing(1) by (auto simp: accounted_def intro: subset_mset.order_trans)
next
  case (resource rsop)
  then show ?thesis
    using assms(2) accounted_same_work [OF apply_same_work(1) [of s rsop]] by simp
next
  case (tool tlop)
  then show ?thesis
    using assms(2) accounted_same_work [OF apply_same_work(2) [of s tlop]] by simp
next
  case (prompt prmop)
  then show ?thesis
    using assms(2) accounted_same_work [OF apply_same_work(3) [of s prmop]] by simp
qed (use assms(2) in \<open>auto simp: accounted_def held_def RegisterHandler_def Server_SendNotification_def\<close>)

lemma NewServer_inv:
  assumes "NewServer ctx_done config = Ok s"
  shows "srv_inv s" and "accounted [] s"
  using assms
  by (auto simp: NewServer_def Let_def srv_inv_def accounted_def held_def registries_ok_def
      resources_ok_def tools_ok_def prompts_ok_def split: if_splits)

lemma srv_run_inv: "srv_run config rs s \<Longrightarrow> srv_inv s \<and> accounted rs s"
  by (induction rule: srv_run.induct) (auto intro: NewServer_inv srv_step_inv accounted_step)

section \<open>Properties\<close>

text \<open>C5: No request is lost or answered twice. In every run of a server, the responses sent and the
  requests still queued, waiting for a worker or being handled account, with multiplicity, for
  exactly the requests received, as long as the context is live; after \<open>Close\<close> some may stay
  unanswered but none is answered twice.\<close>

theorem requests_accounted:
  assumes "srv_run config rs s"
  shows "mset (response_ids (srv_sent s)) + image_mset req_ID (mset (held s)) \<subseteq># image_mset req_ID (mset rs)
    \<and> (srv_done s \<or>
       mset (response_ids (srv_sent s)) + image_mset req_ID (mset (held s)) = image_mset req_ID (mset rs))"
  using srv_run_inv [OF assms] by (auto simp: accounted_def)

definition plain_config :: server_config where
  "plain_config = \<lparr>sc_Name = ''s'', sc_Version = ''1'', sc_MaxConcurrentRequests = 1,
     sc_RequestTimeout = 0, sc_Capabilities = \<lparr>scap_Experimental = None, scap_Logging = None,
       scap_Prompts = None, scap_Resources = None, scap_Tools = Some True, scap_Completions = None\<rparr>\<rparr>"

definition ask :: "string \<Rightarrow> request" where
  "ask ident = \<lparr>req_JSONRPC = ''2.0'', req_ID = GString ident, req_Method = ''ping'', req_Params = GNil\<rparr>"

definition plain_server :: server_state where
  "plain_server = \<lparr>srv_info = \<lparr>impl_Name = ''s'', impl_Version = ''1'', impl_ProtocolVersion = []\<rparr>,
     srv_capabilities = sc_Capabilities plain_config,
     srv_resourceHandlers = Map.empty, srv_resourceMeta = Map.empty,
     srv_toolHandlers = Map.empty, srv_toolMeta = Map.empty,
     srv_promptHandlers = Map.empty, srv_promptMeta = Map.empty,
     srv_requestHandlers = Map.empty, srv_done = False, srv_closeOnce = False,
     srv_maxConcurrentRequests = 1, srv_requestTimeout = 30 * 1000000000,
     srv_requestChan = [], srv_workerPool = 1, srv_dispatching = None,
     srv_running = [], srv_sent = []\<rparr>"

definition busy_server :: server_state where
  "busy_server = plain_server\<lparr>srv_requestChan := [ask ''a''],
     srv_sent := [SentResponse (GString ''b'') GNil (Some (rpc_err (- 32000) ''Server overloaded''))]\<rparr>"

lemma plain_server_new: "NewServer False plain_config = Ok plain_server"
  by (simp add: NewServer_def plain_config_def plain_server_def Let_def)

lemma busy_server_run: "srv_run plain_config [ask ''a'', ask ''b''] busy_server"
proof -
  let ?s1 = "plain_server\<lparr>srv_requestChan := [ask ''a'']\<rparr>"
  have "srv_run plain_config [ask ''a''] ?s1"
    using srv_run.step [OF srv_run.start [OF plain_server_new], of "[ask ''a'']" ?s1]
      srv_step.receive [of True "ask ''a''" plain_server ?s1 True]
    by (simp add: processRequest_def plain_server_def)
  then show ?thesis
    using srv_run.step [of plain_config "[ask ''a'']" ?s1 "[ask ''b'']" busy_server]
      srv_step.receive [of True "ask ''b''" ?s1 busy_server True]
    by (simp add: processRequest_def plain_server_def busy_server_def Server_SendResponse_def ask_def)
qed

theorem requests_accounted_witness:
  "mset (response_ids (srv_sent busy_server)) + image_mset req_ID (mset (held busy_server))
     = {#GString ''a'', GString ''b''#}"
  using requests_accounted [OF busy_server_run]
  by (simp add: busy_server_def plain_server_def ask_def)

text \<open>C8: At most \<open>MaxConcurrentRequests\<close> requests are handled at a time and at most as many are
  queued; a request taken from the queue waits for a worker exactly while all workers are busy.\<close>

theorem workers_bounded:
  assumes "srv_run config rs s"
  shows "length (srv_running s) \<le> srv_maxConcurrentRequests s \<and>
    length (srv_requestChan s) \<le> srv_maxConcurrentRequests s \<and>
    ((dispatch_start s = None) =
      (srv_dispatching s = None \<or> length (srv_running s) = srv_maxConcurrentRequests s))"
proof -
  have inv: "srv_inv s" using srv_run_inv [OF assms] by blast
  have "dispatch_start s = None \<longleftrightarrow> (\<nexists>s'. dispatch_start s = Some s')"
    by simp
  then show ?thesis
    using inv pool.busy_bounded [OF srv_inv_pool [OF inv]] pool.acquire_blocks [OF srv_inv_pool [OF inv]]
    by (cases "srv_dispatching s = None") (simp add: srv_inv_def dispatch_start_def, auto simp: srv_inv_def)
qed

theorem workers_bounded_witness:
  "length (srv_running busy_server) \<le> 1 \<and> length (srv_requestChan busy_server) \<le> 1"
  using workers_bounded [OF busy_server_run] by (simp add: busy_server_def plain_server_def)

text \<open>C6: What \<open>tools/call\<close> and \<open>tools/list\<close> do after any history of \<open>RegisterTool\<close> and
  \<open>UnregisterTool\<close>: a call reaches the handler of the last registration of its name, with the
  progress token and arguments of the request, or fails with "Tool not found" when that name was
  never registered or was unregistered last; the listing shows exactly the tools that are
  registered, each once and as last registered.\<close>

theorem tools_after_history:
  assumes "tools_ok s" and "unmarshalParams call_fields zero_call params = Some req"
    and "range_order (srv_toolMeta (fold tool_apply ops s)) ks"
  shows "handleToolsCall (fold tool_apply ops s) params =
      (case last_entry ops (cp_Name req) (tool_entry s (cp_Name req)) of
         None \<Rightarrow> fail_with (- 32602) (''Tool not found: '' @ cp_Name req)
       | Some (d, sch, h) \<Rightarrow>
           (case h (progress_token req) (cp_Name req) (cp_Arguments req) of
              Ok cs \<Rightarrow> Ok (GMap [(''content'', contents_gval cs)], None)
            | Err e \<Rightarrow> fail_with (- 32603) e
            | Panic p \<Rightarrow> Panic p)) \<and>
    (\<exists>ts. handleToolsList ks (fold tool_apply ops s) params =
        Ok (GMap [(''tools'', GSlice (map tool_gval ts))], None) \<and> distinct ts \<and>
      set ts = {\<lparr>tool_Name = k, tool_Description = d, tool_InputSchema = sch\<rparr> | k d sch h.
                  last_entry ops k (tool_entry s k) = Some (d, sch, h)})"
proof
  let ?s = "fold tool_apply ops s"
  have ok: "tools_ok ?s" and entry: "\<And>k. tool_entry ?s k = last_entry ops k (tool_entry s k)"
    using tool_history [OF assms(1)] by blast+
  show "handleToolsCall ?s params =
      (case last_entry ops (cp_Name req) (tool_entry s (cp_Name req)) of
         None \<Rightarrow> fail_with (- 32602) (''Tool not found: '' @ cp_Name req)
       | Some (d, sch, h) \<Rightarrow>
           (case h (progress_token req) (cp_Name req) (cp_Arguments req) of
              Ok cs \<Rightarrow> Ok (GMap [(''content'', contents_gval cs)], None)
            | Err e \<Rightarrow> fail_with (- 32603) e
            | Panic p \<Rightarrow> Panic p))"
    by (auto simp: handleToolsCall_def assms(2) tool_entry_handler [OF ok] entry split: option.splits)
  let ?ts = "range_values (srv_toolMeta ?s) ks"
  have "set ?ts = ran (srv_toolMeta ?s)" by (rule set_range_values [OF assms(3)])
  also have "\<dots> = {\<lparr>tool_Name = k, tool_Description = d, tool_InputSchema = sch\<rparr> | k d sch h.
                  last_entry ops k (tool_entry s k) = Some (d, sch, h)}"
    unfolding ran_def tool_entry_meta [OF ok] entry by auto
  finally have set_ts: "set ?ts = \<dots>" .
  have "distinct ?ts"
  proof -
    have name: "tool_Name (the (srv_toolMeta ?s k)) = k" if "k \<in> set ks" for k
      using that assms(3) ok by (auto simp: range_order_def tools_ok_def)
    have "inj_on (\<lambda>k. the (srv_toolMeta ?s k)) (set ks)"
      using name by (intro inj_onI) metis
    then show ?thesis
      using assms(3) unfolding range_values_map [OF assms(3)] range_order_def by (simp add: distinct_map)
  qed
  then show "\<exists>ts. handleToolsList ks ?s params =
        Ok (GMap [(''tools'', GSlice (map tool_gval ts))], None) \<and> distinct ts \<and>
      set ts = {\<lparr>tool_Name = k, tool_Description = d, tool_InputSchema = sch\<rparr> | k d sch h.
                  last_entry ops k (tool_entry s k) = Some (d, sch, h)}"
    using set_ts by (intro exI [of _ ?ts]) (simp add: handleToolsList_def)
qed

definition echo :: tool_handler where
  "echo token name args = Ok (Some [TextContent ''text'' name []])"

definition echo_ops :: "(string, string \<times> arguments \<times> tool_handler) reg_op list" where
  "echo_ops = [Register ''echo'' (''d'', None, echo), Register ''old'' (''d'', None, echo), Unregister ''old'']"

definition echo_params :: gval where
  "echo_params = GMap [(''name'', GString ''echo'')]"

theorem tools_after_history_witness:
  "handleToolsCall (fold tool_apply echo_ops plain_server) echo_params =
     Ok (GMap [(''content'', GSlice [content_gval (TextContent ''text'' ''echo'' [])])], None)"
proof -
  have "tools_ok plain_server" by (simp add: tools_ok_def plain_server_def)
  moreover have "unmarshalParams call_fields zero_call echo_params = Some (zero_call\<lparr>cp_Name := ''echo''\<rparr>)"
    by (simp add: unmarshalParams_def echo_params_def decode_struct_def find_field_def call_fields_def
        dec_string_def)
  moreover have "range_order (srv_toolMeta (fold tool_apply echo_ops plain_server)) [''echo'']"
    by (auto simp: range_order_def echo_ops_def RegisterTool_def UnregisterTool_def plain_server_def
        tools_changed_def Server_SendNotification_def plain_config_def split: if_splits)
  ultimately show ?thesis
    using tools_after_history [of plain_server echo_params "zero_call\<lparr>cp_Name := ''echo''\<rparr>" echo_ops "[''echo'']"]
    by (simp add: echo_ops_def echo_def contents_gval_def zero_call_def)
qed

text \<open>C7: Every request a worker handles is answered by exactly one response under the request's id,
  with a result or with an error of the JSON-RPC codes -32601, -32602 or -32603 and then no
  result; nothing else of the server changes but the worker's token.\<close>

theorem handleRequest_answers:
  assumes "handleRequest ks request s = Ok s'"
  shows "\<exists>result err. srv_sent s' = srv_sent s @ [SentResponse (req_ID request) result err] \<and>
    s' = s\<lparr>srv_sent := srv_sent s', srv_workerPool := srv_workerPool s + 1\<rparr> \<and>
    (err = None \<or> result = GNil \<and> err_Code (the err) \<in> {- 32601, - 32602, - 32603})"
proof -
  obtain result err where r: "route ks s request = Ok (result, err)"
    and s': "s' = s\<lparr>srv_sent := srv_sent s @ [SentResponse (req_ID request) result err],
                   srv_workerPool := srv_workerPool s + 1\<rparr>"
    using assms by (auto simp: handleRequest_def return_token_def Server_SendResponse_def
        split: outcome.splits prod.splits)
  have "err = None \<or> result = GNil \<and> err_Code (the err) \<in> {- 32601, - 32602, - 32603}"
    using r
    by (auto simp: route_def handleInitialize_def handleResourcesList_def handleToolsList_def
        handlePromptsList_def handleResourcesRead_def handleToolsCall_def handlePromptsGet_def
        handleCustom_def fail_with_def rpc_err_def Let_def split: if_splits option.splits outcome.splits gval.splits)
  then show ?thesis using s' by auto
qed

theorem handleRequest_answers_witness:
  "srv_sent (case handleRequest [] (ask ''a'') plain_server of Ok s' \<Rightarrow> s') =
     [SentResponse (GString ''a'') GNil (Some (rpc_err (- 32601) ''Method not found: ping''))]"
proof -
  obtain s' where s': "handleRequest [] (ask ''a'') plain_server = Ok s'"
    and sent: "srv_sent s' = [SentResponse (GString ''a'') GNil (Some (rpc_err (- 32601) ''Method not found: ping''))]"
    by (simp add: handleRequest_def route_def ask_def handleCustom_def plain_server_def fail_with_def
        return_token_def Server_SendResponse_def)
  from handleRequest_answers [OF s'] show ?thesis
    using s' sent by auto
qed

text \<open>Registering, and unregistering a name that is registered, announces the change to the client
  with exactly one \<open>list_changed\<close> notification when the capability was declared, and sends
  nothing otherwise; unregistering an unknown name sends nothing and reports failure.\<close>

theorem tool_changes_announced:
  "srv_sent (RegisterTool name d sch h s) =
     srv_sent s @ (if scap_Tools (srv_capabilities s) = Some True
                   then [SentNotification ''notifications/tools/list_changed'' GNil] else []) \<and>
   srv_sent (fst (UnregisterTool name s)) =
     srv_sent s @ (if scap_Tools (srv_capabilities s) = Some True \<and> snd (UnregisterTool name s)
                   then [SentNotification ''notifications/tools/list_changed'' GNil] else [])"
  by (auto simp: RegisterTool_def UnregisterTool_def tools_changed_def Server_SendNotification_def
      split: option.splits)

text \<open>\<open>Close\<close> takes effect once: a second call, or any later one, changes nothing and returns no
  error, so the transport is closed at most once in a run.\<close>

theorem transport_closed_once:
  assumes "srv_run config rs s"
  shows "count (mset (srv_sent s)) SentClose = (if srv_closeOnce s then 1 else 0) \<and>
    Server_Close terr (fst (Server_Close terr' s)) = (fst (Server_Close terr' s), None)"
proof -
  have closed_step: "count (mset (srv_sent s')) SentClose = (if srv_closeOnce s' then 1 else 0)"
    if "srv_step s rs s'" and "count (mset (srv_sent s)) SentClose = (if srv_closeOnce s then 1 else 0)"
    for s rs s'
    using that(1)
  proof cases
    case (finish i ks)
    from finish(3) show ?thesis by (rule finish_worker_Ok) (use that(2) in simp)
  next
    case (resource rsop)
    then show ?thesis
      using that(2) by (cases rsop) (force simp: RegisterResource_def UnregisterResource_def srv_simps
          split: option.splits)+
  next
    case (tool tlop)
    then show ?thesis
      using that(2) by (cases tlop) (force simp: RegisterTool_def UnregisterTool_def srv_simps
          split: option.splits)+
  next
    case (prompt prmop)
    then show ?thesis
      using that(2) by (cases prmop) (force simp: RegisterPrompt_def UnregisterPrompt_def srv_simps
          split: option.splits)+
  next
    case (receive pick request go)
    then show ?thesis
      using that(2) by (auto simp: processRequest_def Server_SendResponse_def Let_def split: if_splits)
  next
    case take
    then show ?thesis using that(2) by (auto simp: dispatch_take_def split: option.splits list.splits)
  next
    case start
    then show ?thesis
      using that(2) by (auto simp: dispatch_start_def take_token_def split: option.splits if_splits)
  next
    case (closing terr e)
    then show ?thesis using that(2) by (auto simp: Server_Close_def split: if_splits)
  qed (use that(2) in \<open>simp_all add: RegisterHandler_def Server_SendNotification_def\<close>)
  have "count (mset (srv_sent s)) SentClose = (if srv_closeOnce s then 1 else 0)"
    using assms
  proof (induction rule: srv_run.induct)
    case (start ctx_done s)
    then show ?case by (auto simp: NewServer_def Let_def split: if_splits)
  next
    case (step rs s rs' s')
    then show ?case using closed_step by blast
  qed
  then show ?thesis by (auto simp: Server_Close_def)
qed

theorem transport_closed_once_witness:
  "count (mset (srv_sent busy_server)) SentClose = 0"
  using transport_closed_once [OF busy_server_run] by (simp add: busy_server_def plain_server_def)

end
