(* ===== verification/Registries.thy ===== *)
theory Registries
  imports Mcp_Server "HOL-Library.Signed_Division"
begin

text \<open>
  \<open>server/registry.go\<close>: the standalone registries of resources (with a cache and subscribers),
  tools (with statistics) and prompts. The code keeps pointers to entries in its maps and goes on
  using such a pointer after it released its lock, so entries live in a store (a list, the
  pointer is the index) and a map holds pointers. Long operations are cut where the code holds no
  lock: \<open>Read\<close> into the cache lookup, the wait for a worker and the rest. The current time is an
  argument \<open>now\<close> in nanoseconds. \<open>go notifySubscribers(e)\<close> adds \<open>e\<close> to the pending notifications,
  which are delivered in any order.
\<close>

named_theorems regs_simps "definitions of the registries"

section \<open>Resource registry\<close>

record cache_entry =
  ce_Content :: contents
  ce_Timestamp :: int
  ce_TTL :: int

record resource_reg_entry =
  re_Resource :: resource
  re_Handler :: resource_handler
  re_LastAccessed :: int
  re_AccessCount :: int64
  re_CacheEntry :: "cache_entry option"

datatype resource_event_type =
  ResourceEventAdded | ResourceEventUpdated | ResourceEventRemoved | ResourceEventError

record resource_event =
  rev_Type :: resource_event_type
  rev_Resource :: resource
  rev_Error :: "string option"

record event_chan =
  ech_buf :: "resource_event list"
  ech_closed :: bool

record rr_state =
  rr_resources :: "string \<rightharpoonup> nat"
  rr_entries :: "resource_reg_entry list"
  rr_handlers :: "string \<rightharpoonup> resource_handler"
  rr_subscribers :: "string \<rightharpoonup> nat"
  rr_chans :: "event_chan list"
  rr_maxConcurrentReads :: nat
  rr_cacheTimeout :: int
  rr_workerPool :: nat
  rr_reading :: "(nat \<times> string) list"   \<comment> \<open>reads that hold a worker: entry and URI\<close>
  rr_events :: "resource_event list"    \<comment> \<open>started \<open>notifySubscribers\<close> goroutines\<close>

definition NewResourceRegistry :: "int \<Rightarrow> int \<Rightarrow> rr_state outcome" where
  "NewResourceRegistry maxConcurrentReads cacheTimeout =
     (let mx = (if maxConcurrentReads = 0 then 50 else maxConcurrentReads);
          ttl = (if cacheTimeout = 0 then 5 * 60 * 1000000000 else cacheTimeout)
      in if mx < 0 then Panic ''makechan: size out of range''
         else Ok \<lparr>rr_resources = Map.empty, rr_entries = [], rr_handlers = Map.empty,
                  rr_subscribers = Map.empty, rr_chans = [], rr_maxConcurrentReads = nat mx,
                  rr_cacheTimeout = ttl, rr_workerPool = nat mx, rr_reading = [], rr_events = []\<rparr>)"

definition go_notify :: "resource_event \<Rightarrow> rr_state \<Rightarrow> rr_state" where
  "go_notify e s = s\<lparr>rr_events := rr_events s @ [e]\<rparr>"

definition rr_Register ::
  "int \<Rightarrow> string \<Rightarrow> string \<Rightarrow> string \<Rightarrow> resource_handler \<Rightarrow> rr_state \<Rightarrow> rr_state" where
  "rr_Register now uri name description handler s =
     (let resource = \<lparr>res_URI = uri, res_Name = name, res_Description = description,
                      res_MimeType = [], res_Annotations = GNil\<rparr>;
          entry = \<lparr>re_Resource = resource, re_Handler = handler, re_LastAccessed = now,
                   re_AccessCount = 0, re_CacheEntry = None\<rparr>
      in go_notify \<lparr>rev_Type = ResourceEventAdded, rev_Resource = resource, rev_Error = None\<rparr>
           (s\<lparr>rr_resources := (rr_resources s)(uri \<mapsto> length (rr_entries s)),
              rr_entries := rr_entries s @ [entry],
              rr_handlers := (rr_handlers s)(uri \<mapsto> handler)\<rparr>))"

definition rr_Unregister :: "string \<Rightarrow> rr_state \<Rightarrow> rr_state \<times> string option" where
  "rr_Unregister uri s =
     (case rr_resources s uri of
        None \<Rightarrow> (s, Some (''resource not found: '' @ uri))
      | Some a \<Rightarrow>
          (go_notify \<lparr>rev_Type = ResourceEventRemoved, rev_Resource = re_Resource (rr_entries s ! a),
                      rev_Error = None\<rparr>
             (s\<lparr>rr_resources := (rr_resources s)(uri := None),
                rr_handlers := (rr_handlers s)(uri := None)\<rparr>), None))"

definition rr_List :: "string list \<Rightarrow> rr_state \<Rightarrow> resource list" where
  "rr_List ks s = map (\<lambda>a. re_Resource (rr_entries s ! a)) (range_values (rr_resources s) ks)"

definition updateAccessStats :: "int \<Rightarrow> string \<Rightarrow> rr_state \<Rightarrow> rr_state" where
  "updateAccessStats now uri s =
     (case rr_resources s uri of
        None \<Rightarrow> s
      | Some a \<Rightarrow>
          s\<lparr>rr_entries := (rr_entries s)
              [a := (rr_entries s ! a)\<lparr>re_LastAccessed := now,
                      re_AccessCount := re_AccessCount (rr_entries s ! a) + 1\<rparr>]\<rparr>)"

datatype read_start = NotFound | Hit contents | Miss nat

definition cache_lookup :: "int \<Rightarrow> resource_reg_entry \<Rightarrow> contents option" where
  "cache_lookup now entry =
     (case re_CacheEntry entry of
        None \<Rightarrow> None
      | Some c \<Rightarrow> if now - ce_Timestamp c < ce_TTL c then Some (ce_Content c) else None)"

definition read_begin :: "int \<Rightarrow> string \<Rightarrow> rr_state \<Rightarrow> read_start" where
  "read_begin now uri s =
     (case rr_resources s uri of
        None \<Rightarrow> NotFound
      | Some a \<Rightarrow> (case cache_lookup now (rr_entries s ! a) of None \<Rightarrow> Miss a | Some c \<Rightarrow> Hit c))"

definition rr_take_token :: "nat \<Rightarrow> string \<Rightarrow> rr_state \<Rightarrow> rr_state option" where
  "rr_take_token a uri s =
     (if rr_workerPool s = 0 then None
      else Some (s\<lparr>rr_workerPool := rr_workerPool s - 1, rr_reading := rr_reading s @ [(a, uri)]\<rparr>))"

definition store_cache :: "int \<Rightarrow> string \<Rightarrow> contents \<Rightarrow> rr_state \<Rightarrow> rr_state" where
  "store_cache now uri content s =
     (case rr_resources s uri of
        None \<Rightarrow> s
      | Some a \<Rightarrow>
          s\<lparr>rr_entries := (rr_entries s)
              [a := (rr_entries s ! a)\<lparr>re_CacheEntry :=
                 Some \<lparr>ce_Content = content, ce_Timestamp = now, ce_TTL = rr_cacheTimeout s\<rparr>\<rparr>]\<rparr>)"

text \<open>
  Lines 183-209 for the \<open>i\<close>-th running read: the handler of the entry found at the start is
  called, its content is cached in the entry that is registered now, and the token goes back.
\<close>

definition read_finish :: "int \<Rightarrow> nat \<Rightarrow> rr_state \<Rightarrow> rr_state \<times> contents outcome" where
  "read_finish now i s =
     (let (a, uri) = rr_reading s ! i;
          s1 = s\<lparr>rr_workerPool := rr_workerPool s + 1,
                 rr_reading := take i (rr_reading s) @ drop (Suc i) (rr_reading s)\<rparr>
      in case re_Handler (rr_entries s ! a) uri of
           Err e \<Rightarrow>
             (go_notify \<lparr>rev_Type = ResourceEventError, rev_Resource = re_Resource (rr_entries s ! a),
                         rev_Error = Some e\<rparr> s1, Err e)
         | Panic p \<Rightarrow> (s1, Panic p)
         | Ok content \<Rightarrow> (updateAccessStats now uri (store_cache now uri content s1), Ok content))"

text \<open>
  \<open>Read\<close> without interruption, starting at time \<open>now\<close> and ending at \<open>now'\<close>; \<open>ctx\<close> is the error of
  the caller's context, if it is done. \<^term>\<open>None\<close>: blocked, all workers are busy.
\<close>

definition rr_Read ::
  "bool \<Rightarrow> string option \<Rightarrow> int \<Rightarrow> int \<Rightarrow> string \<Rightarrow> rr_state \<Rightarrow> (rr_state \<times> contents outcome) option" where
  "rr_Read pick ctx now now' uri s =
     (case read_begin now uri s of
        NotFound \<Rightarrow> Some (s, Err (''resource not found: '' @ uri))
      | Hit content \<Rightarrow> Some (updateAccessStats now uri s, Ok content)
      | Miss a \<Rightarrow>
          (case (rr_take_token a uri s, ctx) of
             (Some s1, None) \<Rightarrow> Some (read_finish now' (length (rr_reading s)) s1)
           | (Some s1, Some e) \<Rightarrow>
               if pick then Some (read_finish now' (length (rr_reading s)) s1) else Some (s, Err e)
           | (None, Some e) \<Rightarrow> Some (s, Err e)
           | (None, None) \<Rightarrow> None))"

subsection \<open>Subscribers\<close>

definition Subscribe :: "string \<Rightarrow> rr_state \<Rightarrow> rr_state \<times> nat" where
  "Subscribe subscriberID s =
     (s\<lparr>rr_chans := rr_chans s @ [\<lparr>ech_buf = [], ech_closed = False\<rparr>],
        rr_subscribers := (rr_subscribers s)(subscriberID \<mapsto> length (rr_chans s))\<rparr>,
      length (rr_chans s))"

definition Unsubscribe :: "string \<Rightarrow> rr_state \<Rightarrow> rr_state outcome" where
  "Unsubscribe subscriberID s =
     (case rr_subscribers s subscriberID of
        None \<Rightarrow> Ok s
      | Some c \<Rightarrow>
          if ech_closed (rr_chans s ! c) then Panic ''close of closed channel''
          else Ok (s\<lparr>rr_chans := (rr_chans s)[c := (rr_chans s ! c)\<lparr>ech_closed := True\<rparr>],
                     rr_subscribers := (rr_subscribers s)(subscriberID := None)\<rparr>))"

definition event_cap :: nat where "event_cap = 10"

fun notify_chans :: "resource_event \<Rightarrow> nat list \<Rightarrow> event_chan list \<Rightarrow> event_chan list outcome" where
  "notify_chans e [] chans = Ok chans"
| "notify_chans e (c # cs) chans =
     (if ech_closed (chans ! c) then Panic ''send on closed channel''
      else notify_chans e cs
        (if length (ech_buf (chans ! c)) < event_cap
         then chans[c := (chans ! c)\<lparr>ech_buf := ech_buf (chans ! c) @ [e]\<rparr>] else chans))"

definition notifySubscribers :: "string list \<Rightarrow> resource_event \<Rightarrow> rr_state \<Rightarrow> rr_state outcome" where
  "notifySubscribers ks e s =
     (case notify_chans e (range_values (rr_subscribers s) ks) (rr_chans s) of
        Ok chans \<Rightarrow> Ok (s\<lparr>rr_chans := chans\<rparr>)
      | Err x \<Rightarrow> Err x
      | Panic p \<Rightarrow> Panic p)"

text \<open>The \<open>i\<close>-th pending notification runs.\<close>

definition run_notify :: "string list \<Rightarrow> nat \<Rightarrow> rr_state \<Rightarrow> rr_state outcome" where
  "run_notify ks i s =
     notifySubscribers ks (rr_events s ! i)
       (s\<lparr>rr_events := take i (rr_events s) @ drop (Suc i) (rr_events s)\<rparr>)"

record resource_registry_stats =
  rrs_TotalResources :: nat
  rrs_CachedResources :: nat
  rrs_TotalAccesses :: int64

definition rr_GetStats :: "string list \<Rightarrow> rr_state \<Rightarrow> resource_registry_stats" where
  "rr_GetStats ks s =
     (let entries = map (\<lambda>a. rr_entries s ! a) (range_values (rr_resources s) ks)
      in \<lparr>rrs_TotalResources = length ks,
          rrs_CachedResources = length (filter (\<lambda>e. re_CacheEntry e \<noteq> None) entries),
          rrs_TotalAccesses = sum_list (map re_AccessCount entries)\<rparr>)"

section \<open>Tool registry\<close>

record tool_reg_entry =
  te_Tool :: tool
  te_Handler :: tool_handler
  te_ExecutionCount :: int64
  te_LastExecuted :: int
  te_AverageExecTime :: int64

record tool_execution_stats =
  tes_ExecutionCount :: int64
  tes_TotalTime :: int64
  tes_AverageTime :: int64
  tes_ErrorCount :: int64
  tes_LastExecuted :: int

record tr_state =
  tr_tools :: "string \<rightharpoonup> nat"
  tr_entries :: "tool_reg_entry list"
  tr_handlers :: "string \<rightharpoonup> tool_handler"
  tr_maxConcurrentExecutions :: nat
  tr_executionTimeout :: int
  tr_workerPool :: nat
  tr_executing :: "(nat \<times> string \<times> gval \<times> arguments) list"
  tr_executionStats :: "string \<rightharpoonup> tool_execution_stats"

definition zero_time :: int where
  \<comment> \<open>\<open>time.Time{}\<close>: 1 January of the year 1, in nanoseconds relative to 1970\<close>
  "zero_time = - 62135596800 * 1000000000"

definition NewToolRegistry :: "int \<Rightarrow> int \<Rightarrow> tr_state outcome" where
  "NewToolRegistry maxConcurrentExecutions executionTimeout =
     (let mx = (if maxConcurrentExecutions = 0 then 20 else maxConcurrentExecutions);
          t = (if executionTimeout = 0 then 30 * 1000000000 else executionTimeout)
      in if mx < 0 then Panic ''makechan: size out of range''
         else Ok \<lparr>tr_tools = Map.empty, tr_entries = [], tr_handlers = Map.empty,
                  tr_maxConcurrentExecutions = nat mx, tr_executionTimeout = t,
                  tr_workerPool = nat mx, tr_executing = [], tr_executionStats = Map.empty\<rparr>)"

definition tr_Register ::
  "int \<Rightarrow> string \<Rightarrow> string \<Rightarrow> arguments \<Rightarrow> tool_handler \<Rightarrow> tr_state \<Rightarrow> tr_state" where
  "tr_Register now name description inputSchema handler s =
     s\<lparr>tr_tools := (tr_tools s)(name \<mapsto> length (tr_entries s)),
       tr_entries := tr_entries s @
         [\<lparr>te_Tool = \<lparr>tool_Name = name, tool_Description = description, tool_InputSchema = inputSchema\<rparr>,
           te_Handler = handler, te_ExecutionCount = 0, te_LastExecuted = now, te_AverageExecTime = 0\<rparr>],
       tr_handlers := (tr_handlers s)(name \<mapsto> handler),
       tr_executionStats := (tr_executionStats s)(name \<mapsto>
         \<lparr>tes_ExecutionCount = 0, tes_TotalTime = 0, tes_AverageTime = 0, tes_ErrorCount = 0,
          tes_LastExecuted = zero_time\<rparr>)\<rparr>"

definition tr_List :: "string list \<Rightarrow> tr_state \<Rightarrow> tool list" where
  "tr_List ks s = map (\<lambda>a. te_Tool (tr_entries s ! a)) (range_values (tr_tools s) ks)"

text \<open>
  Go's integer division truncates towards zero and panics on a zero divisor, which the counter
  is only when it wraps around after \<open>2^64\<close> executions.
\<close>

definition div64 :: "int64 \<Rightarrow> int64 \<Rightarrow> int64" where
  "div64 a b = word_of_int (sint a sdiv sint b)"

definition updateExecutionStats ::
  "int \<Rightarrow> string \<Rightarrow> int64 \<Rightarrow> bool \<Rightarrow> tr_state \<Rightarrow> tr_state outcome" where
  "updateExecutionStats now name execTime isError s =
     (case tr_executionStats s name of
        None \<Rightarrow> Ok s
      | Some stats \<Rightarrow>
          (let count = tes_ExecutionCount stats + 1;
               total = tes_TotalTime stats + execTime
           in if count = 0 then Panic ''integer divide by zero''
              else
                (let stats' = \<lparr>tes_ExecutionCount = count, tes_TotalTime = total,
                               tes_AverageTime = div64 total count,
                               tes_ErrorCount = tes_ErrorCount stats + (if isError then 1 else 0),
                               tes_LastExecuted = now\<rparr>;
                     s1 = s\<lparr>tr_executionStats := (tr_executionStats s)(name \<mapsto> stats')\<rparr>
                 in Ok (case tr_tools s name of
                          None \<Rightarrow> s1
                        | Some a \<Rightarrow>
                            s1\<lparr>tr_entries := (tr_entries s)
                                [a := (tr_entries s ! a)\<lparr>te_ExecutionCount := count,
                                   te_LastExecuted := now, te_AverageExecTime := div64 total count\<rparr>]\<rparr>))))"

definition tr_begin ::
  "string \<Rightarrow> gval \<Rightarrow> arguments \<Rightarrow> tr_state \<Rightarrow> tr_state option outcome" where
  "tr_begin name token args s =
     (case tr_tools s name of
        None \<Rightarrow> Err (''tool not found: '' @ name)
      | Some a \<Rightarrow>
          Ok (if tr_workerPool s = 0 then None
              else Some (s\<lparr>tr_workerPool := tr_workerPool s - 1,
                           tr_executing := tr_executing s @ [(a, name, token, args)]\<rparr>)))"

text \<open>Lines 411-423 for the \<open>i\<close>-th running execution, which took \<open>execTime\<close>.\<close>

definition tr_finish :: "int \<Rightarrow> int64 \<Rightarrow> nat \<Rightarrow> tr_state \<Rightarrow> tr_state \<times> contents outcome" where
  "tr_finish now execTime i s =
     (let (a, name, token, args) = tr_executing s ! i;
          s1 = s\<lparr>tr_workerPool := tr_workerPool s + 1,
                 tr_executing := take i (tr_executing s) @ drop (Suc i) (tr_executing s)\<rparr>;
          res = te_Handler (tr_entries s ! a) token name args
      in case res of
           Panic p \<Rightarrow> (s1, Panic p)
         | _ \<Rightarrow> (case updateExecutionStats now name execTime (case res of Err _ \<Rightarrow> True | _ \<Rightarrow> False) s1 of
                   Ok s2 \<Rightarrow> (s2, res)
                 | Err e \<Rightarrow> (s1, Err e)
                 | Panic p \<Rightarrow> (s1, Panic p)))"

definition tr_Execute ::
  "bool \<Rightarrow> string option \<Rightarrow> int \<Rightarrow> int64 \<Rightarrow> string \<Rightarrow> gval \<Rightarrow> arguments \<Rightarrow> tr_state \<Rightarrow>
   (tr_state \<times> contents outcome) option" where
  "tr_Execute pick ctx now execTime name token args s =
     (case tr_begin name token args s of
        Err e \<Rightarrow> Some (s, Err e)
      | Panic p \<Rightarrow> Some (s, Panic p)
      | Ok None \<Rightarrow> (case ctx of None \<Rightarrow> None | Some e \<Rightarrow> Some (s, Err e))
      | Ok (Some s1) \<Rightarrow>
          if ctx \<noteq> None \<and> \<not> pick then Some (s, Err (the ctx))
          else Some (tr_finish now execTime (length (tr_executing s)) s1))"

definition tr_GetStats :: "tr_state \<Rightarrow> string \<rightharpoonup> tool_execution_stats" where
  "tr_GetStats s = tr_executionStats s"

section \<open>Prompt registry\<close>

record prompt_reg_entry =
  pe_Prompt :: prompt
  pe_Handler :: prompt_handler
  pe_UsageCount :: int64
  pe_LastUsed :: int

record pr_state =
  pr_prompts :: "string \<rightharpoonup> nat"
  pr_entries :: "prompt_reg_entry list"
  pr_handlers :: "string \<rightharpoonup> prompt_handler"
  pr_maxConcurrentExecutions :: nat
  pr_executionTimeout :: int
  pr_workerPool :: nat
  pr_executing :: "(nat \<times> string \<times> arguments) list"

definition NewPromptRegistry :: "int \<Rightarrow> int \<Rightarrow> pr_state outcome" where
  "NewPromptRegistry maxConcurrentExecutions executionTimeout =
     (let mx = (if maxConcurrentExecutions = 0 then 10 else maxConcurrentExecutions);
          t = (if executionTimeout = 0 then 10 * 1000000000 else executionTimeout)
      in if mx < 0 then Panic ''makechan: size out of range''
         else Ok \<lparr>pr_prompts = Map.empty, pr_entries = [], pr_handlers = Map.empty,
                  pr_maxConcurrentExecutions = nat mx, pr_executionTimeout = t,
                  pr_workerPool = nat mx, pr_executing = []\<rparr>)"

definition pr_Register ::
  "int \<Rightarrow> string \<Rightarrow> string \<Rightarrow> prompt_argument list \<Rightarrow> prompt_handler \<Rightarrow> pr_state \<Rightarrow> pr_state" where
  "pr_Register now name description args handler s =
     s\<lparr>pr_prompts := (pr_prompts s)(name \<mapsto> length (pr_entries s)),
       pr_entries := pr_entries s @
         [\<lparr>pe_Prompt = \<lparr>prompt_Name = name, prompt_Description = description, prompt_Arguments = args\<rparr>,
           pe_Handler = handler, pe_UsageCount = 0, pe_LastUsed = now\<rparr>],
       pr_handlers := (pr_handlers s)(name \<mapsto> handler)\<rparr>"

definition pr_List :: "string list \<Rightarrow> pr_state \<Rightarrow> prompt list" where
  "pr_List ks s = map (\<lambda>a. pe_Prompt (pr_entries s ! a)) (range_values (pr_prompts s) ks)"

definition pr_begin :: "string \<Rightarrow> arguments \<Rightarrow> pr_state \<Rightarrow> pr_state option outcome" where
  "pr_begin name args s =
     (case pr_prompts s name of
        None \<Rightarrow> Err (''prompt not found: '' @ name)
      | Some a \<Rightarrow>
          Ok (if pr_workerPool s = 0 then None
              else Some (s\<lparr>pr_workerPool := pr_workerPool s - 1,
                           pr_executing := pr_executing s @ [(a, name, args)]\<rparr>)))"

definition pr_finish :: "int \<Rightarrow> nat \<Rightarrow> pr_state \<Rightarrow> pr_state \<times> prompt_message outcome" where
  "pr_finish now i s =
     (let (a, name, args) = pr_executing s ! i;
          s1 = s\<lparr>pr_workerPool := pr_workerPool s + 1,
                 pr_executing := take i (pr_executing s) @ drop (Suc i) (pr_executing s)\<rparr>;
          res = pe_Handler (pr_entries s ! a) name args
      in case res of
           Panic p \<Rightarrow> (s1, Panic p)
         | _ \<Rightarrow> (s1\<lparr>pr_entries := (pr_entries s)
                     [a := (pr_entries s ! a)\<lparr>pe_UsageCount := pe_UsageCount (pr_entries s ! a) + 1,
                                               pe_LastUsed := now\<rparr>]\<rparr>, res))"

definition pr_Execute ::
  "bool \<Rightarrow> string option \<Rightarrow> int \<Rightarrow> string \<Rightarrow> arguments \<Rightarrow> pr_state \<Rightarrow>
   (pr_state \<times> prompt_message outcome) option" where
  "pr_Execute pick ctx now name args s =
     (case pr_begin name args s of
        Err e \<Rightarrow> Some (s, Err e)
      | Panic p \<Rightarrow> Some (s, Panic p)
      | Ok None \<Rightarrow> (case ctx of None \<Rightarrow> None | Some e \<Rightarrow> Some (s, Err e))
      | Ok (Some s1) \<Rightarrow>
          if ctx \<noteq> None \<and> \<not> pick then Some (s, Err (the ctx))
          else Some (pr_finish now (length (pr_executing s)) s1))"

section \<open>Invariants of the resource registry\<close>

definition rr_table_ok :: "rr_state \<Rightarrow> bool" where
  "rr_table_ok s \<longleftrightarrow>
     dom (rr_handlers s) = dom (rr_resources s) \<and>
     (\<forall>uri a. rr_resources s uri = Some a \<longrightarrow>
        a < length (rr_entries s) \<and> res_URI (re_Resource (rr_entries s ! a)) = uri \<and>
        rr_handlers s uri = Some (re_Handler (rr_entries s ! a))) \<and>
     (\<forall>(a, uri) \<in> set (rr_reading s). a < length (rr_entries s))"

definition rr_subs_ok :: "rr_state \<Rightarrow> bool" where
  "rr_subs_ok s \<longleftrightarrow>
     (\<forall>i c. rr_subscribers s i = Some c \<longrightarrow> c < length (rr_chans s) \<and> \<not> ech_closed (rr_chans s ! c)) \<and>
     inj_on (rr_subscribers s) (dom (rr_subscribers s)) \<and>
     (\<forall>ch \<in> set (rr_chans s). length (ech_buf ch) \<le> event_cap)"

definition rr_inv :: "rr_state \<Rightarrow> bool" where
  "rr_inv s \<longleftrightarrow> rr_table_ok s \<and> rr_subs_ok s \<and>
     rr_workerPool s + length (rr_reading s) = rr_maxConcurrentReads s"

inductive rr_step :: "rr_state \<Rightarrow> rr_state \<Rightarrow> bool" where
  register: "rr_step s (rr_Register now uri n d h s)"
| unregister: "rr_step s (fst (rr_Unregister uri s))"
| hit: "read_begin now uri s = Hit content \<Longrightarrow> rr_step s (updateAccessStats now uri s)"
| miss: "read_begin now uri s = Miss a \<Longrightarrow> rr_take_token a uri s = Some s' \<Longrightarrow> rr_step s s'"
| finish: "i < length (rr_reading s) \<Longrightarrow> rr_step s (fst (read_finish now i s))"
| subscribe: "rr_step s (fst (Subscribe ident s))"
| unsubscribe: "Unsubscribe ident s = Ok s' \<Longrightarrow> rr_step s s'"
| notify: "i < length (rr_events s) \<Longrightarrow> range_order (rr_subscribers s) ks \<Longrightarrow> run_notify ks i s = Ok s' \<Longrightarrow>
    rr_step s s'"
| drain: "c < length (rr_chans s) \<Longrightarrow> ech_buf (rr_chans s ! c) = e # es \<Longrightarrow>
    rr_step s (s\<lparr>rr_chans := (rr_chans s)[c := (rr_chans s ! c)\<lparr>ech_buf := es\<rparr>]\<rparr>)"

inductive rr_reachable :: "rr_state \<Rightarrow> bool" where
  start: "NewResourceRegistry mx ttl = Ok s \<Longrightarrow> rr_reachable s"
| step: "rr_reachable s \<Longrightarrow> rr_step s s' \<Longrightarrow> rr_reachable s'"

lemmas rr_defs [regs_simps] =
  go_notify_def updateAccessStats_def store_cache_def rr_take_token_def

lemma rr_subs_cong:
  "rr_subscribers s' = rr_subscribers s \<Longrightarrow> rr_chans s' = rr_chans s \<Longrightarrow> rr_subs_ok s' = rr_subs_ok s"
  by (simp add: rr_subs_ok_def)

lemma rr_table_cong:
  "rr_resources s' = rr_resources s \<Longrightarrow> rr_handlers s' = rr_handlers s \<Longrightarrow>
   rr_entries s' = rr_entries s \<Longrightarrow> set (rr_reading s') \<subseteq> set (rr_reading s) \<Longrightarrow>
   rr_table_ok s \<Longrightarrow> rr_table_ok s'"
  unfolding rr_table_ok_def by auto

text \<open>Updating the statistics or the cache of a registered entry.\<close>

lemma rr_table_entry:
  assumes "rr_table_ok s" and "rr_resources s uri = Some a"
    and "re_Resource e = re_Resource (rr_entries s ! a)" and "re_Handler e = re_Handler (rr_entries s ! a)"
  shows "rr_table_ok (s\<lparr>rr_entries := (rr_entries s)[a := e]\<rparr>)"
  using assms by (auto simp: rr_table_ok_def nth_list_update)

lemma updateAccessStats_table: "rr_table_ok s \<Longrightarrow> rr_table_ok (updateAccessStats now uri s)"
  by (auto simp: updateAccessStats_def split: option.splits intro!: rr_table_entry)

lemma store_cache_table: "rr_table_ok s \<Longrightarrow> rr_table_ok (store_cache now uri content s)"
  by (auto simp: store_cache_def split: option.splits intro!: rr_table_entry)

lemma rr_Register_table: "rr_table_ok s \<Longrightarrow> rr_table_ok (rr_Register now uri n d h s)"
  by (fastforce simp: rr_table_ok_def rr_Register_def go_notify_def Let_def nth_append)

lemma rr_Unregister_table: "rr_table_ok s \<Longrightarrow> rr_table_ok (fst (rr_Unregister uri s))"
  by (auto simp: rr_table_ok_def rr_Unregister_def go_notify_def split: option.splits)

lemma updates_others [simp]:
  "rr_subscribers (updateAccessStats now uri s) = rr_subscribers s"
  "rr_chans (updateAccessStats now uri s) = rr_chans s"
  "rr_workerPool (updateAccessStats now uri s) = rr_workerPool s"
  "rr_reading (updateAccessStats now uri s) = rr_reading s"
  "rr_maxConcurrentReads (updateAccessStats now uri s) = rr_maxConcurrentReads s"
  "rr_subscribers (store_cache now uri content s) = rr_subscribers s"
  "rr_chans (store_cache now uri content s) = rr_chans s"
  "rr_workerPool (store_cache now uri content s) = rr_workerPool s"
  "rr_reading (store_cache now uri content s) = rr_reading s"
  "rr_maxConcurrentReads (store_cache now uri content s) = rr_maxConcurrentReads s"
  "rr_resources (store_cache now uri content s) = rr_resources s"
  "rr_handlers (store_cache now uri content s) = rr_handlers s"
  by (auto simp: updateAccessStats_def store_cache_def split: option.splits)

lemma read_finish_effect:
  assumes "i < length (rr_reading s)"
  shows "rr_workerPool (fst (read_finish now i s)) = rr_workerPool s + 1"
    and "length (rr_reading (fst (read_finish now i s))) + 1 = length (rr_reading s)"
    and "rr_maxConcurrentReads (fst (read_finish now i s)) = rr_maxConcurrentReads s"
    and "rr_subscribers (fst (read_finish now i s)) = rr_subscribers s"
    and "rr_chans (fst (read_finish now i s)) = rr_chans s"
    and "rr_table_ok s \<Longrightarrow> rr_table_ok (fst (read_finish now i s))"
proof -
  obtain a uri where r: "rr_reading s ! i = (a, uri)" by (cases "rr_reading s ! i")
  let ?s1 = "s\<lparr>rr_workerPool := rr_workerPool s + 1,
               rr_reading := take i (rr_reading s) @ drop (Suc i) (rr_reading s)\<rparr>"
  have sub: "set (take i (rr_reading s) @ drop (Suc i) (rr_reading s)) \<subseteq> set (rr_reading s)"
    by (auto dest: in_set_takeD in_set_dropD)
  have t1: "rr_table_ok s \<Longrightarrow> rr_table_ok ?s1"
    by (rule rr_table_cong [of _ s]) (use sub in simp_all)
  have t2: "rr_table_ok s \<Longrightarrow> rr_table_ok (go_notify e ?s1)" for e
    using rr_table_cong [of "go_notify e ?s1" ?s1] t1 by (simp add: go_notify_def)
  show "rr_workerPool (fst (read_finish now i s)) = rr_workerPool s + 1"
    and "length (rr_reading (fst (read_finish now i s))) + 1 = length (rr_reading s)"
    and "rr_maxConcurrentReads (fst (read_finish now i s)) = rr_maxConcurrentReads s"
    and "rr_subscribers (fst (read_finish now i s)) = rr_subscribers s"
    and "rr_chans (fst (read_finish now i s)) = rr_chans s"
    using assms by (auto simp: read_finish_def r Let_def go_notify_def split: outcome.splits)
  show "rr_table_ok s \<Longrightarrow> rr_table_ok (fst (read_finish now i s))"
    using t1 t2 store_cache_table [of ?s1] updateAccessStats_table
    by (auto simp: read_finish_def r Let_def split: outcome.splits)
qed

subsection \<open>Subscribers\<close>

lemma notify_chans_Ok:
  assumes "\<forall>c \<in> set cs. c < length chans \<and> \<not> ech_closed (chans ! c)"
    and "\<forall>ch \<in> set chans. length (ech_buf ch) \<le> event_cap"
  shows "\<exists>chans'. notify_chans e cs chans = Ok chans' \<and> length chans' = length chans \<and>
    (\<forall>c < length chans. ech_closed (chans' ! c) = ech_closed (chans ! c)) \<and>
    (\<forall>ch \<in> set chans'. length (ech_buf ch) \<le> event_cap)"
  using assms
proof (induction e cs chans rule: notify_chans.induct)
  case (2 e c cs chans)
  let ?chans = "if length (ech_buf (chans ! c)) < event_cap
         then chans[c := (chans ! c)\<lparr>ech_buf := ech_buf (chans ! c) @ [e]\<rparr>] else chans"
  have len: "length ?chans = length chans" by simp
  have closed: "ech_closed (?chans ! d) = ech_closed (chans ! d)" if "d < length chans" for d
    using that by (cases "d = c") simp_all
  have bound: "\<forall>ch \<in> set ?chans. length (ech_buf ch) \<le> event_cap"
    using "2.prems"(2) by (auto dest!: set_update_subset_insert [THEN subsetD])
  have "\<forall>d \<in> set cs. d < length ?chans \<and> \<not> ech_closed (?chans ! d)"
    using "2.prems"(1) closed len by auto
  then show ?case
    using "2.IH" [OF _ _ bound] "2.prems"(1) closed len by fastforce
qed simp

lemma subscriber_chans:
  assumes "rr_subs_ok s" and "range_order (rr_subscribers s) ks"
  shows "\<forall>c \<in> set (range_values (rr_subscribers s) ks). c < length (rr_chans s) \<and> \<not> ech_closed (rr_chans s ! c)"
  using assms by (auto simp: set_range_values [OF assms(2)] ran_def rr_subs_ok_def)

lemma notifySubscribers_Ok:
  assumes "rr_subs_ok s" and "range_order (rr_subscribers s) ks"
  shows "\<exists>s'. notifySubscribers ks e s = Ok s' \<and> rr_subs_ok s' \<and> (\<exists>chans. s' = s\<lparr>rr_chans := chans\<rparr>)"
proof -
  obtain chans where "notify_chans e (range_values (rr_subscribers s) ks) (rr_chans s) = Ok chans"
    "length chans = length (rr_chans s)"
    "\<forall>c < length (rr_chans s). ech_closed (chans ! c) = ech_closed (rr_chans s ! c)"
    "\<forall>ch \<in> set chans. length (ech_buf ch) \<le> event_cap"
    using notify_chans_Ok [OF subscriber_chans [OF assms]] assms(1) unfolding rr_subs_ok_def by blast
  then show ?thesis
    using assms(1) by (auto simp: notifySubscribers_def rr_subs_ok_def)
qed

lemma run_notify_Ok:
  assumes "rr_subs_ok s" and "range_order (rr_subscribers s) ks"
  shows "\<exists>s'. run_notify ks i s = Ok s' \<and> rr_subs_ok s' \<and>
    (\<exists>chans evs. s' = s\<lparr>rr_events := evs, rr_chans := chans\<rparr>)"
proof -
  let ?s = "s\<lparr>rr_events := take i (rr_events s) @ drop (Suc i) (rr_events s)\<rparr>"
  have "rr_subs_ok ?s" using assms(1) by (simp add: rr_subs_ok_def)
  then show ?thesis
    using notifySubscribers_Ok [of ?s ks "rr_events s ! i"] assms(2)
    by (force simp: run_notify_def)
qed

lemma Unsubscribe_Ok:
  assumes "rr_subs_ok s"
  shows "\<exists>s'. Unsubscribe ident s = Ok s' \<and> rr_subs_ok s' \<and>
    (\<exists>chans subs. s' = s\<lparr>rr_chans := chans, rr_subscribers := subs\<rparr>)"
proof (cases "rr_subscribers s ident")
  case None
  then show ?thesis
    using assms by (auto simp: Unsubscribe_def intro!: exI [of _ "rr_chans s"] exI [of _ "rr_subscribers s"])
next
  case (Some c)
  then have c: "c < length (rr_chans s)" "\<not> ech_closed (rr_chans s ! c)"
    using assms by (auto simp: rr_subs_ok_def)
  let ?ch = "(rr_chans s ! c)\<lparr>ech_closed := True\<rparr>"
  let ?s = "s\<lparr>rr_chans := (rr_chans s)[c := ?ch], rr_subscribers := (rr_subscribers s)(ident := None)\<rparr>"
  have other: "c' \<noteq> c" if "rr_subscribers s i = Some c'" "i \<noteq> ident" for i c'
    using assms that Some by (auto simp: rr_subs_ok_def inj_on_def dom_def)
  have "length (ech_buf ?ch) \<le> event_cap"
    using assms c(1) by (auto simp: rr_subs_ok_def)
  then have "\<forall>ch \<in> set ((rr_chans s)[c := ?ch]). length (ech_buf ch) \<le> event_cap"
    using assms by (auto simp: rr_subs_ok_def dest!: set_update_subset_insert [THEN subsetD])
  moreover have "inj_on ((rr_subscribers s)(ident := None)) (dom ((rr_subscribers s)(ident := None)))"
    using assms by (auto simp: rr_subs_ok_def inj_on_def dom_def)
  ultimately have "rr_subs_ok ?s"
    using assms other unfolding rr_subs_ok_def
    by (auto split: if_splits) (metis nth_list_update_neq)
  then show ?thesis using Some c by (auto simp: Unsubscribe_def)
qed

lemma Subscribe_subs: "rr_subs_ok s \<Longrightarrow> rr_subs_ok (fst (Subscribe ident s))"
  by (fastforce simp: rr_subs_ok_def Subscribe_def inj_on_def dom_def nth_append)

subsection \<open>Reachable states\<close>

lemma rr_step_inv:
  assumes "rr_step s s'" and "rr_inv s"
  shows "rr_inv s'"
  using assms(1)
proof cases
  case (register now uri n d h)
  then show ?thesis
    using assms(2) rr_Register_table rr_subs_cong [of s' s]
    by (simp add: rr_inv_def) (simp add: rr_Register_def go_notify_def Let_def)
next
  case (unregister uri)
  then show ?thesis
    using assms(2) rr_Unregister_table [of s uri] rr_subs_cong [of s' s]
    by (auto simp: rr_inv_def) (auto simp: rr_Unregister_def go_notify_def split: option.splits)
next
  case (hit now uri content)
  then show ?thesis
    using assms(2) updateAccessStats_table rr_subs_cong [of s' s] by (simp add: rr_inv_def)
next
  case (miss now uri a)
  have a: "rr_resources s uri = Some a"
    using miss(1) by (auto simp: read_begin_def split: option.splits)
  have s': "s' = s\<lparr>rr_workerPool := rr_workerPool s - 1, rr_reading := rr_reading s @ [(a, uri)]\<rparr>"
    and "0 < rr_workerPool s"
    using miss(2) by (auto simp: rr_take_token_def split: if_splits)
  moreover have "rr_table_ok s'"
    using assms(2) a unfolding s' by (auto simp: rr_inv_def rr_table_ok_def)
  ultimately show ?thesis
    using assms(2) rr_subs_cong [of s' s] by (simp add: rr_inv_def)
next
  case (finish i now)
  then show ?thesis
    using assms(2) read_finish_effect [OF finish(2), of now] rr_subs_cong [of s' s]
    by (simp add: rr_inv_def)
next
  case (subscribe ident)
  then have "rr_table_ok s'"
    using assms(2) rr_table_cong [of s' s] by (simp add: rr_inv_def Subscribe_def)
  then show ?thesis
    using assms(2) Subscribe_subs subscribe by (simp add: rr_inv_def) (simp add: Subscribe_def)
next
  case (unsubscribe ident)
  obtain chans subs where s': "s' = s\<lparr>rr_chans := chans, rr_subscribers := subs\<rparr>" "rr_subs_ok s'"
    using Unsubscribe_Ok [of s ident] assms(2) unsubscribe by (auto simp: rr_inv_def)
  have "rr_table_ok s'" using assms(2) rr_table_cong [of s' s] s' by (simp add: rr_inv_def)
  then show ?thesis using assms(2) s' by (simp add: rr_inv_def)
next
  case (notify i ks)
  obtain chans evs where s': "s' = s\<lparr>rr_events := evs, rr_chans := chans\<rparr>" "rr_subs_ok s'"
    using run_notify_Ok [of s ks i] assms(2) notify by (auto simp: rr_inv_def)
  have "rr_table_ok s'" using assms(2) rr_table_cong [of s' s] s' by (simp add: rr_inv_def)
  then show ?thesis using assms(2) s' by (simp add: rr_inv_def)
next
  case (drain c e es)
  have tab: "rr_table_ok s'" using assms(2) rr_table_cong [of s' s] drain by (simp add: rr_inv_def)
  have "length (e # es) \<le> event_cap"
    using assms(2) drain(2,3) unfolding rr_inv_def rr_subs_ok_def by (metis nth_mem)
  then have "\<forall>ch \<in> set (rr_chans s'). length (ech_buf ch) \<le> event_cap"
    using assms(2) drain by (auto simp: rr_inv_def rr_subs_ok_def dest!: set_update_subset_insert [THEN subsetD])
  moreover have "ech_closed (rr_chans s' ! d) = ech_closed (rr_chans s ! d)" for d
    using drain by (cases "d = c") simp_all
  ultimately have "rr_subs_ok s'"
    using assms(2) drain by (simp add: rr_inv_def rr_subs_ok_def)
  then show ?thesis using assms(2) tab drain by (simp add: rr_inv_def)
qed

lemma rr_reachable_inv: "rr_reachable s \<Longrightarrow> rr_inv s"
proof (induction rule: rr_reachable.induct)
  case (start mx ttl s)
  then show ?case
    by (auto simp: NewResourceRegistry_def Let_def rr_inv_def rr_table_ok_def rr_subs_ok_def split: if_splits)
qed (rule rr_step_inv)

subsection \<open>The interfaces\<close>

definition rr_entry :: "rr_state \<Rightarrow> string \<Rightarrow> (string \<times> string \<times> resource_handler) option" where
  "rr_entry s uri =
     map_option (\<lambda>a. let e = rr_entries s ! a
                     in (res_Name (re_Resource e), res_Description (re_Resource e), re_Handler e))
       (rr_resources s uri)"

lemma rr_entry_Register:
  "rr_table_ok s \<Longrightarrow> rr_entry (rr_Register now uri n d h s) = (rr_entry s)(uri \<mapsto> (n, d, h))"
proof
  fix u
  assume ok: "rr_table_ok s"
  show "rr_entry (rr_Register now uri n d h s) u = ((rr_entry s)(uri \<mapsto> (n, d, h))) u"
  proof (cases "u = uri")
    case True
    then show ?thesis by (simp add: rr_entry_def rr_Register_def go_notify_def Let_def)
  next
    case False
    then show ?thesis
      using ok by (cases "rr_resources s u")
        (auto simp: rr_entry_def rr_Register_def go_notify_def Let_def nth_append rr_table_ok_def)
  qed
qed

lemma rr_entry_Unregister: "rr_entry (fst (rr_Unregister uri s)) = (rr_entry s)(uri := None)"
  by (auto simp: rr_entry_def rr_Unregister_def go_notify_def fun_eq_iff split: option.splits)

lemma updateExecutionStats_others:
  assumes "updateExecutionStats now name t err s = Ok s'"
  shows "tr_workerPool s' = tr_workerPool s" and "tr_executing s' = tr_executing s"
    and "tr_maxConcurrentExecutions s' = tr_maxConcurrentExecutions s"
  using assms by (auto simp: updateExecutionStats_def Let_def split: option.splits if_splits)

lemma tr_finish_effect:
  assumes "i < length (tr_executing s)"
  shows "tr_workerPool (fst (tr_finish now t i s)) = tr_workerPool s + 1"
    and "length (tr_executing (fst (tr_finish now t i s))) + 1 = length (tr_executing s)"
    and "tr_maxConcurrentExecutions (fst (tr_finish now t i s)) = tr_maxConcurrentExecutions s"
proof -
  obtain a name token args where "tr_executing s ! i = (a, name, token, args)"
    by (cases "tr_executing s ! i")
  then show "tr_workerPool (fst (tr_finish now t i s)) = tr_workerPool s + 1"
    and "length (tr_executing (fst (tr_finish now t i s))) + 1 = length (tr_executing s)"
    and "tr_maxConcurrentExecutions (fst (tr_finish now t i s)) = tr_maxConcurrentExecutions s"
    using assms
    by (auto simp: tr_finish_def Let_def updateExecutionStats_others split: outcome.splits)
qed

lemma pr_finish_effect:
  assumes "i < length (pr_executing s)"
  shows "pr_workerPool (fst (pr_finish now i s)) = pr_workerPool s + 1"
    and "length (pr_executing (fst (pr_finish now i s))) + 1 = length (pr_executing s)"
    and "pr_maxConcurrentExecutions (fst (pr_finish now i s)) = pr_maxConcurrentExecutions s"
proof -
  obtain a name args where "pr_executing s ! i = (a, name, args)"
    by (cases "pr_executing s ! i")
  then show "pr_workerPool (fst (pr_finish now i s)) = pr_workerPool s + 1"
    and "length (pr_executing (fst (pr_finish now i s))) + 1 = length (pr_executing s)"
    and "pr_maxConcurrentExecutions (fst (pr_finish now i s)) = pr_maxConcurrentExecutions s"
    using assms by (auto simp: pr_finish_def Let_def split: outcome.splits)
qed

interpretation rr_pool: token_pool rr_maxConcurrentReads rr_workerPool "\<lambda>s. length (rr_reading s)"
  "\<lambda>_. True" "\<lambda>s s'. \<exists>a uri. rr_take_token a uri s = Some s'"
  "\<lambda>s s'. \<exists>i now. i < length (rr_reading s) \<and> s' = fst (read_finish now i s)"
  by unfold_locales (auto simp: rr_take_token_def read_finish_effect [simplified] split: if_splits)

interpretation tr_pool: token_pool tr_maxConcurrentExecutions tr_workerPool "\<lambda>s. length (tr_executing s)"
  "\<lambda>s. tr_tools s \<noteq> Map.empty" "\<lambda>s s'. \<exists>name token args. tr_begin name token args s = Ok (Some s')"
  "\<lambda>s s'. \<exists>i now t. i < length (tr_executing s) \<and> s' = fst (tr_finish now t i s)"
proof unfold_locales
  fix s s'
  show "tr_tools s \<noteq> Map.empty \<Longrightarrow>
      (\<exists>s'. \<exists>name token args. tr_begin name token args s = Ok (Some s')) = (0 < tr_workerPool s)"
  proof -
    assume "tr_tools s \<noteq> Map.empty"
    then obtain name a where na: "tr_tools s name = Some a" by (auto simp: fun_eq_iff)
    have "\<exists>s'. tr_begin name GNil None s = Ok (Some s')" if "0 < tr_workerPool s"
      using that na by (simp add: tr_begin_def)
    moreover have "0 < tr_workerPool s" if "tr_begin name token args s = Ok (Some s')" for name token args s'
      using that by (auto simp: tr_begin_def split: option.splits if_splits)
    ultimately show ?thesis by blast
  qed
  show "\<exists>name token args. tr_begin name token args s = Ok (Some s') \<Longrightarrow>
      tr_workerPool s' + 1 = tr_workerPool s \<and> length (tr_executing s') = length (tr_executing s) + 1 \<and>
      tr_maxConcurrentExecutions s' = tr_maxConcurrentExecutions s"
    by (auto simp: tr_begin_def split: option.splits if_splits)
  show "\<exists>i now t. i < length (tr_executing s) \<and> s' = fst (tr_finish now t i s) \<Longrightarrow>
      tr_workerPool s' = tr_workerPool s + 1 \<and> length (tr_executing s') + 1 = length (tr_executing s) \<and>
      tr_maxConcurrentExecutions s' = tr_maxConcurrentExecutions s"
    by (auto simp: tr_finish_effect [simplified])
qed

interpretation pr_pool: token_pool pr_maxConcurrentExecutions pr_workerPool "\<lambda>s. length (pr_executing s)"
  "\<lambda>s. pr_prompts s \<noteq> Map.empty" "\<lambda>s s'. \<exists>name args. pr_begin name args s = Ok (Some s')"
  "\<lambda>s s'. \<exists>i now. i < length (pr_executing s) \<and> s' = fst (pr_finish now i s)"
proof unfold_locales
  fix s s'
  show "pr_prompts s \<noteq> Map.empty \<Longrightarrow>
      (\<exists>s'. \<exists>name args. pr_begin name args s = Ok (Some s')) = (0 < pr_workerPool s)"
  proof -
    assume "pr_prompts s \<noteq> Map.empty"
    then obtain name a where na: "pr_prompts s name = Some a" by (auto simp: fun_eq_iff)
    have "\<exists>s'. pr_begin name None s = Ok (Some s')" if "0 < pr_workerPool s"
      using that na by (simp add: pr_begin_def)
    moreover have "0 < pr_workerPool s" if "pr_begin name args s = Ok (Some s')" for name args s'
      using that by (auto simp: pr_begin_def split: option.splits if_splits)
    ultimately show ?thesis by blast
  qed
  show "\<exists>name args. pr_begin name args s = Ok (Some s') \<Longrightarrow>
      pr_workerPool s' + 1 = pr_workerPool s \<and> length (pr_executing s') = length (pr_executing s) + 1 \<and>
      pr_maxConcurrentExecutions s' = pr_maxConcurrentExecutions s"
    by (auto simp: pr_begin_def split: option.splits if_splits)
  show "\<exists>i now. i < length (pr_executing s) \<and> s' = fst (pr_finish now i s) \<Longrightarrow>
      pr_workerPool s' = pr_workerPool s + 1 \<and> length (pr_executing s') + 1 = length (pr_executing s) \<and>
      pr_maxConcurrentExecutions s' = pr_maxConcurrentExecutions s"
    by (auto simp: pr_finish_effect [simplified])
qed

interpretation rr_table: registry rr_table_ok "\<lambda>uri (n, d, h). rr_Register now uri n d h" rr_entry
  "\<lambda>uri s. (fst (rr_Unregister uri s), snd (rr_Unregister uri s) = None)" for now
proof unfold_locales
  fix s k v
  show "rr_table_ok s \<Longrightarrow> rr_table_ok ((case v of (n, d, h) \<Rightarrow> rr_Register now k n d h) s)"
    by (cases v) (simp add: rr_Register_table)
  show "rr_table_ok s \<Longrightarrow> rr_table_ok (fst (fst (rr_Unregister k s), snd (rr_Unregister k s) = None))"
    by (simp add: rr_Unregister_table)
  show "rr_table_ok s \<Longrightarrow> rr_entry ((case v of (n, d, h) \<Rightarrow> rr_Register now k n d h) s) = (rr_entry s)(k \<mapsto> v)"
    by (cases v) (simp add: rr_entry_Register)
  show "rr_table_ok s \<Longrightarrow> rr_entry (fst (fst (rr_Unregister k s), snd (rr_Unregister k s) = None)) =
      (rr_entry s)(k := None)"
    by (simp add: rr_entry_Unregister)
  show "rr_table_ok s \<Longrightarrow> snd (fst (rr_Unregister k s), snd (rr_Unregister k s) = None) = (rr_entry s k \<noteq> None)"
    by (simp add: rr_Unregister_def rr_entry_def split: option.splits)
qed

subsection \<open>Reading\<close>

lemma read_begin_Miss:
  "read_begin now uri s = Miss a \<longleftrightarrow>
     rr_resources s uri = Some a \<and> cache_lookup now (rr_entries s ! a) = None"
  by (auto simp: read_begin_def split: option.splits)

lemma read_finish_Ok:
  assumes "rr_reading s ! i = (a, uri)" and "re_Handler (rr_entries s ! a) uri = Ok content"
  shows "read_finish now i s =
    (updateAccessStats now uri (store_cache now uri content
       (s\<lparr>rr_workerPool := rr_workerPool s + 1,
          rr_reading := take i (rr_reading s) @ drop (Suc i) (rr_reading s)\<rparr>)), Ok content)"
  using assms by (simp add: read_finish_def)

text \<open>What a read finds after another read has stored the content of the resource.\<close>

lemma read_begin_stored:
  assumes "rr_resources s uri = Some b" and "b < length (rr_entries s)"
  shows "read_begin now' uri (updateAccessStats now uri (store_cache now uri content s)) =
    (if now' - now < rr_cacheTimeout s then Hit content else Miss b)"
  using assms by (simp add: read_begin_def cache_lookup_def updateAccessStats_def store_cache_def)

section \<open>Tool statistics\<close>

inductive tr_step :: "tr_state \<Rightarrow> tr_state \<Rightarrow> bool" where
  register: "tr_step s (tr_Register now name d sch h s)"
| start: "tr_begin name token args s = Ok (Some s') \<Longrightarrow> tr_step s s'"
| finish: "i < length (tr_executing s) \<Longrightarrow> tr_step s (fst (tr_finish now t i s))"

inductive tr_reachable :: "tr_state \<Rightarrow> bool" where
  start: "NewToolRegistry mx t = Ok s \<Longrightarrow> tr_reachable s"
| step: "tr_reachable s \<Longrightarrow> tr_step s s' \<Longrightarrow> tr_reachable s'"

definition stats_ok :: "tool_execution_stats \<Rightarrow> bool" where
  "stats_ok st \<longleftrightarrow>
     tes_AverageTime st = (if tes_ExecutionCount st = 0 then 0
                           else div64 (tes_TotalTime st) (tes_ExecutionCount st)) \<and>
     unat (tes_ErrorCount st) \<le> unat (tes_ExecutionCount st)"

text \<open>The statistics of a tool are consistent and mirrored in its entry.\<close>

definition tool_stats_ok :: "tr_state \<Rightarrow> string \<Rightarrow> bool" where
  "tool_stats_ok s name \<longleftrightarrow>
     (case (tr_tools s name, tr_executionStats s name) of
        (None, None) \<Rightarrow> True
      | (Some a, Some st) \<Rightarrow>
          a < length (tr_entries s) \<and> tool_Name (te_Tool (tr_entries s ! a)) = name \<and> stats_ok st \<and>
          te_ExecutionCount (tr_entries s ! a) = tes_ExecutionCount st \<and>
          te_AverageExecTime (tr_entries s ! a) = tes_AverageTime st
      | _ \<Rightarrow> False)"

definition tr_stats_inv :: "tr_state \<Rightarrow> bool" where
  "tr_stats_inv s \<longleftrightarrow> (\<forall>name. tool_stats_ok s name)"

lemma tr_stats_invE:
  assumes "tr_stats_inv s" and "tr_tools s name = Some a"
  obtains st where "tr_executionStats s name = Some st" and "a < length (tr_entries s)"
    and "tool_Name (te_Tool (tr_entries s ! a)) = name" and "stats_ok st"
    and "te_ExecutionCount (tr_entries s ! a) = tes_ExecutionCount st"
    and "te_AverageExecTime (tr_entries s ! a) = tes_AverageTime st"
proof -
  have "tool_stats_ok s name" using assms(1) by (simp add: tr_stats_inv_def)
  then show thesis using assms(2) that by (auto simp: tool_stats_ok_def split: option.splits)
qed

lemma tr_stats_cong:
  "tr_tools s' = tr_tools s \<Longrightarrow> tr_entries s' = tr_entries s \<Longrightarrow>
   tr_executionStats s' = tr_executionStats s \<Longrightarrow> tr_stats_inv s' = tr_stats_inv s"
  by (simp only: tr_stats_inv_def tool_stats_ok_def)

lemma stats_ok_next:
  assumes "stats_ok st" and "tes_ExecutionCount st + 1 \<noteq> 0"
  shows "stats_ok \<lparr>tes_ExecutionCount = tes_ExecutionCount st + 1, tes_TotalTime = tot,
    tes_AverageTime = div64 tot (tes_ExecutionCount st + 1),
    tes_ErrorCount = tes_ErrorCount st + (if e then 1 else 0), tes_LastExecuted = now\<rparr>"
proof -
  have suc: "unat (w + 1) = Suc (unat w)" if "w + 1 \<noteq> 0" for w :: int64
    using that unatSuc [of w] by (simp add: add.commute)
  have le: "unat (tes_ErrorCount st) \<le> unat (tes_ExecutionCount st)"
    using assms(1) by (simp add: stats_ok_def)
  have "unat (tes_ErrorCount st + (if e then 1 else 0)) \<le> unat (tes_ExecutionCount st + 1)"
  proof (cases "e \<and> tes_ErrorCount st + 1 \<noteq> 0")
    case True
    then show ?thesis using le suc assms(2) by simp
  next
    case False
    then show ?thesis using le suc [OF assms(2)] by (cases e) auto
  qed
  then show ?thesis using assms(2) by (simp add: stats_ok_def)
qed

lemma updateExecutionStats_inv:
  assumes inv: "tr_stats_inv s" and upd: "updateExecutionStats now name t e s = Ok s'"
  shows "tr_stats_inv s'"
proof (cases "tr_tools s name")
  case None
  have "tool_stats_ok s name" using inv by (simp add: tr_stats_inv_def)
  then have "tr_executionStats s name = None"
    using None by (auto simp: tool_stats_ok_def split: option.splits)
  then show ?thesis using assms by (simp add: updateExecutionStats_def)
next
  case (Some a)
  then obtain st where st: "tr_executionStats s name = Some st" and bound: "a < length (tr_entries s)"
    "tool_Name (te_Tool (tr_entries s ! a)) = name" and ok: "stats_ok st"
    using tr_stats_invE [OF inv] by metis
  have nz: "tes_ExecutionCount st + 1 \<noteq> 0"
    using upd st by (auto simp: updateExecutionStats_def Let_def split: if_splits)
  let ?total = "tes_TotalTime st + t" and ?count = "tes_ExecutionCount st + 1"
  let ?st = "\<lparr>tes_ExecutionCount = ?count, tes_TotalTime = ?total,
    tes_AverageTime = div64 ?total ?count,
    tes_ErrorCount = tes_ErrorCount st + (if e then 1 else 0), tes_LastExecuted = now\<rparr>"
  let ?e = "(tr_entries s ! a)\<lparr>te_ExecutionCount := ?count, te_LastExecuted := now,
               te_AverageExecTime := div64 ?total ?count\<rparr>"
  have s': "s' = s\<lparr>tr_executionStats := (tr_executionStats s)(name \<mapsto> ?st),
                  tr_entries := (tr_entries s)[a := ?e]\<rparr>"
    using upd Some st nz by (simp add: updateExecutionStats_def Let_def)
  have "tool_stats_ok s' n" for n
  proof (cases "n = name")
    case True
    have "stats_ok ?st" by (rule stats_ok_next [OF ok nz])
    then show ?thesis using True Some bound by (simp add: tool_stats_ok_def s')
  next
    case False
    have old: "tool_stats_ok s n" using inv by (simp add: tr_stats_inv_def)
    show ?thesis
    proof (cases "tr_tools s n")
      case None
      then show ?thesis using old False by (simp add: tool_stats_ok_def s')
    next
      case (Some b)
      then have "b \<noteq> a" using tr_stats_invE [OF inv Some] bound(2) False by metis
      then show ?thesis
        using old False Some by (cases "tr_executionStats s n") (simp_all add: tool_stats_ok_def s')
    qed
  qed
  then show ?thesis by (simp add: tr_stats_inv_def)
qed

lemma tr_step_inv:
  assumes "tr_step s s'" and "tr_stats_inv s"
  shows "tr_stats_inv s'"
  using assms(1)
proof cases
  case (register now name d sch h)
  have "tool_stats_ok s' n" if "tool_stats_ok s n" for n
    using that unfolding register
    by (cases "n = name") (auto simp: tool_stats_ok_def tr_Register_def stats_ok_def nth_append
        split: option.splits)
  then show ?thesis using assms(2) by (simp add: tr_stats_inv_def)
next
  case (start name token args)
  then show ?thesis
    using assms(2) by (intro iffD2 [OF tr_stats_cong [of s' s]])
      (auto simp: tr_begin_def split: option.splits if_splits)
next
  case (finish i now t)
  obtain a name token args where e: "tr_executing s ! i = (a, name, token, args)"
    by (cases "tr_executing s ! i")
  let ?s1 = "s\<lparr>tr_workerPool := tr_workerPool s + 1,
                 tr_executing := take i (tr_executing s) @ drop (Suc i) (tr_executing s)\<rparr>"
  have "tr_stats_inv ?s1" using assms(2) tr_stats_cong [of ?s1 s] by simp
  then show ?thesis
    unfolding finish(1) tr_finish_def e
    by (auto simp: Let_def split: outcome.splits intro: updateExecutionStats_inv)
qed

lemma tr_reachable_inv: "tr_reachable s \<Longrightarrow> tr_stats_inv s"
proof (induction rule: tr_reachable.induct)
  case (start mx t s)
  then show ?case by (auto simp: NewToolRegistry_def Let_def tr_stats_inv_def tool_stats_ok_def split: if_splits)
qed (rule tr_step_inv)

section \<open>Lock order\<close>

text \<open>
  The two locks of the tool registry. \<open>Register\<close> takes \<open>mu\<close> and then \<open>statsMu\<close>;
  \<open>updateExecutionStats\<close> takes \<open>statsMu\<close> and then \<open>mu\<close>. A thread is the list of lock operations it
  still has to do; a lock is held by one thread.
\<close>

datatype tr_lock = Mu | StatsMu

datatype lock_op = Lock tr_lock | Unlock tr_lock

type_synonym lock_state = "(tr_lock \<rightharpoonup> nat) \<times> lock_op list list"

definition Register_locks :: "lock_op list" where
  "Register_locks = [Lock Mu, Lock StatsMu, Unlock StatsMu, Unlock Mu]"

definition updateExecutionStats_locks :: "lock_op list" where
  "updateExecutionStats_locks = [Lock StatsMu, Lock Mu, Unlock Mu, Unlock StatsMu]"

fun lock_step :: "nat \<Rightarrow> lock_state \<Rightarrow> lock_state option" where
  "lock_step t (held_by, threads) =
     (if t < length threads then
        (case threads ! t of
           [] \<Rightarrow> None
         | Lock l # ops \<Rightarrow>
             if held_by l = None then Some (held_by(l \<mapsto> t), threads[t := ops]) else None
         | Unlock l # ops \<Rightarrow> Some (held_by(l := None), threads[t := ops]))
      else None)"

definition lock_finished :: "lock_state \<Rightarrow> bool" where
  "lock_finished st \<longleftrightarrow> (\<forall>ops \<in> set (snd st). ops = [])"

definition deadlocked :: "lock_state \<Rightarrow> bool" where
  "deadlocked st \<longleftrightarrow> \<not> lock_finished st \<and> (\<forall>t. lock_step t st = None)"

fun lock_run :: "nat list \<Rightarrow> lock_state \<Rightarrow> lock_state option" where
  "lock_run [] st = Some st"
| "lock_run (t # ts) st = (case lock_step t st of None \<Rightarrow> None | Some st' \<Rightarrow> lock_run ts st')"

section \<open>Properties\<close>

text \<open>A successful read caches its content for exactly the cache timeout: until then another read
  of the resource returns that content without calling the handler, waiting for a worker or
  looking at its context, and afterwards it is a miss that calls the handler again.\<close>

theorem read_caches:
  assumes "rr_reachable s" and "read_begin now uri s = Miss a"
    and "rr_Read pick ctx now now' uri s = Some (s', Ok content)"
  shows "read_begin t uri s' = (if t - now' < rr_cacheTimeout s then Hit content else Miss a) \<and>
    (t - now' < rr_cacheTimeout s \<longrightarrow>
       rr_Read pick' ctx' t t' uri s' = Some (updateAccessStats t uri s', Ok content))"
proof -
  have a: "rr_resources s uri = Some a" "a < length (rr_entries s)"
    using assms(2) rr_reachable_inv [OF assms(1)] by (auto simp: read_begin_Miss rr_inv_def rr_table_ok_def)
  let ?s1 = "s\<lparr>rr_workerPool := rr_workerPool s - 1, rr_reading := rr_reading s @ [(a, uri)]\<rparr>"
  have fin: "read_finish now' (length (rr_reading s)) ?s1 = (s', Ok content)"
    using assms(2,3) by (auto simp: rr_Read_def rr_take_token_def split: option.splits if_splits)
  then have "re_Handler (rr_entries ?s1 ! a) uri = Ok content"
    by (auto simp: read_finish_def Let_def split: outcome.splits)
  from read_finish_Ok [of ?s1 "length (rr_reading s)" a uri content now', OF _ this] fin
  have s': "s' = updateAccessStats now' uri (store_cache now' uri content
       (?s1\<lparr>rr_workerPool := rr_workerPool ?s1 + 1,
          rr_reading := take (length (rr_reading s)) (rr_reading ?s1)
            @ drop (Suc (length (rr_reading s))) (rr_reading ?s1)\<rparr>))"
    by simp
  have "read_begin t uri s' = (if t - now' < rr_cacheTimeout s then Hit content else Miss a)"
    unfolding s' using a by (subst read_begin_stored [where b = a]) auto
  then show ?thesis by (simp add: rr_Read_def)
qed

definition page :: resource_handler where
  "page uri = Ok (Some [TextContent ''text'' ''v1'' uri])"

definition page2 :: resource_handler where
  "page2 uri = Ok (Some [TextContent ''text'' ''v2'' uri])"

definition empty_registry :: rr_state where
  "empty_registry = \<lparr>rr_resources = Map.empty, rr_entries = [], rr_handlers = Map.empty,
     rr_subscribers = Map.empty, rr_chans = [], rr_maxConcurrentReads = 50,
     rr_cacheTimeout = 300000000000, rr_workerPool = 50, rr_reading = [], rr_events = []\<rparr>"

definition page_registry :: rr_state where
  "page_registry = rr_Register 0 ''u'' ''n'' ''d'' page empty_registry"

lemma page_registry_reachable: "rr_reachable page_registry"
proof -
  have "rr_reachable empty_registry"
    by (rule rr_reachable.start [of 0 0])
      (simp add: NewResourceRegistry_def empty_registry_def)
  then show ?thesis
    unfolding page_registry_def by (rule rr_reachable.step) (rule rr_step.register)
qed

lemma page_registry_simps:
  "page_registry = empty_registry\<lparr>rr_resources := [''u'' \<mapsto> 0],
     rr_entries := [\<lparr>re_Resource = \<lparr>res_URI = ''u'', res_Name = ''n'', res_Description = ''d'',
       res_MimeType = [], res_Annotations = GNil\<rparr>, re_Handler = page, re_LastAccessed = 0,
       re_AccessCount = 0, re_CacheEntry = None\<rparr>],
     rr_handlers := [''u'' \<mapsto> page],
     rr_events := [\<lparr>rev_Type = ResourceEventAdded, rev_Resource = \<lparr>res_URI = ''u'', res_Name = ''n'',
       res_Description = ''d'', res_MimeType = [], res_Annotations = GNil\<rparr>, rev_Error = None\<rparr>]\<rparr>"
  by (simp add: page_registry_def rr_Register_def go_notify_def empty_registry_def Let_def)

theorem read_caches_witness:
  "\<exists>s' s''. rr_Read True None 10 20 ''u'' page_registry = Some (s', page ''u'') \<and>
    rr_Read True (Some ''context canceled'') 30 40 ''u'' s' = Some (s'', page ''u'')"
proof -
  have miss: "read_begin 10 ''u'' page_registry = Miss 0"
    by (simp add: read_begin_def cache_lookup_def page_registry_simps)
  obtain s' where s': "rr_Read True None 10 20 ''u'' page_registry = Some (s', page ''u'')"
    by (simp add: rr_Read_def miss rr_take_token_def) (simp add: read_finish_def page_registry_simps page_def empty_registry_def)
  then show ?thesis
    using read_caches [OF page_registry_reachable miss, where s' = s' and now' = 20 and t = 30 and t' = 40
        and pick = True and ctx = None and content = "Some [TextContent ''text'' ''v1'' ''u'']"
        and pick' = True and ctx' = "Some ''context canceled''"]
    by (simp add: page_def) (simp add: page_registry_simps empty_registry_def)
qed

text \<open>A read that overlaps a new registration of its resource leaves a stale cache: the content of
  the handler that was replaced is stored in the new entry, and reads return it until the cache
  timeout although the registered handler is the new one.\<close>

theorem stale_cache_after_register:
  assumes "rr_reachable s" and "read_begin now uri s = Miss a" and "rr_take_token a uri s = Some s1"
    and "s2 = rr_Register now1 uri n d h' s1" and "re_Handler (rr_entries s ! a) uri = Ok old"
    and "s3 = fst (read_finish now2 (length (rr_reading s)) s2)" and "t - now2 < rr_cacheTimeout s"
  shows "rr_handlers s3 uri = Some h' \<and> (\<exists>s4. rr_Read pick ctx t t' uri s3 = Some (s4, Ok old))"
proof -
  have a: "a < length (rr_entries s)"
    using assms(2) rr_reachable_inv [OF assms(1)] by (auto simp: read_begin_Miss rr_inv_def rr_table_ok_def)
  let ?i = "length (rr_reading s)" and ?b = "length (rr_entries s)"
  have s1: "s1 = s\<lparr>rr_workerPool := rr_workerPool s - 1, rr_reading := rr_reading s @ [(a, uri)]\<rparr>"
    using assms(3) by (auto simp: rr_take_token_def split: if_splits)
  have s2: "rr_reading s2 = rr_reading s @ [(a, uri)]" "rr_resources s2 uri = Some ?b"
    "rr_entries s2 ! a = rr_entries s ! a" "length (rr_entries s2) = Suc ?b"
    "rr_handlers s2 uri = Some h'" "rr_cacheTimeout s2 = rr_cacheTimeout s"
    using a unfolding assms(4) s1 by (auto simp: rr_Register_def go_notify_def Let_def nth_append)
  have "read_finish now2 ?i s2 = (updateAccessStats now2 uri (store_cache now2 uri old
       (s2\<lparr>rr_workerPool := rr_workerPool s2 + 1,
          rr_reading := take ?i (rr_reading s2) @ drop (Suc ?i) (rr_reading s2)\<rparr>)), Ok old)"
    by (rule read_finish_Ok) (use s2 assms(5) in auto)
  then have s3: "s3 = updateAccessStats now2 uri (store_cache now2 uri old
       (s2\<lparr>rr_workerPool := rr_workerPool s2 + 1,
          rr_reading := take ?i (rr_reading s2) @ drop (Suc ?i) (rr_reading s2)\<rparr>))"
    using assms(6) by simp
  have "read_begin t uri s3 = Hit old"
    unfolding s3 using s2 assms(7) by (subst read_begin_stored [where b = ?b]) auto
  moreover have "rr_handlers s3 uri = Some h'"
    unfolding s3 using s2 by (auto simp: updateAccessStats_def split: option.splits)
  ultimately show ?thesis by (simp add: rr_Read_def)
qed

theorem stale_cache_after_register_witness:
  "\<exists>s1 s4. rr_take_token 0 ''u'' page_registry = Some s1 \<and>
    rr_Read True None 30 40 ''u'' (fst (read_finish 20 0 (rr_Register 15 ''u'' ''n'' ''d'' page2 s1)))
      = Some (s4, page ''u'')"
proof -
  have miss: "read_begin 10 ''u'' page_registry = Miss 0"
    by (simp add: read_begin_def cache_lookup_def page_registry_simps)
  obtain s1 where s1: "rr_take_token 0 ''u'' page_registry = Some s1"
    by (simp add: rr_take_token_def page_registry_simps empty_registry_def)
  have "re_Handler (rr_entries page_registry ! 0) ''u'' = Ok (Some [TextContent ''text'' ''v1'' ''u''])"
    and "rr_reading page_registry = []" and "(30::int) - 20 < rr_cacheTimeout page_registry"
    by (simp_all add: page_registry_simps page_def empty_registry_def)
  note stale = stale_cache_after_register [OF page_registry_reachable miss s1 refl this(1) refl]
  have "\<exists>s4. rr_Read True None 30 40 ''u'' (fst (read_finish 20 (length (rr_reading page_registry))
      (rr_Register 15 ''u'' ''n'' ''d'' page2 s1))) = Some (s4, Ok (Some [TextContent ''text'' ''v1'' ''u'']))"
    by (rule stale [THEN conjunct2]) (simp add: page_registry_simps empty_registry_def)
  then have "\<exists>s4. rr_Read True None 30 40 ''u'' (fst (read_finish 20 0
      (rr_Register 15 ''u'' ''n'' ''d'' page2 s1))) = Some (s4, page ''u'')"
    by (simp add: page_def page_registry_simps empty_registry_def)
  then show ?thesis using s1 by blast
qed

text \<open>C9: The channels of subscribers are used safely: in every reachable state a notification, in any
  order of the subscribers, and an unsubscription succeed (nothing is sent on a closed channel or
  closed twice), and no channel ever holds more than ten events.\<close>

theorem subscribers_safe:
  assumes "rr_reachable s" and "range_order (rr_subscribers s) ks"
  shows "(\<exists>s'. notifySubscribers ks e s = Ok s') \<and> (\<exists>s'. Unsubscribe ident s = Ok s') \<and>
    list_all (\<lambda>ch. length (ech_buf ch) \<le> 10) (rr_chans s)"
proof -
  have "rr_subs_ok s" using rr_reachable_inv [OF assms(1)] by (simp add: rr_inv_def)
  then show ?thesis
    using notifySubscribers_Ok [OF _ assms(2), of e] Unsubscribe_Ok [of s ident]
    by (auto simp: rr_subs_ok_def event_cap_def list_all_iff)
qed

theorem subscribers_safe_witness:
  "\<exists>s'. notifySubscribers [''x''] \<lparr>rev_Type = ResourceEventUpdated, rev_Resource = \<lparr>res_URI = [],
      res_Name = [], res_Description = [], res_MimeType = [], res_Annotations = GNil\<rparr>, rev_Error = None\<rparr>
    (fst (Subscribe ''x'' page_registry)) = Ok s'"
proof -
  have "rr_reachable (fst (Subscribe ''x'' page_registry))"
    using page_registry_reachable rr_step.subscribe by (rule rr_reachable.step)
  moreover have "range_order (rr_subscribers (fst (Subscribe ''x'' page_registry))) [''x'']"
    by (simp add: range_order_def Subscribe_def page_registry_simps empty_registry_def)
  ultimately show ?thesis
    using subscribers_safe by blast
qed

text \<open>Registering a tool while the statistics of an execution are updated can deadlock: with the
  two lock sequences of the code there is an interleaving after which neither thread can go on,
  and both registry locks stay held for ever.\<close>

theorem tool_registry_deadlock:
  "\<exists>ts st. lock_run ts (Map.empty, [Register_locks, updateExecutionStats_locks]) = Some st \<and> deadlocked st"
proof (intro exI conjI)
  let ?st = "([Mu \<mapsto> 0, StatsMu \<mapsto> 1], [tl Register_locks, tl updateExecutionStats_locks])"
  show "lock_run [0, 1] (Map.empty, [Register_locks, updateExecutionStats_locks]) = Some ?st"
    by (simp add: Register_locks_def updateExecutionStats_locks_def)
  have "lock_step 0 ?st = None" and "lock_step 1 ?st = None"
    by (simp_all add: Register_locks_def updateExecutionStats_locks_def)
  moreover have "lock_step t ?st = None" if "2 \<le> t" for t
    using that by simp
  ultimately have "lock_step t ?st = None" for t
    by (metis One_nat_def less_2_cases not_less)
  then show "deadlocked ?st"
    by (simp add: deadlocked_def lock_finished_def Register_locks_def)
qed

text \<open>The statistics of a registered tool are consistent however executions and registrations
  overlap: its average is the total time divided by the number of executions (Go's truncating
  64-bit division), errors never outnumber executions, and the tool's entry shows the same count
  and average.\<close>

theorem tool_statistics:
  assumes "tr_reachable s" and "tr_tools s name = Some a"
  shows "\<exists>st. tr_GetStats s name = Some st \<and>
    tes_AverageTime st = (if tes_ExecutionCount st = 0 then 0
                          else div64 (tes_TotalTime st) (tes_ExecutionCount st)) \<and>
    unat (tes_ErrorCount st) \<le> unat (tes_ExecutionCount st) \<and>
    te_ExecutionCount (tr_entries s ! a) = tes_ExecutionCount st \<and>
    te_AverageExecTime (tr_entries s ! a) = tes_AverageTime st"
proof -
  obtain st where "tr_executionStats s name = Some st" "stats_ok st"
    "te_ExecutionCount (tr_entries s ! a) = tes_ExecutionCount st"
    "te_AverageExecTime (tr_entries s ! a) = tes_AverageTime st"
    using tr_stats_invE [OF tr_reachable_inv [OF assms(1)] assms(2)] by metis
  then show ?thesis by (auto simp: stats_ok_def tr_GetStats_def)
qed

definition empty_tools :: tr_state where
  "empty_tools = \<lparr>tr_tools = Map.empty, tr_entries = [], tr_handlers = Map.empty,
     tr_maxConcurrentExecutions = 20, tr_executionTimeout = 30000000000,
     tr_workerPool = 20, tr_executing = [], tr_executionStats = Map.empty\<rparr>"

definition echo_tools :: tr_state where
  "echo_tools = tr_Register 5 ''echo'' ''d'' None echo empty_tools"

definition echo_started :: tr_state where
  "echo_started = echo_tools\<lparr>tr_workerPool := 19, tr_executing := [(0, ''echo'', GNil, None)]\<rparr>"

definition echo_done :: tr_state where
  "echo_done = fst (tr_finish 30 7 0 echo_started)"

theorem tool_statistics_witness:
  "\<exists>st. tr_GetStats echo_done ''echo'' = Some st \<and> tes_ExecutionCount st = 1 \<and>
    tes_AverageTime st = div64 (tes_TotalTime st) 1 \<and> te_AverageExecTime (tr_entries echo_done ! 0) = tes_AverageTime st"
proof -
  have "tr_reachable empty_tools"
    by (rule tr_reachable.start [of 0 0]) (simp add: NewToolRegistry_def empty_tools_def)
  then have "tr_reachable echo_tools"
    unfolding echo_tools_def by (rule tr_reachable.step) (rule tr_step.register)
  then have "tr_reachable echo_started"
    by (rule tr_reachable.step)
      (rule tr_step.start [of "''echo''" GNil None],
       simp add: tr_begin_def echo_started_def echo_tools_def tr_Register_def empty_tools_def)
  then have reach: "tr_reachable echo_done"
    unfolding echo_done_def
    by (rule tr_reachable.step) (rule tr_step.finish, simp add: echo_started_def)
  have "tr_tools echo_done ''echo'' = Some 0" and
    "map_option tes_ExecutionCount (tr_executionStats echo_done ''echo'') = Some 1"
    by (simp_all add: echo_done_def echo_started_def tr_finish_def echo_tools_def tr_Register_def
        empty_tools_def echo_def updateExecutionStats_def Let_def)
  then show ?thesis
    using tool_statistics [OF reach, of "''echo''" 0] by (auto simp: tr_GetStats_def)
qed

end
