(* ===== verification/Progress_Handler.thy ===== *)
theory Progress_Handler
  imports Message_Handler
begin

text \<open>
  \<open>internal/progress_handler.go\<close>: the message handler that adds progress notifications. Its state
  \<open>ph_state\<close> holds the base handler, the two maps of the struct, the store of its pending requests
  (the maps hold pointers, here indices), and the calls made to progress callbacks, oldest first.
  A pending request carries its response channel and its two timers (armed or not). Whether the
  caller gave a callback is all the code asks of it.
\<close>

named_theorems ph_simps "definitions of the progress handler"

section \<open>State\<close>

record progress_request =
  pp_ID :: gval
  pp_Chan :: rchan
  pp_Timer :: bool                      \<comment> \<open>armed\<close>
  pp_TotalTimer :: "bool option"        \<comment> \<open>\<open>None\<close>: not set up\<close>
  pp_HasCallback :: bool
  pp_ProgressToken :: gval
  pp_ResetTimeoutOnProgress :: bool
  pp_Timeout :: int
  pp_StartTime :: int

text \<open>\<open>Context\<close>: \<^term>\<open>None\<close> for nil, else the error of the caller's context if it is done.\<close>

record request_options =
  ro_OnProgress :: bool
  ro_Timeout :: int
  ro_ResetTimeoutOnProgress :: bool
  ro_MaxTotalTimeout :: int
  ro_Context :: "string option option"

datatype callback_owner = RequestCallback nat | TestCallback

record ph_state =
  ph_base :: mh_state
  ph_requests :: "gval \<rightharpoonup> nat"
  ph_tokens :: "gval \<rightharpoonup> gval"
  ph_tokenCounter :: int64
  ph_store :: "progress_request list"
  ph_testCallback :: bool
  ph_calls :: "(callback_owner \<times> progress_notification) list"

definition NewProgressMessageHandler :: "string option \<Rightarrow> mh_config \<Rightarrow> ph_state outcome" where
  "NewProgressMessageHandler ctx config =
     (case NewMessageHandler ctx config of
        Ok base \<Rightarrow> Ok \<lparr>ph_base = base, ph_requests = Map.empty, ph_tokens = Map.empty,
                      ph_tokenCounter = 0, ph_store = [], ph_testCallback = False, ph_calls = []\<rparr>
      | Err e \<Rightarrow> Err e
      | Panic p \<Rightarrow> Panic p)"

section \<open>Sending\<close>

definition meta_with_token :: "gval \<Rightarrow> gval" where
  "meta_with_token token = GMap [(''progressToken'', token)]"

definition addProgressToken :: "gval \<Rightarrow> gval \<Rightarrow> gval" where
  "addProgressToken params token =
     (case params of
        GNil \<Rightarrow> GMap [(''_meta'', meta_with_token token)]
      | GMap m \<Rightarrow>
          (case map_of m ''_meta'' of
             Some (GMap meta) \<Rightarrow> GMap (map_put ''_meta'' (GMap (map_put ''progressToken'' token meta)) m)
           | _ \<Rightarrow> GMap (map_put ''_meta'' (meta_with_token token) m))
      | _ \<Rightarrow> GMap [(''_meta'', meta_with_token token), (''params'', params)])"

definition store_update :: "nat \<Rightarrow> (progress_request \<Rightarrow> progress_request) \<Rightarrow> ph_state \<Rightarrow> ph_state" where
  "store_update a f s = s\<lparr>ph_store := (ph_store s)[a := f (ph_store s ! a)]\<rparr>"

text \<open>Both timers are stopped and the request's context is cancelled.\<close>

definition stop_request :: "progress_request \<Rightarrow> progress_request" where
  "stop_request p =
     p\<lparr>pp_Timer := False, pp_TotalTimer := map_option (\<lambda>_. False) (pp_TotalTimer p),
       pp_Chan := (pp_Chan p)\<lparr>rc_cancelled := True\<rparr>\<rparr>"

definition forget_request :: "gval \<Rightarrow> nat \<Rightarrow> ph_state \<Rightarrow> ph_state" where
  "forget_request ident a s =
     s\<lparr>ph_requests := (ph_requests s)(ident := None),
       ph_tokens := (if pp_ProgressToken (ph_store s ! a) \<noteq> GNil
                     then (ph_tokens s)(pp_ProgressToken (ph_store s ! a) := None)
                     else ph_tokens s)\<rparr>"

definition removeProgressRequest :: "gval \<Rightarrow> ph_state \<Rightarrow> ph_state" where
  "removeProgressRequest ident s =
     (case ph_requests s ident of
        None \<Rightarrow> s
      | Some a \<Rightarrow> store_update a stop_request (forget_request ident a s))"

text \<open>Lines 90-156: ids, the request and its timers, and the entries in the maps.\<close>

definition new_progress_call ::
  "int \<Rightarrow> request_options \<Rightarrow> ph_state \<Rightarrow> gval \<times> gval \<times> nat \<times> ph_state" where
  "new_progress_call now options s =
     (let (n, base) = RequestID_Next (ph_base s);
          ident = GInt64 n;
          counter = (if ro_OnProgress options then ph_tokenCounter s + 1 else ph_tokenCounter s);
          token = (if ro_OnProgress options then GInt64 counter else GNil);
          a = length (ph_store s);
          p = \<lparr>pp_ID = ident, pp_Chan = \<lparr>rc_buf = [], rc_closed = False, rc_cancelled = False\<rparr>,
               pp_Timer = True,
               pp_TotalTimer = (if ro_MaxTotalTimeout options > 0 then Some True else None),
               pp_HasCallback = ro_OnProgress options, pp_ProgressToken = token,
               pp_ResetTimeoutOnProgress = ro_ResetTimeoutOnProgress options,
               pp_Timeout = (if ro_Timeout options = 0 then mh_requestTimeout base
                             else ro_Timeout options),
               pp_StartTime = now\<rparr>
      in (ident, token, a,
          s\<lparr>ph_base := base, ph_tokenCounter := counter, ph_store := ph_store s @ [p],
            ph_requests := (ph_requests s)(ident \<mapsto> a),
            ph_tokens := (if token \<noteq> GNil then (ph_tokens s)(token \<mapsto> ident) else ph_tokens s)\<rparr>))"

definition SendRequestWithProgress ::
  "bool \<Rightarrow> int \<Rightarrow> string \<Rightarrow> gval \<Rightarrow> request_options \<Rightarrow> ph_state \<Rightarrow> (ph_state \<times> nat outcome) option" where
  "SendRequestWithProgress pick now meth params options s =
     (case mh_ctx (ph_base s) of
        Some e \<Rightarrow> Some (s, Err e)
      | None \<Rightarrow>
          (let (ident, token, a, s1) = new_progress_call now options s;
               params' = (if ro_OnProgress options then addProgressToken params token else params);
               ctx = (case ro_Context options of None \<Rightarrow> mh_ctx (ph_base s) | Some c \<Rightarrow> c);
               base = ph_base s1
           in case to_payload (request_gval \<lparr>req_JSONRPC = ''2.0'', req_ID = ident, req_Method = meth,
                                             req_Params = params'\<rparr>) of
                None \<Rightarrow> Some (removeProgressRequest ident s1, Err ''failed to marshal request'')
              | Some data \<Rightarrow>
                  (case select_send pick (mh_bufferSize base) (mh_outgoingChan base) data ctx of
                     Sent buf \<Rightarrow>
                       Some (s1\<lparr>ph_base := stats_update (\<lambda>st. st\<lparr>ms_RequestsSent := ms_RequestsSent st + 1\<rparr>)
                                   (base\<lparr>mh_outgoingChan := buf\<rparr>)\<rparr>, Ok a)
                   | Cancelled e \<Rightarrow> Some (removeProgressRequest ident s1, Err e)
                   | Blocked \<Rightarrow> None)))"

section \<open>Progress notifications\<close>

text \<open>\<open>v.(float64)\<close> converted to \<open>int\<close>, or \<open>v.(int)\<close>.\<close>

definition as_int :: "(float64 \<Rightarrow> int64) \<Rightarrow> gval option \<Rightarrow> int64 option" where
  "as_int oor v =
     (case v of
        Some (GFloat f) \<Rightarrow> Some (float_to_int64 oor f)
      | Some (GInt n) \<Rightarrow> Some n
      | _ \<Rightarrow> None)"

definition progress_of ::
  "(float64 \<Rightarrow> int64) \<Rightarrow> (string \<times> gval) list \<Rightarrow> gval \<Rightarrow> progress_notification" where
  "progress_of oor m token =
     \<lparr>pn_JSONRPC = ''2.0'', pn_Method = ''notifications/progress'',
      pn_Params = \<lparr>prog_ProgressToken = token,
        prog_Progress = (case as_int oor (map_of m ''progress'') of None \<Rightarrow> 0 | Some n \<Rightarrow> n),
        prog_Total = as_int oor (map_of m ''total''),
        prog_Message = (case map_of m ''message'' of Some (GString x) \<Rightarrow> x | _ \<Rightarrow> [])\<rparr>\<rparr>"

definition handleOrphanedProgress ::
  "(float64 \<Rightarrow> int64) \<Rightarrow> (string \<times> gval) list \<Rightarrow> gval \<Rightarrow> ph_state \<Rightarrow> ph_state" where
  "handleOrphanedProgress oor m token s =
     (if ph_testCallback s
      then s\<lparr>ph_calls := ph_calls s @ [(TestCallback, progress_of oor m token)]\<rparr> else s)"

text \<open>The callback of a request, and the reset of its timer.\<close>

definition report_progress :: "progress_notification \<Rightarrow> nat \<Rightarrow> ph_state \<Rightarrow> ph_state" where
  "report_progress pn a s =
     (let p = ph_store s ! a;
          s1 = (if pp_HasCallback p then s\<lparr>ph_calls := ph_calls s @ [(RequestCallback a, pn)]\<rparr> else s)
      in if pp_ResetTimeoutOnProgress p then store_update a (\<lambda>q. q\<lparr>pp_Timer := True\<rparr>) s1 else s1)"

text \<open>Indexing the map with a token that is no map key panics.\<close>

definition handleProgressNotification ::
  "(float64 \<Rightarrow> int64) \<Rightarrow> notification \<Rightarrow> ph_state \<Rightarrow> ph_state outcome" where
  "handleProgressNotification oor notif s =
     (case not_Params notif of
        GMap m \<Rightarrow>
          (case map_of m ''progressToken'' of
             None \<Rightarrow> Ok s
           | Some token \<Rightarrow>
               if \<not> hashable token then Panic ''hash of unhashable type''
               else (case ph_tokens s token of
                       None \<Rightarrow> Ok (handleOrphanedProgress oor m token s)
                     | Some ident \<Rightarrow>
                         (case ph_requests s ident of
                            None \<Rightarrow> Ok s
                          | Some a \<Rightarrow> Ok (report_progress (progress_of oor m token) a s))))
      | _ \<Rightarrow> Ok s)"

text \<open>One iteration of \<open>processProgressNotifications\<close> that received a notification.\<close>

definition processProgressNotification ::
  "(float64 \<Rightarrow> int64) \<Rightarrow> ph_state \<Rightarrow> ph_state outcome option" where
  "processProgressNotification oor s =
     (case mh_notificationChan (ph_base s) of
        [] \<Rightarrow> None
      | notif # rest \<Rightarrow>
          (let s1 = s\<lparr>ph_base := (ph_base s)\<lparr>mh_notificationChan := rest\<rparr>\<rparr>
           in Some (if not_Method notif = ''notifications/progress''
                    then handleProgressNotification oor notif s1 else Ok s1)))"

definition SetTestProgressCallback :: "bool \<Rightarrow> ph_state \<Rightarrow> ph_state" where
  "SetTestProgressCallback present s = s\<lparr>ph_testCallback := present\<rparr>"

definition GetLastGeneratedToken :: "ph_state \<Rightarrow> gval" where
  "GetLastGeneratedToken s = GInt64 (ph_tokenCounter s)"

section \<open>Timeouts and closing\<close>

definition handleRequestTimeout :: "gval \<Rightarrow> bool \<Rightarrow> ph_state \<Rightarrow> ph_state outcome" where
  "handleRequestTimeout ident isTotalTimeout s =
     (case ph_requests s ident of
        None \<Rightarrow> Ok s
      | Some a \<Rightarrow>
          (let s1 = store_update a stop_request (forget_request ident a s)
           in if rc_closed (pp_Chan (ph_store s1 ! a)) then Panic ''close of closed channel''
              else Ok ((store_update a (\<lambda>p. p\<lparr>pp_Chan := (pp_Chan p)\<lparr>rc_closed := True\<rparr>\<rparr>) s1)
                     \<lparr>ph_base := stats_update (\<lambda>st. st\<lparr>ms_Timeouts := ms_Timeouts st + 1\<rparr>) (ph_base s1)\<rparr>)))"

text \<open>\<open>ks\<close> and \<open>base_ks\<close> are the orders in which the loops visit the maps.\<close>

definition Progress_Close :: "gval list \<Rightarrow> gval list \<Rightarrow> ph_state \<Rightarrow> ph_state outcome" where
  "Progress_Close ks base_ks s =
     (let s1 = fold (\<lambda>a. store_update a stop_request) (range_values (ph_requests s) ks)
                 (s\<lparr>ph_requests := Map.empty, ph_tokens := Map.empty\<rparr>)
      in case MessageHandler_Close base_ks (ph_base s1) of
           Ok base \<Rightarrow> Ok (s1\<lparr>ph_base := base\<rparr>)
         | Err e \<Rightarrow> Err e
         | Panic p \<Rightarrow> Panic p)"

section \<open>The handler as a transition system\<close>

text \<open>
  Moves of the base handler are those of its own transition system. The counters have room for
  one more id and token: fewer than \<open>2^63\<close> requests are made.
\<close>

definition ids_left :: "ph_state \<Rightarrow> bool" where
  "ids_left s \<longleftrightarrow> mh_counter (ph_base s) < 2 ^ 63 - 1 \<and> ph_tokenCounter s < 2 ^ 63 - 1"

inductive ph_step :: "(float64 \<Rightarrow> int64) \<Rightarrow> ph_state \<Rightarrow> ph_state \<Rightarrow> bool" for oor where
  base: "ids_left s \<Longrightarrow> mh_step oor (ph_base s) b \<Longrightarrow> ph_step oor s (s\<lparr>ph_base := b\<rparr>)"
| send: "ids_left s \<Longrightarrow> SendRequestWithProgress pick now meth params options s = Some (s', res) \<Longrightarrow>
    ph_step oor s s'"
| progress: "processProgressNotification oor s = Some (Ok s') \<Longrightarrow> ph_step oor s s'"
| inject: "handleProgressNotification oor notif s = Ok s' \<Longrightarrow> ph_step oor s s'"
| set_test: "ph_step oor s (SetTestProgressCallback present s)"
| timeout: "a < length (ph_store s) \<Longrightarrow> pp_Timer (ph_store s ! a) \<Longrightarrow>
    handleRequestTimeout (pp_ID (ph_store s ! a)) False
      (store_update a (\<lambda>p. p\<lparr>pp_Timer := False\<rparr>) s) = Ok s' \<Longrightarrow> ph_step oor s s'"
| total_timeout: "a < length (ph_store s) \<Longrightarrow> pp_TotalTimer (ph_store s ! a) = Some True \<Longrightarrow>
    handleRequestTimeout (pp_ID (ph_store s ! a)) True
      (store_update a (\<lambda>p. p\<lparr>pp_TotalTimer := Some False\<rparr>) s) = Ok s' \<Longrightarrow> ph_step oor s s'"
| closing: "range_order (ph_requests s) ks \<Longrightarrow> range_order (mh_pendingRequests (ph_base s)) base_ks \<Longrightarrow>
    Progress_Close ks base_ks s = Ok s' \<Longrightarrow> ph_step oor s s'"

inductive ph_reachable :: "(float64 \<Rightarrow> int64) \<Rightarrow> ph_state \<Rightarrow> bool" for oor where
  start: "NewProgressMessageHandler ctx config = Ok s \<Longrightarrow> ph_reachable oor s"
| step: "ph_reachable oor s \<Longrightarrow> ph_step oor s s' \<Longrightarrow> ph_reachable oor s'"

section \<open>Invariant\<close>

text \<open>Ids that were given out: \<open>int64\<close> values from 1 to the counter.\<close>

definition issued :: "int64 \<Rightarrow> gval \<Rightarrow> bool" where
  "issued counter v \<longleftrightarrow> (\<exists>w. v = GInt64 w \<and> 0 < w \<and> w \<le> counter)"

definition ids_inv :: "int64 \<Rightarrow> gval set \<Rightarrow> gval set \<Rightarrow> bool" where
  "ids_inv counter pend reqs \<longleftrightarrow>
     (\<forall>k \<in> pend. issued counter k) \<and> (\<forall>k \<in> reqs. issued counter k) \<and> reqs \<inter> pend = {}"

text \<open>The maps point to stored requests with an open channel, and tokens to their requests.\<close>

definition requests_inv :: "(gval \<rightharpoonup> nat) \<Rightarrow> progress_request list \<Rightarrow> bool" where
  "requests_inv reqs store \<longleftrightarrow>
     (\<forall>k a. reqs k = Some a \<longrightarrow> a < length store \<and> pp_ID (store ! a) = k \<and> \<not> rc_closed (pp_Chan (store ! a)))"

definition tokens_inv ::
  "int64 \<Rightarrow> (gval \<rightharpoonup> gval) \<Rightarrow> (gval \<rightharpoonup> nat) \<Rightarrow> progress_request list \<Rightarrow> bool" where
  "tokens_inv counter toks reqs store \<longleftrightarrow>
     (\<forall>t k. toks t = Some k \<longrightarrow> issued counter t \<and>
        (\<exists>a. reqs k = Some a \<and> pp_ProgressToken (store ! a) = t \<and> pp_HasCallback (store ! a)))"

definition ph_inv :: "ph_state \<Rightarrow> bool" where
  "ph_inv s \<longleftrightarrow>
     ids_inv (mh_counter (ph_base s)) (dom (mh_pendingRequests (ph_base s))) (dom (ph_requests s)) \<and>
     requests_inv (ph_requests s) (ph_store s) \<and>
     tokens_inv (ph_tokenCounter s) (ph_tokens s) (ph_requests s) (ph_store s) \<and>
     (\<forall>p \<in> set (ph_store s). rc_buf (pp_Chan p) = [])"

lemma ids_inv_mono:
  "ids_inv c P R \<Longrightarrow> P' \<subseteq> P \<Longrightarrow> R' \<subseteq> R \<Longrightarrow> ids_inv c P' R'"
  unfolding ids_inv_def by blast

lemma ph_inv_request:
  assumes "ph_inv s" and "ph_requests s k = Some a"
  shows "a < length (ph_store s)" and "pp_ID (ph_store s ! a) = k"
    and "\<not> rc_closed (pp_Chan (ph_store s ! a))" and "issued (mh_counter (ph_base s)) k"
    and "mh_pendingRequests (ph_base s) k = None"
  using assms unfolding ph_inv_def requests_inv_def ids_inv_def by blast+

lemma ph_inv_token:
  assumes "ph_inv s" and "ph_tokens s t = Some k"
  shows "issued (ph_tokenCounter s) t"
    and "\<exists>a. ph_requests s k = Some a \<and> pp_ProgressToken (ph_store s ! a) = t \<and>
      pp_HasCallback (ph_store s ! a)"
  using assms unfolding ph_inv_def tokens_inv_def by blast+

lemma issued_next:
  assumes "c < 2 ^ 63 - 1"
  shows "issued c v \<Longrightarrow> issued (c + 1) v" and "issued (c + 1) (GInt64 (c + 1))"
    and "\<not> issued c (GInt64 (c + 1))"
proof -
  have u: "uint c < 2 ^ 63 - 1" using assms by (simp add: word_less_def)
  have "uint (c + 1) = (uint c + 1) mod 2 ^ 64" by (simp add: uint_word_ariths)
  also have "\<dots> = uint c + 1" using u uint_ge_0 [of c] by (intro mod_pos_pos_trivial) auto
  finally have suc: "uint (c + 1) = uint c + 1" .
  have lt: "c < c + 1" using suc by (simp only: word_less_def)
  have zero: "uint (0 :: int64) = 0" by simp
  have pos: "0 < c + 1"
    unfolding word_less_def suc zero using uint_ge_0 [of c] by linarith
  show "issued c v \<Longrightarrow> issued (c + 1) v"
    using lt by (auto simp: issued_def)
  show "issued (c + 1) (GInt64 (c + 1))" using pos by (simp add: issued_def)
  show "\<not> issued c (GInt64 (c + 1))" using lt by (auto simp: issued_def)
qed

text \<open>What a move of the base handler does to its counter and pending requests.\<close>

definition base_effect :: "mh_state \<Rightarrow> mh_state \<Rightarrow> bool" where
  "base_effect b b' \<longleftrightarrow>
     mh_counter b' = mh_counter b \<and> dom (mh_pendingRequests b') \<subseteq> dom (mh_pendingRequests b) \<or>
     mh_counter b' = mh_counter b + 1 \<and>
       dom (mh_pendingRequests b') \<subseteq> insert (GInt64 (mh_counter b + 1)) (dom (mh_pendingRequests b))"

lemma removePendingRequest_effect:
  "mh_counter (removePendingRequest k b) = mh_counter b"
  "dom (mh_pendingRequests (removePendingRequest k b)) \<subseteq> dom (mh_pendingRequests b)"
  by (auto simp: removePendingRequest_def mh_simps split: option.splits)

lemma same_calls_effect: "same_calls b b' \<Longrightarrow> base_effect b b'"
  by (simp add: same_calls_def base_effect_def)

lemma SendRequest_effect:
  "SendRequest pick meth params b = Some (b', res) \<Longrightarrow> base_effect b b'"
  by (auto simp: SendRequest_def new_call_def RequestID_Next_def store_pending_def finish_request_def
      base_effect_def stats_update_def Let_def removePendingRequest_def mh_simps
      split: option.splits select_result.splits)

lemma correlateResponse_effect:
  "correlateResponse oor r b = Ok b' \<Longrightarrow> base_effect b b'"
  by (auto simp: correlateResponse_def deliver_def take_pending_def base_effect_def mh_simps
      split: if_splits option.splits outcome.splits)

lemma close_pending_effect:
  "close_pending ps b = Ok b' \<Longrightarrow>
     mh_counter b' = mh_counter b \<and> mh_pendingRequests b' = mh_pendingRequests b"
  by (induction ps arbitrary: b) (auto simp: mh_simps split: outcome.splits if_splits)

lemma Close_effect:
  "MessageHandler_Close ks b = Ok b' \<Longrightarrow>
     mh_counter b' = mh_counter b \<and> mh_pendingRequests b' = Map.empty"
  by (auto simp: MessageHandler_Close_def cancel_def split: outcome.splits dest: close_pending_effect)

lemma mh_step_effect: "mh_step oor b b' \<Longrightarrow> base_effect b b'"
proof (induction rule: mh_step.induct)
  case (send_request pick meth params s s' res)
  then show ?case by (rule SendRequest_effect)
next
  case (send_notification pick meth params s s' ures)
  then show ?case by (intro same_calls_effect SendNotification_same)
next
  case (send_response pick ident result err s s' ures)
  then show ?case by (intro same_calls_effect SendResponse_same)
next
  case (process pick pick' s s' b)
  then show ?case by (intro same_calls_effect processIncomingMessages_same)
next
  case (responses pick s s' b)
  then show ?case
  proof (cases rule: handleResponses_cases)
    case 1
    then show ?thesis by (simp add: base_effect_def)
  next
    case (2 r rest)
    then show ?thesis using correlateResponse_effect by (fastforce simp: base_effect_def)
  qed
next
  case (fire s c ident s')
  let ?s = "stats_update (\<lambda>st. st\<lparr>ms_Timeouts := ms_Timeouts st + 1\<rparr>) (timer_stop c s)"
  have "mh_counter s' = mh_counter (removePendingRequest ident ?s)"
    and "mh_pendingRequests s' = mh_pendingRequests (removePendingRequest ident ?s)"
    using fire(2) by (auto simp: timeout_callback_def chan_close_def chan_update_def ctx_cancel_def
        split: if_splits)
  then show ?case
    using removePendingRequest_effect [of ident ?s]
    by (auto simp: base_effect_def stats_update_def timer_stop_def)
next
  case (closing s ks s')
  then show ?case using Close_effect by (fastforce simp: base_effect_def)
qed (auto simp: base_effect_def chan_update_def)

lemma ids_inv_next:
  assumes "c < 2 ^ 63 - 1" and "ids_inv c P R"
  shows "ids_inv (c + 1) (insert (GInt64 (c + 1)) P) R" and "ids_inv (c + 1) P (insert (GInt64 (c + 1)) R)"
  using assms(2) issued_next [OF assms(1)] unfolding ids_inv_def by blast+

lemma ph_inv_same_base:
  assumes "ph_inv s" and "mh_counter b = mh_counter (ph_base s)"
    and "dom (mh_pendingRequests b) \<subseteq> dom (mh_pendingRequests (ph_base s))"
  shows "ph_inv (s\<lparr>ph_base := b\<rparr>)"
  using assms ids_inv_mono [OF _ assms(3) subset_refl] by (simp add: ph_inv_def)

lemma ph_inv_base:
  assumes "ph_inv s" and "ids_left s" and "base_effect (ph_base s) b"
  shows "ph_inv (s\<lparr>ph_base := b\<rparr>)"
  using assms(3) unfolding base_effect_def
proof
  assume "mh_counter b = mh_counter (ph_base s) \<and>
    dom (mh_pendingRequests b) \<subseteq> dom (mh_pendingRequests (ph_base s))"
  then show ?thesis by (intro ph_inv_same_base [OF assms(1)]) simp_all
next
  let ?c = "mh_counter (ph_base s)"
  assume *: "mh_counter b = ?c + 1 \<and>
    dom (mh_pendingRequests b) \<subseteq> insert (GInt64 (?c + 1)) (dom (mh_pendingRequests (ph_base s)))"
  have "ids_inv (?c + 1) (insert (GInt64 (?c + 1)) (dom (mh_pendingRequests (ph_base s)))) (dom (ph_requests s))"
    using assms(1,2) by (intro ids_inv_next) (simp_all add: ids_left_def ph_inv_def)
  then have "ids_inv (mh_counter b) (dom (mh_pendingRequests b)) (dom (ph_requests s))"
    using * ids_inv_mono by simp
  then show ?thesis using assms(1) by (simp add: ph_inv_def)
qed

text \<open>Updates of a stored request that keep its id, token, and an open and empty channel.\<close>

lemma ph_inv_store:
  assumes "ph_inv s" and "a < length (ph_store s)"
    and "pp_ID (f (ph_store s ! a)) = pp_ID (ph_store s ! a)"
    and "pp_ProgressToken (f (ph_store s ! a)) = pp_ProgressToken (ph_store s ! a)"
    and "rc_buf (pp_Chan (f (ph_store s ! a))) = rc_buf (pp_Chan (ph_store s ! a))"
    and "pp_HasCallback (f (ph_store s ! a)) = pp_HasCallback (ph_store s ! a)"
    and "rc_closed (pp_Chan (f (ph_store s ! a))) \<Longrightarrow> rc_closed (pp_Chan (ph_store s ! a)) \<or>
      (\<forall>k. ph_requests s k \<noteq> Some a)"
  shows "ph_inv (store_update a f s)"
proof -
  let ?store = "(ph_store s)[a := f (ph_store s ! a)]"
  have "rc_buf (pp_Chan (f (ph_store s ! a))) = []"
    using assms(1,2,5) unfolding ph_inv_def by simp
  then have bufs: "\<forall>p \<in> set ?store. rc_buf (pp_Chan p) = []"
    using assms(1) unfolding ph_inv_def by (auto dest!: set_update_subset_insert [THEN subsetD])
  have ids: "pp_ID (?store ! b) = pp_ID (ph_store s ! b)"
    and tok: "pp_ProgressToken (?store ! b) = pp_ProgressToken (ph_store s ! b)"
    and cb: "pp_HasCallback (?store ! b) = pp_HasCallback (ph_store s ! b)" for b
    using assms(2-4,6) by (cases "b = a"; simp)+
  have closed: "\<not> rc_closed (pp_Chan (?store ! b))" if "ph_requests s k = Some b" for k b
    using ph_inv_request [OF assms(1) that] assms(2,7) that by (cases "b = a") auto
  have "requests_inv (ph_requests s) ?store"
    using assms(1) closed unfolding ph_inv_def requests_inv_def by (simp add: ids)
  moreover have "tokens_inv (ph_tokenCounter s) (ph_tokens s) (ph_requests s) ?store"
    using assms(1) unfolding ph_inv_def tokens_inv_def by (simp add: tok cb)
  ultimately show ?thesis
    using assms(1) bufs by (simp add: ph_inv_def store_update_def)
qed

lemma ph_inv_forget:
  assumes inv: "ph_inv s" and k: "ph_requests s k = Some a"
  shows "ph_inv (forget_request k a s)" and "\<forall>k'. ph_requests (forget_request k a s) k' \<noteq> Some a"
    and "length (ph_store (forget_request k a s)) = length (ph_store s)"
    and "ph_store (forget_request k a s) = ph_store s"
proof -
  have nil: "ph_tokens s GNil = None"
    using ph_inv_token(1) [OF inv, of GNil] by (cases "ph_tokens s GNil") (auto simp: issued_def)
  have tok: "pp_ProgressToken (ph_store s ! a) = t" if "ph_tokens s t = Some k" for t
    using ph_inv_token(2) [OF inv that] k by simp
  have tokens: "ph_tokens (forget_request k a s) t = Some k' \<Longrightarrow> k' \<noteq> k \<and> ph_tokens s t = Some k'" for t k'
    using tok [of t] nil by (auto simp: forget_request_def split: if_splits)
  have "tokens_inv (ph_tokenCounter s) (ph_tokens (forget_request k a s))
      (ph_requests (forget_request k a s)) (ph_store s)"
    unfolding tokens_inv_def
  proof (intro allI impI)
    fix t k' assume "ph_tokens (forget_request k a s) t = Some k'"
    then have "k' \<noteq> k" "ph_tokens s t = Some k'" using tokens by blast+
    then show "issued (ph_tokenCounter s) t \<and>
        (\<exists>b. ph_requests (forget_request k a s) k' = Some b \<and> pp_ProgressToken (ph_store s ! b) = t \<and>
          pp_HasCallback (ph_store s ! b))"
      using ph_inv_token [OF inv] by (simp add: forget_request_def)
  qed
  moreover have "requests_inv (ph_requests (forget_request k a s)) (ph_store s)"
    using inv unfolding ph_inv_def requests_inv_def by (simp add: forget_request_def)
  moreover have "ids_inv (mh_counter (ph_base s)) (dom (mh_pendingRequests (ph_base s)))
      (dom (ph_requests (forget_request k a s)))"
    using inv unfolding ph_inv_def by (auto simp: forget_request_def intro: ids_inv_mono)
  ultimately show "ph_inv (forget_request k a s)"
    using inv by (simp add: ph_inv_def) (simp add: forget_request_def)
  show "\<forall>k'. ph_requests (forget_request k a s) k' \<noteq> Some a"
    using ph_inv_request(2) [OF inv] k
    by (auto simp: forget_request_def)
  show "length (ph_store (forget_request k a s)) = length (ph_store s)"
    and "ph_store (forget_request k a s) = ph_store s"
    by (simp_all add: forget_request_def)
qed

lemma stop_request_inv:
  assumes "ph_inv s" and "ph_requests s k = Some a"
  shows "ph_inv (store_update a stop_request (forget_request k a s))"
proof -
  have "a < length (ph_store s)" using assms by (rule ph_inv_request)
  then show ?thesis
    using ph_inv_forget [OF assms] by (intro ph_inv_store) (simp_all add: stop_request_def)
qed

lemma removeProgressRequest_inv: "ph_inv s \<Longrightarrow> ph_inv (removeProgressRequest k s)"
  by (auto simp: removeProgressRequest_def split: option.splits intro: stop_request_inv)

text \<open>A timeout never closes a channel twice, because it first takes the request out of the map.\<close>

lemma handleRequestTimeout_Ok:
  assumes "ph_inv s"
  shows "\<exists>s'. handleRequestTimeout k isTotal s = Ok s' \<and> ph_inv s' \<and>
    (\<forall>a. ph_requests s k = Some a \<longrightarrow> rc_closed (pp_Chan (ph_store s' ! a)))"
proof (cases "ph_requests s k")
  case None
  then show ?thesis using assms by (simp add: handleRequestTimeout_def)
next
  case (Some a)
  let ?s1 = "store_update a stop_request (forget_request k a s)"
  let ?s2 = "store_update a (\<lambda>p. p\<lparr>pp_Chan := (pp_Chan p)\<lparr>rc_closed := True\<rparr>\<rparr>) ?s1"
  have a: "a < length (ph_store s)" "\<not> rc_closed (pp_Chan (ph_store s ! a))"
    using assms Some by (rule ph_inv_request)+
  have open_chan: "\<not> rc_closed (pp_Chan (ph_store ?s1 ! a))"
    using a by (simp add: store_update_def forget_request_def stop_request_def)
  have "ph_inv ?s2"
    by (rule ph_inv_store [OF stop_request_inv [OF assms Some]])
      (use a ph_inv_forget(2) [OF assms Some] in \<open>simp_all add: store_update_def forget_request_def\<close>)
  then have "ph_inv (?s2\<lparr>ph_base := stats_update f (ph_base ?s1)\<rparr>)" for f
    by (rule ph_inv_same_base) (simp_all add: stats_update_def store_update_def)
  moreover have "rc_closed (pp_Chan (ph_store ?s2 ! a))"
    using a by (simp add: store_update_def forget_request_def)
  ultimately show ?thesis
    using Some open_chan by (simp add: handleRequestTimeout_def Let_def)
qed

lemma handleProgress_inv:
  assumes "ph_inv s" and "handleProgressNotification oor notif s = Ok s'"
  shows "ph_inv s'"
proof -
  have calls: "ph_inv (s\<lparr>ph_calls := cs\<rparr>)" for cs
    using assms(1) by (simp add: ph_inv_def)
  have report: "ph_inv (report_progress pn a s)" if "ph_requests s k = Some a" for pn a k
  proof -
    have "a < length (ph_store s)" using assms(1) that by (rule ph_inv_request)
    then show ?thesis
      using assms(1) calls by (auto simp: report_progress_def Let_def intro!: ph_inv_store)
  qed
  show ?thesis
    using assms calls report
    by (auto simp: handleProgressNotification_def handleOrphanedProgress_def
        split: gval.splits option.splits if_splits)
qed

lemma new_progress_call_inv:
  assumes inv: "ph_inv s" and room: "ids_left s"
    and nc: "new_progress_call now options s = (ident, token, a, s1)"
  shows "ph_inv s1" and "mh_ctx (ph_base s1) = mh_ctx (ph_base s)"
    and "ph_requests s1 ident = Some a" and "a = length (ph_store s)"
proof -
  let ?c = "mh_counter (ph_base s)" and ?t = "ph_tokenCounter s"
  have c: "?c < 2 ^ 63 - 1" and t: "?t < 2 ^ 63 - 1" using room by (simp_all add: ids_left_def)
  note cn = issued_next [OF c] and tn = issued_next [OF t]
  define p where "p = \<lparr>pp_ID = GInt64 (?c + 1), pp_Chan = fresh_chan, pp_Timer = True,
      pp_TotalTimer = (if ro_MaxTotalTimeout options > 0 then Some True else None),
      pp_HasCallback = ro_OnProgress options,
      pp_ProgressToken = (if ro_OnProgress options then GInt64 (?t + 1) else GNil),
      pp_ResetTimeoutOnProgress = ro_ResetTimeoutOnProgress options,
      pp_Timeout = (if ro_Timeout options = 0 then mh_requestTimeout (ph_base s) else ro_Timeout options),
      pp_StartTime = now\<rparr>"
  have s1: "s1 = s\<lparr>ph_base := (ph_base s)\<lparr>mh_counter := ?c + 1\<rparr>,
      ph_tokenCounter := (if ro_OnProgress options then ?t + 1 else ?t),
      ph_store := ph_store s @ [p], ph_requests := (ph_requests s)(GInt64 (?c + 1) \<mapsto> a),
      ph_tokens := (if ro_OnProgress options then (ph_tokens s)(GInt64 (?t + 1) \<mapsto> GInt64 (?c + 1))
                    else ph_tokens s)\<rparr>"
    and a: "a = length (ph_store s)" and ident: "ident = GInt64 (?c + 1)"
    using nc [symmetric]
    by (cases "ro_OnProgress options";
        simp add: new_progress_call_def RequestID_Next_def Let_def fresh_chan_def p_def)+
  have p: "pp_ID p = GInt64 (?c + 1)" "pp_Chan p = fresh_chan"
      "ro_OnProgress options \<Longrightarrow> pp_ProgressToken p = GInt64 (?t + 1)"
      "pp_HasCallback p = ro_OnProgress options"
    by (simp_all add: p_def)
  show "mh_ctx (ph_base s1) = mh_ctx (ph_base s)" and "ph_requests s1 ident = Some a"
    and "a = length (ph_store s)"
    by (simp_all add: s1 ident a)
  have "ids_inv (?c + 1) (dom (mh_pendingRequests (ph_base s))) (insert (GInt64 (?c + 1)) (dom (ph_requests s)))"
    using inv c by (intro ids_inv_next) (simp_all add: ph_inv_def)
  then have ids: "ids_inv (mh_counter (ph_base s1)) (dom (mh_pendingRequests (ph_base s1))) (dom (ph_requests s1))"
    by (simp add: s1)
  have old: "k \<noteq> GInt64 (?c + 1)" if "ph_requests s k = Some b" for k b
    using ph_inv_request(4) [OF inv that] cn(3) by blast
  have "requests_inv (ph_requests s1) (ph_store s1)"
    unfolding requests_inv_def
  proof (intro allI impI)
    fix k b assume k: "ph_requests s1 k = Some b"
    show "b < length (ph_store s1) \<and> pp_ID (ph_store s1 ! b) = k \<and> \<not> rc_closed (pp_Chan (ph_store s1 ! b))"
    proof (cases "k = GInt64 (?c + 1)")
      case True
      then show ?thesis using k p a by (auto simp: s1 fresh_chan_def nth_append)
    next
      case False
      then have "ph_requests s k = Some b" using k by (simp add: s1)
      then show ?thesis using ph_inv_request [OF inv] by (simp add: s1 nth_append less_SucI)
    qed
  qed
  moreover have "tokens_inv (ph_tokenCounter s1) (ph_tokens s1) (ph_requests s1) (ph_store s1)"
    unfolding tokens_inv_def
  proof (intro allI impI)
    fix t k assume t: "ph_tokens s1 t = Some k"
    show "issued (ph_tokenCounter s1) t \<and>
        (\<exists>b. ph_requests s1 k = Some b \<and> pp_ProgressToken (ph_store s1 ! b) = t \<and>
          pp_HasCallback (ph_store s1 ! b))"
    proof (cases "ro_OnProgress options \<and> t = GInt64 (?t + 1)")
      case True
      then show ?thesis using t p(3,4) tn(2) a by (simp add: s1)
    next
      case False
      then have st: "ph_tokens s t = Some k" using t by (auto simp: s1 split: if_splits)
      obtain b where b: "ph_requests s k = Some b" "pp_ProgressToken (ph_store s ! b) = t"
          "pp_HasCallback (ph_store s ! b)"
        using ph_inv_token(2) [OF inv st] by blast
      then show ?thesis
        using ph_inv_token(1) [OF inv st] tn(1) old [OF b(1)] ph_inv_request(1) [OF inv b(1)]
        by (simp add: s1 nth_append)
    qed
  qed
  moreover have "\<forall>q \<in> set (ph_store s1). rc_buf (pp_Chan q) = []"
    using inv p by (auto simp: ph_inv_def s1 fresh_chan_def)
  ultimately show "ph_inv s1" using ids by (simp add: ph_inv_def)
qed

lemma SendRequestWithProgress_inv:
  assumes inv: "ph_inv s" and room: "ids_left s"
    and send: "SendRequestWithProgress pick now meth params options s = Some (s', res)"
  shows "ph_inv s'"
proof (cases "mh_ctx (ph_base s)")
  case (Some e)
  then show ?thesis using inv send by (simp add: SendRequestWithProgress_def)
next
  case None
  obtain ident token a s1 where nc: "new_progress_call now options s = (ident, token, a, s1)"
    by (cases "new_progress_call now options s")
  have s1: "ph_inv s1" by (rule new_progress_call_inv(1) [OF inv room nc])
  have "ph_inv (s1\<lparr>ph_base := stats_update f (ph_base s1\<lparr>mh_outgoingChan := buf\<rparr>)\<rparr>)" for f buf
    by (rule ph_inv_same_base [OF s1]) (simp_all add: stats_update_def)
  then show ?thesis
    using send None nc removeProgressRequest_inv [OF s1]
    by (auto simp: SendRequestWithProgress_def Let_def split: option.splits select_result.splits)
qed

lemma Close_store:
  "ph_requests (fold (\<lambda>a. store_update a stop_request) as s) = ph_requests s \<and>
   ph_tokens (fold (\<lambda>a. store_update a stop_request) as s) = ph_tokens s \<and>
   ph_base (fold (\<lambda>a. store_update a stop_request) as s) = ph_base s \<and>
   length (ph_store (fold (\<lambda>a. store_update a stop_request) as s)) = length (ph_store s)"
  by (induction as arbitrary: s) (simp_all add: store_update_def)

lemma stop_keeps_closed:
  "rc_closed (pp_Chan (ph_store (store_update a stop_request s) ! b)) = rc_closed (pp_Chan (ph_store s ! b))"
  by (cases "a < length (ph_store s)"; cases "b = a")
    (simp_all add: store_update_def stop_request_def list_update_beyond not_less)

lemma Close_keeps_closed:
  "rc_closed (pp_Chan (ph_store (fold (\<lambda>a. store_update a stop_request) as s) ! b))
     = rc_closed (pp_Chan (ph_store s ! b))"
  by (induction as arbitrary: s) (simp_all add: stop_keeps_closed)

lemma Close_store_inv:
  assumes "ph_inv s" and "\<forall>a \<in> set as. a < length (ph_store s)"
  shows "ph_inv (fold (\<lambda>a. store_update a stop_request) as s)"
  using assms
proof (induction as arbitrary: s)
  case (Cons a as)
  have "ph_inv (store_update a stop_request s)"
    by (rule ph_inv_store) (use Cons.prems in \<open>auto simp: stop_request_def\<close>)
  then show ?case using Cons by (simp add: store_update_def)
qed simp

lemma Progress_Close_inv:
  assumes inv: "ph_inv s" and "range_order (ph_requests s) ks"
    and close: "Progress_Close ks base_ks s = Ok s'"
  shows "ph_inv s'"
proof -
  let ?s0 = "s\<lparr>ph_requests := Map.empty, ph_tokens := Map.empty\<rparr>"
  let ?as = "range_values (ph_requests s) ks"
  let ?s1 = "fold (\<lambda>a. store_update a stop_request) ?as ?s0"
  obtain base where base: "MessageHandler_Close base_ks (ph_base ?s1) = Ok base"
    and s': "s' = ?s1\<lparr>ph_base := base\<rparr>"
    using close by (auto simp: Progress_Close_def Let_def split: outcome.splits)
  have "ph_inv ?s0"
    using inv by (simp add: ph_inv_def ids_inv_def requests_inv_def tokens_inv_def)
  moreover have "\<forall>a \<in> set ?as. a < length (ph_store ?s0)"
    using ph_inv_request(1) [OF inv] by (auto simp: set_range_values [OF assms(2)] ran_def)
  ultimately have "ph_inv ?s1" by (rule Close_store_inv)
  then show ?thesis
    unfolding s' using Close_effect [OF base] by (intro ph_inv_same_base) simp_all
qed

lemma ph_step_inv:
  assumes "ph_step oor s s'" and "ph_inv s"
  shows "ph_inv s'"
  using assms(1)
proof cases
  case (base b)
  then show ?thesis using assms(2) by (auto intro: ph_inv_base mh_step_effect)
next
  case (send pick now meth params options res)
  then show ?thesis using assms(2) by (auto intro: SendRequestWithProgress_inv)
next
  case progress
  then obtain notif rest where n: "mh_notificationChan (ph_base s) = notif # rest"
    by (auto simp: processProgressNotification_def split: list.splits)
  let ?s1 = "s\<lparr>ph_base := (ph_base s)\<lparr>mh_notificationChan := rest\<rparr>\<rparr>"
  have "ph_inv ?s1" by (rule ph_inv_same_base [OF assms(2)]) simp_all
  then show ?thesis
    using progress n by (auto simp: processProgressNotification_def Let_def split: if_splits
        intro: handleProgress_inv)
next
  case (inject notif)
  then show ?thesis using assms(2) by (auto intro: handleProgress_inv)
next
  case (set_test present)
  then show ?thesis using assms(2) by (simp add: SetTestProgressCallback_def ph_inv_def)
next
  case (timeout a)
  have "ph_inv (store_update a (\<lambda>p. p\<lparr>pp_Timer := False\<rparr>) s)"
    by (rule ph_inv_store [OF assms(2) timeout(1)]) simp_all
  from handleRequestTimeout_Ok [OF this, of "pp_ID (ph_store s ! a)" False] timeout(3)
  show ?thesis by auto
next
  case (total_timeout a)
  have "ph_inv (store_update a (\<lambda>p. p\<lparr>pp_TotalTimer := Some False\<rparr>) s)"
    by (rule ph_inv_store [OF assms(2) total_timeout(1)]) simp_all
  from handleRequestTimeout_Ok [OF this, of "pp_ID (ph_store s ! a)" True] total_timeout(3)
  show ?thesis by auto
next
  case (closing ks base_ks)
  then show ?thesis using assms(2) by (auto intro: Progress_Close_inv)
qed

lemma ph_reachable_inv: "ph_reachable oor s \<Longrightarrow> ph_inv s"
proof (induction rule: ph_reachable.induct)
  case (start ctx config s)
  then show ?case
    by (auto simp: NewProgressMessageHandler_def NewMessageHandler_def Let_def ph_inv_def ids_inv_def
        requests_inv_def tokens_inv_def split: outcome.splits if_splits)
qed (rule ph_step_inv)

text \<open>The responses of progress requests reach nobody: a channel here never holds one.\<close>

lemma progress_id_not_pending:
  assumes "ph_inv s" and "ph_requests s k = Some a" and "resp_ID r = k \<or> (\<exists>f. resp_ID r = GFloat f \<and> GInt64 (float_to_int64 oor f) = k)"
  shows "correlateResponse oor r (ph_base s) = Ok (ph_base s)"
proof -
  have "mh_pendingRequests (ph_base s) (GFloat f) = None" for f
    using assms(1) unfolding ph_inv_def ids_inv_def issued_def by (metis domIff gval.distinct)
  moreover obtain w where "k = GInt64 w" using ph_inv_request(4) [OF assms(1,2)] by (auto simp: issued_def)
  moreover have "mh_pendingRequests (ph_base s) k = None" using ph_inv_request(5) [OF assms(1,2)] .
  ultimately show ?thesis
    using assms(3) by (auto simp: correlateResponse_def find_pending_def Let_def)
qed

text \<open>
  A request that is in no map any more and whose channel is still open. Nothing can close the
  channel of such a request.
\<close>

definition abandoned :: "nat \<Rightarrow> ph_state \<Rightarrow> bool" where
  "abandoned a s \<longleftrightarrow> a < length (ph_store s) \<and> (\<forall>k. ph_requests s k \<noteq> Some a) \<and>
     \<not> rc_closed (pp_Chan (ph_store s ! a))"

lemma abandoned_cong:
  "ph_store s' = ph_store s \<Longrightarrow> ph_requests s' = ph_requests s \<Longrightarrow> abandoned a s' = abandoned a s"
  by (simp add: abandoned_def)

lemma abandoned_store:
  assumes "abandoned a s" and "b \<noteq> a \<or> (\<forall>p. rc_closed (pp_Chan (f p)) = rc_closed (pp_Chan p))"
  shows "abandoned a (store_update b f s)"
  using assms by (cases "b = a") (simp_all add: abandoned_def store_update_def)

lemma abandoned_forget:
  "abandoned a s \<Longrightarrow> abandoned a (forget_request k b s)"
  by (simp add: abandoned_def forget_request_def)

lemma abandoned_remove: "abandoned a s \<Longrightarrow> abandoned a (removeProgressRequest k s)"
  by (auto simp: removeProgressRequest_def stop_request_def split: option.splits
      intro!: abandoned_store abandoned_forget)

lemma abandoned_new:
  "abandoned a s \<Longrightarrow> new_progress_call now options s = (k, t, b, s1) \<Longrightarrow> abandoned a s1"
  by (cases "ro_OnProgress options")
    (auto simp: new_progress_call_def RequestID_Next_def Let_def abandoned_def nth_append split: if_splits)

lemma abandoned_send:
  assumes "abandoned a s" and "SendRequestWithProgress pick now meth params options s = Some (s', res)"
  shows "abandoned a s'"
proof (cases "mh_ctx (ph_base s)")
  case (Some e)
  then show ?thesis using assms by (simp add: SendRequestWithProgress_def)
next
  case None
  obtain k t b s1 where nc: "new_progress_call now options s = (k, t, b, s1)"
    by (cases "new_progress_call now options s")
  have "abandoned a s1" by (rule abandoned_new [OF assms(1) nc])
  then have "abandoned a (removeProgressRequest k s1)" and "abandoned a (s1\<lparr>ph_base := base\<rparr>)" for base
    using abandoned_remove abandoned_cong [of "s1\<lparr>ph_base := base\<rparr>" s1 a] by simp_all
  then show ?thesis
    using assms(2) None nc
    by (auto simp: SendRequestWithProgress_def Let_def split: option.splits select_result.splits)
qed

lemma abandoned_timeout:
  assumes "abandoned a s" and "handleRequestTimeout k isTotal s = Ok s'"
  shows "abandoned a s'"
proof (cases "ph_requests s k")
  case None
  then show ?thesis using assms by (simp add: handleRequestTimeout_def)
next
  case (Some b)
  let ?s1 = "store_update b stop_request (forget_request k b s)"
  let ?s2 = "store_update b (\<lambda>p. p\<lparr>pp_Chan := (pp_Chan p)\<lparr>rc_closed := True\<rparr>\<rparr>) ?s1"
  have "b \<noteq> a" using assms(1) Some by (auto simp: abandoned_def)
  then have "abandoned a ?s2"
    by (intro abandoned_store abandoned_forget assms(1)) simp_all
  moreover have "\<exists>base. s' = ?s2\<lparr>ph_base := base\<rparr>"
    using assms(2) Some unfolding handleRequestTimeout_def Let_def
    by (simp split: if_splits) blast
  ultimately show ?thesis
    using abandoned_cong [of s' ?s2 a] by auto
qed

lemma abandoned_progress:
  assumes "abandoned a s" and "handleProgressNotification oor notif s = Ok s'"
  shows "abandoned a s'"
proof -
  have calls: "abandoned a (s\<lparr>ph_calls := cs\<rparr>)" for cs
    using assms(1) abandoned_cong [of "s\<lparr>ph_calls := cs\<rparr>" s a] by simp
  then have "abandoned a (report_progress pn b s)" for pn b
    using assms(1) by (auto simp: report_progress_def Let_def intro!: abandoned_store)
  then show ?thesis
    using assms calls by (auto simp: handleProgressNotification_def handleOrphanedProgress_def
        split: gval.splits option.splits if_splits)
qed

lemma abandoned_Close:
  assumes "Progress_Close ks base_ks s = Ok s'" and "a < length (ph_store s)"
    and "\<not> rc_closed (pp_Chan (ph_store s ! a))"
  shows "abandoned a s'"
  using assms Close_store [of "range_values (ph_requests s) ks"] Close_keeps_closed [of "range_values (ph_requests s) ks"]
  by (auto simp: Progress_Close_def Let_def abandoned_def split: outcome.splits)

lemma abandoned_step:
  assumes "ph_step oor s s'" and "abandoned a s"
  shows "abandoned a s'"
  using assms(1)
proof cases
  case (base b)
  then show ?thesis using assms(2) abandoned_cong [of s' s a] by simp
next
  case (send pick now meth params options res)
  then show ?thesis using assms(2) by (auto intro: abandoned_send)
next
  case progress
  then obtain notif rest where n: "mh_notificationChan (ph_base s) = notif # rest"
    by (auto simp: processProgressNotification_def split: list.splits)
  let ?s1 = "s\<lparr>ph_base := (ph_base s)\<lparr>mh_notificationChan := rest\<rparr>\<rparr>"
  have "abandoned a ?s1" using assms(2) abandoned_cong [of ?s1 s a] by simp
  then show ?thesis
    using progress n by (auto simp: processProgressNotification_def Let_def split: if_splits
        intro: abandoned_progress)
next
  case (inject notif)
  then show ?thesis using assms(2) by (auto intro: abandoned_progress)
next
  case (set_test present)
  then show ?thesis using assms(2) by (simp add: SetTestProgressCallback_def abandoned_def)
next
  case (timeout b)
  have "abandoned a (store_update b (\<lambda>p. p\<lparr>pp_Timer := False\<rparr>) s)" by (rule abandoned_store [OF assms(2)]) simp
  then show ?thesis using timeout(3) by (rule abandoned_timeout)
next
  case (total_timeout b)
  have "abandoned a (store_update b (\<lambda>p. p\<lparr>pp_TotalTimer := Some False\<rparr>) s)" by (rule abandoned_store [OF assms(2)]) simp
  then show ?thesis using total_timeout(3) by (rule abandoned_timeout)
next
  case (closing ks base_ks)
  then show ?thesis using assms(2) abandoned_Close by (auto simp: abandoned_def)
qed

lemma abandoned_steps: "(ph_step oor)\<^sup>*\<^sup>* s s' \<Longrightarrow> abandoned a s \<Longrightarrow> abandoned a s'"
  by (induction rule: rtranclp_induct) (auto intro: abandoned_step)

lemma ph_reachable_steps: "(ph_step oor)\<^sup>*\<^sup>* s s' \<Longrightarrow> ph_reachable oor s \<Longrightarrow> ph_reachable oor s'"
  by (induction rule: rtranclp_induct) (auto intro: ph_reachable.step)

section \<open>Concrete runs\<close>

text \<open>A handler after one request for \<open>ping\<close> with a progress callback, for the witnesses below.\<close>

definition progress_options :: request_options where
  "progress_options = \<lparr>ro_OnProgress = True, ro_Timeout = 0, ro_ResetTimeoutOnProgress = True,
     ro_MaxTotalTimeout = 0, ro_Context = None\<rparr>"

definition ph_fresh :: ph_state where
  "ph_fresh = \<lparr>ph_base = mh_fresh, ph_requests = Map.empty, ph_tokens = Map.empty,
     ph_tokenCounter = 0, ph_store = [], ph_testCallback = False, ph_calls = []\<rparr>"

definition ph_ping :: payload where
  "ph_ping = Text (JObj [(''jsonrpc'', JStr ''2.0''), (''id'', JInt 1), (''method'', JStr ''ping''),
     (''params'', JObj [(''_meta'', JObj [(''progressToken'', JInt 1)])])])"

definition ph_asked :: ph_state where
  "ph_asked = ph_fresh\<lparr>
     ph_base := mh_fresh\<lparr>mh_outgoingChan := [ph_ping], mh_counter := 1,
       mh_stats := \<lparr>ms_RequestsSent = 1, ms_ResponsesReceived = 0, ms_NotificationsSent = 0,
         ms_Errors = 0, ms_Timeouts = 0\<rparr>\<rparr>,
     ph_requests := [GInt64 1 \<mapsto> 0], ph_tokens := [GInt64 1 \<mapsto> GInt64 1], ph_tokenCounter := 1,
     ph_store := [\<lparr>pp_ID = GInt64 1, pp_Chan = fresh_chan, pp_Timer = True, pp_TotalTimer = None,
       pp_HasCallback = True, pp_ProgressToken = GInt64 1, pp_ResetTimeoutOnProgress = True,
       pp_Timeout = default_timeout, pp_StartTime = 0\<rparr>]\<rparr>"

lemma ph_fresh_reachable: "ph_reachable oor ph_fresh"
  by (rule ph_reachable.start [of None "\<lparr>mhc_RequestTimeout = 0, mhc_BufferSize = 0\<rparr>"])
    (simp add: NewProgressMessageHandler_def NewMessageHandler_def mh_fresh_def ph_fresh_def Let_def)

lemma Send_ph_ping:
  "SendRequestWithProgress pick 0 ''ping'' GNil progress_options ph_fresh = Some (ph_asked, Ok 0)"
  by (simp add: SendRequestWithProgress_def ph_fresh_def mh_fresh_def ph_asked_def new_progress_call_def
      RequestID_Next_def progress_options_def addProgressToken_def meta_with_token_def
      select_send_def chan_send_def to_payload_def request_gval_def omit_nil_def ph_ping_def
      fresh_chan_def stats_update_def Let_def)

lemma ph_asked_reachable: "ph_reachable oor ph_asked"
proof (rule ph_reachable.step [OF ph_fresh_reachable])
  show "ph_step oor ph_fresh ph_asked"
    by (rule ph_step.send [OF _ Send_ph_ping [of True]])
      (simp add: ids_left_def ph_fresh_def mh_fresh_def word_less_def)
qed

section \<open>Properties\<close>

text \<open>C13: No request made with progress support is ever answered: a response that carries its id (as
  the \<open>int64\<close> it was sent with or as a number that truncates to it) changes nothing in the base
  handler, and in every state reached from here its channel is empty.\<close>

theorem progress_requests_unanswered:
  assumes "ph_reachable oor s" and "ph_requests s k = Some a"
    and "resp_ID r = k \<or> resp_ID r = GFloat f \<and> GInt64 (float_to_int64 oor f) = k"
    and "(ph_step oor)\<^sup>*\<^sup>* s s'" and "p \<in> set (ph_store s')"
  shows "correlateResponse oor r (ph_base s) = Ok (ph_base s) \<and> rc_buf (pp_Chan p) = []"
proof
  show "correlateResponse oor r (ph_base s) = Ok (ph_base s)"
    by (rule progress_id_not_pending [OF ph_reachable_inv [OF assms(1)] assms(2)]) (use assms(3) in blast)
  show "rc_buf (pp_Chan p) = []"
    using ph_reachable_inv [OF ph_reachable_steps [OF assms(4,1)]] assms(5) by (simp add: ph_inv_def)
qed

theorem progress_requests_unanswered_witness:
  "correlateResponse (\<lambda>_. 0) (pong\<lparr>resp_ID := GFloat (F64 1)\<rparr>) (ph_base ph_asked) = Ok (ph_base ph_asked) \<and>
   rc_buf (pp_Chan (ph_store ph_asked ! 0)) = []"
  by (rule progress_requests_unanswered [OF ph_asked_reachable, where k = "GInt64 1" and a = 0 and f = "F64 1"])
    (auto simp: ph_asked_def float_to_int64_def rat_trunc_def)

text \<open>A progress notification that came over the wire never reaches the callback of a request and
  never re-arms its timer, because the token it carries is a \<open>float64\<close> and the tokens the handler
  gave out are \<open>int64\<close> map keys: at most the test callback is called.\<close>

theorem wire_progress_ignored:
  assumes "ph_reachable oor s" and "ParseMessage data = Some msg" and "ToNotification msg = Some notif"
    and "handleProgressNotification oor notif s = Ok s'"
  shows "ph_store s' = ph_store s \<and>
    filter (\<lambda>c. fst c \<noteq> TestCallback) (ph_calls s') = filter (\<lambda>c. fst c \<noteq> TestCallback) (ph_calls s)"
proof (cases "\<exists>m token. not_Params notif = GMap m \<and> map_of m ''progressToken'' = Some token")
  case True
  then obtain m token where m: "not_Params notif = GMap m" "map_of m ''progressToken'' = Some token"
    by blast
  have "generic (GMap m)"
    using ParseMessage_generic [OF assms(2)] assms(3) m(1)
    by (auto simp: generic_message_def ToNotification_def split: if_splits)
  then have "generic token" using m(2) by (rule generic_member)
  then have "ph_tokens s token = None"
    using ph_inv_token(1) [OF ph_reachable_inv [OF assms(1)], of token]
    by (cases "ph_tokens s token") (auto simp: issued_def)
  then show ?thesis
    using assms(4) m by (auto simp: handleProgressNotification_def handleOrphanedProgress_def split: if_splits)
next
  case False
  then have "s' = s"
    using assms(4) by (auto simp: handleProgressNotification_def split: gval.splits option.splits)
  then show ?thesis by simp
qed

definition half_done :: payload where
  "half_done = Text (JObj [(''jsonrpc'', JStr ''2.0''), (''method'', JStr ''notifications/progress''),
     (''params'', JObj [(''progressToken'', JInt 1), (''progress'', JInt 1)])])"

definition half_done_wire :: notification where
  "half_done_wire = \<lparr>not_JSONRPC = ''2.0'', not_Method = ''notifications/progress'',
     not_Params = GMap [(''progress'', GFloat (F64 1)), (''progressToken'', GFloat (F64 1))]\<rparr>"

lemma half_done_parsed:
  "ParseMessage half_done = Some \<lparr>msg_JSONRPC = ''2.0'', msg_ID = GNil,
     msg_Method = ''notifications/progress'', msg_Params = not_Params half_done_wire,
     msg_Result = GNil, msg_Error = None\<rparr>"
  by (simp add: ParseMessage_def half_done_def half_done_wire_def decode_struct_def find_message_field
      dec_string_def dec_iface_def wire_one zero_message_def del: to_iface.simps(3))

theorem wire_progress_ignored_witness:
  "handleProgressNotification (\<lambda>_. 0) half_done_wire ph_asked = Ok ph_asked \<and> ph_calls ph_asked = [] \<and>
   filter (\<lambda>c. fst c \<noteq> TestCallback) (ph_calls ph_asked) = filter (\<lambda>c. fst c \<noteq> TestCallback) (ph_calls ph_asked)"
proof -
  have step: "handleProgressNotification (\<lambda>_. 0) half_done_wire ph_asked = Ok ph_asked"
    by (simp add: handleProgressNotification_def handleOrphanedProgress_def half_done_wire_def
        ph_asked_def ph_fresh_def)
  show ?thesis
    using wire_progress_ignored [OF ph_asked_reachable half_done_parsed _ step]
      step by (simp add: ToNotification_def IsNotification_def half_done_wire_def ph_asked_def ph_fresh_def)
qed


definition half_done_local :: notification where
  "half_done_local = \<lparr>not_JSONRPC = ''2.0'', not_Method = ''notifications/progress'',
     not_Params = GMap [(''progress'', GFloat (F64 1)), (''progressToken'', GInt64 1)]\<rparr>"


text \<open>Closing the handler abandons its callers: it stops the timers of every pending request but
  closes no response channel, so a caller that waits on one waits forever, since no later step of
  any kind closes it or sends to it.\<close>

theorem progress_callers_abandoned:
  assumes "ph_reachable oor s" and "ph_requests s k = Some a"
    and "range_order (ph_requests s) ks" and "range_order (mh_pendingRequests (ph_base s)) base_ks"
    and "Progress_Close ks base_ks s = Ok s1" and "(ph_step oor)\<^sup>*\<^sup>* s1 s'"
  shows "\<not> rc_closed (pp_Chan (ph_store s' ! a)) \<and> rc_buf (pp_Chan (ph_store s' ! a)) = []"
proof -
  note inv = ph_reachable_inv [OF assms(1)]
  have "abandoned a s1"
    using ph_inv_request(1,3) [OF inv assms(2)] by (intro abandoned_Close [OF assms(5)])
  then have "abandoned a s'" by (rule abandoned_steps [OF assms(6)])
  moreover have "ph_reachable oor s1"
    by (rule ph_reachable.step [OF assms(1) ph_step.closing [OF assms(3,4,5)]])
  then have "ph_inv s'" by (rule ph_reachable_inv [OF ph_reachable_steps [OF assms(6)]])
  ultimately show ?thesis by (simp add: abandoned_def ph_inv_def)
qed

definition ph_closed :: ph_state where
  "ph_closed = ph_asked\<lparr>ph_base := (ph_base ph_asked)\<lparr>mh_ctx := Some ''context canceled''\<rparr>,
     ph_requests := Map.empty, ph_tokens := Map.empty,
     ph_store := [stop_request (ph_store ph_asked ! 0)]\<rparr>"

lemma ph_asked_close: "Progress_Close [GInt64 1] [] ph_asked = Ok ph_closed"
  by (simp add: Progress_Close_def ph_closed_def ph_asked_def ph_fresh_def mh_fresh_def Let_def
      range_values_def map_filter_def store_update_def MessageHandler_Close_def cancel_def)

theorem progress_callers_abandoned_witness:
  "\<not> rc_closed (pp_Chan (ph_store ph_closed ! 0)) \<and> rc_buf (pp_Chan (ph_store ph_closed ! 0)) = []"
  using progress_callers_abandoned [OF ph_asked_reachable [of "\<lambda>_. 0"] _ _ _ ph_asked_close
      rtranclp.rtrancl_refl, of "GInt64 1" 0]
  by (simp add: range_order_def ph_asked_def mh_fresh_def)

text \<open>Adding the progress token: the parameters become an object whose \<open>_meta\<close> holds the token;
  every other parameter and every other entry of an existing \<open>_meta\<close> object is kept, and parameters
  that are no object are kept under \<open>params\<close>.\<close>

theorem addProgressToken_effect:
  "\<exists>m meta. addProgressToken params token = GMap m \<and> map_of m ''_meta'' = Some (GMap meta) \<and>
    map_of meta ''progressToken'' = Some token \<and>
    (case params of
       GNil \<Rightarrow> dom (map_of m) = {''_meta''}
     | GMap old \<Rightarrow> (\<forall>k. k \<noteq> ''_meta'' \<longrightarrow> map_of m k = map_of old k) \<and>
         (\<forall>k old_meta. map_of old ''_meta'' = Some (GMap old_meta) \<longrightarrow> k \<noteq> ''progressToken'' \<longrightarrow>
            map_of meta k = map_of old_meta k)
     | _ \<Rightarrow> map_of m ''params'' = Some params \<and> dom (map_of m) = {''_meta'', ''params''})"
  by (auto simp: addProgressToken_def meta_with_token_def split: gval.splits option.splits)

theorem addProgressToken_effect_witness:
  "\<exists>m meta. addProgressToken (GMap [(''_meta'', GMap [(''trace'', GString ''t'')]), (''name'', GString ''x'')])
      (GInt64 1) = GMap m \<and> map_of m ''_meta'' = Some (GMap meta) \<and>
    map_of meta ''progressToken'' = Some (GInt64 1) \<and> map_of m ''name'' = Some (GString ''x'') \<and>
    map_of meta ''trace'' = Some (GString ''t'')"
  using addProgressToken_effect [of "GMap [(''_meta'', GMap [(''trace'', GString ''t'')]), (''name'', GString ''x'')]" "GInt64 1"]
  by fastforce

end
