(* ===== verification/Inprocess.thy ===== *)
theory Inprocess
  imports Message_Handler Mcp_Server
begin

text \<open>
  \<open>transport/inprocess.go\<close>: a transport that answers the client's requests in the same process.
  \<open>ip_state\<close> holds the client's message handler, the tables of the built-in server, the two
  channels of the transport and which of its four goroutines still run. The channels
  \<open>serverRequestChan\<close> and \<open>serverNotificationChan\<close> are made but never used, and are left out.
  Handlers are functions from their arguments to an outcome; a prompt handler that returns no error
  returns a result.
\<close>

named_theorems ip_simps "definitions of the in-process transport"

section \<open>State\<close>

record result_message =
  gpm_Role :: string
  gpm_Content :: gval

record get_prompt_result =
  gpr_Description :: string
  gpr_Messages :: "result_message list option"

type_synonym ip_resource_handler = "string \<Rightarrow> resource_content list option outcome"
type_synonym ip_tool_handler = "arguments \<Rightarrow> contents outcome"
type_synonym ip_prompt_handler = "(string \<times> string) list \<Rightarrow> get_prompt_result outcome"

record ip_state =
  ip_handler :: mh_state
  ip_requestChan :: "request list"
  ip_notificationChan :: "notification list"
  ip_resourceHandlers :: "string \<rightharpoonup> ip_resource_handler"
  ip_toolHandlers :: "string \<rightharpoonup> ip_tool_handler"
  ip_promptHandlers :: "string \<rightharpoonup> ip_prompt_handler"
  ip_resourceMeta :: "string \<rightharpoonup> resource"
  ip_toolMeta :: "string \<rightharpoonup> tool"
  ip_promptMeta :: "string \<rightharpoonup> prompt"
  ip_ctx :: "string option"
  ip_serverInfo :: implementation
  ip_outgoingRuns :: bool
  ip_requestsRuns :: bool
  ip_notificationsRuns :: bool
  ip_serverRuns :: bool

definition NewInProcessTransport :: "ip_state outcome" where
  "NewInProcessTransport =
     (case NewMessageHandler None \<lparr>mhc_RequestTimeout = 30 * 1000000000, mhc_BufferSize = 100\<rparr> of
        Ok handler \<Rightarrow>
          Ok \<lparr>ip_handler = handler, ip_requestChan = [], ip_notificationChan = [],
              ip_resourceHandlers = Map.empty, ip_toolHandlers = Map.empty,
              ip_promptHandlers = Map.empty, ip_resourceMeta = Map.empty, ip_toolMeta = Map.empty,
              ip_promptMeta = Map.empty, ip_ctx = None,
              ip_serverInfo = \<lparr>impl_Name = ''in-process-server'', impl_Version = ''1.0.0'',
                impl_ProtocolVersion = []\<rparr>,
              ip_outgoingRuns = True, ip_requestsRuns = True, ip_notificationsRuns = True,
              ip_serverRuns = True\<rparr>
      | Err e \<Rightarrow> Err e
      | Panic m \<Rightarrow> Panic m)"

section \<open>The client's calls\<close>

definition ip_SendRequest ::
  "bool \<Rightarrow> string \<Rightarrow> gval \<Rightarrow> ip_state \<Rightarrow> (ip_state \<times> nat outcome) option" where
  "ip_SendRequest pick meth params s =
     map_option (\<lambda>(h, res). (s\<lparr>ip_handler := h\<rparr>, res)) (SendRequest pick meth params (ip_handler s))"

definition ip_SendNotification ::
  "bool \<Rightarrow> string \<Rightarrow> gval \<Rightarrow> ip_state \<Rightarrow> (ip_state \<times> unit outcome) option" where
  "ip_SendNotification pick meth params s =
     map_option (\<lambda>(h, res). (s\<lparr>ip_handler := h\<rparr>, res)) (SendNotification pick meth params (ip_handler s))"

definition ip_SendResponse :: "gval \<Rightarrow> gval \<Rightarrow> rpc_error option \<Rightarrow> unit outcome" where
  "ip_SendResponse ident result err = Err ''client transport does not send responses''"

definition AddTool :: "tool \<Rightarrow> ip_tool_handler \<Rightarrow> ip_state \<Rightarrow> ip_state" where
  "AddTool t handler s =
     s\<lparr>ip_toolMeta := (ip_toolMeta s)(tool_Name t \<mapsto> t),
       ip_toolHandlers := (ip_toolHandlers s)(tool_Name t \<mapsto> handler)\<rparr>"

definition AddResource :: "resource \<Rightarrow> ip_resource_handler \<Rightarrow> ip_state \<Rightarrow> ip_state" where
  "AddResource r handler s =
     s\<lparr>ip_resourceMeta := (ip_resourceMeta s)(res_URI r \<mapsto> r),
       ip_resourceHandlers := (ip_resourceHandlers s)(res_URI r \<mapsto> handler)\<rparr>"

definition AddPrompt :: "prompt \<Rightarrow> ip_prompt_handler \<Rightarrow> ip_state \<Rightarrow> ip_state" where
  "AddPrompt p handler s =
     s\<lparr>ip_promptMeta := (ip_promptMeta s)(prompt_Name p \<mapsto> p),
       ip_promptHandlers := (ip_promptHandlers s)(prompt_Name p \<mapsto> handler)\<rparr>"

section \<open>The built-in server\<close>

definition ip_success :: "gval \<Rightarrow> gval \<Rightarrow> response outcome" where
  "ip_success ident result =
     Ok \<lparr>resp_JSONRPC = ''2.0'', resp_ID = ident, resp_Result = result, resp_Error = None\<rparr>"

definition ip_failure :: "gval \<Rightarrow> int \<Rightarrow> string \<Rightarrow> response outcome" where
  "ip_failure ident code msg =
     Ok \<lparr>resp_JSONRPC = ''2.0'', resp_ID = ident, resp_Result = GNil,
         resp_Error = Some (rpc_err code msg)\<rparr>"

definition get_string :: "(string \<times> gval) list \<Rightarrow> string \<Rightarrow> string option" where
  "get_string m k = (case map_of m k of Some (GString x) \<Rightarrow> Some x | _ \<Rightarrow> None)"

definition ip_initialize :: "ip_state \<Rightarrow> gval \<Rightarrow> response outcome" where
  "ip_initialize s ident =
     ip_success ident
       (GMap [(''capabilities'', GMap [
                 (''prompts'', GMap [(''listChanged'', GBool True)]),
                 (''resources'', GMap [(''listChanged'', GBool True), (''subscribe'', GBool False)]),
                 (''tools'', GMap [(''listChanged'', GBool True)])]),
              (''protocolVersion'', GString ProtocolVersion),
              (''serverInfo'', implementation_gval (ip_serverInfo s))])"

definition ip_tools_list :: "string list \<Rightarrow> ip_state \<Rightarrow> gval \<Rightarrow> response outcome" where
  "ip_tools_list ks s ident =
     ip_success ident (GStruct [(''tools'', GSlice (map tool_gval (range_values (ip_toolMeta s) ks)))])"

definition call_tool_result_gval :: "contents \<Rightarrow> bool \<Rightarrow> gval" where
  "call_tool_result_gval cs isError =
     GStruct ([(''content'', contents_gval cs)] @ omit_false ''isError'' isError)"

text \<open>\<open>args, _ := paramsMap["arguments"].(map[string]interface{})\<close>\<close>

definition get_arguments :: "(string \<times> gval) list \<Rightarrow> arguments" where
  "get_arguments m = (case map_of m ''arguments'' of Some (GMap args) \<Rightarrow> Some args | _ \<Rightarrow> None)"

definition ip_tools_call :: "ip_state \<Rightarrow> gval \<Rightarrow> gval \<Rightarrow> response outcome" where
  "ip_tools_call s params ident =
     (case params of
        GMap m \<Rightarrow>
          (case get_string m ''name'' of
             None \<Rightarrow> ip_failure ident (- 32602) ''Missing tool name''
           | Some name \<Rightarrow>
               (case ip_toolHandlers s name of
                  None \<Rightarrow> ip_failure ident (- 32601) (''Tool not found: '' @ name)
                | Some handler \<Rightarrow>
                    (case handler (get_arguments m) of
                       Ok cs \<Rightarrow> ip_success ident (call_tool_result_gval cs False)
                     | Err e \<Rightarrow> ip_failure ident (- 32603) e
                     | Panic p \<Rightarrow> Panic p)))
      | _ \<Rightarrow> ip_failure ident (- 32602) ''Invalid params'')"

definition ip_resources_list :: "string list \<Rightarrow> ip_state \<Rightarrow> gval \<Rightarrow> response outcome" where
  "ip_resources_list ks s ident =
     ip_success ident
       (GStruct [(''resources'', GSlice (map resource_gval (range_values (ip_resourceMeta s) ks)))])"

definition read_resource_result_gval :: "resource_content list option \<Rightarrow> gval" where
  "read_resource_result_gval cs =
     GStruct [(''contents'', case cs of None \<Rightarrow> GNil | Some xs \<Rightarrow> GSlice (map resource_content_gval xs))]"

definition ip_resources_read :: "ip_state \<Rightarrow> gval \<Rightarrow> gval \<Rightarrow> response outcome" where
  "ip_resources_read s params ident =
     (case params of
        GMap m \<Rightarrow>
          (case get_string m ''uri'' of
             None \<Rightarrow> ip_failure ident (- 32602) ''Missing URI''
           | Some uri \<Rightarrow>
               (case ip_resourceHandlers s uri of
                  None \<Rightarrow> ip_failure ident (- 32601) (''Resource not found: '' @ uri)
                | Some handler \<Rightarrow>
                    (case handler uri of
                       Ok cs \<Rightarrow> ip_success ident (read_resource_result_gval cs)
                     | Err e \<Rightarrow> ip_failure ident (- 32603) e
                     | Panic p \<Rightarrow> Panic p)))
      | _ \<Rightarrow> ip_failure ident (- 32602) ''Invalid params'')"

definition ip_prompts_list :: "string list \<Rightarrow> ip_state \<Rightarrow> gval \<Rightarrow> response outcome" where
  "ip_prompts_list ks s ident =
     ip_success ident
       (GStruct [(''prompts'', GSlice (map prompt_gval (range_values (ip_promptMeta s) ks)))])"

text \<open>The arguments of a prompt that are strings; the others are dropped.\<close>

definition string_arguments :: "(string \<times> gval) list \<Rightarrow> (string \<times> string) list" where
  "string_arguments m =
     (case map_of m ''arguments'' of
        Some (GMap args) \<Rightarrow>
          List.map_filter (\<lambda>(k, v). case v of GString x \<Rightarrow> Some (k, x) | _ \<Rightarrow> None) args
      | _ \<Rightarrow> [])"

definition get_prompt_result_gval :: "get_prompt_result \<Rightarrow> gval" where
  "get_prompt_result_gval r =
     GStruct (omit_empty ''description'' (gpr_Description r) @
       [(''messages'', case gpr_Messages r of
           None \<Rightarrow> GNil
         | Some ms \<Rightarrow> GSlice (map (\<lambda>pm. GStruct [(''role'', GString (gpm_Role pm)),
                                                  (''content'', gpm_Content pm)]) ms))])"

definition ip_prompts_get :: "ip_state \<Rightarrow> gval \<Rightarrow> gval \<Rightarrow> response outcome" where
  "ip_prompts_get s params ident =
     (case params of
        GMap m \<Rightarrow>
          (case get_string m ''name'' of
             None \<Rightarrow> ip_failure ident (- 32602) ''Missing prompt name''
           | Some name \<Rightarrow>
               (case ip_promptHandlers s name of
                  None \<Rightarrow> ip_failure ident (- 32601) (''Prompt not found: '' @ name)
                | Some handler \<Rightarrow>
                    (case handler (string_arguments m) of
                       Ok r \<Rightarrow> ip_success ident (get_prompt_result_gval r)
                     | Err e \<Rightarrow> ip_failure ident (- 32603) e
                     | Panic p \<Rightarrow> Panic p)))
      | _ \<Rightarrow> ip_failure ident (- 32602) ''Invalid params'')"

definition ip_handleRequest ::
  "string list \<Rightarrow> ip_state \<Rightarrow> string \<Rightarrow> gval \<Rightarrow> gval \<Rightarrow> response outcome" where
  "ip_handleRequest ks s meth params ident =
     (if meth = ''initialize'' then ip_initialize s ident
      else if meth = ''tools/list'' then ip_tools_list ks s ident
      else if meth = ''tools/call'' then ip_tools_call s params ident
      else if meth = ''resources/list'' then ip_resources_list ks s ident
      else if meth = ''resources/read'' then ip_resources_read s params ident
      else if meth = ''prompts/list'' then ip_prompts_list ks s ident
      else if meth = ''prompts/get'' then ip_prompts_get s params ident
      else ip_failure ident (- 32601) (''Method not found: '' @ meth))"

section \<open>The goroutines\<close>

record bridge_message =
  bm_JSONRPC :: string
  bm_ID :: gval
  bm_Method :: string
  bm_Params :: gval

definition bridge_fields :: "bridge_message fields" where
  "bridge_fields =
     [(''jsonrpc'', dec_string (\<lambda>s m. m\<lparr>bm_JSONRPC := s\<rparr>)),
      (''id'', dec_iface (\<lambda>v m. m\<lparr>bm_ID := v\<rparr>)),
      (''method'', dec_string (\<lambda>s m. m\<lparr>bm_Method := s\<rparr>)),
      (''params'', dec_iface (\<lambda>v m. m\<lparr>bm_Params := v\<rparr>))]"

definition parse_bridge :: "payload \<Rightarrow> bridge_message option" where
  "parse_bridge data =
     (case data of
        Malformed \<Rightarrow> None
      | Text j \<Rightarrow> decode_struct bridge_fields
                   \<lparr>bm_JSONRPC = [], bm_ID = GNil, bm_Method = [], bm_Params = GNil\<rparr> j)"

text \<open>
  The error of \<open>json.Marshal\<close> is ignored: then the bytes sent are nil, which is no JSON text.
\<close>

definition response_bytes :: "response \<Rightarrow> payload" where
  "response_bytes r = (case to_payload (response_gval r) of None \<Rightarrow> Malformed | Some data \<Rightarrow> data)"

text \<open>
  One iteration of \<open>bridgeOutgoing\<close>: \<^term>\<open>None\<close> while it waits. \<open>pick\<close> and \<open>pick'\<close> are the choices
  of its two selects, \<open>ks\<close> the order in which a list request visits its table.
\<close>

definition stop_outgoing :: "ip_state \<Rightarrow> ip_state" where
  "stop_outgoing s = s\<lparr>ip_outgoingRuns := False\<rparr>"

definition bridgeOutgoing :: "string list \<Rightarrow> bool \<Rightarrow> bool \<Rightarrow> ip_state \<Rightarrow> ip_state outcome option" where
  "bridgeOutgoing ks pick pick' s =
     (case (mh_outgoingChan (ip_handler s), ip_ctx s) of
        ([], None) \<Rightarrow> None
      | ([], Some _) \<Rightarrow> Some (Ok (stop_outgoing s))
      | (data # rest, ctx) \<Rightarrow>
          if ctx \<noteq> None \<and> \<not> pick then Some (Ok (stop_outgoing s))
          else
            (let h = (ip_handler s)\<lparr>mh_outgoingChan := rest\<rparr>; s1 = s\<lparr>ip_handler := h\<rparr>
             in case parse_bridge data of
                  None \<Rightarrow> Some (Ok s1)
                | Some msg \<Rightarrow>
                    if bm_ID msg = GNil then Some (Ok s1)
                    else (case ip_handleRequest ks s (bm_Method msg) (bm_Params msg) (bm_ID msg) of
                            Ok r \<Rightarrow>
                              (case select_send pick' (mh_bufferSize h) (mh_incomingChan h)
                                      (response_bytes r) ctx of
                                 Sent buf \<Rightarrow> Some (Ok (s\<lparr>ip_handler := h\<lparr>mh_incomingChan := buf\<rparr>\<rparr>))
                               | Cancelled _ \<Rightarrow> Some (Ok (stop_outgoing s1))
                               | Blocked \<Rightarrow> None)
                          | Err e \<Rightarrow> Some (Err e)
                          | Panic p \<Rightarrow> Some (Panic p))))"

text \<open>\<open>handleNotification\<close> does nothing, so a notification is only taken from the channel.\<close>

definition bridgeRequests :: "bool \<Rightarrow> bool \<Rightarrow> ip_state \<Rightarrow> ip_state option" where
  "bridgeRequests pick pick' s =
     (case (mh_requestChan (ip_handler s), ip_ctx s) of
        ([], None) \<Rightarrow> None
      | ([], Some _) \<Rightarrow> Some (s\<lparr>ip_requestsRuns := False\<rparr>)
      | (req # rest, ctx) \<Rightarrow>
          if ctx \<noteq> None \<and> \<not> pick then Some (s\<lparr>ip_requestsRuns := False\<rparr>)
          else
            (let s1 = s\<lparr>ip_handler := (ip_handler s)\<lparr>mh_requestChan := rest\<rparr>\<rparr>
             in case select_send pick' 100 (ip_requestChan s) req ctx of
                  Sent buf \<Rightarrow> Some (s1\<lparr>ip_requestChan := buf\<rparr>)
                | Cancelled _ \<Rightarrow> Some (s1\<lparr>ip_requestsRuns := False\<rparr>)
                | Blocked \<Rightarrow> None))"

definition bridgeNotifications :: "bool \<Rightarrow> bool \<Rightarrow> ip_state \<Rightarrow> ip_state option" where
  "bridgeNotifications pick pick' s =
     (case (mh_notificationChan (ip_handler s), ip_ctx s) of
        ([], None) \<Rightarrow> None
      | ([], Some _) \<Rightarrow> Some (s\<lparr>ip_notificationsRuns := False\<rparr>)
      | (notif # rest, ctx) \<Rightarrow>
          if ctx \<noteq> None \<and> \<not> pick then Some (s\<lparr>ip_notificationsRuns := False\<rparr>)
          else
            (let s1 = s\<lparr>ip_handler := (ip_handler s)\<lparr>mh_notificationChan := rest\<rparr>\<rparr>
             in case select_send pick' 100 (ip_notificationChan s) notif ctx of
                  Sent buf \<Rightarrow> Some (s1\<lparr>ip_notificationChan := buf\<rparr>)
                | Cancelled _ \<Rightarrow> Some (s1\<lparr>ip_notificationsRuns := False\<rparr>)
                | Blocked \<Rightarrow> None))"

definition processServerRequests :: "ip_state \<Rightarrow> ip_state option" where
  "processServerRequests s =
     (case ip_ctx s of None \<Rightarrow> None | Some _ \<Rightarrow> Some (s\<lparr>ip_serverRuns := False\<rparr>))"

section \<open>Closing\<close>

text \<open>
  \<open>Close\<close> cancels the context, and with it the handler's, waits for the four goroutines, and
  closes the handler. The second part is possible once none of them runs.
\<close>

definition ip_cancel :: "ip_state \<Rightarrow> ip_state" where
  "ip_cancel s =
     s\<lparr>ip_ctx := (case ip_ctx s of None \<Rightarrow> Some ''context canceled'' | Some e \<Rightarrow> Some e),
       ip_handler := cancel (ip_handler s)\<rparr>"

definition ip_stopped :: "ip_state \<Rightarrow> bool" where
  "ip_stopped s \<longleftrightarrow> \<not> ip_outgoingRuns s \<and> \<not> ip_requestsRuns s \<and> \<not> ip_notificationsRuns s \<and> \<not> ip_serverRuns s"

definition ip_finish_close :: "gval list \<Rightarrow> ip_state \<Rightarrow> ip_state outcome option" where
  "ip_finish_close ks s =
     (if \<not> ip_stopped s then None
      else Some (case MessageHandler_Close ks (ip_handler s) of
                   Ok h \<Rightarrow> Ok (s\<lparr>ip_handler := h\<rparr>)
                 | Err e \<Rightarrow> Err e
                 | Panic m \<Rightarrow> Panic m))"

text \<open>The steps of the goroutines: the transport's four and the two of its message handler.\<close>

inductive ip_work :: "(float64 \<Rightarrow> int64) \<Rightarrow> ip_state \<Rightarrow> ip_state \<Rightarrow> bool" for oor where
  outgoing: "ip_outgoingRuns s \<Longrightarrow> bridgeOutgoing ks pick pick' s = Some (Ok s') \<Longrightarrow> ip_work oor s s'"
| requests: "ip_requestsRuns s \<Longrightarrow> bridgeRequests pick pick' s = Some s' \<Longrightarrow> ip_work oor s s'"
| notifications: "ip_notificationsRuns s \<Longrightarrow> bridgeNotifications pick pick' s = Some s' \<Longrightarrow> ip_work oor s s'"
| server: "ip_serverRuns s \<Longrightarrow> processServerRequests s = Some s' \<Longrightarrow> ip_work oor s s'"
| incoming: "processIncomingMessages pick pick' (ip_handler s) = Some (h, True) \<Longrightarrow>
    ip_work oor s (s\<lparr>ip_handler := h\<rparr>)"
| responses: "handleResponses oor pick (ip_handler s) = Some (Ok (h, True)) \<Longrightarrow>
    ip_work oor s (s\<lparr>ip_handler := h\<rparr>)"

section \<open>Lemmas\<close>

subsection \<open>Tables\<close>

text \<open>A table entry is the metadata apart from its name, and the handler.\<close>

definition ip_tool_entry ::
  "ip_state \<Rightarrow> string \<Rightarrow> (string \<times> arguments \<times> ip_tool_handler) option" where
  "ip_tool_entry s name =
     (case (ip_toolMeta s name, ip_toolHandlers s name) of
        (Some t, Some h) \<Rightarrow> Some (tool_Description t, tool_InputSchema t, h) | _ \<Rightarrow> None)"

definition ip_resource_entry ::
  "ip_state \<Rightarrow> string \<Rightarrow> (string \<times> string \<times> string \<times> gval \<times> ip_resource_handler) option" where
  "ip_resource_entry s uri =
     (case (ip_resourceMeta s uri, ip_resourceHandlers s uri) of
        (Some r, Some h) \<Rightarrow> Some (res_Name r, res_Description r, res_MimeType r, res_Annotations r, h)
      | _ \<Rightarrow> None)"

definition ip_prompt_entry ::
  "ip_state \<Rightarrow> string \<Rightarrow> (string \<times> prompt_argument list \<times> ip_prompt_handler) option" where
  "ip_prompt_entry s name =
     (case (ip_promptMeta s name, ip_promptHandlers s name) of
        (Some p, Some h) \<Rightarrow> Some (prompt_Description p, prompt_Arguments p, h) | _ \<Rightarrow> None)"

definition ip_tools_ok :: "ip_state \<Rightarrow> bool" where
  "ip_tools_ok s \<longleftrightarrow> dom (ip_toolMeta s) = dom (ip_toolHandlers s) \<and>
     (\<forall>k t. ip_toolMeta s k = Some t \<longrightarrow> tool_Name t = k)"

definition ip_resources_ok :: "ip_state \<Rightarrow> bool" where
  "ip_resources_ok s \<longleftrightarrow> dom (ip_resourceMeta s) = dom (ip_resourceHandlers s) \<and>
     (\<forall>k r. ip_resourceMeta s k = Some r \<longrightarrow> res_URI r = k)"

definition ip_prompts_ok :: "ip_state \<Rightarrow> bool" where
  "ip_prompts_ok s \<longleftrightarrow> dom (ip_promptMeta s) = dom (ip_promptHandlers s) \<and>
     (\<forall>k p. ip_promptMeta s k = Some p \<longrightarrow> prompt_Name p = k)"

interpretation ip_tools: store ip_tools_ok
  "\<lambda>name (d, sch, h). AddTool \<lparr>tool_Name = name, tool_Description = d, tool_InputSchema = sch\<rparr> h"
  ip_tool_entry
proof (unfold_locales, goal_cases)
  case (1 s k v)
  then show ?case by (cases v) (auto simp: ip_tools_ok_def AddTool_def split: if_splits)
next
  case (2 s k v)
  then show ?case by (cases v) (auto simp: AddTool_def ip_tool_entry_def)
qed

interpretation ip_resources: store ip_resources_ok
  "\<lambda>uri (n, d, m, a, h). AddResource \<lparr>res_URI = uri, res_Name = n, res_Description = d,
     res_MimeType = m, res_Annotations = a\<rparr> h"
  ip_resource_entry
proof (unfold_locales, goal_cases)
  case (1 s k v)
  then show ?case by (cases v) (auto simp: ip_resources_ok_def AddResource_def split: if_splits)
next
  case (2 s k v)
  then show ?case by (cases v) (auto simp: AddResource_def ip_resource_entry_def)
qed

interpretation ip_prompts: store ip_prompts_ok
  "\<lambda>name (d, args, h). AddPrompt \<lparr>prompt_Name = name, prompt_Description = d, prompt_Arguments = args\<rparr> h"
  ip_prompt_entry
proof (unfold_locales, goal_cases)
  case (1 s k v)
  then show ?case by (cases v) (auto simp: ip_prompts_ok_def AddPrompt_def split: if_splits)
next
  case (2 s k v)
  then show ?case by (cases v) (auto simp: AddPrompt_def ip_prompt_entry_def)
qed

subsection \<open>What a request is answered with\<close>

lemmas ip_handler_defs [ip_simps] =
  ip_initialize_def ip_tools_list_def ip_tools_call_def ip_resources_list_def ip_resources_read_def
  ip_prompts_list_def ip_prompts_get_def ip_success_def ip_failure_def

text \<open>An answer carries the id of the request, and either a result or an error without data.\<close>

definition answer_ok :: "gval \<Rightarrow> response \<Rightarrow> bool" where
  "answer_ok ident r \<longleftrightarrow> resp_JSONRPC r = ''2.0'' \<and> resp_ID r = ident \<and>
     (case resp_Error r of
        None \<Rightarrow> resp_Result r \<noteq> GNil
      | Some e \<Rightarrow> resp_Result r = GNil \<and> err_Data e = GNil \<and> error_in_range e)"

lemma ip_handleRequest_answer:
  "ip_handleRequest ks s meth params ident = Ok r \<Longrightarrow> answer_ok ident r"
  by (auto simp: ip_handleRequest_def ip_simps answer_ok_def rpc_err_def error_in_range_def call_tool_result_gval_def
      read_resource_result_gval_def get_prompt_result_gval_def
      split: gval.splits option.splits outcome.splits if_splits)

lemma find_bridge_field:
  "find_field bridge_fields ''jsonrpc'' = Some (dec_string (\<lambda>s m. m\<lparr>bm_JSONRPC := s\<rparr>))"
  "find_field bridge_fields ''id'' = Some (dec_iface (\<lambda>v m. m\<lparr>bm_ID := v\<rparr>))"
  "find_field bridge_fields ''method'' = Some (dec_string (\<lambda>s m. m\<lparr>bm_Method := s\<rparr>))"
  "find_field bridge_fields ''params'' = Some (dec_iface (\<lambda>v m. m\<lparr>bm_Params := v\<rparr>))"
  by (simp_all add: find_field_def bridge_fields_def)

lemma bridge_wire:
  assumes i: "wire_view (req_ID r) = Some i" and p: "wire_view (req_Params r) = Some p"
    and d: "to_payload (request_gval r) = Some data"
  shows "parse_bridge data =
    Some \<lparr>bm_JSONRPC = req_JSONRPC r, bm_ID = i, bm_Method = req_Method r, bm_Params = p\<rparr>"
proof -
  from i obtain ji where ji: "marshal (req_ID r) = Some ji" "to_iface ji = Some i" by (rule wire_viewE)
  from p obtain jp where jp: "marshal (req_Params r) = Some jp" "to_iface jp = Some p" by (rule wire_viewE)
  have nil: "req_Params r = GNil \<Longrightarrow> p = GNil" using p by simp
  show ?thesis
    using ji jp nil d
    by (cases "req_Params r = GNil")
      (auto simp: request_gval_def marshal_members_append marshal_omit_nil parse_bridge_def to_payload_def
        decode_members_append find_bridge_field json_simps)
qed

subsection \<open>One call\<close>

text \<open>What a request that was handed to the transport leaves in the message handler.\<close>

lemma SendRequest_Ok:
  assumes inv: "mh_inv h" and send: "SendRequest pick meth params h = Some (h1, Ok c)"
    and room: "Suc (length (mh_chans h)) < 2 ^ 64"
  shows "mh_inv h1" and "c = length (mh_chans h)" and "length (mh_chans h1) = Suc c"
    and "mh_pendingRequests h1 (ident_of c) = Some \<lparr>pend_ID = ident_of c, pend_Response = c\<rparr>"
    and "\<exists>data. to_payload (request_gval \<lparr>req_JSONRPC = ''2.0'', req_ID = ident_of c, req_Method = meth,
        req_Params = params\<rparr>) = Some data \<and> mh_outgoingChan h1 = mh_outgoingChan h @ [data]"
    and "mh_incomingChan h1 = mh_incomingChan h" and "mh_responseChan h1 = mh_responseChan h"
    and "mh_ctx h = None" and "mh_ctx h1 = None" and "mh_bufferSize h1 = mh_bufferSize h"
    and "length (mh_outgoingChan h) < mh_bufferSize h"
proof -
  have ctx: "mh_ctx h = None" using send by (cases "mh_ctx h") (auto simp: SendRequest_def)
  obtain ident d h0 where nc: "new_call h = (ident, d, h0)" by (cases "new_call h") auto
  note n = store_new_call_inv [OF inv nc room]
  have h0: "mh_outgoingChan h0 = mh_outgoingChan h" "mh_incomingChan h0 = mh_incomingChan h"
      "mh_responseChan h0 = mh_responseChan h" "mh_ctx h0 = mh_ctx h" "mh_bufferSize h0 = mh_bufferSize h"
    using nc by (auto simp: new_call_def RequestID_Next_def Let_def)
  obtain data where data: "to_payload (request_gval \<lparr>req_JSONRPC = ''2.0'', req_ID = ident,
      req_Method = meth, req_Params = params\<rparr>) = Some data"
    and fin: "finish_request pick ident d data (store_pending ident d h0) = Some (h1, Ok c)"
    using send ctx nc by (auto simp: SendRequest_def Let_def split: option.splits)
  have c: "d = c" and out: "length (mh_outgoingChan h) < mh_bufferSize h"
    and h1: "h1 = stats_update (\<lambda>st. st\<lparr>ms_RequestsSent := ms_RequestsSent st + 1\<rparr>)
      ((store_pending ident d h0)\<lparr>mh_outgoingChan := mh_outgoingChan h @ [data]\<rparr>)"
    using fin h0 ctx
    by (auto simp: finish_request_def select_send_def chan_send_def store_pending_def
        split: select_result.splits if_splits)
  show "mh_inv h1" using n(1) mh_inv_cong [of h1 "store_pending ident d h0"] by (simp add: h1 stats_update_def)
  show "c = length (mh_chans h)" "length (mh_chans h1) = Suc c"
    using n c by (simp_all add: h1 stats_update_def store_pending_def)
  show "mh_pendingRequests h1 (ident_of c) = Some \<lparr>pend_ID = ident_of c, pend_Response = c\<rparr>"
    using n c by (simp add: h1 stats_update_def store_pending_def)
  show "\<exists>data. to_payload (request_gval \<lparr>req_JSONRPC = ''2.0'', req_ID = ident_of c, req_Method = meth,
        req_Params = params\<rparr>) = Some data \<and> mh_outgoingChan h1 = mh_outgoingChan h @ [data]"
    using data n(2,3) c by (auto simp: h1 stats_update_def)
  show "mh_incomingChan h1 = mh_incomingChan h" "mh_responseChan h1 = mh_responseChan h"
    "mh_ctx h = None" "mh_ctx h1 = None" "mh_bufferSize h1 = mh_bufferSize h"
    "length (mh_outgoingChan h) < mh_bufferSize h"
    using h0 ctx out by (simp_all add: h1 stats_update_def store_pending_def)
qed

text \<open>The response to the pending request \<open>c\<close>, when it comes back over the wire.\<close>

lemma response_delivered:
  assumes inv: "mh_inv h" and c: "c < length (mh_chans h)" "Suc c \<le> 2 ^ 53"
    and p: "mh_pendingRequests h (ident_of c) = Some p"
    and r: "answer_ok (GFloat (F64 (of_nat (Suc c)))) r" and v: "wire_view (resp_Result r) = Some v"
    and inc: "mh_incomingChan h = [response_bytes r]" "mh_responseChan h = []" "mh_ctx h = None"
    and size: "0 < mh_bufferSize h"
  shows "\<exists>h1 h2. processIncomingMessages pick pick' h = Some (h1, True) \<and>
    handleResponses oor pick h1 = Some (Ok (h2, True)) \<and>
    mh_chans h2 ! c = \<lparr>rc_buf = [\<lparr>resp_JSONRPC = ''2.0'', resp_ID = ident_of c, resp_Result = v,
      resp_Error = resp_Error r\<rparr>], rc_closed = True, rc_cancelled = True\<rparr> \<and>
    mh_pendingRequests h2 (ident_of c) = None"
proof -
  let ?f = "GFloat (F64 (of_nat (Suc c)))"
  let ?w = "\<lparr>resp_JSONRPC = ''2.0'', resp_ID = ?f, resp_Result = v, resp_Error = resp_Error r\<rparr>"
  have rr: "resp_JSONRPC r = ''2.0''" "resp_ID r = ?f" using r by (simp_all add: answer_ok_def)
  have err: "wire_view (err_Data e) = Some GNil \<and> error_in_range e \<and> err_Data e = GNil"
    if "resp_Error r = Some e" for e
    using r that by (auto simp: answer_ok_def)
  have err_id: "map_option (\<lambda>e. e\<lparr>err_Data := GNil\<rparr>) (resp_Error r) = resp_Error r"
    using err by (cases "resp_Error r") simp_all
  obtain j where j: "marshal (response_gval r) = Some j"
    "ParseMessage (Text j) = Some \<lparr>msg_JSONRPC = ''2.0'', msg_ID = ?f, msg_Method = [], msg_Params = GNil,
      msg_Result = v, msg_Error = resp_Error r\<rparr>"
    using response_wire [of r ?f v "\<lambda>_. GNil"] wire_ident_generic [OF c(2)] v err rr err_id by auto
  let ?h1 = "h\<lparr>mh_incomingChan := [], mh_responseChan := [?w]\<rparr>"
  have 1: "processIncomingMessages pick pick' h = Some (?h1, True)"
    using inc j size
    by (simp add: processIncomingMessages_def handleIncomingMessage_def response_bytes_def to_payload_def
        IsRequest_def IsNotification_def IsResponse_def ToResponse_def select_send_def chan_send_def)
  let ?h = "?h1\<lparr>mh_responseChan := []\<rparr>"
  have tr: "rat_trunc (of_nat (Suc c)) = int (Suc c)"
    unfolding rat_trunc_def by (simp only: of_nat_0_le_iff if_True floor_of_nat)
  have "mh_inv ?h" using inv mh_inv_cong [of ?h h] by simp
  then obtain h2 where h2: "correlateResponse oor ?w ?h = Ok h2" "mh_pendingRequests h2 (ident_of c) = None"
    "mh_chans h2 ! c = \<lparr>rc_buf = [?w\<lparr>resp_ID := ident_of c\<rparr>], rc_closed = True, rc_cancelled = True\<rparr>"
    using correlate_truncated [of ?h c p ?w, OF _ _ _ _ tr] c p by fastforce
  then have "handleResponses oor pick ?h1 = Some (Ok (h2, True))"
    using inc by (simp add: handleResponses_def)
  then show ?thesis using 1 h2 by fastforce
qed

text \<open>A transport that waits: nothing to do for its goroutines nor for its message handler's.\<close>

definition ip_idle :: "ip_state \<Rightarrow> bool" where
  "ip_idle s \<longleftrightarrow> ip_ctx s = None \<and> mh_ctx (ip_handler s) = None \<and>
     mh_outgoingChan (ip_handler s) = [] \<and> mh_incomingChan (ip_handler s) = [] \<and>
     mh_responseChan (ip_handler s) = [] \<and> mh_requestChan (ip_handler s) = [] \<and>
     mh_notificationChan (ip_handler s) = []"

lemma ip_idle_stuck: "ip_idle s \<Longrightarrow> \<not> ip_work oor s s'"
  by (auto simp: ip_idle_def bridgeOutgoing_def bridgeRequests_def bridgeNotifications_def
      processServerRequests_def processIncomingMessages_def handleResponses_def elim!: ip_work.cases)

text \<open>The server's part of a call: the request is taken, and the bytes of its answer come in.\<close>

lemma bridge_answers:
  assumes inv: "mh_inv (ip_handler s)" and idle: "ip_idle s"
    and send: "ip_SendRequest pick meth params s = Some (s1, Ok c)"
    and room: "length (mh_chans (ip_handler s)) < 2 ^ 53" and ps: "wire_view params = Some ps"
    and answer: "ip_handleRequest ks s1 meth ps (GFloat (F64 (of_nat (Suc c)))) = Ok r"
  shows "\<exists>h1. bridgeOutgoing ks pick' pick'' s1 = Some (Ok (s1\<lparr>ip_handler := h1\<rparr>)) \<and> mh_inv h1 \<and>
    mh_incomingChan h1 = [response_bytes r] \<and> mh_responseChan h1 = [] \<and> mh_ctx h1 = None \<and>
    0 < mh_bufferSize h1 \<and> c < length (mh_chans h1) \<and> Suc c \<le> 2 ^ 53 \<and>
    mh_pendingRequests h1 (ident_of c) = Some \<lparr>pend_ID = ident_of c, pend_Response = c\<rparr> \<and>
    mh_outgoingChan h1 = [] \<and> mh_requestChan h1 = mh_requestChan (ip_handler s1) \<and>
    mh_notificationChan h1 = mh_notificationChan (ip_handler s1) \<and> mh_stats h1 = mh_stats (ip_handler s1)"
proof -
  obtain h where h: "SendRequest pick meth params (ip_handler s) = Some (h, Ok c)"
    and s1: "s1 = s\<lparr>ip_handler := h\<rparr>"
    using send by (auto simp: ip_SendRequest_def)
  have "Suc (length (mh_chans (ip_handler s))) < 2 ^ 64" using room by simp
  note q = SendRequest_Ok [OF inv h this]
  have c: "Suc c \<le> 2 ^ 53" using room q(2) by simp
  obtain data where data: "to_payload (request_gval \<lparr>req_JSONRPC = ''2.0'', req_ID = ident_of c,
      req_Method = meth, req_Params = params\<rparr>) = Some data" "mh_outgoingChan h = [data]"
    using q(5) idle by (auto simp: ip_idle_def)
  have parse: "parse_bridge data = Some \<lparr>bm_JSONRPC = ''2.0'', bm_ID = GFloat (F64 (of_nat (Suc c))),
      bm_Method = meth, bm_Params = ps\<rparr>"
    using bridge_wire [OF _ _ data(1)] ident_of_wire [OF c] ps by simp
  let ?h1 = "h\<lparr>mh_outgoingChan := [], mh_incomingChan := [response_bytes r]\<rparr>"
  have "mh_inv ?h1" using q(1) mh_inv_cong [of ?h1 h] by simp
  moreover have "bridgeOutgoing ks pick' pick'' s1 = Some (Ok (s1\<lparr>ip_handler := ?h1\<rparr>))"
    using data(2) parse answer idle q(6,10,11)
    by (simp add: bridgeOutgoing_def s1 ip_idle_def select_send_def chan_send_def)
  ultimately show ?thesis
    using q idle c by (intro exI [of _ ?h1]) (simp add: s1 ip_idle_def)
qed

section \<open>Properties\<close>

text \<open>C15: A call through the in-process transport returns: from an idle transport, a request whose
  parameters and answer can be encoded leads, by steps of the goroutines alone, to a state in which
  the caller's channel holds exactly the built-in server's answer, under the request's own id.\<close>

theorem inprocess_call_returns:
  assumes "mh_reachable oor (ip_handler s)" and "ip_idle s" and "ip_outgoingRuns s"
    and "length (mh_chans (ip_handler s)) < 2 ^ 53"
    and "ip_SendRequest pick meth params s = Some (s1, Ok c)" and "wire_view params = Some ps"
    and "ip_handleRequest ks s1 meth ps (GFloat (F64 (of_nat (Suc c)))) = Ok r"
    and "wire_view (resp_Result r) = Some v"
  shows "\<exists>s'. (ip_work oor)\<^sup>*\<^sup>* s1 s' \<and>
    rc_buf (mh_chans (ip_handler s') ! c) = [\<lparr>resp_JSONRPC = ''2.0'', resp_ID = ident_of c,
      resp_Result = v, resp_Error = resp_Error r\<rparr>] \<and>
    rc_closed (mh_chans (ip_handler s') ! c) \<and> mh_pendingRequests (ip_handler s') (ident_of c) = None"
proof -
  have inv: "mh_inv (ip_handler s)" using reachable_inv [OF assms(1)] assms(4) by simp
  obtain h1 where h1: "bridgeOutgoing ks True True s1 = Some (Ok (s1\<lparr>ip_handler := h1\<rparr>))" "mh_inv h1"
    "mh_incomingChan h1 = [response_bytes r]" "mh_responseChan h1 = []" "mh_ctx h1 = None"
    "0 < mh_bufferSize h1" "c < length (mh_chans h1)" "Suc c \<le> 2 ^ 53"
    "mh_pendingRequests h1 (ident_of c) = Some \<lparr>pend_ID = ident_of c, pend_Response = c\<rparr>"
    using bridge_answers [OF inv assms(2,5,4,6,7)] by metis
  obtain h2 h3 where h3: "processIncomingMessages True True h1 = Some (h2, True)"
    "handleResponses oor True h2 = Some (Ok (h3, True))"
    "mh_chans h3 ! c = \<lparr>rc_buf = [\<lparr>resp_JSONRPC = ''2.0'', resp_ID = ident_of c, resp_Result = v,
      resp_Error = resp_Error r\<rparr>], rc_closed = True, rc_cancelled = True\<rparr>"
    "mh_pendingRequests h3 (ident_of c) = None"
    using response_delivered [OF h1(2,7,8,9) ip_handleRequest_answer [OF assms(7)] assms(8) h1(3,4,5,6)]
    by metis
  have "ip_outgoingRuns s1" using assms(3,5) by (auto simp: ip_SendRequest_def)
  then have "ip_work oor s1 (s1\<lparr>ip_handler := h1\<rparr>)" by (rule ip_work.outgoing [OF _ h1(1)])
  moreover have "ip_work oor (s1\<lparr>ip_handler := h1\<rparr>) (s1\<lparr>ip_handler := h2\<rparr>)"
    using ip_work.incoming [of True True "s1\<lparr>ip_handler := h1\<rparr>" h2 oor] h3(1) by simp
  moreover have "ip_work oor (s1\<lparr>ip_handler := h2\<rparr>) (s1\<lparr>ip_handler := h3\<rparr>)"
    using ip_work.responses [of oor True "s1\<lparr>ip_handler := h2\<rparr>" h3] h3(2) by simp
  ultimately have "(ip_work oor)\<^sup>*\<^sup>* s1 (s1\<lparr>ip_handler := h3\<rparr>)"
    by (meson r_into_rtranclp rtranclp_trans)
  then show ?thesis using h3 by (intro exI [of _ "s1\<lparr>ip_handler := h3\<rparr>"]) simp
qed

definition ip_fresh :: ip_state where
  "ip_fresh = \<lparr>ip_handler = mh_fresh, ip_requestChan = [], ip_notificationChan = [],
     ip_resourceHandlers = Map.empty, ip_toolHandlers = Map.empty, ip_promptHandlers = Map.empty,
     ip_resourceMeta = Map.empty, ip_toolMeta = Map.empty, ip_promptMeta = Map.empty, ip_ctx = None,
     ip_serverInfo = \<lparr>impl_Name = ''in-process-server'', impl_Version = ''1.0.0'', impl_ProtocolVersion = []\<rparr>,
     ip_outgoingRuns = True, ip_requestsRuns = True, ip_notificationsRuns = True, ip_serverRuns = True\<rparr>"

lemma ip_fresh_new: "NewInProcessTransport = Ok ip_fresh"
  by (simp add: NewInProcessTransport_def NewMessageHandler_def ip_fresh_def mh_fresh_def default_timeout_def Let_def)

definition ip_hello :: ip_state where
  "ip_hello = AddTool \<lparr>tool_Name = ''hello'', tool_Description = [], tool_InputSchema = None\<rparr>
     (\<lambda>_. Ok (Some [TextContent ''text'' ''hi'' []])) ip_fresh"

definition hello_params :: gval where
  "hello_params = GMap [(''name'', GString ''hello'')]"

definition hello_result :: gval where
  "hello_result = GMap [(''content'', GList [GMap [(''text'', GString ''hi''), (''type'', GString ''text'')]])]"

lemma hello_params_wire: "wire_view hello_params = Some hello_params"
  by (simp add: hello_params_def sorted_map_def)

lemma hello_handled:
  "ip_handleRequest [] (ip_hello\<lparr>ip_handler := h\<rparr>) ''tools/call'' hello_params ident =
     ip_success ident (call_tool_result_gval (Some [TextContent ''text'' ''hi'' []]) False)"
  by (simp add: ip_handleRequest_def ip_tools_call_def ip_hello_def AddTool_def ip_fresh_def
      hello_params_def get_string_def)

lemma hello_result_wire:
  "wire_view (call_tool_result_gval (Some [TextContent ''text'' ''hi'' []]) False) = Some hello_result"
  by (simp add: wire_view_def call_tool_result_gval_def contents_gval_def content_gval_def omit_false_def
      omit_empty_def hello_result_def less_list_code)

lemma hello_sent:
  "\<exists>s1 h. ip_SendRequest True ''tools/call'' hello_params ip_hello = Some (s1, Ok 0) \<and> s1 = ip_hello\<lparr>ip_handler := h\<rparr>"
  by (simp add: ip_SendRequest_def ip_hello_def AddTool_def ip_fresh_def SendRequest_def mh_fresh_def
      new_call_def RequestID_Next_def store_pending_def finish_request_def select_send_def chan_send_def
      to_payload_def request_gval_def hello_params_def omit_nil_def Let_def)

lemma hello_idle: "ip_idle ip_hello \<and> ip_outgoingRuns ip_hello \<and> ip_handler ip_hello = mh_fresh"
  by (simp add: ip_idle_def ip_hello_def AddTool_def ip_fresh_def mh_fresh_def)

theorem inprocess_call_returns_witness:
  "\<exists>s1 s'. ip_SendRequest True ''tools/call'' hello_params ip_hello = Some (s1, Ok 0) \<and>
    (ip_work (\<lambda>_. 0))\<^sup>*\<^sup>* s1 s' \<and> map resp_Result (rc_buf (mh_chans (ip_handler s') ! 0)) = [hello_result]"
proof -
  obtain s1 h where s1: "ip_SendRequest True ''tools/call'' hello_params ip_hello = Some (s1, Ok 0)"
    "s1 = ip_hello\<lparr>ip_handler := h\<rparr>"
    using hello_sent by blast
  have "mh_reachable (\<lambda>_. 0) (ip_handler ip_hello)" using hello_idle fresh_reachable by simp
  from inprocess_call_returns [OF this _ _ _ s1(1) hello_params_wire, of "[]" _ hello_result]
  show ?thesis
    using s1 hello_idle hello_result_wire by (auto simp: hello_handled ip_success_def mh_fresh_def)
qed

text \<open>An answer that has no JSON form is never received: the bridge sends nil bytes in its place,
  the client counts an error, and the transport is idle again while the request stays pending with an
  empty channel, so that only its timeout can settle it.\<close>

theorem unencodable_answer_lost:
  assumes "mh_reachable oor (ip_handler s)" and "ip_idle s" and "ip_outgoingRuns s"
    and "length (mh_chans (ip_handler s)) < 2 ^ 53"
    and "ip_SendRequest pick meth params s = Some (s1, Ok c)" and "wire_view params = Some ps"
    and "ip_handleRequest ks s1 meth ps (GFloat (F64 (of_nat (Suc c)))) = Ok r"
    and "marshal (response_gval r) = None"
  shows "\<exists>s'. (ip_work oor)\<^sup>*\<^sup>* s1 s' \<and> ip_idle s' \<and>
    mh_pendingRequests (ip_handler s') (ident_of c) \<noteq> None \<and> rc_buf (mh_chans (ip_handler s') ! c) = [] \<and>
    ms_Errors (mh_stats (ip_handler s')) = ms_Errors (mh_stats (ip_handler s1)) + 1"
proof -
  have inv: "mh_inv (ip_handler s)" using reachable_inv [OF assms(1)] assms(4) by simp
  have s1: "ip_outgoingRuns s1" "ip_ctx s1 = None"
    "mh_requestChan (ip_handler s1) = []" "mh_notificationChan (ip_handler s1) = []"
    using assms(2,3,5)
    by (auto simp: ip_SendRequest_def ip_idle_def SendRequest_def new_call_def RequestID_Next_def
        store_pending_def finish_request_def stats_update_def Let_def split: option.splits select_result.splits)
  obtain h1 where h1: "bridgeOutgoing ks True True s1 = Some (Ok (s1\<lparr>ip_handler := h1\<rparr>))" "mh_inv h1"
    "mh_incomingChan h1 = [response_bytes r]" "mh_responseChan h1 = []" "mh_ctx h1 = None"
    "c < length (mh_chans h1)" "mh_pendingRequests h1 (ident_of c) = Some \<lparr>pend_ID = ident_of c, pend_Response = c\<rparr>"
    "mh_outgoingChan h1 = []" "mh_requestChan h1 = []" "mh_notificationChan h1 = []"
    "mh_stats h1 = mh_stats (ip_handler s1)"
    using bridge_answers [OF inv assms(2,5,4,6,7)] s1 by metis
  have buf: "rc_buf (mh_chans h1 ! c) = []"
  proof -
    have "call_ok h1 c" using h1(2,6) by (simp add: mh_inv_def)
    then show ?thesis using h1(7) by (simp add: call_ok_def fresh_chan_def)
  qed
  let ?h2 = "stats_update (\<lambda>st. st\<lparr>ms_Errors := ms_Errors st + 1\<rparr>) (h1\<lparr>mh_incomingChan := []\<rparr>)"
  have p: "processIncomingMessages True True h1 = Some (?h2, True)"
    using h1(3,5) assms(8)
    by (simp add: processIncomingMessages_def handleIncomingMessage_def response_bytes_def to_payload_def
        ParseMessage_def)
  have "ip_work oor s1 (s1\<lparr>ip_handler := h1\<rparr>)" by (rule ip_work.outgoing [OF s1(1) h1(1)])
  moreover have "ip_work oor (s1\<lparr>ip_handler := h1\<rparr>) (s1\<lparr>ip_handler := ?h2\<rparr>)"
    using ip_work.incoming [of True True "s1\<lparr>ip_handler := h1\<rparr>" ?h2 oor] p by simp
  ultimately have "(ip_work oor)\<^sup>*\<^sup>* s1 (s1\<lparr>ip_handler := ?h2\<rparr>)"
    by (meson r_into_rtranclp rtranclp_trans)
  then show ?thesis
    using h1 s1 buf by (intro exI [of _ "s1\<lparr>ip_handler := ?h2\<rparr>"]) (simp add: ip_idle_def stats_update_def)
qed

definition ip_broken :: ip_state where
  "ip_broken = AddPrompt \<lparr>prompt_Name = ''p'', prompt_Description = [], prompt_Arguments = []\<rparr>
     (\<lambda>_. Ok \<lparr>gpr_Description = [], gpr_Messages = Some [\<lparr>gpm_Role = ''user'', gpm_Content = GOpaque\<rparr>]\<rparr>) ip_fresh"

definition broken_params :: gval where
  "broken_params = GMap [(''name'', GString ''p'')]"

lemma broken_handled:
  "\<exists>r. ip_handleRequest [] (ip_broken\<lparr>ip_handler := h\<rparr>) ''prompts/get'' broken_params
      (GFloat (F64 q)) = Ok r \<and> marshal (response_gval r) = None"
  by (simp add: ip_handleRequest_def ip_prompts_get_def ip_broken_def AddPrompt_def ip_fresh_def
      broken_params_def get_string_def ip_success_def get_prompt_result_gval_def response_gval_def
      omit_nil_def omit_None_def marshal_members_append omit_empty_def)

lemma broken_sent:
  "\<exists>s1 h. ip_SendRequest True ''prompts/get'' broken_params ip_broken = Some (s1, Ok 0) \<and>
    s1 = ip_broken\<lparr>ip_handler := h\<rparr>"
  by (simp add: ip_SendRequest_def ip_broken_def AddPrompt_def ip_fresh_def SendRequest_def mh_fresh_def
      new_call_def RequestID_Next_def store_pending_def finish_request_def select_send_def chan_send_def
      to_payload_def request_gval_def broken_params_def omit_nil_def Let_def)

theorem unencodable_answer_lost_witness:
  "\<exists>s1 s'. ip_SendRequest True ''prompts/get'' broken_params ip_broken = Some (s1, Ok 0) \<and>
    (ip_work (\<lambda>_. 0))\<^sup>*\<^sup>* s1 s' \<and> ip_idle s' \<and> mh_pendingRequests (ip_handler s') (ident_of 0) \<noteq> None"
proof -
  obtain s1 h where s1: "ip_SendRequest True ''prompts/get'' broken_params ip_broken = Some (s1, Ok 0)"
    "s1 = ip_broken\<lparr>ip_handler := h\<rparr>"
    using broken_sent by blast
  obtain r where r: "ip_handleRequest [] s1 ''prompts/get'' broken_params (GFloat (F64 (of_nat (Suc 0)))) = Ok r"
    "marshal (response_gval r) = None"
    using broken_handled s1(2) by blast
  have h: "ip_handler ip_broken = mh_fresh" "ip_idle ip_broken" "ip_outgoingRuns ip_broken"
    by (simp_all add: ip_idle_def ip_broken_def AddPrompt_def ip_fresh_def mh_fresh_def)
  have "mh_reachable (\<lambda>_. 0) (ip_handler ip_broken)" using h fresh_reachable by simp
  from unencodable_answer_lost [OF this h(2,3) _ s1(1) _ r(1,2)]
  show ?thesis
    using s1(1) h by (auto simp: broken_params_def sorted_map_def mh_fresh_def)
qed

text \<open>After any sequence of registrations a tool's last handler answers its calls, and the list of
  tools shows each registered name once, with the metadata registered last.\<close>

definition add_tools :: "(string \<times> string \<times> arguments \<times> ip_tool_handler) list \<Rightarrow> ip_state \<Rightarrow> ip_state" where
  "add_tools = fold (\<lambda>(name, d, sch, h).
     AddTool \<lparr>tool_Name = name, tool_Description = d, tool_InputSchema = sch\<rparr> h)"

lemma add_tools_entry:
  "ip_tools_ok s \<Longrightarrow> ip_tools_ok (add_tools adds s) \<and>
     ip_tool_entry (add_tools adds s) = ip_tool_entry s ++ map_of (rev adds)"
  using ip_tools.register_all [of s adds]
  by (simp add: add_tools_def split_def)

text \<open>After any sequence of \<open>AddTool\<close> on a new transport, a call of a tool runs the handler that
  was added last under its name, an unknown name is answered with code -32601, and parameters that
  are no object or have no name with -32602.\<close>

theorem last_added_tool_called:
  "ip_tools_call (add_tools adds ip_fresh) params ident =
     (case params of
        GMap m \<Rightarrow>
          (case get_string m ''name'' of
             None \<Rightarrow> ip_failure ident (- 32602) ''Missing tool name''
           | Some name \<Rightarrow>
               (case map_of (rev adds) name of
                  None \<Rightarrow> ip_failure ident (- 32601) (''Tool not found: '' @ name)
                | Some (d, sch, h) \<Rightarrow>
                    (case h (get_arguments m) of
                       Ok cs \<Rightarrow> ip_success ident (call_tool_result_gval cs False)
                     | Err e \<Rightarrow> ip_failure ident (- 32603) e
                     | Panic p \<Rightarrow> Panic p)))
      | _ \<Rightarrow> ip_failure ident (- 32602) ''Invalid params'')"
proof -
  have "ip_tools_ok ip_fresh" by (simp add: ip_tools_ok_def ip_fresh_def)
  note a = add_tools_entry [OF this, of adds]
  have empty: "ip_tool_entry ip_fresh = Map.empty" by (simp add: ip_tool_entry_def ip_fresh_def fun_eq_iff)
  have handler: "ip_toolHandlers (add_tools adds ip_fresh) name = map_option (\<lambda>(d, sch, h). h) (map_of (rev adds) name)"
    for name
  proof -
    have dom: "ip_toolMeta (add_tools adds ip_fresh) name = None \<longleftrightarrow> ip_toolHandlers (add_tools adds ip_fresh) name = None"
      by (rule dom_eq_None) (use a in \<open>simp add: ip_tools_ok_def\<close>)
    have "map_of (rev adds) name = ip_tool_entry (add_tools adds ip_fresh) name"
      using a empty by simp
    then show ?thesis
      using dom by (auto simp: ip_tool_entry_def split: option.splits)
  qed
  show ?thesis
    by (simp add: ip_tools_call_def handler split: gval.splits option.splits)
qed

text \<open>Every step of the goroutines moves a message towards its reader or ends a goroutine.\<close>

definition ip_measure :: "ip_state \<Rightarrow> nat" where
  "ip_measure s =
     3 * length (mh_outgoingChan (ip_handler s)) + 2 * length (mh_incomingChan (ip_handler s)) +
     length (mh_requestChan (ip_handler s)) + length (mh_notificationChan (ip_handler s)) +
     length (mh_responseChan (ip_handler s)) +
     of_bool (ip_outgoingRuns s) + of_bool (ip_requestsRuns s) + of_bool (ip_notificationsRuns s) +
     of_bool (ip_serverRuns s)"

lemma handleIncomingMessage_size:
  "handleIncomingMessage pick data h = Some h' \<Longrightarrow>
     mh_outgoingChan h' = mh_outgoingChan h \<and> mh_incomingChan h' = mh_incomingChan h \<and>
     length (mh_requestChan h') + length (mh_notificationChan h') + length (mh_responseChan h') \<le>
     Suc (length (mh_requestChan h) + length (mh_notificationChan h) + length (mh_responseChan h))"
  by (auto simp: handleIncomingMessage_def select_send_def chan_send_def stats_update_def
      split: option.splits if_splits)

lemma correlateResponse_size:
  "correlateResponse oor r h = Ok h' \<Longrightarrow>
     mh_outgoingChan h' = mh_outgoingChan h \<and> mh_incomingChan h' = mh_incomingChan h \<and>
     mh_requestChan h' = mh_requestChan h \<and> mh_notificationChan h' = mh_notificationChan h \<and>
     mh_responseChan h' = mh_responseChan h"
  by (auto simp: correlateResponse_def deliver_def take_pending_def mh_simps
      split: if_splits option.splits outcome.splits)

lemma select_send_length: "select_send pick cap buf x ctx = Sent buf' \<Longrightarrow> length buf' = Suc (length buf)"
  by (auto simp: select_send_def chan_send_def split: option.splits if_splits)

lemma bridgeOutgoing_cases:
  assumes "bridgeOutgoing ks pick pick' s = Some (Ok s')"
  obtains "s' = stop_outgoing s"
  | data rest where "mh_outgoingChan (ip_handler s) = data # rest"
      and "s' = s\<lparr>ip_handler := (ip_handler s)\<lparr>mh_outgoingChan := rest\<rparr>\<rparr>"
  | data rest where "mh_outgoingChan (ip_handler s) = data # rest"
      and "s' = stop_outgoing (s\<lparr>ip_handler := (ip_handler s)\<lparr>mh_outgoingChan := rest\<rparr>\<rparr>)"
  | data rest x buf where "mh_outgoingChan (ip_handler s) = data # rest"
      and "length buf = Suc (length (mh_incomingChan (ip_handler s)))"
      and "s' = s\<lparr>ip_handler := (ip_handler s)\<lparr>mh_outgoingChan := rest, mh_incomingChan := buf\<rparr>\<rparr>"
proof (cases "mh_outgoingChan (ip_handler s)")
  case Nil
  then show thesis using assms that(1) by (auto simp: bridgeOutgoing_def split: option.splits)
next
  case (Cons data rest)
  show thesis
  proof (cases "ip_ctx s \<noteq> None \<and> \<not> pick")
    case True
    then show thesis using assms that(1) Cons by (auto simp: bridgeOutgoing_def)
  next
    case False
    then show thesis
      using assms that(2-4) Cons
      by (simp add: bridgeOutgoing_def Let_def split: option.splits if_splits outcome.splits select_result.splits)
        (auto dest: select_send_length)
  qed
qed

lemma bridgeOutgoing_measure:
  assumes "bridgeOutgoing ks pick pick' s = Some (Ok s')" and "ip_outgoingRuns s"
  shows "ip_measure s' < ip_measure s"
  using assms(1) by (rule bridgeOutgoing_cases) (simp_all add: ip_measure_def stop_outgoing_def assms(2))

lemma bridgeRequests_cases:
  assumes "bridgeRequests pick pick' s = Some s'"
  obtains "s' = s\<lparr>ip_requestsRuns := False\<rparr>"
  | x rest buf where "mh_requestChan (ip_handler s) = x # rest"
      and "s' = s\<lparr>ip_handler := (ip_handler s)\<lparr>mh_requestChan := rest\<rparr>, ip_requestChan := buf\<rparr>"
  | x rest where "mh_requestChan (ip_handler s) = x # rest"
      and "s' = s\<lparr>ip_handler := (ip_handler s)\<lparr>mh_requestChan := rest\<rparr>, ip_requestsRuns := False\<rparr>"
proof (cases "mh_requestChan (ip_handler s)")
  case Nil
  then show thesis using assms that(1) by (auto simp: bridgeRequests_def split: option.splits)
next
  case (Cons x rest)
  show thesis
  proof (cases "ip_ctx s \<noteq> None \<and> \<not> pick")
    case True
    then show thesis using assms that(1) Cons by (auto simp: bridgeRequests_def)
  next
    case False
    then show thesis
      using assms that(2,3) [OF Cons] Cons
      by (auto simp: bridgeRequests_def Let_def split: select_result.splits if_splits)
  qed
qed

lemma bridgeRequests_measure:
  assumes "bridgeRequests pick pick' s = Some s'" and "ip_requestsRuns s"
  shows "ip_measure s' < ip_measure s"
  using assms(1) by (rule bridgeRequests_cases) (simp_all add: ip_measure_def assms(2))

lemma bridgeNotifications_cases:
  assumes "bridgeNotifications pick pick' s = Some s'"
  obtains "s' = s\<lparr>ip_notificationsRuns := False\<rparr>"
  | x rest buf where "mh_notificationChan (ip_handler s) = x # rest"
      and "s' = s\<lparr>ip_handler := (ip_handler s)\<lparr>mh_notificationChan := rest\<rparr>, ip_notificationChan := buf\<rparr>"
  | x rest where "mh_notificationChan (ip_handler s) = x # rest"
      and "s' = s\<lparr>ip_handler := (ip_handler s)\<lparr>mh_notificationChan := rest\<rparr>, ip_notificationsRuns := False\<rparr>"
proof (cases "mh_notificationChan (ip_handler s)")
  case Nil
  then show thesis using assms that(1) by (auto simp: bridgeNotifications_def split: option.splits)
next
  case (Cons x rest)
  show thesis
  proof (cases "ip_ctx s \<noteq> None \<and> \<not> pick")
    case True
    then show thesis using assms that(1) Cons by (auto simp: bridgeNotifications_def)
  next
    case False
    then show thesis
      using assms that(2,3) [OF Cons] Cons
      by (auto simp: bridgeNotifications_def Let_def split: select_result.splits if_splits)
  qed
qed

lemma bridgeNotifications_measure:
  assumes "bridgeNotifications pick pick' s = Some s'" and "ip_notificationsRuns s"
  shows "ip_measure s' < ip_measure s"
  using assms(1) by (rule bridgeNotifications_cases) (simp_all add: ip_measure_def assms(2))

lemma ip_work_measure: "ip_work oor s s' \<Longrightarrow> ip_measure s' < ip_measure s"
proof (induction rule: ip_work.induct)
  case (outgoing s ks pick pick' s')
  then show ?case by (intro bridgeOutgoing_measure)
next
  case (requests s pick pick' s')
  then show ?case by (intro bridgeRequests_measure)
next
  case (notifications s pick pick' s')
  then show ?case by (intro bridgeNotifications_measure)
next
  case (server s s')
  then show ?case by (auto simp: processServerRequests_def ip_measure_def split: option.splits)
next
  case (incoming pick pick' s h)
  then obtain data rest where "mh_incomingChan (ip_handler s) = data # rest"
    and "handleIncomingMessage pick' data ((ip_handler s)\<lparr>mh_incomingChan := rest\<rparr>) = Some h"
    by (auto simp: processIncomingMessages_def split: list.splits option.splits if_splits)
  then show ?case using handleIncomingMessage_size by (fastforce simp: ip_measure_def)
next
  case (responses pick s h)
  then obtain r rest where "mh_responseChan (ip_handler s) = r # rest"
    and "correlateResponse oor r ((ip_handler s)\<lparr>mh_responseChan := rest\<rparr>) = Ok h"
    by (auto simp: handleResponses_def split: list.splits option.splits if_splits outcome.splits)
  then show ?case using correlateResponse_size by (fastforce simp: ip_measure_def)
qed

text \<open>With the context done, each goroutine that runs can end.\<close>

lemma cancelled_can_stop:
  assumes "ip_ctx s \<noteq> None" and "\<not> ip_stopped s"
  shows "\<exists>s'. ip_work oor s s'"
proof -
  have "\<exists>s'. bridgeOutgoing [] False False s = Some (Ok s')" "\<exists>s'. bridgeRequests False False s = Some s'"
    "\<exists>s'. bridgeNotifications False False s = Some s'" "\<exists>s'. processServerRequests s = Some s'"
    using assms(1)
    by (auto simp: bridgeOutgoing_def bridgeRequests_def bridgeNotifications_def processServerRequests_def
        split: list.splits)
  then show ?thesis using assms(2) unfolding ip_stopped_def by (meson ip_work.intros(1-4))
qed



end
