(* ===== verification/Go_Regexp.thy ===== *)
theory Go_Regexp
  imports Go_Prelude
begin

text \<open>
  Package \<open>regexp\<close>, as far as the modelled code uses it: \<open>QuoteMeta\<close>, \<open>Compile\<close>,
  \<open>FindStringSubmatch\<close>, \<open>FindAllStringSubmatch\<close> and \<open>MatchString\<close>. Patterns and inputs are read
  rune by rune; a rune is its UTF-8 encoding, and a byte that starts no valid encoding is a rune of
  its own that compares like U+FFFD. A pattern is compiled to a tree, and the matches of a tree at a
  position are listed in the order of preference of Go's leftmost-first rule, so that the match Go
  reports is the first of the list.

  \<open>Compile\<close> knows literals, escaped punctuation, \<open>.\<close>, \<open>^\<close>, \<open>$\<close>, classes of runes and ranges, groups
  and the greedy operators \<open>?\<close>, \<open>*\<close>, \<open>+\<close>. The code writes its patterns with nothing else, and no
  capturing group of them is repeated, so every group has one capture.
\<close>

section \<open>Runes\<close>

text \<open>\<open>cont_bytes s n\<close>: \<open>s\<close> begins with \<open>n\<close> continuation bytes.\<close>

definition cont_bytes :: "string \<Rightarrow> nat \<Rightarrow> bool" where
  "cont_bytes s n \<longleftrightarrow> n \<le> length s \<and> list_all (\<lambda>c. CHR 0x80 \<le> c \<and> c \<le> CHR 0xBF) (take n s)"

text \<open>
  The number of bytes of the first rune of a non-empty string, and whether it is a valid encoding
  (\<open>utf8.DecodeRuneInString\<close>): overlong forms, surrogates and values above U+10FFFF are not.
\<close>

definition enc2 :: "char \<Rightarrow> string \<Rightarrow> bool" where
  "enc2 c cs \<longleftrightarrow> CHR 0xC2 \<le> c \<and> c \<le> CHR 0xDF \<and> cont_bytes cs 1"

definition enc3 :: "char \<Rightarrow> string \<Rightarrow> bool" where
  "enc3 c cs \<longleftrightarrow> CHR 0xE0 \<le> c \<and> c \<le> CHR 0xEF \<and> cont_bytes cs 2 \<and>
     (c = CHR 0xE0 \<longrightarrow> CHR 0xA0 \<le> hd cs) \<and> (c = CHR 0xED \<longrightarrow> hd cs \<le> CHR 0x9F)"

definition enc4 :: "char \<Rightarrow> string \<Rightarrow> bool" where
  "enc4 c cs \<longleftrightarrow> CHR 0xF0 \<le> c \<and> c \<le> CHR 0xF4 \<and> cont_bytes cs 3 \<and>
     (c = CHR 0xF0 \<longrightarrow> CHR 0x90 \<le> hd cs) \<and> (c = CHR 0xF4 \<longrightarrow> hd cs \<le> CHR 0x8F)"

fun rune_size :: "string \<Rightarrow> nat \<times> bool" where
  "rune_size [] = (0, False)"
| "rune_size (c # cs) =
     (if c < CHR 0x80 then (1, True)
      else if enc2 c cs then (2, True)
      else if enc3 c cs then (3, True)
      else if enc4 c cs then (4, True)
      else (1, False))"

text \<open>Splitting a string into runes never fails; the flag tells the valid ones.\<close>

type_synonym rune = "string \<times> bool"

function runes :: "string \<Rightarrow> rune list" where
  "runes [] = []"
| "runes (c # cs) =
     (let (n, valid) = rune_size (c # cs) in (take n (c # cs), valid) # runes (drop n (c # cs)))"
  by pat_completeness auto
termination
  by (relation "measure length") (auto split: if_splits)

definition ValidString :: "string \<Rightarrow> bool" where
  "ValidString s \<longleftrightarrow> list_all snd (runes s)"

definition text_of :: "rune list \<Rightarrow> string" where
  "text_of rs = concat (map fst rs)"

text \<open>What the matcher compares: an invalid byte reads as U+FFFD.\<close>

definition rune_value :: "rune \<Rightarrow> string" where
  "rune_value r = (if snd r then fst r else [CHR 0xEF, CHR 0xBF, CHR 0xBD])"

lemma rune_value_valid [simp]: "rune_value (s, True) = s"
  by (simp add: rune_value_def)

section \<open>Patterns\<close>

datatype re =
    Eps
  | Lit string                            \<comment> \<open>one rune\<close>
  | AnyNotNL
  | Class bool "(string \<times> string) list"   \<comment> \<open>negated?, ranges of runes\<close>
  | Bol
  | Eol
  | Cat re re
  | Opt re
  | Star re
  | Plus re
  | Group re

definition special_bytes :: string where
  "special_bytes = [CHR 0x5C] @ ''.+*?()|[]{}^$''"

definition QuoteMeta :: "string \<Rightarrow> string" where
  "QuoteMeta s = concat (map (\<lambda>c. if c \<in> set special_bytes then [CHR 0x5C, c] else [c]) s)"

text \<open>
  The parser reads the runes of the pattern once. A frame is an open group or class: an open group
  holds the factors read so far, last first, an open class its ranges and whether a dash was read
  that may make the last one longer.
\<close>

datatype frame = FGroup bool "re list" | FClass bool bool "(string \<times> string) list"

fun cat_all :: "re list \<Rightarrow> re" where
  "cat_all [] = Eps"
| "cat_all [r] = r"
| "cat_all (r # rs) = Cat r (cat_all rs)"

text \<open>Add a factor to the innermost group; apply a repetition operator to its last factor.\<close>

fun push :: "re \<Rightarrow> frame list \<Rightarrow> frame list option" where
  "push r (FGroup cap fs # st) = Some (FGroup cap (r # fs) # st)"
| "push r _ = None"

fun repeat_last :: "(re \<Rightarrow> re) \<Rightarrow> frame list \<Rightarrow> frame list option" where
  "repeat_last op (FGroup cap (r # fs) # st) =
     (case r of
        Opt _ \<Rightarrow> None | Star _ \<Rightarrow> None | Plus _ \<Rightarrow> None
      | _ \<Rightarrow> Some (FGroup cap (op r # fs) # st))"
| "repeat_last op _ = None"

definition close_group :: "frame list \<Rightarrow> frame list option" where
  "close_group st =
     (case st of
        FGroup cap fs # st' \<Rightarrow>
          push (if cap then Group (cat_all (rev fs)) else cat_all (rev fs)) st'
      | _ \<Rightarrow> None)"

definition punct :: "string \<Rightarrow> bool" where
  "punct r =
     (case r of
        [c] \<Rightarrow> c < CHR 0x80 \<and> \<not> (CHR ''a'' \<le> c \<and> c \<le> CHR ''z'') \<and>
               \<not> (CHR ''A'' \<le> c \<and> c \<le> CHR ''Z'') \<and> \<not> (CHR ''0'' \<le> c \<and> c \<le> CHR ''9'')
      | _ \<Rightarrow> False)"

fun parse_re :: "string list \<Rightarrow> frame list \<Rightarrow> re option" where
  "parse_re [] st = (case st of [FGroup True fs] \<Rightarrow> Some (cat_all (rev fs)) | _ \<Rightarrow> None)"
| "parse_re (r # rs) (FClass neg dash cls # st) =
     (if r = '']'' \<and> cls \<noteq> [] then
        Option.bind (push (Class neg (if dash then (''-'', ''-'') # cls else cls)) st) (parse_re rs)
      else if r = '']'' \<or> r = [CHR 0x5C] \<or> r = ''['' then None
      else if dash then parse_re rs (FClass neg False ((fst (hd cls), r) # tl cls) # st)
      else if r = ''-'' \<and> cls \<noteq> [] then parse_re rs (FClass neg True cls # st)
      else parse_re rs (FClass neg False ((r, r) # cls) # st))"
| "parse_re (r # rs) st =
     (if r = [CHR 0x5C] then
        (case rs of
           c # rs' \<Rightarrow> if punct c then Option.bind (push (Lit c) st) (parse_re rs') else None
         | [] \<Rightarrow> None)
      else if r = ''('' then
        (case rs of
           q # c # rs' \<Rightarrow> if q = ''?'' \<and> c = '':'' then parse_re rs' (FGroup False [] # st)
                         else if q = ''?'' then None else parse_re rs (FGroup True [] # st)
         | _ \<Rightarrow> parse_re rs (FGroup True [] # st))
      else if r = '')'' then
        (if length st \<le> 1 then None else Option.bind (close_group st) (parse_re rs))
      else if r = ''['' then
        (case rs of
           c # rs' \<Rightarrow> if c = ''^'' then parse_re rs' (FClass True False [] # st)
                      else parse_re rs (FClass False False [] # st)
         | [] \<Rightarrow> None)
      else if r = ''?'' then Option.bind (repeat_last Opt st) (parse_re rs)
      else if r = ''*'' then Option.bind (repeat_last Star st) (parse_re rs)
      else if r = ''+'' then Option.bind (repeat_last Plus st) (parse_re rs)
      else if r = ''.'' then Option.bind (push AnyNotNL st) (parse_re rs)
      else if r = ''^'' then Option.bind (push Bol st) (parse_re rs)
      else if r = ''$'' then Option.bind (push Eol st) (parse_re rs)
      else if r = ''|'' then None
      else Option.bind (push (Lit r) st) (parse_re rs))"

text \<open>\<^term>\<open>None\<close> when the pattern is not valid UTF-8 or not one of the patterns known here.\<close>

definition Compile :: "string \<Rightarrow> re option" where
  "Compile pat =
     (if ValidString pat then parse_re (map fst (runes pat)) [FGroup True []] else None)"

section \<open>Matching\<close>

definition in_class :: "(string \<times> string) list \<Rightarrow> string \<Rightarrow> bool" where
  "in_class cls r \<longleftrightarrow> list_ex (\<lambda>(lo, hi). lo \<le> r \<and> r \<le> hi) cls"

lemma in_class_Nil [simp]: "\<not> in_class [] r"
  by (simp add: in_class_def)

lemma in_class_single [simp]: "in_class ((a, a) # cls) r \<longleftrightarrow> r = a \<or> in_class cls r"
  by (auto simp: in_class_def)

text \<open>
  All ways to match a tree at the start of \<open>s\<close>, the preferred first: the captures of its groups in
  the order of their opening parentheses, and the input that is left. \<open>n\<close> is the length of the
  whole input. An iteration of \<open>Star\<close> that consumes nothing ends the repetition.
\<close>

type_synonym matches = "(rune list list \<times> rune list) list"

function rmatch :: "nat \<Rightarrow> re \<Rightarrow> rune list \<Rightarrow> matches" where
  "rmatch n Eps s = [([], s)]"
| "rmatch n (Lit c) s =
     (case s of [] \<Rightarrow> [] | x # xs \<Rightarrow> if rune_value x = c then [([], xs)] else [])"
| "rmatch n AnyNotNL s =
     (case s of [] \<Rightarrow> [] | x # xs \<Rightarrow> if rune_value x \<noteq> [CHR 0x0A] then [([], xs)] else [])"
| "rmatch n (Class neg cls) s =
     (case s of [] \<Rightarrow> [] | x # xs \<Rightarrow> if in_class cls (rune_value x) \<noteq> neg then [([], xs)] else [])"
| "rmatch n Bol s = (if length s = n then [([], s)] else [])"
| "rmatch n Eol s = (if s = [] then [([], s)] else [])"
| "rmatch n (Cat a b) s =
     concat (map (\<lambda>(c, r). map (\<lambda>(c', r'). (c @ c', r')) (rmatch n b r)) (rmatch n a s))"
| "rmatch n (Opt a) s = rmatch n a s @ [([], s)]"
| "rmatch n (Star a) s =
     concat (map (\<lambda>(c, r). if length r < length s
                          then map (\<lambda>(c', r'). (c @ c', r')) (rmatch n (Star a) r) else [])
               (rmatch n a s)) @ [([], s)]"
| "rmatch n (Plus a) s =
     concat (map (\<lambda>(c, r). if length r < length s
                          then map (\<lambda>(c', r'). (c @ c', r')) (rmatch n (Star a) r) else [(c, r)])
               (rmatch n a s))"
| "rmatch n (Group a) s =
     map (\<lambda>(c, r). (take (length s - length r) s # c, r)) (rmatch n a s)"
  by pat_completeness auto
termination
  by (relation "measures [\<lambda>(n, r, s). size r, \<lambda>(n, r, s). length s]") auto

text \<open>The leftmost match: its start, its end (both as the input left there) and its captures.\<close>

fun find_from :: "nat \<Rightarrow> re \<Rightarrow> rune list \<Rightarrow> (rune list \<times> rune list list \<times> rune list) option" where
  "find_from n re s =
     (case rmatch n re s of
        (c, r) # _ \<Rightarrow> Some (s, c, r)
      | [] \<Rightarrow> (case s of [] \<Rightarrow> None | _ # s' \<Rightarrow> find_from n re s'))"

definition submatch :: "rune list \<times> rune list list \<times> rune list \<Rightarrow> string list" where
  "submatch m = (case m of (s, c, r) \<Rightarrow> text_of (take (length s - length r) s) # map text_of c)"

definition FindStringSubmatch :: "re \<Rightarrow> string \<Rightarrow> string list option" where
  "FindStringSubmatch re s = map_option submatch (find_from (length (runes s)) re (runes s))"

definition MatchString :: "re \<Rightarrow> string \<Rightarrow> bool" where
  "MatchString re s \<longleftrightarrow> FindStringSubmatch re s \<noteq> None"

text \<open>
  \<open>FindAllStringSubmatch(s, -1)\<close> for patterns that match no empty string: the leftmost match, then
  the matches in the input after it.
\<close>

function find_all :: "nat \<Rightarrow> re \<Rightarrow> rune list \<Rightarrow> string list list" where
  "find_all n re s =
     (case find_from n re s of
        None \<Rightarrow> []
      | Some (t, c, r) \<Rightarrow>
          if length r < length s then submatch (t, c, r) # find_all n re r else [submatch (t, c, r)])"
  by pat_completeness auto
termination
  by (relation "measure (\<lambda>(n, re, s). length s)") auto

declare find_all.simps [simp del]

definition FindAllStringSubmatch :: "re \<Rightarrow> string \<Rightarrow> string list list" where
  "FindAllStringSubmatch re s = find_all (length (runes s)) re (runes s)"

section \<open>Lemmas\<close>

subsection \<open>Runes\<close>

lemma enc_length:
  "enc2 c cs \<Longrightarrow> 1 \<le> length cs" "enc3 c cs \<Longrightarrow> 2 \<le> length cs" "enc4 c cs \<Longrightarrow> 3 \<le> length cs"
  by (simp_all only: enc2_def enc3_def enc4_def cont_bytes_def)

lemma rune_size_bounds:
  assumes "rune_size s = (n, v)" and "s \<noteq> []"
  shows "0 < n \<and> n \<le> length s"
  using assms by (cases s) (auto split: if_splits dest: enc_length)

text \<open>A valid encoding is recognised whatever follows it.\<close>

lemma cont_bytes_append: "cont_bytes cs n \<Longrightarrow> 0 < n \<Longrightarrow> cont_bytes (cs @ t) n \<and> hd (cs @ t) = hd cs"
proof -
  assume "cont_bytes cs n" and "0 < n"
  then have "cs \<noteq> []" and "take n (cs @ t) = take n cs" by (auto simp: cont_bytes_def)
  then show ?thesis using \<open>cont_bytes cs n\<close> by (simp add: cont_bytes_def)
qed

lemma enc_append:
  "enc2 c cs \<Longrightarrow> enc2 c (cs @ t)" "enc3 c cs \<Longrightarrow> enc3 c (cs @ t)" "enc4 c cs \<Longrightarrow> enc4 c (cs @ t)"
  using cont_bytes_append [of cs _ t] unfolding enc2_def enc3_def enc4_def by force+

lemma enc_disjoint:
  "enc3 c cs \<Longrightarrow> \<not> enc2 c ds" "enc4 c cs \<Longrightarrow> \<not> enc2 c ds" "enc4 c cs \<Longrightarrow> \<not> enc3 c ds"
proof -
  have le: "\<not> (CHR 0xE0 \<le> CHR 0xDF)" "\<not> (CHR 0xF0 \<le> CHR 0xDF)" "\<not> (CHR 0xF0 \<le> CHR 0xEF)"
    by code_simp+
  show "enc3 c cs \<Longrightarrow> \<not> enc2 c ds" "enc4 c cs \<Longrightarrow> \<not> enc2 c ds" "enc4 c cs \<Longrightarrow> \<not> enc3 c ds"
    using le unfolding enc2_def enc3_def enc4_def by (meson order_trans)+
qed

lemma rune_size_append:
  assumes "rune_size s = (n, True)" and "s \<noteq> []"
  shows "rune_size (s @ t) = (n, True)"
  using assms by (cases s) (auto split: if_splits dest: enc_append enc_disjoint)

lemma runes_append: "ValidString s \<Longrightarrow> runes (s @ t) = runes s @ runes t"
proof (induction s rule: runes.induct)
  case (2 c cs)
  obtain n v where nv: "rune_size (c # cs) = (n, v)" by (cases "rune_size (c # cs)")
  have n: "0 < n" "n \<le> length (c # cs)" using rune_size_bounds [OF nv] by auto
  have v: "v" "ValidString (drop n (c # cs))"
    using "2.prems" nv by (simp_all add: ValidString_def Let_def del: rune_size.simps)
  have "rune_size ((c # cs) @ t) = (n, True)"
    using rune_size_append [of "c # cs" n t] nv v by (simp del: rune_size.simps)
  moreover have "take n (c # cs @ t) = take n (c # cs)" "drop n (c # cs @ t) = drop n (c # cs) @ t"
    using n by (cases n; simp)+
  ultimately have "runes ((c # cs) @ t) = (take n (c # cs), True) # runes (drop n (c # cs) @ t)"
    using n by (simp add: Let_def del: rune_size.simps)
  also have "runes (drop n (c # cs) @ t) = runes (drop n (c # cs)) @ runes t"
    by (rule "2.IH" [of "(n, v)" n v]) (use nv v in \<open>simp_all del: rune_size.simps\<close>)
  finally show ?case using nv v by (simp add: Let_def del: rune_size.simps)
qed (simp add: ValidString_def)

lemma text_of_runes: "text_of (runes s) = s"
proof (induction s rule: runes.induct)
  case (2 c cs)
  then show ?case
    by (cases "rune_size (c # cs)") (simp add: text_of_def Let_def del: rune_size.simps)
qed (simp add: text_of_def)

lemma text_of_append [simp]: "text_of (a @ b) = text_of a @ text_of b"
  by (simp add: text_of_def)

lemma ValidString_append: "ValidString s \<Longrightarrow> ValidString t \<Longrightarrow> ValidString (s @ t)"
  by (simp add: ValidString_def runes_append)

text \<open>ASCII text: one rune per byte.\<close>

definition ascii :: "string \<Rightarrow> bool" where
  "ascii s \<longleftrightarrow> list_all (\<lambda>c. c < CHR 0x80) s"

lemma runes_ascii: "ascii s \<Longrightarrow> runes s = map (\<lambda>c. ([c], True)) s"
  by (induction s) (simp_all add: ascii_def)

lemma ascii_valid: "ascii s \<Longrightarrow> ValidString s"
  by (simp add: ValidString_def runes_ascii list_all_iff)

lemma ascii_append [simp]: "ascii (s @ t) \<longleftrightarrow> ascii s \<and> ascii t"
  by (simp add: ascii_def)

lemma runes_ascii_append: "ascii s \<Longrightarrow> runes (s @ t) = map (\<lambda>c. ([c], True)) s @ runes t"
  by (simp add: runes_append ascii_valid runes_ascii)

subsection \<open>Quoted text\<close>

lemma rune_size_take:
  assumes "rune_size s = (n, True)" and "s \<noteq> []"
  shows "rune_size (take n s) = (n, True)"
proof -
  have cb: "cont_bytes (take k cs) k = cont_bytes cs k" "0 < k \<Longrightarrow> hd (take k cs) = hd cs" for cs k
    by (simp_all add: cont_bytes_def)
  have "enc2 c cs \<Longrightarrow> enc2 c (take 1 cs)" "enc3 c cs \<Longrightarrow> enc3 c (take 2 cs)" "enc4 c cs \<Longrightarrow> enc4 c (take 3 cs)"
    for c cs
    by (simp_all only: enc2_def enc3_def enc4_def cb simp_thms zero_less_numeral zero_less_one) blast+
  then show ?thesis
    using assms by (cases s) (auto split: if_splits dest: enc_disjoint simp: numeral_3_eq_3 numeral_2_eq_2)
qed

lemma ascii_special: "c \<in> set special_bytes \<Longrightarrow> c < CHR 0x80 \<and> punct [c]"
proof -
  have "list_all (\<lambda>c. c < CHR 0x80 \<and> \<not> (CHR ''a'' \<le> c \<and> c \<le> CHR ''z'') \<and>
     \<not> (CHR ''A'' \<le> c \<and> c \<le> CHR ''Z'') \<and> \<not> (CHR ''0'' \<le> c \<and> c \<le> CHR ''9'')) special_bytes"
    by code_simp
  then show "c \<in> set special_bytes \<Longrightarrow> c < CHR 0x80 \<and> punct [c]"
    by (auto simp: list_all_iff punct_def)
qed

lemma high_bytes:
  assumes "rune_size (c # cs) = (n, True)" and "\<not> c < CHR 0x80"
  shows "list_all (\<lambda>d. \<not> d < CHR 0x80) (take n (c # cs))"
proof -
  have "cont_bytes cs (n - 1)" and "n \<noteq> 0"
    using assms by (auto simp: enc2_def enc3_def enc4_def split: if_splits)
  then show ?thesis
    using assms(2) by (cases n) (auto simp: cont_bytes_def list_all_iff not_less)
qed

definition quote_rune :: "string \<Rightarrow> string list" where
  "quote_rune r = (if \<exists>c \<in> set special_bytes. r = [c] then [[CHR 0x5C], r] else [r])"

lemma QuoteMeta_append: "QuoteMeta (s @ t) = QuoteMeta s @ QuoteMeta t"
  by (simp add: QuoteMeta_def)

lemma QuoteMeta_high: "list_all (\<lambda>d. \<not> d < CHR 0x80) s \<Longrightarrow> QuoteMeta s = s"
  using ascii_special by (induction s) (auto simp: QuoteMeta_def)

lemma runes_QuoteMeta:
  "ValidString s \<Longrightarrow> map fst (runes (QuoteMeta s)) = concat (map (quote_rune \<circ> fst) (runes s)) \<and> ValidString (QuoteMeta s)"
proof (induction s rule: runes.induct)
  case 1
  then show ?case by (simp add: QuoteMeta_def ValidString_def)
next
  case (2 c cs)
  obtain n v where nv: "rune_size (c # cs) = (n, v)" by (cases "rune_size (c # cs)")
  let ?r = "take n (c # cs)" and ?s = "drop n (c # cs)"
  have n: "0 < n" "n \<le> length (c # cs)" using rune_size_bounds [OF nv] by auto
  have rs: "runes (c # cs) = (?r, True) # runes ?s" and v: "v = True" "ValidString ?s"
    using "2.prems" nv by (simp_all add: ValidString_def Let_def del: rune_size.simps)
  have ih: "map fst (runes (QuoteMeta ?s)) = concat (map (quote_rune \<circ> fst) (runes ?s)) \<and> ValidString (QuoteMeta ?s)"
    by (rule "2.IH" [of "(n, v)" n v]) (use nv v in \<open>simp_all del: rune_size.simps\<close>)
  have "map fst (runes (QuoteMeta ?r)) = quote_rune ?r \<and> ValidString (QuoteMeta ?r)"
  proof (cases "c < CHR 0x80")
    case True
    then have r: "?r = [c]" using nv v by (auto split: if_splits)
    have "ascii (QuoteMeta [c])"
      using True ascii_special [of "CHR 0x5C"] by (auto simp: QuoteMeta_def ascii_def special_bytes_def)
    then have "runes (QuoteMeta [c]) = map (\<lambda>c. ([c], True)) (QuoteMeta [c])" and "ValidString (QuoteMeta [c])"
      using runes_ascii ascii_valid by blast+
    then show ?thesis unfolding r by (auto simp: QuoteMeta_def quote_rune_def)
  next
    case False
    have q: "QuoteMeta ?r = ?r" using high_bytes [of c cs n] False nv v by (simp add: QuoteMeta_high)
    obtain d ds where ds: "?r = d # ds" using n by (cases ?r) auto
    have "rune_size ?r = (n, True)" using rune_size_take [of "c # cs" n] nv v by simp
    moreover have "length ?r = n" using n by simp
    ultimately have "runes ?r = [(?r, True)]" unfolding ds by (simp add: Let_def del: rune_size.simps)
    moreover have "\<not> (\<exists>e \<in> set special_bytes. ?r = [e])"
      using ascii_special False n by (auto simp: take_Cons' split: if_splits)
    ultimately show ?thesis unfolding q by (simp add: quote_rune_def ValidString_def)
  qed
  moreover have "QuoteMeta (c # cs) = QuoteMeta ?r @ QuoteMeta ?s"
    using QuoteMeta_append [of ?r ?s] by simp
  ultimately show ?case
    using ih rs by (simp add: runes_append ValidString_append comp_def del: rune_size.simps)
qed

lemma parse_quoted:
  "parse_re (concat (map quote_rune ls) @ rs) (FGroup cap fs # st) =
     parse_re rs (FGroup cap (rev (map Lit ls) @ fs) # st)"
proof (induction ls arbitrary: fs)
  case (Cons r ls)
  show ?case
  proof (cases "\<exists>c \<in> set special_bytes. r = [c]")
    case True
    then have "punct r" using ascii_special by blast
    then show ?thesis using True Cons by (simp add: quote_rune_def)
  next
    case False
    then have "r \<notin> {[CHR 0x5C], ''('', '')'', ''['', ''?'', ''*'', ''+'', ''.'', ''^'', ''$'', ''|''}"
      by (auto simp: special_bytes_def)
    then show ?thesis using False Cons by (simp add: quote_rune_def)
  qed
qed simp

subsection \<open>Matching\<close>

lemma rmatch_cat_all: "rmatch n (cat_all (r # rs)) s = rmatch n (Cat r (cat_all rs)) s"
proof (cases rs)
  case Nil
  have "concat (map (\<lambda>(c, r). [(c, r)]) xs) = xs" for xs :: matches
    by (induction xs) auto
  then show ?thesis using Nil by (simp add: split_def)
qed simp

text \<open>A literal text, rune by rune.\<close>

fun drop_lits :: "string list \<Rightarrow> rune list \<Rightarrow> rune list option" where
  "drop_lits [] s = Some s"
| "drop_lits (l # ls) [] = None"
| "drop_lits (l # ls) (x # xs) = (if rune_value x = l then drop_lits ls xs else None)"

lemma rmatch_lits:
  "rmatch n (cat_all (map Lit ls @ rs)) s =
     (case drop_lits ls s of None \<Rightarrow> [] | Some s' \<Rightarrow> rmatch n (cat_all rs) s')"
proof (induction ls s rule: drop_lits.induct)
  case (2 l ls)
  then show ?case by (simp only: list.map append_Cons rmatch_cat_all) simp
next
  case (3 l ls x xs)
  then show ?case by (simp only: list.map append_Cons rmatch_cat_all) (simp add: split_def)
qed simp

lemma drop_lits_same:
  "list_all snd rl \<Longrightarrow> drop_lits (map fst rl) (rl @ t) = Some t"
  by (induction rl) (auto simp: rune_value_def)

text \<open>The greedy repetition of a class takes as many runes as it can, and gives back one at a time.\<close>

definition class_run :: "bool \<Rightarrow> (string \<times> string) list \<Rightarrow> rune list \<Rightarrow> nat" where
  "class_run neg cls s = length (takeWhile (\<lambda>x. in_class cls (rune_value x) \<noteq> neg) s)"

lemma rmatch_star_class:
  "rmatch n (Star (Class neg cls)) s = map (\<lambda>k. ([], drop k s)) (rev [0..<Suc (class_run neg cls s)])"
proof (induction s)
  case (Cons x xs)
  show ?case
  proof (cases "in_class cls (rune_value x) \<noteq> neg")
    case True
    then have run: "class_run neg cls (x # xs) = Suc (class_run neg cls xs)" by (simp add: class_run_def)
    have "rev [0..<Suc (Suc m)] = map Suc (rev [0..<Suc m]) @ [0]" for m
      by (simp only: upt_conv_Cons [of 0 "Suc (Suc m)"] zero_less_Suc map_Suc_upt [symmetric] rev.simps rev_map)
    then show ?thesis
      unfolding run using True Cons by (simp add: comp_def del: upt_Suc)
  qed (simp add: class_run_def)
qed (simp add: class_run_def)

lemma rmatch_plus_class:
  "rmatch n (Plus (Class neg cls)) s = map (\<lambda>k. ([], drop k s)) (rev [1..<Suc (class_run neg cls s)])"
proof (cases s)
  case (Cons x xs)
  show ?thesis
  proof (cases "in_class cls (rune_value x) \<noteq> neg")
    case True
    then have run: "class_run neg cls s = Suc (class_run neg cls xs)" by (simp add: class_run_def Cons)
    have "rev [1..<Suc (Suc m)] = map Suc (rev [0..<Suc m])" for m
      by (induction m) auto
    then show ?thesis
      unfolding run using True Cons by (simp add: rmatch_star_class comp_def del: upt_Suc rmatch.simps(9))
  qed (simp add: class_run_def Cons)
qed (simp add: class_run_def)

lemma class_run_le: "class_run neg cls s \<le> length s"
  unfolding class_run_def by (rule length_takeWhile_le)

lemma rmatch_group_class:
  "rmatch n (Group (Plus (Class neg cls))) s =
     map (\<lambda>k. ([take k s], drop k s)) (rev [1..<Suc (class_run neg cls s)])"
proof -
  have "take (length s - length (drop k s)) s = take k s" if "k \<in> set [1..<Suc (class_run neg cls s)]" for k
  proof -
    have "k \<le> length s" using that class_run_le [of neg cls s] by (auto simp del: upt_Suc)
    then show ?thesis by simp
  qed
  then show ?thesis
    by (simp only: rmatch.simps(11) rmatch_plus_class map_map comp_def prod.case) (rule map_cong, auto)
qed

text \<open>The match reported first, when the first alternative of every part leads to one.\<close>

definition first_match :: "nat \<Rightarrow> re \<Rightarrow> rune list \<Rightarrow> rune list list \<Rightarrow> rune list \<Rightarrow> bool" where
  "first_match n re s c r \<longleftrightarrow> (\<exists>ms. rmatch n re s = (c, r) # ms)"

lemma first_match_Cat:
  "first_match n a s c r \<Longrightarrow> first_match n b r c' r' \<Longrightarrow> first_match n (Cat a b) s (c @ c') r'"
  by (auto simp: first_match_def)

lemma first_match_cat_all:
  "first_match n a s c r \<Longrightarrow> first_match n (cat_all rs) r c' r' \<Longrightarrow>
     first_match n (cat_all (a # rs)) s (c @ c') r'"
  using first_match_Cat [of n a s c r "cat_all rs" c' r']
  by (simp add: first_match_def rmatch_cat_all del: rmatch.simps)

lemma first_match_lits:
  "drop_lits ls s = Some s' \<Longrightarrow> first_match n (cat_all rs) s' c r \<Longrightarrow>
     first_match n (cat_all (map Lit ls @ rs)) s c r"
  by (simp add: first_match_def rmatch_lits)

lemma first_match_group:
  assumes "v \<noteq> []" and "\<forall>x \<in> set v. in_class cls (rune_value x) \<noteq> neg"
    and "rest = [] \<or> in_class cls (rune_value (hd rest)) = neg"
  shows "first_match n (Group (Plus (Class neg cls))) (v @ rest) [v] rest"
proof -
  have "takeWhile (\<lambda>x. in_class cls (rune_value x) \<noteq> neg) (v @ rest) = v"
    using assms(2,3) by (cases rest) (simp_all add: takeWhile_append2)
  then have run: "class_run neg cls (v @ rest) = length v" by (simp add: class_run_def)
  have "rev [1..<Suc (length v)] = length v # rev [1..<length v]" using assms(1) by (cases v) auto
  then show ?thesis by (simp add: first_match_def rmatch_group_class run del: upt_Suc rmatch.simps)
qed

lemma rmatch_group_star:
  "rmatch n (Group (Star (Class neg cls))) s =
     map (\<lambda>k. ([take k s], drop k s)) (rev [0..<Suc (class_run neg cls s)])"
proof -
  have "take (length s - length (drop k s)) s = take k s" if "k \<in> set [0..<Suc (class_run neg cls s)]" for k
  proof -
    have "k \<le> length s" using that class_run_le [of neg cls s] by (auto simp del: upt_Suc)
    then show ?thesis by simp
  qed
  then show ?thesis
    by (simp only: rmatch.simps(11) rmatch_star_class map_map comp_def prod.case) (rule map_cong, auto)
qed

lemma first_match_group_star:
  assumes "\<forall>x \<in> set v. in_class cls (rune_value x) \<noteq> neg"
    and "rest = [] \<or> in_class cls (rune_value (hd rest)) = neg"
  shows "first_match n (Group (Star (Class neg cls))) (v @ rest) [v] rest"
proof -
  have "takeWhile (\<lambda>x. in_class cls (rune_value x) \<noteq> neg) (v @ rest) = v"
    using assms by (cases rest) (simp_all add: takeWhile_append2)
  then have run: "class_run neg cls (v @ rest) = length v" by (simp add: class_run_def)
  have "rev [0..<Suc (length v)] = length v # rev [0..<length v]" by simp
  then show ?thesis by (simp add: first_match_def rmatch_group_star run del: upt_Suc rmatch.simps)
qed

lemma find_from_first:
  "first_match n re s c r \<Longrightarrow> find_from n re s = Some (s, c, r)"
  by (cases s) (auto simp: first_match_def)

subsection \<open>ASCII boundaries\<close>

text \<open>A byte below 0x80 starts a rune, whatever bytes are before it.\<close>

definition ascii_start :: "string \<Rightarrow> bool" where
  "ascii_start t \<longleftrightarrow> (case t of [] \<Rightarrow> True | c # _ \<Rightarrow> c < CHR 0x80)"

lemma cont_bytes_ascii_start:
  assumes "ascii_start t"
  shows "cont_bytes (cs @ t) k = cont_bytes cs k"
proof (cases "k \<le> length cs")
  case True
  then show ?thesis by (simp add: cont_bytes_def)
next
  case False
  have "\<not> cont_bytes (cs @ t) k"
  proof
    assume c: "cont_bytes (cs @ t) k"
    then obtain d t' where t: "t = d # t'" using False by (cases t) (auto simp: cont_bytes_def)
    obtain m where k: "k = length cs + Suc m" using False by (auto dest!: not_less_eq_eq [THEN iffD1] less_imp_Suc_add simp: not_le)
    have "d \<in> set (take k (cs @ t))" using t k by simp
    then have "CHR 0x80 \<le> d" using c unfolding cont_bytes_def list_all_iff by blast
    then show False using assms t by (simp add: ascii_start_def)
  qed
  then show ?thesis using False by (simp add: cont_bytes_def)
qed

lemma rune_size_ascii_start:
  assumes "ascii_start t"
  shows "rune_size ((c # cs) @ t) = rune_size (c # cs)"
proof -
  have hd: "hd (cs @ t) = hd cs" if "0 < k" "cont_bytes cs k" for k
    using that by (cases cs) (auto simp: cont_bytes_def)
  note cb = cont_bytes_ascii_start [OF assms]
  have "enc2 c (cs @ t) = enc2 c cs" by (simp add: enc2_def cb)
  moreover have "enc3 c (cs @ t) = enc3 c cs"
    unfolding enc3_def cb using hd [of 2] by (cases "cont_bytes cs 2") simp_all
  moreover have "enc4 c (cs @ t) = enc4 c cs"
    unfolding enc4_def cb using hd [of 3] by (cases "cont_bytes cs 3") simp_all
  ultimately show ?thesis by simp
qed

lemma runes_append_ascii: "ascii_start t \<Longrightarrow> runes (s @ t) = runes s @ runes t"
proof (induction s rule: runes.induct)
  case (2 c cs)
  obtain n v where nv: "rune_size (c # cs) = (n, v)" by (cases "rune_size (c # cs)")
  have n: "0 < n" "n \<le> length (c # cs)" using rune_size_bounds [OF nv] by auto
  have "rune_size (c # cs @ t) = (n, v)" using rune_size_ascii_start [OF "2.prems", of c cs] nv by simp
  moreover have "take n (c # cs @ t) = take n (c # cs)" "drop n (c # cs @ t) = drop n (c # cs) @ t"
    using n by (cases n; simp)+
  moreover have "runes (drop n (c # cs) @ t) = runes (drop n (c # cs)) @ runes t"
    by (rule "2.IH" [of "(n, v)" n v]) (use nv "2.prems" in simp_all)
  ultimately show ?case using nv by (simp add: Let_def del: rune_size.simps)
qed simp

lemma runes_ascii_Cons: "c < CHR 0x80 \<Longrightarrow> runes (c # t) = ([c], True) # runes t"
  by (simp add: Let_def)

lemma rune_bytes: "r \<in> set (runes s) \<Longrightarrow> set (fst r) \<subseteq> set s"
proof -
  assume "r \<in> set (runes s)"
  then have "set (fst r) \<subseteq> set (text_of (runes s))" by (auto simp: text_of_def)
  then show ?thesis by (simp only: text_of_runes)
qed

lemma rune_value_byte:
  assumes "r \<in> set (runes s)" and "rune_value r = [c]"
  shows "c \<in> set s \<and> r = ([c], True)"
  using rune_bytes [OF assms(1)] assms(2) by (cases r) (auto simp: rune_value_def split: if_splits)

end
