(* ===== verification/Uri_Match.thy ===== *)
theory Uri_Match
  imports Uri_Template Go_Regexp
begin

text \<open>
  \<open>shared/uri_template.go\<close>, matching: \<open>Match\<close> and \<open>partToRegExp\<close>. The pattern is built as the text
  the code builds, compiled and run by the model of package \<open>regexp\<close>. The main lemmas say what the
  compiled pattern of a template matches, and relate matching to expansion.
\<close>

section \<open>Definitions\<close>

definition escapeRegExp :: "string \<Rightarrow> string" where
  "escapeRegExp str = QuoteMeta str"

text \<open>The check of the names' lengths has no effect: both branches of its loop go on.\<close>

definition query_patterns :: "string \<Rightarrow> string list \<Rightarrow> (string \<times> string) list" where
  "query_patterns operator names =
     map (\<lambda>(i, name). ((if i > 0 then ''&'' else CHR 0x5C # operator) @ escapeRegExp name @ ''=([^&]+)'', name))
       (List.enumerate 0 names)"

definition name_pattern :: "string \<Rightarrow> bool \<Rightarrow> string" where
  "name_pattern operator exploded =
     (if operator = [] then (if exploded then ''([^/]+(?:,[^/]+)*)'' else ''([^/,]+)'')
      else if operator = ''+'' \<or> operator = ''#'' then ''(.+)''
      else if operator = ''.'' then CHR 0x5C # ''.([^/,]+)''
      else if operator = ''/'' then (if exploded then ''/([^/]+(?:,[^/]+)*)'' else ''/([^/,]+)'')
      else ''([^/]+)'')"

definition partToRegExp :: "expression_part \<Rightarrow> (string \<times> string) list" where
  "partToRegExp part =
     (if ep_operator part = ''?'' \<or> ep_operator part = ''&''
      then query_patterns (ep_operator part) (ep_names part)
      else [(name_pattern (ep_operator part) (ep_exploded part), ep_name part)])"

definition part_pattern :: "template_part \<Rightarrow> string" where
  "part_pattern part =
     (case part of
        LiteralPart p \<Rightarrow> escapeRegExp p
      | ExpressionPart p \<Rightarrow> concat (map fst (partToRegExp p)))"

definition part_names :: "template_part \<Rightarrow> (string \<times> bool) list" where
  "part_names part =
     (case part of
        LiteralPart p \<Rightarrow> []
      | ExpressionPart p \<Rightarrow> map (\<lambda>(_, name). (name, ep_exploded p)) (partToRegExp p))"

definition match_pattern :: "uri_template \<Rightarrow> string" where
  "match_pattern ut = ''^'' @ concat (map part_pattern (ut_parts ut)) @ ''$''"

text \<open>The value of a captured variable: a list when it was exploded and holds a comma.\<close>

definition captured :: "bool \<Rightarrow> string \<Rightarrow> gval" where
  "captured exploded value =
     (if exploded \<and> Contains value '','' then GStrs (Split value CHR '','') else GString value)"

definition bind_captures :: "(string \<times> bool) list \<Rightarrow> string list \<Rightarrow> variables" where
  "bind_captures names values =
     fold (\<lambda>((name, exploded), value) m. m(DeleteByte CHR ''*'' name \<mapsto> captured exploded value))
       (zip names values) Map.empty"

text \<open>The error of \<open>regexp.Compile\<close> follows the message; its text is not modelled.\<close>

definition Match :: "uri_template \<Rightarrow> string \<Rightarrow> variables option outcome" where
  "Match ut uri =
     (case validateLength uri MaxTemplateLength ''URI'' of
        Some err \<Rightarrow> Err err
      | None \<Rightarrow>
          (case validateLength (match_pattern ut) MaxRegexLength ''Generated regex pattern'' of
             Some err \<Rightarrow> Err err
           | None \<Rightarrow>
               (case Compile (match_pattern ut) of
                  None \<Rightarrow> Err ''failed to compile regex''
                | Some regex \<Rightarrow>
                    (case FindStringSubmatch regex uri of
                       None \<Rightarrow> Ok None
                     | Some m \<Rightarrow> Ok (Some (bind_captures (concat (map part_names (ut_parts ut))) (tl m)))))))"

section \<open>The compiled pattern of a simple template\<close>

definition name_class :: "(string \<times> string) list" where
  "name_class = [('','', '',''), (''/'', ''/'')]"

fun segment_res :: "segment \<Rightarrow> re list" where
  "segment_res (SLit l) = map Lit (map fst (runes l))"
| "segment_res (SExpr e) = [Group (Plus (Class True name_class))]"

fun valid_segment :: "segment \<Rightarrow> bool" where
  "valid_segment (SLit l) = ValidString l"
| "valid_segment (SExpr e) = True"

lemma strip_front_set: "set (strip_front rs s) \<subseteq> set s"
proof (induction rs s rule: strip_front.induct)
  case (1 rs s)
  show ?case
    by (subst strip_front.simps) (use 1 set_drop_subset in \<open>fastforce split: option.splits\<close>)
qed

lemma TrimSpace_set: "set (TrimSpace s) \<subseteq> set s"
  using strip_front_set [of "map rev space_runes" "rev (strip_front space_runes s)"]
    strip_front_set [of space_runes s]
  by (simp add: TrimSpace_def)

lemma simple_no_star:
  assumes "getNames e = [e]"
  shows "CHR ''*'' \<notin> set e"
proof -
  have "e \<in> set (getNames e)" using assms by simp
  then obtain x where "e = TrimSpace (DeleteByte CHR ''*'' x)" by (auto simp: getNames_def)
  then show ?thesis using TrimSpace_set [of "DeleteByte CHR ''*'' x"] DeleteByte_set by blast
qed

lemma simple_part:
  assumes "simple_segment (SExpr e)"
  shows "partToRegExp (expression_of e) = [(''([^/,]+)'', e)]" and "\<not> ep_exploded (expression_of e)"
    and "DeleteByte CHR ''*'' e = e"
  using assms simple_no_star [of e]
  by (simp_all add: expression_of_def partToRegExp_def name_pattern_def Let_def DeleteByte_id)

lemma parse_group:
  "parse_re (map fst (runes ''([^/,]+)'') @ rs) (FGroup cap fs # st) =
     parse_re rs (FGroup cap (Group (Plus (Class True name_class)) # fs) # st)"
proof -
  have "runes ''([^/,]+)'' = map (\<lambda>c. ([c], True)) ''([^/,]+)''"
    by (rule runes_ascii) code_simp
  then show ?thesis by (simp add: close_group_def name_class_def)
qed

lemma segment_pattern:
  assumes "simple_segment seg" and "valid_segment seg"
  shows "ValidString (part_pattern (part_of seg))"
    and "parse_re (map fst (runes (part_pattern (part_of seg))) @ rs) (FGroup cap fs # st) =
      parse_re rs (FGroup cap (rev (segment_res seg) @ fs) # st)"
proof -
  have v: "ValidString ''([^/,]+)''" by (rule ascii_valid) code_simp
  show "ValidString (part_pattern (part_of seg))"
    using assms runes_QuoteMeta v simple_part(1)
    by (cases seg) (simp_all add: part_pattern_def escapeRegExp_def)
  show "parse_re (map fst (runes (part_pattern (part_of seg))) @ rs) (FGroup cap fs # st) =
      parse_re rs (FGroup cap (rev (segment_res seg) @ fs) # st)"
  proof (cases seg)
    case (SLit l)
    have "map fst (runes (QuoteMeta l)) = concat (map quote_rune (map fst (runes l)))"
      using runes_QuoteMeta [of l] assms(2) SLit by simp
    then show ?thesis
      using parse_quoted [of "map fst (runes l)" rs cap fs st] SLit
      by (simp add: part_pattern_def escapeRegExp_def)
  next
    case (SExpr e)
    then show ?thesis
      using parse_group simple_part(1) [of e] assms(1) by (simp add: part_pattern_def)
  qed
qed

lemma segments_pattern:
  assumes "\<forall>seg \<in> set segs. simple_segment seg \<and> valid_segment seg"
  shows "ValidString (concat (map part_pattern (map part_of segs))) \<and>
    parse_re (map fst (runes (concat (map part_pattern (map part_of segs)))) @ rs) (FGroup cap fs # st) =
      parse_re rs (FGroup cap (rev (concat (map segment_res segs)) @ fs) # st)"
  using assms
proof (induction segs arbitrary: fs)
  case (Cons seg segs)
  have seg: "simple_segment seg" "valid_segment seg" using Cons.prems by simp_all
  show ?case
    using segment_pattern(1) [OF seg] segment_pattern(2) [OF seg, of "_ @ rs"] Cons
    by (simp add: ValidString_append runes_append del: simple_segment.simps)
qed (simp add: ValidString_def)

lemma compile_simple:
  assumes "\<forall>seg \<in> set segs. simple_segment seg \<and> valid_segment seg"
  shows "Compile (match_pattern \<lparr>ut_template = t, ut_parts = map part_of segs\<rparr>) =
    Some (cat_all (Bol # concat (map segment_res segs) @ [Eol]))"
proof -
  let ?p = "concat (map part_pattern (map part_of segs))"
  have hat: "runes ''^'' = [(''^'', True)]" "runes ''$'' = [(''$'', True)]"
    by (subst runes_ascii, code_simp, simp)+
  note p = segments_pattern [OF assms]
  have v: "ValidString (''^'' @ ?p @ ''$'')"
    using p ascii_valid [of "''^''"] ascii_valid [of "''$''"]
    by (intro ValidString_append) (simp_all add: ascii_def)
  have "runes (''^'' @ ?p @ ''$'') = (''^'', True) # runes ?p @ [(''$'', True)]"
    using p hat ascii_valid [of "''^''"] runes_append [of "''^''" "?p @ ''$''"] runes_append [of ?p "''$''"]
    by (simp add: ascii_def)
  then have "Compile (''^'' @ ?p @ ''$'') = parse_re (map fst (runes ?p) @ [''$'']) [FGroup True [Bol]]"
    using v by (simp add: Compile_def)
  then show ?thesis
    using p [of "[''$'']" True "[Bol]" "[]"] by (simp add: match_pattern_def)
qed

section \<open>Matching an expansion\<close>

text \<open>
  Templates in which a variable is followed by the end or by literal text that starts with a byte a
  value cannot hold: where one variable ends and the next text starts is then never in doubt.
\<close>

fun separated :: "segment list \<Rightarrow> bool" where
  "separated [] = True"
| "separated (SLit l # segs) = separated segs"
| "separated (SExpr e # segs) =
     ((case segs of [] \<Rightarrow> True | SLit l # _ \<Rightarrow> HasPrefix l ''/'' \<or> HasPrefix l '','' | SExpr _ # _ \<Rightarrow> False)
      \<and> separated segs)"

lemma QueryEscape_ascii: "ascii (QueryEscape v)"
proof -
  have small: "\<not> CHR 0x80 \<le> CHR ''z''" "\<not> CHR 0x80 \<le> CHR ''Z''" "\<not> CHR 0x80 \<le> CHR ''9''"
    by code_simp+
  have "list_all (\<lambda>c. c < CHR 0x80) ''-_.~+%''" by code_simp
  then have rest: "c \<in> set ''-_.~+%'' \<Longrightarrow> c < CHR 0x80" for c by (simp only: list_all_iff)
  have "c < CHR 0x80" if "unreserved c \<or> c = CHR ''+'' \<or> c = CHR ''%''" for c
  proof (rule ccontr)
    assume "\<not> c < CHR 0x80"
    then have c: "CHR 0x80 \<le> c" by simp
    then have "\<not> c \<le> CHR ''z''" "\<not> c \<le> CHR ''Z''" "\<not> c \<le> CHR ''9''"
      using small by (meson order_trans)+
    then have "c \<in> set ''-_.~+%''" using that unfolding unreserved_def by auto
    then show False using rest c by fastforce
  qed
  then show ?thesis using QueryEscape_safe by (auto simp: ascii_def list_all_iff)
qed

abbreviation ascii_runes :: "string \<Rightarrow> rune list" where
  "ascii_runes s \<equiv> map (\<lambda>c. ([c], True)) s"

lemma in_name_class: "in_class name_class r \<longleftrightarrow> r = '','' \<or> r = ''/''"
  by (auto simp: in_class_def name_class_def)

text \<open>The rest after a variable starts with a separator, or is empty.\<close>

lemma separated_rest:
  assumes "separated (SExpr e # segs)" and "\<forall>seg \<in> set segs. valid_segment seg"
  shows "runes (concat (map (expand_segment v) segs)) = [] \<or>
    in_class name_class (rune_value (hd (runes (concat (map (expand_segment v) segs)))))"
proof (cases segs)
  case (Cons seg segs')
  then obtain l where seg: "seg = SLit l" and l: "HasPrefix l ''/'' \<or> HasPrefix l '',''"
    using assms(1) by (cases seg) auto
  then obtain c l' where "l = c # l'" and c: "c = CHR ''/'' \<or> c = CHR '',''"
    by (cases l) (auto simp: HasPrefix_def)
  moreover have "ascii [c]" using c by (auto simp: ascii_def)
  ultimately have "hd (runes (concat (map (expand_segment v) segs))) = ([c], True)"
    using Cons seg runes_ascii_append [of "[c]"] by simp
  then show ?thesis using c by (auto simp: in_name_class rune_value_def)
qed simp

fun segment_captures :: "(string \<Rightarrow> string) \<Rightarrow> segment \<Rightarrow> rune list list" where
  "segment_captures v (SLit l) = []"
| "segment_captures v (SExpr e) = [ascii_runes (QueryEscape (v e))]"

lemma match_segments:
  assumes "\<forall>seg \<in> set segs. valid_segment seg" and "separated segs"
    and "\<forall>e. SExpr e \<in> set segs \<longrightarrow> v e \<noteq> []"
  shows "first_match n (cat_all (concat (map segment_res segs) @ [Eol]))
    (runes (concat (map (expand_segment v) segs))) (concat (map (segment_captures v) segs)) []"
  using assms
proof (induction segs)
  case Nil
  then show ?case by (simp add: first_match_def)
next
  case (Cons seg segs)
  have ih: "first_match n (cat_all (concat (map segment_res segs) @ [Eol]))
    (runes (concat (map (expand_segment v) segs))) (concat (map (segment_captures v) segs)) []"
    using Cons.prems by (intro Cons.IH) (cases seg; auto)+
  let ?rest = "runes (concat (map (expand_segment v) segs))"
  have valid: "\<forall>seg \<in> set segs. valid_segment seg" using Cons.prems(1) by simp
  show ?case
  proof (cases seg)
    case (SLit l)
    have "drop_lits (map fst (runes l)) (runes l @ ?rest) = Some ?rest"
      using Cons.prems(1) SLit by (intro drop_lits_same) (simp add: ValidString_def)
    then show ?thesis
      using first_match_lits [OF _ ih, of "map fst (runes l)" "runes l @ ?rest"] Cons.prems(1) SLit
      by (simp add: runes_append)
  next
    case (SExpr e)
    let ?v = "ascii_runes (QueryEscape (v e))"
    have "CHR '','' \<notin> set (QueryEscape (v e))" "CHR ''/'' \<notin> set (QueryEscape (v e))"
      by (rule QueryEscape_excludes, simp)+
    then have "\<forall>x \<in> set ?v. in_class name_class (rune_value x) \<noteq> True"
      by (auto simp: in_name_class rune_value_def)
    moreover have "?v \<noteq> []" using Cons.prems(3) SExpr by simp
    moreover have "?rest = [] \<or> in_class name_class (rune_value (hd ?rest)) = True"
      using separated_rest [OF _ valid] Cons.prems(2) SExpr by simp
    ultimately have "first_match n (Group (Plus (Class True name_class))) (?v @ ?rest) [?v] ?rest"
      by (intro first_match_group)
    from first_match_cat_all [OF this ih] show ?thesis
      using SExpr QueryEscape_ascii by (simp add: runes_ascii_append)
  qed
qed

lemma text_of_ascii: "text_of (ascii_runes s) = s"
  by (induction s) (simp_all add: text_of_def)

fun segment_names :: "segment \<Rightarrow> string list" where
  "segment_names (SLit l) = []"
| "segment_names (SExpr e) = [e]"

lemma part_names_simple:
  assumes "\<forall>seg \<in> set segs. simple_segment seg"
  shows "concat (map part_names (map part_of segs)) = map (\<lambda>e. (e, False)) (concat (map segment_names segs))"
  using assms
proof (induction segs)
  case (Cons seg segs)
  then show ?case
    using simple_part(1,2) by (cases seg) (simp_all add: part_names_def)
qed simp

lemma bind_simple:
  assumes "\<forall>e \<in> set es. DeleteByte CHR ''*'' e = e"
  shows "bind_captures (map (\<lambda>e. (e, False)) es) (map f es) e = (if e \<in> set es then Some (GString (f e)) else None)"
proof -
  have "fold (\<lambda>((name, exploded), value) m. m(DeleteByte CHR ''*'' name \<mapsto> captured exploded value))
      (zip (map (\<lambda>e. (e, False)) es) (map f es)) m e = (if e \<in> set es then Some (GString (f e)) else m e)" for m
    using assms by (induction es arbitrary: m) (auto simp: captured_def)
  then show ?thesis by (simp add: bind_captures_def)
qed

lemma captures_text:
  "map text_of (concat (map (segment_captures v) segs)) = map (\<lambda>e. QueryEscape (v e)) (concat (map segment_names segs))"
proof (induction segs)
  case (Cons seg segs)
  then show ?case by (cases seg) (simp_all add: text_of_ascii)
qed simp

lemma segment_names_set: "e \<in> set (concat (map segment_names segs)) \<longleftrightarrow> SExpr e \<in> set segs"
proof (induction segs)
  case (Cons seg segs)
  then show ?case by (cases seg) auto
qed simp

lemma length_match_pattern:
  assumes "\<forall>seg \<in> set segs. simple_segment seg"
  shows "length (concat (map part_pattern (map part_of segs))) \<le> 2 * length (show_segments segs) + 9 * expr_count segs"
proof -
  have q: "length (QuoteMeta l) \<le> 2 * length l" for l
    by (induction l) (auto simp: QuoteMeta_def)
  show ?thesis
    using assms
  proof (induction segs)
    case (Cons seg segs)
    then show ?case
    proof (cases seg)
      case (SLit l)
      then show ?thesis
        using Cons q [of l] by (simp add: show_segments_def expr_count_def part_pattern_def escapeRegExp_def)
    next
      case (SExpr e)
      then show ?thesis
        using Cons simple_part(1) [of e] by (simp add: show_segments_def expr_count_def part_pattern_def)
    qed
  qed (simp add: show_segments_def)
qed

section \<open>Properties\<close>

text \<open>C19: Matching undoes expansion up to the encoding: for a template of plain variables, each followed
  by the end or by text that starts with a slash or a comma, expanding it with non-empty values and
  matching the result binds exactly the template's variables, each to its value as it was encoded
  (\<open>Match\<close> does not decode). The bounds keep the URI and the pattern below the code's limits.\<close>

theorem Match_Expand:
  assumes "wf_segments segs" and "\<forall>s \<in> set segs. simple_segment s \<and> valid_segment s" and "separated segs"
    and "2 * length (show_segments segs) + 9 * expr_count segs + 2 \<le> MaxRegexLength"
    and "expr_count segs \<le> MaxTemplateExpressions"
    and "\<forall>e. SExpr e \<in> set segs \<longrightarrow> vars e = Some (GString (v e)) \<and> v e \<noteq> [] \<and> length (v e) \<le> MaxVariableLength"
    and "length (concat (map (expand_segment v) segs)) \<le> MaxTemplateLength"
  shows "\<exists>ut uri m. NewUriTemplate (show_segments segs) = Ok ut \<and> Expand other ut vars = Ok uri \<and>
    Match ut uri = Ok (Some m) \<and>
    (\<forall>e. m e = (if SExpr e \<in> set segs then Some (GString (QueryEscape (v e))) else None))"
proof -
  let ?ut = "\<lparr>ut_template = show_segments segs, ut_parts = map part_of segs\<rparr>"
  let ?uri = "concat (map (expand_segment v) segs)"
  let ?es = "concat (map segment_names segs)"
  have new: "NewUriTemplate (show_segments segs) = Ok ?ut"
    using assms(1,4,5) by (intro NewUriTemplate_show) (simp_all add: MaxRegexLength_def MaxTemplateLength_def)
  have expand: "Expand other ?ut vars = Ok ?uri"
    using expand_loop_simple [of segs vars v other "[]" False] assms(2,6) by (simp add: Expand_def)
  have short: "length (match_pattern ?ut) \<le> MaxRegexLength"
    using length_match_pattern [of segs] assms(2,4) by (simp add: match_pattern_def)
  let ?re = "cat_all (Bol # concat (map segment_res segs) @ [Eol])"
  have "first_match (length (runes ?uri)) ?re (runes ?uri) ([] @ concat (map (segment_captures v) segs)) []"
    by (rule first_match_cat_all [OF _ match_segments]) (use assms(2,3,6) in \<open>auto simp: first_match_def\<close>)
  from find_from_first [OF this]
  have "FindStringSubmatch ?re ?uri = Some (?uri # map (\<lambda>e. QueryEscape (v e)) ?es)"
    using captures_text [of v segs] by (simp add: FindStringSubmatch_def submatch_def text_of_runes)
  then have "Match ?ut ?uri = Ok (Some (bind_captures (map (\<lambda>e. (e, False)) ?es) (map (\<lambda>e. QueryEscape (v e)) ?es)))"
    using short assms(7) compile_simple [OF assms(2)] part_names_simple [of segs] assms(2)
    by (simp add: Match_def validateLength_def)
  moreover have "\<forall>e \<in> set ?es. DeleteByte CHR ''*'' e = e"
    using assms(2) simple_part(3) segment_names_set [of _ segs] by blast
  ultimately show ?thesis
    using new expand bind_simple [of ?es "\<lambda>e. QueryEscape (v e)"] segment_names_set [of _ segs] by auto
qed

theorem Match_Expand_witness:
  "\<exists>ut uri m. NewUriTemplate ''/users/{id}/posts'' = Ok ut \<and>
    Expand (\<lambda>_. []) ut [''id'' \<mapsto> GString ''a b''] = Ok uri \<and> Match ut uri = Ok (Some m) \<and>
    m ''id'' = Some (GString ''a+b'')"
proof -
  let ?segs = "[SLit ''/users/'', SExpr ''id'', SLit ''/posts'']"
  have q: "QueryEscape ''a b'' = ''a+b''" by code_simp
  have v: "ValidString ''/users/''" "ValidString ''/posts''"
    by (rule ascii_valid, code_simp)+
  show ?thesis
    using Match_Expand [of ?segs "[''id'' \<mapsto> GString ''a b'']" "\<lambda>_. ''a b''" "\<lambda>_. []"] q v
    by (force simp: show_segments_def expr_count_def MaxTemplateLength_def MaxTemplateExpressions_def
        MaxVariableLength_def MaxRegexLength_def names_id)
qed

end
