(* ===== verification/Resource_Template.thy ===== *)
theory Resource_Template
  imports Mcp_Server Uri_Match
begin

text \<open>
  \<open>server/resource_template.go\<close>: the registry of resource templates, and the functions that match,
  validate and expand URI templates with regular expressions of their own. Templates and their
  registrations are objects that callers share: the state keeps both in stores, and the registry
  and a registration hold indices. Callbacks are functions to an outcome; a list callback that
  returns no error returns a result. How often the change callback was called is counted.
\<close>

named_theorems rtr_simps "definitions of the template registry"

section \<open>Regular expressions\<close>

definition MustCompile :: "string \<Rightarrow> re" where
  "MustCompile pat = (case Compile pat of Some re \<Rightarrow> re | None \<Rightarrow> Eps)"

text \<open>The two literals \<open>\{([+#./;?&]?)([^}]+)(\*?)\}\<close> and its variant for empty names.\<close>

definition varRegex_text :: string where
  "varRegex_text = [CHR 0x5C] @ ''{([+#./;?&]?)([^}]+)('' @ [CHR 0x5C] @ ''*?)'' @ [CHR 0x5C] @ ''}''"

definition varRegex_empty_text :: string where
  "varRegex_empty_text = [CHR 0x5C] @ ''{([+#./;?&]?)([^}]*)('' @ [CHR 0x5C] @ ''*?)'' @ [CHR 0x5C] @ ''}''"

definition varRegex_expand_text :: string where
  "varRegex_expand_text = [CHR 0x5C] @ ''{([+#./;?&]?)([^}*]+)('' @ [CHR 0x5C] @ ''*?)'' @ [CHR 0x5C] @ ''}''"

definition nameRegex_text :: string where
  "nameRegex_text = ''^[a-zA-Z_][a-zA-Z0-9_]*$''"

definition template_matches :: "string \<Rightarrow> string \<Rightarrow> string list list" where
  "template_matches regex template = FindAllStringSubmatch (MustCompile regex) template"

section \<open>Matching a URI\<close>

definition match_replacement :: "string \<Rightarrow> string \<Rightarrow> string" where
  "match_replacement operator modifier =
     (if operator = ''+'' then ''(.+)''
      else if operator = ''#'' then ''#([^?]*)''
      else if operator = ''.'' then [CHR 0x5C] @ ''.([^./]+)''
      else if operator = ''/'' then (if modifier = ''*'' then ''(/.*)'' else ''/([^/]+)'')
      else if operator = '';'' then '';([^;?&#]+)''
      else if operator = ''?'' \<or> operator = ''&'' then ''[?&]([^&#]+)''
      else ''([^/]+)'')"

definition build_pattern :: "string \<Rightarrow> string list list \<Rightarrow> string" where
  "build_pattern template ms =
     fold (\<lambda>m pat. ReplaceFirst pat (QuoteMeta (m ! 0)) (match_replacement (m ! 1) (m ! 3)))
       ms (QuoteMeta template)"

text \<open>The prefix of the operator is cut off the value.\<close>

definition clean_value :: "string \<Rightarrow> string \<Rightarrow> string" where
  "clean_value operator value =
     (if operator = ''/'' \<and> HasPrefix value ''/'' then drop 1 value
      else if operator = ''.'' \<and> HasPrefix value ''.'' then drop 1 value
      else if operator = ''#'' \<and> HasPrefix value ''#'' then drop 1 value
      else value)"

definition matchesTemplate :: "string \<Rightarrow> string \<Rightarrow> (string \<rightharpoonup> string) \<times> bool" where
  "matchesTemplate uri template =
     (let ms = template_matches varRegex_text template
      in if ms = [] then (Map.empty, uri = template)
         else (case Compile (''^'' @ build_pattern template ms @ ''$'') of
                 None \<Rightarrow> (Map.empty, False)
               | Some regex \<Rightarrow>
                   (case FindStringSubmatch regex uri of
                      None \<Rightarrow> (Map.empty, False)
                    | Some sub \<Rightarrow>
                        (fold (\<lambda>(m, value) vars. vars(m ! 2 \<mapsto> clean_value (m ! 1) value))
                           (zip ms (tl sub)) Map.empty, True))))"

section \<open>Variables, validation and expansion\<close>

definition ExtractTemplateVariables :: "string \<Rightarrow> string list" where
  "ExtractTemplateVariables uriTemplate =
     fold (\<lambda>m vars. if m ! 2 \<in> set vars then vars else vars @ [m ! 2])
       (template_matches varRegex_text uriTemplate) []"

text \<open>The pass over the braces; a rune that is a brace is a byte that is one.\<close>

fun brace_error :: "string \<Rightarrow> string \<Rightarrow> int \<Rightarrow> string option" where
  "brace_error uriTemplate [] depth =
     (if depth > 0 then Some (''unmatched opening brace in URI template: '' @ uriTemplate) else None)"
| "brace_error uriTemplate (c # cs) depth =
     (if c = CHR ''{'' then
        (if depth + 1 > 1 then Some (''nested braces not allowed in URI template: '' @ uriTemplate)
         else brace_error uriTemplate cs (depth + 1))
      else if c = CHR ''}'' then
        (if depth - 1 < 0 then Some (''unmatched closing brace in URI template: '' @ uriTemplate)
         else brace_error uriTemplate cs (depth - 1))
      else brace_error uriTemplate cs depth)"

definition name_error :: "string \<Rightarrow> string list \<Rightarrow> string option" where
  "name_error uriTemplate m =
     (if m ! 2 = [] then Some (''empty variable name in URI template: '' @ uriTemplate)
      else if \<not> MatchString (MustCompile nameRegex_text) (m ! 2) then
        Some (''invalid variable name '' @ [CHR 0x27] @ m ! 2 @ [CHR 0x27] @ '' in URI template: '' @ uriTemplate)
      else None)"

definition ValidateURITemplate :: "string \<Rightarrow> string option" where
  "ValidateURITemplate uriTemplate =
     (if uriTemplate = [] then Some ''URI template cannot be empty''
      else case brace_error uriTemplate uriTemplate 0 of
             Some e \<Rightarrow> Some e
           | None \<Rightarrow>
               (case List.map_filter (name_error uriTemplate) (template_matches varRegex_empty_text uriTemplate) of
                  e # _ \<Rightarrow> Some e | [] \<Rightarrow> None))"

definition expand_replacement :: "string \<Rightarrow> string \<Rightarrow> string \<Rightarrow> string" where
  "expand_replacement operator varName value =
     (if operator = ''+'' then value
      else if operator = ''#'' then ''#'' @ value
      else if operator = ''.'' then ''.'' @ value
      else if operator = ''/'' then ''/'' @ value
      else if operator = '';'' then '';'' @ varName @ ''='' @ value
      else if operator = ''?'' then ''?'' @ varName @ ''='' @ value
      else if operator = ''&'' then ''&'' @ varName @ ''='' @ value
      else value)"

fun expand_matches :: "string \<Rightarrow> (string \<rightharpoonup> string) \<Rightarrow> string list list \<Rightarrow> string \<Rightarrow> string outcome" where
  "expand_matches uriTemplate vars [] result = Ok result"
| "expand_matches uriTemplate vars (m # ms) result =
     (case vars (m ! 2) of
        None \<Rightarrow> Err (''variable '' @ m ! 2 @ '' not provided for template '' @ uriTemplate)
      | Some value \<Rightarrow>
          expand_matches uriTemplate vars ms
            (ReplaceFirst result (m ! 0) (expand_replacement (m ! 1) (m ! 2) value)))"

definition ExpandURITemplate :: "string \<Rightarrow> (string \<rightharpoonup> string) \<Rightarrow> string outcome" where
  "ExpandURITemplate uriTemplate vars =
     (case ValidateURITemplate uriTemplate of
        Some e \<Rightarrow> Err e
      | None \<Rightarrow> expand_matches uriTemplate vars (template_matches varRegex_expand_text uriTemplate) uriTemplate)"

section \<open>The registry\<close>

type_synonym list_callback = "resource list outcome"
type_synonym complete_callback = "string \<Rightarrow> arguments \<Rightarrow> string list outcome"
type_synonym template_read_callback = "string \<Rightarrow> resource_content list outcome"

record resource_template =
  rtp_URITemplate :: string
  rtp_Description :: string
  rtp_MimeType :: string
  rtp_Name :: string
  rtp_ListCallback :: "list_callback option"
  rtp_CompleteCallbacks :: "(string \<rightharpoonup> complete_callback) option"

text \<open>\<open>rgt_name\<close> is the name that the remove function of a registration captured.\<close>

record registered_template =
  rgt_Template :: nat
  rgt_ReadCallback :: "template_read_callback option"
  rgt_Enabled :: bool
  rgt_name :: string

record template_update =
  upd_Description :: "string option"
  upd_MimeType :: "string option"
  upd_Enabled :: "bool option"
  upd_ReadCallback :: "template_read_callback option"
  upd_ListCallback :: "list_callback option"
  upd_CompleteCallbacks :: "(string \<rightharpoonup> complete_callback) option"

record rtr_state =
  rtr_templates :: "string \<rightharpoonup> nat"
  rtr_objects :: "resource_template list"
  rtr_registered :: "registered_template list"
  rtr_callback :: bool
  rtr_notified :: nat

definition NewResourceTemplateRegistry :: "resource_template list \<Rightarrow> rtr_state" where
  "NewResourceTemplateRegistry objects =
     \<lparr>rtr_templates = Map.empty, rtr_objects = objects, rtr_registered = [], rtr_callback = False,
      rtr_notified = 0\<rparr>"

definition SetResourceListChangedCallback :: "bool \<Rightarrow> rtr_state \<Rightarrow> rtr_state" where
  "SetResourceListChangedCallback present s = s\<lparr>rtr_callback := present\<rparr>"

definition list_changed :: "rtr_state \<Rightarrow> rtr_state" where
  "list_changed s = (if rtr_callback s then s\<lparr>rtr_notified := rtr_notified s + 1\<rparr> else s)"

definition object_update :: "nat \<Rightarrow> (resource_template \<Rightarrow> resource_template) \<Rightarrow> rtr_state \<Rightarrow> rtr_state" where
  "object_update t f s = s\<lparr>rtr_objects := (rtr_objects s)[t := f (rtr_objects s ! t)]\<rparr>"

definition registered_update :: "nat \<Rightarrow> (registered_template \<Rightarrow> registered_template) \<Rightarrow> rtr_state \<Rightarrow> rtr_state" where
  "registered_update a f s = s\<lparr>rtr_registered := (rtr_registered s)[a := f (rtr_registered s ! a)]\<rparr>"

definition or_else :: "'a option \<Rightarrow> 'a \<Rightarrow> 'a" where
  "or_else x y = (case x of Some a \<Rightarrow> a | None \<Rightarrow> y)"

definition Update :: "nat \<Rightarrow> template_update \<Rightarrow> rtr_state \<Rightarrow> rtr_state" where
  "Update a upd s =
     (let s1 = object_update (rgt_Template (rtr_registered s ! a))
                 (\<lambda>t. t\<lparr>rtp_Description := or_else (upd_Description upd) (rtp_Description t),
                       rtp_MimeType := or_else (upd_MimeType upd) (rtp_MimeType t),
                       rtp_ListCallback := (if upd_ListCallback upd \<noteq> None then upd_ListCallback upd
                                            else rtp_ListCallback t),
                       rtp_CompleteCallbacks := (if upd_CompleteCallbacks upd \<noteq> None
                                                 then upd_CompleteCallbacks upd
                                                 else rtp_CompleteCallbacks t)\<rparr>) s;
          s2 = registered_update a
                 (\<lambda>r. r\<lparr>rgt_ReadCallback := (if upd_ReadCallback upd \<noteq> None then upd_ReadCallback upd
                                            else rgt_ReadCallback r),
                       rgt_Enabled := or_else (upd_Enabled upd) (rgt_Enabled r)\<rparr>) s1
      in list_changed s2)"

definition no_update :: template_update where
  "no_update = \<lparr>upd_Description = None, upd_MimeType = None, upd_Enabled = None,
     upd_ReadCallback = None, upd_ListCallback = None, upd_CompleteCallbacks = None\<rparr>"

definition Enable :: "nat \<Rightarrow> rtr_state \<Rightarrow> rtr_state" where
  "Enable a s = Update a (no_update\<lparr>upd_Enabled := Some True\<rparr>) s"

definition Disable :: "nat \<Rightarrow> rtr_state \<Rightarrow> rtr_state" where
  "Disable a s = Update a (no_update\<lparr>upd_Enabled := Some False\<rparr>) s"

definition IsEnabled :: "nat \<Rightarrow> rtr_state \<Rightarrow> bool" where
  "IsEnabled a s = rgt_Enabled (rtr_registered s ! a)"

text \<open>The template is given by the caller's pointer \<open>t\<close>, and its name is overwritten.\<close>

definition RegisterTemplate ::
  "string \<Rightarrow> nat \<Rightarrow> template_read_callback \<Rightarrow> rtr_state \<Rightarrow> rtr_state \<times> nat outcome" where
  "RegisterTemplate name t readCallback s =
     (if rtr_templates s name \<noteq> None then
        (s, Err (''resource template '' @ name @ '' is already registered''))
      else
        (let a = length (rtr_registered s);
             s1 = object_update t (\<lambda>x. x\<lparr>rtp_Name := name\<rparr>) s
         in (list_changed
               (s1\<lparr>rtr_registered := rtr_registered s1 @
                     [\<lparr>rgt_Template = t, rgt_ReadCallback = Some readCallback, rgt_Enabled = True,
                       rgt_name = name\<rparr>],
                   rtr_templates := (rtr_templates s1)(name \<mapsto> a)\<rparr>), Ok a)))"

definition UnregisterTemplate :: "string \<Rightarrow> rtr_state \<Rightarrow> rtr_state" where
  "UnregisterTemplate name s = list_changed (s\<lparr>rtr_templates := (rtr_templates s)(name := None)\<rparr>)"

definition RemoveTemplate :: "nat \<Rightarrow> rtr_state \<Rightarrow> rtr_state" where
  "RemoveTemplate a s = UnregisterTemplate (rgt_name (rtr_registered s ! a)) s"

definition GetTemplate :: "string \<Rightarrow> rtr_state \<Rightarrow> nat option" where
  "GetTemplate name s = rtr_templates s name"

text \<open>The loops over the map visit the names in the order \<open>ks\<close>.\<close>

definition template_of :: "rtr_state \<Rightarrow> nat \<Rightarrow> string" where
  "template_of s a = rtp_URITemplate (rtr_objects s ! rgt_Template (rtr_registered s ! a))"

definition enabled_templates :: "string list \<Rightarrow> rtr_state \<Rightarrow> nat list" where
  "enabled_templates ks s = filter (\<lambda>a. IsEnabled a s) (range_values (rtr_templates s) ks)"

definition ListTemplates :: "string list \<Rightarrow> rtr_state \<Rightarrow> nat list" where
  "ListTemplates ks s = map (\<lambda>a. rgt_Template (rtr_registered s ! a)) (enabled_templates ks s)"

fun find_template :: "string \<Rightarrow> rtr_state \<Rightarrow> nat list \<Rightarrow> (nat \<times> (string \<rightharpoonup> string)) outcome" where
  "find_template uri s [] = Err (''no template found for URI: '' @ uri)"
| "find_template uri s (a # as) =
     (if \<not> IsEnabled a s then find_template uri s as
      else (case matchesTemplate uri (template_of s a) of
              (vars, matched) \<Rightarrow> if matched then Ok (a, vars) else find_template uri s as))"

definition FindTemplateForURI :: "string list \<Rightarrow> string \<Rightarrow> rtr_state \<Rightarrow> (nat \<times> (string \<rightharpoonup> string)) outcome" where
  "FindTemplateForURI ks uri s = find_template uri s (range_values (rtr_templates s) ks)"

definition with_defaults :: "resource_template \<Rightarrow> resource \<Rightarrow> resource" where
  "with_defaults t r =
     r\<lparr>res_Description := (if res_Description r = [] \<and> rtp_Description t \<noteq> [] then rtp_Description t
                            else res_Description r),
       res_MimeType := (if res_MimeType r = [] \<and> rtp_MimeType t \<noteq> [] then rtp_MimeType t
                         else res_MimeType r)\<rparr>"

fun list_resources :: "resource_template list \<Rightarrow> resource list outcome" where
  "list_resources [] = Ok []"
| "list_resources (t # ts) =
     (case rtp_ListCallback t of
        None \<Rightarrow> list_resources ts
      | Some (Err e) \<Rightarrow> Err (''error listing resources for template '' @ rtp_Name t @ '': '' @ e)
      | Some (Panic p) \<Rightarrow> Panic p
      | Some (Ok rs) \<Rightarrow>
          (case list_resources ts of
             Ok rs' \<Rightarrow> Ok (map (with_defaults t) rs @ rs') | Err e \<Rightarrow> Err e | Panic p \<Rightarrow> Panic p))"

definition rtr_ListResources :: "string list \<Rightarrow> rtr_state \<Rightarrow> resource list outcome" where
  "rtr_ListResources ks s =
     list_resources (map (\<lambda>a. rtr_objects s ! rgt_Template (rtr_registered s ! a)) (enabled_templates ks s))"

definition CompleteParameter ::
  "string \<Rightarrow> string \<Rightarrow> string \<Rightarrow> arguments \<Rightarrow> rtr_state \<Rightarrow> string list outcome" where
  "CompleteParameter templateName parameterName value ctxt s =
     (case rtr_templates s templateName of
        None \<Rightarrow> Err (''template not found: '' @ templateName)
      | Some a \<Rightarrow>
          if \<not> IsEnabled a s then Err (''template is disabled: '' @ templateName)
          else (case rtp_CompleteCallbacks (rtr_objects s ! rgt_Template (rtr_registered s ! a)) of
                  None \<Rightarrow> Ok []
                | Some callbacks \<Rightarrow>
                    (case callbacks parameterName of
                       None \<Rightarrow> Ok []
                     | Some callback \<Rightarrow> callback value ctxt)))"

section \<open>Lemmas on expressions in braces\<close>

text \<open>The compiled regular expressions.\<close>

definition op_class :: "(string \<times> string) list" where
  "op_class = [(''&'', ''&''), (''?'', ''?''), ('';'', '';''), (''/'', ''/''), (''.'', ''.''), (''#'', ''#''), (''+'', ''+'')]"

definition op_group :: re where
  "op_group = Group (Opt (Class False op_class))"

definition star_group :: re where
  "star_group = Group (Opt (Lit ''*''))"

definition var_re :: "re \<Rightarrow> re" where
  "var_re name = Cat (Lit ''{'') (Cat op_group (Cat (Group name) (Cat star_group (Lit ''}''))))"

lemma compile_ascii: "ascii pat \<Longrightarrow> Compile pat = parse_re (map (\<lambda>c. [c]) pat) [FGroup True []]"
  by (simp add: Compile_def ascii_valid runes_ascii comp_def)

lemma punct_braces: "punct ''{''" "punct ''}''" "punct ''*''"
  by (rule ascii_special [THEN conjunct2], simp add: special_bytes_def)+

lemma compile_varRegex: "MustCompile varRegex_text = var_re (Plus (Class True [(''}'', ''}'')]))"
proof -
  have "ascii varRegex_text" by code_simp
  then have "Compile varRegex_text = parse_re (map (\<lambda>c. [c]) varRegex_text) [FGroup True []]"
    by (rule compile_ascii)
  also have "\<dots> = Some (var_re (Plus (Class True [(''}'', ''}'')])))"
    by (simp add: varRegex_text_def punct_braces close_group_def var_re_def op_group_def star_group_def op_class_def)
  finally show ?thesis by (simp add: MustCompile_def)
qed

lemma compile_varRegex_empty:
  "MustCompile varRegex_empty_text = var_re (Star (Class True [(''}'', ''}'')]))"
proof -
  have "ascii varRegex_empty_text" by code_simp
  then have "Compile varRegex_empty_text = parse_re (map (\<lambda>c. [c]) varRegex_empty_text) [FGroup True []]"
    by (rule compile_ascii)
  also have "\<dots> = Some (var_re (Star (Class True [(''}'', ''}'')])))"
    by (simp add: varRegex_empty_text_def punct_braces close_group_def var_re_def op_group_def star_group_def op_class_def)
  finally show ?thesis by (simp add: MustCompile_def)
qed

lemma compile_varRegex_expand:
  "MustCompile varRegex_expand_text = var_re (Plus (Class True [(''*'', ''*''), (''}'', ''}'')]))"
proof -
  have "ascii varRegex_expand_text" by code_simp
  then have "Compile varRegex_expand_text = parse_re (map (\<lambda>c. [c]) varRegex_expand_text) [FGroup True []]"
    by (rule compile_ascii)
  also have "\<dots> = Some (var_re (Plus (Class True [(''*'', ''*''), (''}'', ''}'')])))"
    by (simp add: varRegex_expand_text_def punct_braces close_group_def var_re_def op_group_def star_group_def op_class_def)
  finally show ?thesis by (simp add: MustCompile_def)
qed

abbreviation lb :: rune where "lb \<equiv> (''{'', True)"
abbreviation rb :: rune where "rb \<equiv> (''}'', True)"

definition is_op :: "rune \<Rightarrow> bool" where
  "is_op r \<longleftrightarrow> in_class op_class (rune_value r)"

lemma is_op_iff: "is_op r \<longleftrightarrow> rune_value r \<in> {''+'', ''#'', ''.'', ''/'', '';'', ''?'', ''&''}"
  by (auto simp: is_op_def op_class_def)

lemma rmatch_op_group:
  "rmatch n op_group (q # b) = (if is_op q then [([[q]], b), ([[]], q # b)] else [([[]], q # b)])"
  by (simp add: op_group_def is_op_def)

text \<open>The rest of an expression after its operator: the name, no modifier, and the brace.\<close>

definition name_tail :: "re \<Rightarrow> re" where
  "name_tail name = Cat (Group name) (Cat star_group (Lit ''}''))"

lemma var_re_unfold: "var_re name = Cat (Lit ''{'') (Cat op_group (name_tail name))"
  by (simp add: var_re_def name_tail_def)

lemma first_match_tail:
  assumes "first_match n (Group name) (v @ rb # rest) [v] (rb # rest)"
  shows "first_match n (name_tail name) (v @ rb # rest) [v, []] rest"
proof -
  have "first_match n (Cat star_group (Lit ''}'')) (rb # rest) [[]] rest"
    by (simp add: first_match_def star_group_def)
  from first_match_Cat [OF assms this] show ?thesis by (simp add: name_tail_def)
qed

lemma first_match_op:
  assumes "first_match n X b c r" and "is_op q"
  shows "first_match n (Cat (Lit ''{'') (Cat op_group X)) (lb # q # b) ([q] # c) r"
  using assms by (auto simp: first_match_def rmatch_op_group)

lemma first_match_no_op:
  assumes "first_match n X (q # b) c r" and "\<not> is_op q \<or> rmatch n X b = []"
  shows "first_match n (Cat (Lit ''{'') (Cat op_group X)) (lb # q # b) ([] # c) r"
  using assms by (auto simp: first_match_def rmatch_op_group)

text \<open>How the body of an expression is divided, for names of one byte or more and for empty ones.\<close>

fun split_plus :: "rune list \<Rightarrow> rune list \<times> rune list" where
  "split_plus [] = ([], [])"
| "split_plus (q # b) = (if is_op q \<and> b \<noteq> [] then ([q], b) else ([], q # b))"

fun split_star :: "rune list \<Rightarrow> rune list \<times> rune list" where
  "split_star [] = ([], [])"
| "split_star (q # b) = (if is_op q then ([q], b) else ([], q # b))"

lemma var_match_plus:
  assumes "b \<noteq> []" and "\<forall>x \<in> set b. \<not> in_class cls (rune_value x)" and "in_class cls ''}''"
  shows "first_match n (var_re (Plus (Class True cls))) (lb # b @ rb # rest)
    [fst (split_plus b), snd (split_plus b), []] rest"
proof -
  let ?name = "Plus (Class True cls)"
  have tail: "first_match n (name_tail ?name) (v @ rb # rest) [v, []] rest" if "v \<noteq> []" "set v \<subseteq> set b" for v
    using that assms(2,3) by (intro first_match_tail first_match_group) auto
  obtain q b' where b: "b = q # b'" using assms(1) by (cases b) auto
  show ?thesis
  proof (cases "is_op q \<and> b' \<noteq> []")
    case True
    then show ?thesis
      using first_match_op [OF tail [of b'], of q] b by (simp add: var_re_unfold) blast
  next
    case False
    have "rmatch n (Group ?name) (rb # rest) = []"
      using assms(3) by (simp add: rmatch_group_class class_run_def del: rmatch.simps)
    then have "rmatch n (name_tail ?name) (rb # rest) = []"
      by (simp add: name_tail_def del: rmatch.simps(11))
    then show ?thesis
      using first_match_no_op [OF tail [of b, unfolded b append_Cons]] False b
      by (auto simp: var_re_unfold)
  qed
qed

lemma var_match_star:
  assumes "b \<noteq> []" and "\<forall>x \<in> set b. \<not> in_class cls (rune_value x)" and "in_class cls ''}''"
  shows "first_match n (var_re (Star (Class True cls))) (lb # b @ rb # rest)
    [fst (split_star b), snd (split_star b), []] rest"
proof -
  let ?name = "Star (Class True cls)"
  have tail: "first_match n (name_tail ?name) (v @ rb # rest) [v, []] rest" if "set v \<subseteq> set b" for v
    using that assms(2,3) by (intro first_match_tail first_match_group_star) auto
  obtain q b' where b: "b = q # b'" using assms(1) by (cases b) auto
  show ?thesis
  proof (cases "is_op q")
    case True
    then show ?thesis
      using first_match_op [OF tail [of b'], of q] b by (simp add: var_re_unfold) blast
  next
    case False
    then show ?thesis
      using first_match_no_op [OF tail [of b, unfolded b append_Cons]] b
      by (auto simp: var_re_unfold)
  qed
qed

lemma find_from_skip:
  "\<forall>x \<in> set l. rune_value x \<noteq> ''{'' \<Longrightarrow> find_from n (var_re name) (l @ t) = find_from n (var_re name) t"
  by (induction l) (simp_all add: var_re_def)

lemma find_from_none: "\<forall>x \<in> set l. rune_value x \<noteq> ''{'' \<Longrightarrow> find_from n (var_re name) l = None"
  using find_from_skip [of l n name "[]"] by (simp add: var_re_def)


subsection \<open>Templates as segments\<close>

text \<open>A template divided into literal text and the bodies of its expressions, none with a brace.\<close>

datatype rt_segment = RLit string | RExpr string

fun show_rt_segment :: "rt_segment \<Rightarrow> string" where
  "show_rt_segment (RLit l) = l"
| "show_rt_segment (RExpr b) = ''{'' @ b @ ''}''"

definition show_template :: "rt_segment list \<Rightarrow> string" where
  "show_template segs = concat (map show_rt_segment segs)"

definition brace_free :: "string \<Rightarrow> bool" where
  "brace_free l \<longleftrightarrow> CHR ''{'' \<notin> set l \<and> CHR ''}'' \<notin> set l"

fun seg_text :: "rt_segment \<Rightarrow> string" where
  "seg_text (RLit l) = l"
| "seg_text (RExpr b) = b"

fun seg_bodies :: "rt_segment \<Rightarrow> string list" where
  "seg_bodies (RLit l) = []"
| "seg_bodies (RExpr b) = [b]"

definition template_bodies :: "rt_segment list \<Rightarrow> string list" where
  "template_bodies segs = concat (map seg_bodies segs)"

definition brace_free_template :: "rt_segment list \<Rightarrow> bool" where
  "brace_free_template segs \<longleftrightarrow> list_all (brace_free \<circ> seg_text) segs"

text \<open>A body divided into its operator and its name.\<close>

definition operators :: string where
  "operators = ''+#./;?&''"

fun split_body :: "string \<Rightarrow> string \<times> string" where
  "split_body [] = ([], [])"
| "split_body (c # cs) = (if c \<in> set operators then ([c], cs) else ([], c # cs))"

lemma show_template_simps [simp]:
  "show_template [] = []"
  "show_template (seg # segs) = show_rt_segment seg @ show_template segs"
  by (simp_all add: show_template_def)

lemma template_bodies_simps [simp]:
  "template_bodies [] = []"
  "template_bodies (seg # segs) = seg_bodies seg @ template_bodies segs"
  by (simp_all add: template_bodies_def)

lemma brace_free_template_simps [simp]:
  "brace_free_template []"
  "brace_free_template (seg # segs) \<longleftrightarrow> brace_free (seg_text seg) \<and> brace_free_template segs"
  by (simp_all add: brace_free_template_def)

lemma brace_free_append [simp]: "brace_free (a @ b) \<longleftrightarrow> brace_free a \<and> brace_free b"
  by (auto simp: brace_free_def)

lemma brace_free_Nil [simp]: "brace_free []"
  by (simp add: brace_free_def)

lemma brace_free_runes:
  assumes "brace_free l" and "r \<in> set (runes l)"
  shows "rune_value r \<noteq> ''{'' \<and> rune_value r \<noteq> ''}''"
  using assms rune_value_byte [of r l] by (auto simp: brace_free_def)

lemma runes_body: "runes (''{'' @ b @ ''}'' @ t) = lb # runes b @ rb # runes t"
proof -
  have "runes (b @ CHR ''}'' # t) = runes b @ runes (CHR ''}'' # t)"
    by (rule runes_append_ascii) (simp add: ascii_start_def)
  then show ?thesis by (simp add: runes_ascii_Cons)
qed

text \<open>The operator is the first byte of the body: a rune that is an operator is a byte.\<close>

lemma is_op_byte:
  assumes "runes (c # cs) = q # rs"
  shows "is_op q \<longleftrightarrow> c \<in> set operators" and "is_op q \<Longrightarrow> q = ([c], True) \<and> rs = runes cs"
proof -
  have ops: "is_op q \<longleftrightarrow> (\<exists>x \<in> set operators. rune_value q = [x])"
    by (auto simp: is_op_iff operators_def)
  have c: "text_of (q # rs) = c # cs" using assms text_of_runes [of "c # cs"] by simp
  have op: "q = ([c], True) \<and> rs = runes cs \<and> c \<in> set operators" if isop: "is_op q"
  proof -
    obtain x where x: "x \<in> set operators" "rune_value q = [x]" using ops isop by blast
    have "q \<in> set (runes (c # cs))" using assms by (metis list.set_intros(1))
    then have "q = ([x], True)" using rune_value_byte x by blast
    with c have "x = c" and q: "q = ([c], True)" by (auto simp: text_of_def)
    have "set operators \<subseteq> {c. c < CHR 0x80}" by (simp add: operators_def)
    with x \<open>x = c\<close> have "c < CHR 0x80" by blast
    then show ?thesis using assms x \<open>x = c\<close> by (simp add: runes_ascii_Cons)
  qed
  show "is_op q \<longleftrightarrow> c \<in> set operators"
  proof
    assume "c \<in> set operators"
    moreover have "set operators \<subseteq> {c. c < CHR 0x80}" by (simp add: operators_def)
    ultimately have "q = ([c], True)" using assms by (auto simp: runes_ascii_Cons)
    then show "is_op q" using ops \<open>c \<in> set operators\<close> by simp
  qed (use op in blast)
  show "is_op q \<Longrightarrow> q = ([c], True) \<and> rs = runes cs" using op by blast
qed

lemma split_star_body:
  "text_of (fst (split_star (runes b))) = fst (split_body b) \<and>
   text_of (snd (split_star (runes b))) = snd (split_body b)"
proof (cases b)
  case (Cons c cs)
  obtain q rs where qs: "runes (c # cs) = q # rs" by (cases "runes (c # cs)") (simp_all add: Let_def split: prod.splits)
  have t: "text_of (q # rs) = c # cs" using qs text_of_runes [of "c # cs"] by simp
  show ?thesis
    using is_op_byte [OF qs] t qs Cons
    by (cases "is_op q") (auto simp: text_of_runes text_of_def simp del: runes.simps)
qed (simp add: text_of_def)

lemma find_all_segments:
  assumes "\<And>b rest. b \<in> set (template_bodies segs) \<Longrightarrow>
      first_match n (var_re name) (lb # runes b @ rb # rest) [f b, g b, []] rest"
    and "brace_free_template segs" and "brace_free l"
  shows "find_all n (var_re name) (runes (l @ show_template segs)) =
    map (\<lambda>b. [''{'' @ b @ ''}'', text_of (f b), text_of (g b), []]) (template_bodies segs)"
  using assms
proof (induction segs arbitrary: l)
  case Nil
  then have "find_from n (var_re name) (runes l) = None"
    using brace_free_runes by (intro find_from_none) blast
  then show ?case by (simp add: find_all.simps)
next
  case (Cons seg segs)
  show ?case
  proof (cases seg)
    case (RLit s)
    then show ?thesis using Cons.IH [of "l @ s"] Cons.prems by simp
  next
    case (RExpr b)
    let ?t = "lb # runes b @ rb # runes (show_template segs)"
    have m: "first_match n (var_re name) ?t [f b, g b, []] (runes (show_template segs))"
      using Cons.prems(1) [of b] RExpr by simp
    have r: "runes (l @ show_template (seg # segs)) = runes l @ ?t"
    proof -
      have "runes (l @ show_template (seg # segs)) = runes l @ runes (show_template (seg # segs))"
        using RExpr by (intro runes_append_ascii) (simp add: ascii_start_def)
      then show ?thesis using RExpr runes_body [of b "show_template segs"] by simp
    qed
    have "find_from n (var_re name) (runes l @ ?t) = Some (?t, [f b, g b, []], runes (show_template segs))"
      using find_from_skip [of "runes l" n name ?t] find_from_first [OF m] brace_free_runes Cons.prems(3)
      by (simp del: find_from.simps)
    moreover have "find_all n (var_re name) (runes (show_template segs)) =
        map (\<lambda>b. [''{'' @ b @ ''}'', text_of (f b), text_of (g b), []]) (template_bodies segs)"
      using Cons.IH [of "[]"] Cons.prems by simp
    moreover have "text_of (lb # runes b @ [rb]) = ''{'' @ b @ ''}''"
      using text_of_runes [of b] by (simp add: text_of_def)
    ultimately show ?thesis
      unfolding r using RExpr
      by (subst find_all.simps) (simp add: submatch_def text_of_def)
  qed
qed


subsection \<open>The check of the braces\<close>

lemma brace_error_template:
  "brace_free l \<Longrightarrow> brace_free_template segs \<Longrightarrow> brace_error u (l @ show_template segs) 0 = None"
proof (induction segs arbitrary: l)
  case Nil
  have "brace_error u l 0 = None" if "brace_free l" for l
    using that by (induction l) (auto simp: brace_free_def)
  with Nil show ?case by simp
next
  case (Cons seg segs)
  have body: "brace_error u (b @ CHR ''}'' # t) 1 = brace_error u t 0" if "brace_free b" for b t
    using that by (induction b) (auto simp: brace_free_def)
  have lit: "brace_error u (l @ t) 0 = brace_error u t 0" if "brace_free l" for l t
    using that by (induction l) (auto simp: brace_free_def)
  show ?case
    using Cons.prems Cons.IH [of "[]"] by (cases seg) (auto simp: lit body)
qed

lemma brace_error_segments:
  "brace_error u t d = None \<Longrightarrow>
     (d = 0 \<longrightarrow> (\<exists>segs. t = show_template segs \<and> brace_free_template segs)) \<and>
     (d = 1 \<longrightarrow> (\<exists>b segs. t = b @ ''}'' @ show_template segs \<and> brace_free b \<and> brace_free_template segs))"
proof (induction u t d rule: brace_error.induct)
  case (1 u d)
  have "[] = show_template [] \<and> brace_free_template []" by simp
  with 1 show ?case by (metis brace_error.simps(1) option.distinct(1) zero_less_one)
next
  case (2 u c cs d)
  consider (open_) "c = CHR ''{''" | (close) "c = CHR ''}''" | (other) "c \<noteq> CHR ''{''" "c \<noteq> CHR ''}''" by blast
  then show ?case
  proof cases
    case open_
    have "\<exists>segs. c # cs = show_template segs \<and> brace_free_template segs" if zero: "d = 0"
    proof -
      obtain b segs where "cs = b @ ''}'' @ show_template segs" "brace_free b" "brace_free_template segs"
        using 2 zero open_ by auto
      then have "c # cs = show_template (RExpr b # segs) \<and> brace_free_template (RExpr b # segs)"
        using open_ by simp
      then show ?thesis by blast
    qed
    then show ?thesis using 2 open_ by auto
  next
    case close
    have "\<exists>b segs. c # cs = b @ ''}'' @ show_template segs \<and> brace_free b \<and> brace_free_template segs" if one: "d = 1"
    proof -
      obtain segs where "cs = show_template segs" "brace_free_template segs"
        using 2 one close by auto
      then have "c # cs = [] @ ''}'' @ show_template segs \<and> brace_free [] \<and> brace_free_template segs"
        using close by simp
      then show ?thesis by blast
    qed
    then show ?thesis using 2 close by auto
  next
    case other
    have free: "brace_free [c]" using other by (simp add: brace_free_def)
    have "\<exists>segs. c # cs = show_template segs \<and> brace_free_template segs" if zero: "d = 0"
    proof -
      obtain segs where "cs = show_template segs" "brace_free_template segs"
        using 2 zero other by auto
      then have "c # cs = show_template (RLit [c] # segs) \<and> brace_free_template (RLit [c] # segs)"
        using free by simp
      then show ?thesis by blast
    qed
    moreover have "\<exists>b segs. c # cs = b @ ''}'' @ show_template segs \<and> brace_free b \<and> brace_free_template segs" if one: "d = 1"
    proof -
      obtain b segs where "cs = b @ ''}'' @ show_template segs" "brace_free b" "brace_free_template segs"
        using 2 one other by auto
      then have "c # cs = (c # b) @ ''}'' @ show_template segs \<and> brace_free (c # b) \<and> brace_free_template segs"
        using free brace_free_append [of "[c]" b] by simp
      then show ?thesis by blast
    qed
    ultimately show ?thesis by blast
  qed
qed

lemma brace_error_iff:
  "brace_error u t 0 = None \<longleftrightarrow> (\<exists>segs. t = show_template segs \<and> brace_free_template segs)"
  using brace_error_segments [of u t 0] brace_error_template [of "[]" _ u] by force

subsection \<open>Names\<close>

definition byte_range :: "char \<Rightarrow> char \<Rightarrow> char \<Rightarrow> bool" where
  "byte_range lo hi c \<longleftrightarrow> lo \<le> c \<and> c \<le> hi"

definition name_start :: "char \<Rightarrow> bool" where
  "name_start c \<longleftrightarrow> c = CHR ''_'' \<or> byte_range CHR ''A'' CHR ''Z'' c \<or> byte_range CHR ''a'' CHR ''z'' c"

definition name_rest :: "char \<Rightarrow> bool" where
  "name_rest c \<longleftrightarrow> byte_range CHR ''0'' CHR ''9'' c \<or> name_start c"

definition is_identifier :: "string \<Rightarrow> bool" where
  "is_identifier s \<longleftrightarrow> s \<noteq> [] \<and> name_start (hd s) \<and> list_all name_rest (tl s)"

definition start_class :: "(string \<times> string) list" where
  "start_class = [(''_'', ''_''), (''A'', ''Z''), (''a'', ''z'')]"

definition rest_class :: "(string \<times> string) list" where
  "rest_class = [(''_'', ''_''), (''0'', ''9''), (''A'', ''Z''), (''a'', ''z'')]"

definition name_re :: re where
  "name_re = Cat Bol (Cat (Class False start_class) (Cat (Star (Class False rest_class)) Eol))"

lemma compile_nameRegex: "MustCompile nameRegex_text = name_re"
proof -
  have "ascii nameRegex_text" by code_simp
  then have "Compile nameRegex_text = parse_re (map (\<lambda>c. [c]) nameRegex_text) [FGroup True []]"
    by (rule compile_ascii)
  also have "\<dots> = Some name_re"
    by (simp add: nameRegex_text_def name_re_def start_class_def rest_class_def)
  finally show ?thesis by (simp add: MustCompile_def)
qed


lemma rune_cases:
  "r \<in> set (runes s) \<Longrightarrow>
     (\<exists>c. r = ([c], True) \<and> c < CHR 0x80) \<or> (\<exists>c cs. rune_value r = c # cs \<and> \<not> c < CHR 0x80)"
proof (induction s rule: runes.induct)
  case (2 c cs)
  obtain n v where nv: "rune_size (c # cs) = (n, v)" by (cases "rune_size (c # cs)")
  have n: "0 < n" using rune_size_bounds [OF nv] by simp
  have here: "(\<exists>c. r = ([c], True) \<and> c < CHR 0x80) \<or> (\<exists>c cs. rune_value r = c # cs \<and> \<not> c < CHR 0x80)"
    if "r = (take n (c # cs), v)"
  proof (cases "c < CHR 0x80")
    case True
    then show ?thesis using nv that by auto
  next
    case False
    have "\<not> CHR 0xEF < CHR 0x80" by code_simp
    moreover obtain k where "n = Suc k" using n by (cases n) auto
    ultimately show ?thesis using that False by (cases v) (auto simp: rune_value_def)
  qed
  show ?case using 2 nv here by (auto simp: Let_def simp del: rune_size.simps)
qed simp

lemma name_small: "name_start c \<Longrightarrow> c < CHR 0x80" "name_rest c \<Longrightarrow> c < CHR 0x80"
proof -
  have z: "CHR ''z'' < CHR 0x80" "CHR ''Z'' < CHR 0x80" "CHR ''9'' < CHR 0x80" "CHR ''_'' < CHR 0x80"
    by code_simp+
  show rest: "name_rest c \<Longrightarrow> c < CHR 0x80"
    using z by (auto simp: name_rest_def name_start_def byte_range_def elim: order_le_less_trans)
  then show "name_start c \<Longrightarrow> c < CHR 0x80" by (simp add: name_rest_def)
qed

lemma name_class_byte:
  "in_class start_class [c] \<longleftrightarrow> name_start c" "in_class rest_class [c] \<longleftrightarrow> name_rest c"
proof -
  have le: "[a] \<le> [b] \<longleftrightarrow> a \<le> b" for a b :: char by (simp add: order_le_less)
  show "in_class start_class [c] \<longleftrightarrow> name_start c" "in_class rest_class [c] \<longleftrightarrow> name_rest c"
    by (auto simp: in_class_def start_class_def rest_class_def name_start_def name_rest_def byte_range_def le simp del: Cons_le_Cons)
qed

lemma name_class_high:
  assumes "\<not> c < CHR 0x80"
  shows "\<not> in_class start_class (c # cs)" "\<not> in_class rest_class (c # cs)"
proof -
  have z: "CHR ''z'' < CHR 0x80" "CHR ''Z'' < CHR 0x80" "CHR ''9'' < CHR 0x80" "CHR ''_'' < CHR 0x80"
    by code_simp+
  have high: "\<not> c # cs \<le> [d]" "c # cs \<noteq> [d]" if "d < CHR 0x80" for d
    using assms that by (auto dest: order_less_trans)
  show "\<not> in_class start_class (c # cs)" "\<not> in_class rest_class (c # cs)"
    by (simp_all add: in_class_def start_class_def rest_class_def high z del: Cons_le_Cons)
qed

lemma name_classes:
  assumes "r \<in> set (runes s)"
  shows "in_class start_class (rune_value r) \<longleftrightarrow> (\<exists>c. r = ([c], True) \<and> name_start c)"
    and "in_class rest_class (rune_value r) \<longleftrightarrow> (\<exists>c. r = ([c], True) \<and> name_rest c)"
  using rune_cases [OF assms] name_class_high name_small by (auto simp: name_class_byte)

lemma concat_map_nonempty: "concat (map f xs) \<noteq> [] \<longleftrightarrow> (\<exists>x \<in> set xs. f x \<noteq> [])"
  by (induction xs) auto

lemma rmatch_name_re:
  "rmatch n name_re s \<noteq> [] \<longleftrightarrow> length s = n \<and> (\<exists>q b. s = q # b \<and> in_class start_class (rune_value q) \<and>
     (\<forall>x \<in> set b. in_class rest_class (rune_value x)))"
proof -
  have star: "rmatch n (Cat (Star (Class False rest_class)) Eol) b \<noteq> [] \<longleftrightarrow>
      (\<forall>x \<in> set b. in_class rest_class (rune_value x))" for b
  proof -
    have "rmatch n (Cat (Star (Class False rest_class)) Eol) b =
        concat (map (\<lambda>k. if drop k b = [] then [([], drop k b)] else []) (rev [0..<Suc (class_run False rest_class b)]))"
      by (simp add: rmatch_star_class comp_def del: rmatch.simps(9) upt_Suc)
    also have "\<dots> \<noteq> [] \<longleftrightarrow> (\<exists>k \<in> {0..<Suc (class_run False rest_class b)}. drop k b = [])"
      unfolding concat_map_nonempty by (auto simp del: upt_Suc split: if_splits)
    also have "\<dots> \<longleftrightarrow> length b \<le> class_run False rest_class b"
      by (rule iffI, force, rule bexI [of _ "class_run False rest_class b"]) auto
    also have "\<dots> \<longleftrightarrow> class_run False rest_class b = length b"
      using class_run_le [of False rest_class b] by auto
    also have "\<dots> \<longleftrightarrow> (\<forall>x \<in> set b. in_class rest_class (rune_value x))"
      by (induction b) (auto simp: class_run_def)
    finally show ?thesis .
  qed
  show ?thesis
    using star by (cases s) (auto simp: name_re_def simp del: rmatch.simps(9))
qed

lemma find_from_name_re: "length s \<le> n \<Longrightarrow> find_from n name_re s \<noteq> None \<longleftrightarrow> rmatch n name_re s \<noteq> []"
proof (induction s)
  case (Cons x s)
  then have "rmatch n name_re s = []" using rmatch_name_re [of n s] by auto
  with Cons show ?case by (auto split: list.splits)
qed (auto split: list.splits)

lemma identifier_runes:
  "is_identifier s \<longleftrightarrow> (\<exists>q b. runes s = q # b \<and> in_class start_class (rune_value q) \<and>
     (\<forall>x \<in> set b. in_class rest_class (rune_value x)))"
proof
  assume "is_identifier s"
  then obtain c cs where s: "s = c # cs" "name_start c" "list_all name_rest cs"
    by (cases s) (auto simp: is_identifier_def)
  then have "ascii s" using name_small by (auto simp: ascii_def list_all_iff)
  then have r: "runes s = map (\<lambda>c. ([c], True)) s" by (rule runes_ascii)
  have "in_class start_class (rune_value ([c], True))"
    using s by (simp add: name_class_byte)
  moreover have "in_class rest_class (rune_value ([d], True))" if "d \<in> set cs" for d
    using s that by (simp add: name_class_byte list_all_iff)
  ultimately show "\<exists>q b. runes s = q # b \<and> in_class start_class (rune_value q) \<and>
     (\<forall>x \<in> set b. in_class rest_class (rune_value x))"
    using r s by auto
next
  assume "\<exists>q b. runes s = q # b \<and> in_class start_class (rune_value q) \<and>
     (\<forall>x \<in> set b. in_class rest_class (rune_value x))"
  then obtain q b where r: "runes s = q # b" and q: "in_class start_class (rune_value q)"
    and b: "\<forall>x \<in> set b. in_class rest_class (rune_value x)" by blast
  have q_in: "q \<in> set (runes s)" and b_in: "set b \<subseteq> set (runes s)" unfolding r by auto
  obtain c where c: "q = ([c], True)" "name_start c" using name_classes(1) [OF q_in] q by auto
  have "\<forall>x \<in> set b. \<exists>d. x = ([d], True) \<and> name_rest d" using name_classes(2) [of _ s] b b_in by blast
  then have "\<exists>cs. text_of b = cs \<and> list_all name_rest cs"
    by (induction b) (auto simp: text_of_def)
  moreover have "s = c # text_of b" using text_of_runes [of s] r c by (simp add: text_of_def)
  ultimately show "is_identifier s" using c by (simp add: is_identifier_def)
qed

lemma MatchString_name: "MatchString (MustCompile nameRegex_text) s \<longleftrightarrow> is_identifier s"
  using find_from_name_re [of "runes s" "length (runes s)"]
  by (simp add: MatchString_def FindStringSubmatch_def compile_nameRegex rmatch_name_re identifier_runes)


subsection \<open>Valid templates\<close>

definition body_name :: "string \<Rightarrow> string" where
  "body_name b = snd (split_body b)"

definition valid_template :: "rt_segment list \<Rightarrow> bool" where
  "valid_template segs \<longleftrightarrow>
     brace_free_template segs \<and> list_all (is_identifier \<circ> body_name) (template_bodies segs)"

lemma template_body_free:
  "brace_free_template segs \<Longrightarrow> b \<in> set (template_bodies segs) \<Longrightarrow> brace_free b"
proof (induction segs)
  case (Cons seg segs)
  then show ?case by (cases seg) auto
qed simp

lemma var_match_empty:
  "first_match n (var_re (Star (Class True [(''}'', ''}'')]))) (lb # rb # rest) [[], [], []] rest"
proof -
  have g: "first_match n (Group (Star (Class True [(''}'', ''}'')]))) ([] @ rb # rest) [[]] (rb # rest)"
    by (rule first_match_group_star) simp_all
  have "first_match n (name_tail (Star (Class True [(''}'', ''}'')]))) (rb # rest) [[], []] rest"
    using first_match_tail [OF g] by simp
  from first_match_no_op [OF this] show ?thesis by (simp add: var_re_unfold is_op_iff)
qed

lemma matches_empty_text:
  assumes "brace_free_template segs"
  shows "template_matches varRegex_empty_text (show_template segs) =
    map (\<lambda>b. [''{'' @ b @ ''}'', fst (split_body b), body_name b, []]) (template_bodies segs)"
proof -
  have m: "first_match n (var_re (Star (Class True [(''}'', ''}'')]))) (lb # runes b @ rb # rest)
      [fst (split_star (runes b)), snd (split_star (runes b)), []] rest"
    if b: "b \<in> set (template_bodies segs)" for n b rest
  proof (cases "runes b = []")
    case True
    then show ?thesis using var_match_empty by simp
  next
    case False
    have "\<forall>x \<in> set (runes b). \<not> in_class [(''}'', ''}'')] (rune_value x)"
      using brace_free_runes [OF template_body_free [OF assms b]] by simp
    then show ?thesis by (rule var_match_star [OF False]) simp
  qed
  show ?thesis
    using find_all_segments [of segs _ _ "\<lambda>b. fst (split_star (runes b))" "\<lambda>b. snd (split_star (runes b))" "[]",
        OF m assms] split_star_body
    by (simp add: template_matches_def compile_varRegex_empty FindAllStringSubmatch_def body_name_def)
qed

lemma map_filter_None: "List.map_filter f xs = [] \<longleftrightarrow> (\<forall>x \<in> set xs. f x = None)"
  by (induction xs) (auto simp: List.map_filter_simps split: option.splits)

lemma name_error_None: "name_error u m = None \<longleftrightarrow> is_identifier (m ! 2)"
  by (simp add: name_error_def MatchString_name is_identifier_def)

lemma first_of_None: "(case xs of e # _ \<Rightarrow> Some e | [] \<Rightarrow> None) = None \<longleftrightarrow> xs = []"
  by (cases xs) auto

lemma ValidateURITemplate_segments:
  assumes "brace_free_template segs"
  shows "ValidateURITemplate (show_template segs) = None \<longleftrightarrow> show_template segs \<noteq> [] \<and> valid_template segs"
  using assms brace_error_template [of "[]" segs]
  by (simp add: ValidateURITemplate_def matches_empty_text first_of_None map_filter_None name_error_None
      valid_template_def list_all_iff)

subsection \<open>Expansion\<close>

definition expand_body :: "(string \<rightharpoonup> string) \<Rightarrow> string \<Rightarrow> string" where
  "expand_body vars b = expand_replacement (fst (split_body b)) (body_name b) (the (vars (body_name b)))"

fun expand_rt_segment :: "(string \<rightharpoonup> string) \<Rightarrow> rt_segment \<Rightarrow> string" where
  "expand_rt_segment vars (RLit l) = l"
| "expand_rt_segment vars (RExpr b) = expand_body vars b"

definition expand_template :: "(string \<rightharpoonup> string) \<Rightarrow> rt_segment list \<Rightarrow> string" where
  "expand_template vars segs = concat (map (expand_rt_segment vars) segs)"

definition template_names :: "rt_segment list \<Rightarrow> string list" where
  "template_names segs = map body_name (template_bodies segs)"

lemma split_body_app: "fst (split_body b) @ body_name b = b"
  by (cases b) (auto simp: body_name_def)

lemma split_body_op: "set (fst (split_body b)) \<subseteq> set operators"
  by (cases b) auto

lemma identifier_bytes: "is_identifier s \<Longrightarrow> c \<in> set s \<Longrightarrow> name_rest c"
  by (cases s) (auto simp: is_identifier_def name_rest_def list_all_iff)

lemma split_plus_star:
  assumes "body_name b \<noteq> []"
  shows "split_plus (runes b) = split_star (runes b)"
proof (cases "runes b")
  case (Cons q rs)
  have "text_of (snd (split_star (runes b))) \<noteq> []" using assms split_star_body [of b] by (simp add: body_name_def)
  then show ?thesis using Cons by (auto simp: text_of_def)
qed simp

lemma matches_expand_text:
  assumes "valid_template segs"
  shows "template_matches varRegex_expand_text (show_template segs) =
    map (\<lambda>b. [''{'' @ b @ ''}'', fst (split_body b), body_name b, []]) (template_bodies segs)"
proof -
  have free: "brace_free_template segs" using assms by (simp add: valid_template_def)
  have m: "first_match n (var_re (Plus (Class True [(''*'', ''*''), (''}'', ''}'')]))) (lb # runes b @ rb # rest)
      [fst (split_star (runes b)), snd (split_star (runes b)), []] rest"
    if b: "b \<in> set (template_bodies segs)" for n b rest
  proof -
    have id: "is_identifier (body_name b)" using assms b by (simp add: valid_template_def list_all_iff)
    then have ne: "body_name b \<noteq> []" by (simp add: is_identifier_def)
    have "\<not> name_rest CHR ''*''" "CHR ''*'' \<notin> set operators"
      by (code_simp, simp add: operators_def)
    then have "CHR ''*'' \<notin> set b"
      using split_body_app [of b] split_body_op [of b] identifier_bytes [OF id]
      by (metis Un_iff set_append subsetD)
    then have "\<forall>x \<in> set (runes b). \<not> in_class [(''*'', ''*''), (''}'', ''}'')] (rune_value x)"
      using brace_free_runes [OF template_body_free [OF free b]] rune_value_byte [of _ b] by auto
    moreover have "runes b \<noteq> []" using ne split_body_app [of b] text_of_runes [of b] by (auto simp: text_of_def)
    ultimately show ?thesis
      using var_match_plus [of "runes b" "[(''*'', ''*''), (''}'', ''}'')]"] split_plus_star [OF ne] by simp
  qed
  show ?thesis
    using find_all_segments [of segs _ _ "\<lambda>b. fst (split_star (runes b))" "\<lambda>b. snd (split_star (runes b))" "[]",
        OF m free] split_star_body
    by (simp add: template_matches_def compile_varRegex_expand FindAllStringSubmatch_def body_name_def)
qed


lemma ReplaceFirst_at:
  assumes "c \<notin> set p"
  shows "ReplaceFirst (p @ (c # old) @ t) (c # old) new = p @ new @ t"
proof -
  have "Index (p @ (c # old) @ t) (c # old) = Some (length p)"
    using assms
  proof (induction p)
    case Nil
    show ?case using HasPrefix_append [of "c # old" t] by simp
  next
    case (Cons x p)
    then have "\<not> HasPrefix ((x # p) @ (c # old) @ t) (c # old)" by auto
    with Cons show ?case by simp
  qed
  then show ?thesis by (simp add: ReplaceFirst_def)
qed

lemma operators_no_brace: "CHR ''{'' \<notin> set operators"
  by (simp add: operators_def)

lemma expand_body_no_brace:
  assumes "is_identifier (body_name b)" and "vars (body_name b) = Some v" and "CHR ''{'' \<notin> set v"
  shows "CHR ''{'' \<notin> set (expand_body vars b)"
proof -
  have "\<not> name_rest CHR ''{''" by code_simp
  then have "CHR ''{'' \<notin> set (body_name b)" using identifier_bytes [OF assms(1)] by blast
  then show ?thesis using assms(2,3) by (auto simp: expand_body_def expand_replacement_def split: if_splits)
qed

lemma expand_matches_segments:
  assumes "valid_template segs" and "CHR ''{'' \<notin> set p"
    and "\<And>n v. n \<in> set (template_names segs) \<Longrightarrow> vars n = Some v \<Longrightarrow> CHR ''{'' \<notin> set v"
  shows "expand_matches u vars
      (map (\<lambda>b. [''{'' @ b @ ''}'', fst (split_body b), body_name b, []]) (template_bodies segs))
      (p @ show_template segs) =
    (case List.find (\<lambda>n. vars n = None) (template_names segs) of
       Some n \<Rightarrow> Err (''variable '' @ n @ '' not provided for template '' @ u)
     | None \<Rightarrow> Ok (p @ expand_template vars segs))"
  using assms
proof (induction segs arbitrary: p)
  case Nil
  then show ?case by (simp add: template_names_def expand_template_def)
next
  case (Cons seg segs)
  show ?case
  proof (cases seg)
    case (RLit l)
    then have "valid_template segs" "CHR ''{'' \<notin> set (p @ l)" "template_names (seg # segs) = template_names segs"
      using Cons.prems(1,2) by (auto simp: valid_template_def brace_free_def template_names_def)
    then show ?thesis
      using Cons.IH [of "p @ l"] Cons.prems(3) RLit by (simp add: expand_template_def split: option.split)
  next
    case (RExpr b)
    have b: "is_identifier (body_name b)" "valid_template segs"
      using Cons.prems(1) RExpr by (auto simp: valid_template_def)
    have n: "template_names (seg # segs) = body_name b # template_names segs"
      using RExpr by (simp add: template_names_def)
    show ?thesis
    proof (cases "vars (body_name b)")
      case None
      then show ?thesis using RExpr n by simp
    next
      case (Some v)
      have new: "CHR ''{'' \<notin> set (p @ expand_body vars b)"
        using expand_body_no_brace [of b vars v, OF b(1) Some] Cons.prems(2) Cons.prems(3) [of "body_name b" v] Some n
        by simp
      have names: "CHR ''{'' \<notin> set v'" if "m \<in> set (template_names segs)" "vars m = Some v'" for m v'
        using Cons.prems(3) [OF _ that(2)] that(1) n by simp
      have "ReplaceFirst (p @ show_template (seg # segs)) (''{'' @ b @ ''}'')
          (expand_replacement (fst (split_body b)) (body_name b) v) = (p @ expand_body vars b) @ show_template segs"
        using ReplaceFirst_at [OF Cons.prems(2), of "b @ ''}''" "show_template segs"] RExpr Some
        by (simp add: expand_body_def)
      then show ?thesis
        using Cons.IH [OF b(2) new names] Some n RExpr by (simp add: expand_template_def split: option.split)
    qed
  qed
qed

subsection \<open>Lookups\<close>

definition answers :: "rtr_state \<Rightarrow> string \<Rightarrow> nat \<Rightarrow> bool" where
  "answers s uri a \<longleftrightarrow> (\<exists>name. rtr_templates s name = Some a) \<and> IsEnabled a s \<and>
     snd (matchesTemplate uri (template_of s a))"

lemma find_template_find:
  "find_template uri s as =
    (case List.find (\<lambda>a. IsEnabled a s \<and> snd (matchesTemplate uri (template_of s a))) as of
       None \<Rightarrow> Err (''no template found for URI: '' @ uri)
     | Some a \<Rightarrow> Ok (a, fst (matchesTemplate uri (template_of s a))))"
  by (induction as) (auto split: prod.splits)

lemma FindTemplateForURI_answers:
  assumes "range_order (rtr_templates s) ks"
  shows "case FindTemplateForURI ks uri s of
       Ok (a, vars) \<Rightarrow> answers s uri a \<and> matchesTemplate uri (template_of s a) = (vars, True)
     | Err e \<Rightarrow> {a. answers s uri a} = {} \<and> e = ''no template found for URI: '' @ uri
     | Panic p \<Rightarrow> False"
proof -
  let ?P = "\<lambda>a. IsEnabled a s \<and> snd (matchesTemplate uri (template_of s a))"
  have set: "set (range_values (rtr_templates s) ks) = {a. \<exists>name. rtr_templates s name = Some a}"
    unfolding set_range_values [OF assms] ran_def ..
  show ?thesis
  proof (cases "List.find ?P (range_values (rtr_templates s) ks)")
    case None
    then have "\<not> (\<exists>a. a \<in> set (range_values (rtr_templates s) ks) \<and> ?P a)" by (simp add: find_None_iff)
    with None set show ?thesis by (auto simp: FindTemplateForURI_def find_template_find answers_def)
  next
    case (Some a)
    then have "a \<in> set (range_values (rtr_templates s) ks)" "?P a"
      by (auto simp: find_Some_iff)
    with Some set show ?thesis by (auto simp: FindTemplateForURI_def find_template_find answers_def prod_eq_iff)
  qed
qed

lemma ExpandURITemplate_segments:
  assumes "valid_template segs" and "show_template segs \<noteq> []"
    and "\<And>n v. n \<in> set (template_names segs) \<Longrightarrow> vars n = Some v \<Longrightarrow> CHR ''{'' \<notin> set v"
  shows "ExpandURITemplate (show_template segs) vars =
    (case List.find (\<lambda>n. vars n = None) (template_names segs) of
       Some n \<Rightarrow> Err (''variable '' @ n @ '' not provided for template '' @ show_template segs)
     | None \<Rightarrow> Ok (expand_template vars segs))"
proof -
  have "ValidateURITemplate (show_template segs) = None"
    using ValidateURITemplate_segments [of segs] assms(1,2) by (simp add: valid_template_def)
  then show ?thesis
    using expand_matches_segments [OF assms(1), of "[]" vars] assms(3) matches_expand_text [OF assms(1)]
    by (simp add: ExpandURITemplate_def split: option.split)
qed

section \<open>Properties\<close>

text \<open>C17: \<open>ValidateURITemplate\<close> accepts exactly the templates that are not empty and divide into literal
  text without braces and expressions in braces, each an optional operator among \<open>+#./;?&\<close> followed
  by an identifier: a letter or an underscore, then letters, digits and underscores.\<close>

theorem ValidateURITemplate_iff:
  "ValidateURITemplate t = None \<longleftrightarrow> t \<noteq> [] \<and> (\<exists>segs. t = show_template segs \<and> valid_template segs)"
proof (cases "\<exists>segs. t = show_template segs \<and> brace_free_template segs")
  case True
  then obtain segs where segs: "t = show_template segs" "brace_free_template segs" by blast
  show ?thesis
  proof
    assume "ValidateURITemplate t = None"
    then show "t \<noteq> [] \<and> (\<exists>segs. t = show_template segs \<and> valid_template segs)"
      using ValidateURITemplate_segments [OF segs(2)] unfolding segs(1) by blast
  next
    assume "t \<noteq> [] \<and> (\<exists>segs. t = show_template segs \<and> valid_template segs)"
    then show "ValidateURITemplate t = None"
      using ValidateURITemplate_segments by (auto simp: valid_template_def)
  qed
next
  case False
  then have "brace_error t t 0 \<noteq> None" using brace_error_iff by blast
  then show ?thesis using False by (auto simp: ValidateURITemplate_def valid_template_def)
qed


text \<open>\<open>ExpandURITemplate\<close> on a valid template whose variables have values without an opening
  brace: the first variable without a value is reported, else every expression is replaced by its
  value as its operator formats it, in place, and the literal text is kept.\<close>

theorem ExpandURITemplate_expands:
  assumes "valid_template segs" and "show_template segs \<noteq> []"
    and "\<forall>n v. n \<in> set (template_names segs) \<and> vars n = Some v \<longrightarrow> CHR ''{'' \<notin> set v"
  shows "ExpandURITemplate (show_template segs) vars =
    (case List.find (\<lambda>n. vars n = None) (template_names segs) of
       Some n \<Rightarrow> Err (''variable '' @ n @ '' not provided for template '' @ show_template segs)
     | None \<Rightarrow> Ok (expand_template vars segs))"
  using assms(3) by (intro ExpandURITemplate_segments [OF assms(1,2)]) blast

theorem ExpandURITemplate_expands_witness:
  "ExpandURITemplate ''/u/{id}{?q}'' [''id'' \<mapsto> ''7'', ''q'' \<mapsto> ''x''] = Ok ''/u/7?q=x'' \<and>
   ExpandURITemplate ''/u/{id}{?q}'' [''q'' \<mapsto> ''x''] = Err ''variable id not provided for template /u/{id}{?q}''"
proof -
  let ?segs = "[RLit ''/u/'', RExpr ''id'', RExpr ''?q'']"
  have v: "valid_template ?segs" by code_simp
  show ?thesis
    using ExpandURITemplate_expands [OF v, of "[''id'' \<mapsto> ''7'', ''q'' \<mapsto> ''x'']"]
      ExpandURITemplate_expands [OF v, of "[''q'' \<mapsto> ''x'']"]
    by (simp add: template_names_def body_name_def operators_def expand_template_def expand_body_def
        expand_replacement_def)
qed

text \<open>A value is not inert: when the value of a variable is the text of a later expression, that
  text is what the later value replaces, and the later expression itself stays in the result. The
  expressions are replaced in the text already expanded, and not in the template.\<close>

theorem ExpandURITemplate_value_expanded:
  assumes "is_identifier a" and "is_identifier b" and "a \<noteq> b"
  shows "ExpandURITemplate (''{'' @ a @ ''}{'' @ b @ ''}'') [a \<mapsto> ''{'' @ b @ ''}'', b \<mapsto> v] =
    Ok (v @ ''{'' @ b @ ''}'')"
proof -
  let ?segs = "[RExpr a, RExpr b]"
  have op: "split_body x = ([], x)" if "is_identifier x" for x
  proof -
    have "\<not> name_start c" if "c \<in> set operators" for c
    proof -
      have "list_all (\<lambda>c. \<not> name_start c) operators" by code_simp
      then show ?thesis using that by (simp add: list_all_iff)
    qed
    then show ?thesis using that by (cases x) (auto simp: is_identifier_def)
  qed
  have free: "brace_free x" if "is_identifier x" for x
  proof -
    have "\<not> name_rest CHR ''{''" "\<not> name_rest CHR ''}''" by code_simp+
    then show ?thesis using identifier_bytes [OF that] by (auto simp: brace_free_def)
  qed
  have valid: "valid_template ?segs"
    using assms op free by (simp add: valid_template_def body_name_def)
  then have "ValidateURITemplate (show_template ?segs) = None"
    using ValidateURITemplate_segments [of ?segs] by (simp add: valid_template_def)
  then show ?thesis
    using matches_expand_text [OF valid] assms op
      ReplaceFirst_at [of "CHR ''{''" "[]" "a @ ''}''" "''{'' @ b @ ''}''" "''{'' @ b @ ''}''"]
      ReplaceFirst_at [of "CHR ''{''" "[]" "b @ ''}''" "''{'' @ b @ ''}''" v]
    by (simp add: ExpandURITemplate_def body_name_def expand_replacement_def)
qed

theorem ExpandURITemplate_value_expanded_witness:
  "ExpandURITemplate ''{a}{b}'' [''a'' \<mapsto> ''{b}'', ''b'' \<mapsto> ''x''] = Ok ''x{b}''"
proof -
  have "is_identifier ''a''" "is_identifier ''b''" by code_simp+
  from ExpandURITemplate_value_expanded [OF this, of "''x''"] show ?thesis by simp
qed


text \<open>\<open>FindTemplateForURI\<close> answers with a registered and enabled template that matches the URI, and with
  the variables this match bound, and it fails exactly when there is none. When several match, the
  order in which the loop visits the map decides: each of them is the answer in some order.\<close>

theorem FindTemplateForURI_any_order:
  assumes "range_order (rtr_templates s) ks"
  shows "(case FindTemplateForURI ks uri s of
       Ok (a, vars) \<Rightarrow> answers s uri a \<and> matchesTemplate uri (template_of s a) = (vars, True)
     | Err e \<Rightarrow> {a. answers s uri a} = {} \<and> e = ''no template found for URI: '' @ uri
     | Panic p \<Rightarrow> False) \<and>
   ((\<exists>ks' vars. range_order (rtr_templates s) ks' \<and> FindTemplateForURI ks' uri s = Ok (b, vars)) \<longleftrightarrow>
     answers s uri b)"
proof
  let ?P = "\<lambda>a. IsEnabled a s \<and> snd (matchesTemplate uri (template_of s a))"
  show "case FindTemplateForURI ks uri s of
       Ok (a, vars) \<Rightarrow> answers s uri a \<and> matchesTemplate uri (template_of s a) = (vars, True)
     | Err e \<Rightarrow> {a. answers s uri a} = {} \<and> e = ''no template found for URI: '' @ uri
     | Panic p \<Rightarrow> False"
    by (rule FindTemplateForURI_answers [OF assms])
  show "(\<exists>ks' vars. range_order (rtr_templates s) ks' \<and> FindTemplateForURI ks' uri s = Ok (b, vars)) \<longleftrightarrow>
     answers s uri b"
  proof
    assume "\<exists>ks' vars. range_order (rtr_templates s) ks' \<and> FindTemplateForURI ks' uri s = Ok (b, vars)"
    then obtain ks' vars where "range_order (rtr_templates s) ks'" "FindTemplateForURI ks' uri s = Ok (b, vars)" by blast
    then show "answers s uri b" using FindTemplateForURI_answers [of s ks' uri] by simp
  next
    assume ans: "answers s uri b"
    then obtain name where name: "rtr_templates s name = Some b" by (auto simp: answers_def)
    let ?ks = "name # filter (\<lambda>k. k \<noteq> name) ks"
    have "range_order (rtr_templates s) ?ks" using assms name by (auto simp: range_order_def)
    moreover have "FindTemplateForURI ?ks uri s = Ok (b, fst (matchesTemplate uri (template_of s b)))"
      using ans name by (auto simp: FindTemplateForURI_def find_template_find range_values_def answers_def
          List.map_filter_simps)
    ultimately show "\<exists>ks' vars. range_order (rtr_templates s) ks' \<and> FindTemplateForURI ks' uri s = Ok (b, vars)"
      by blast
  qed
qed

definition doc_template :: resource_template where
  "doc_template = \<lparr>rtp_URITemplate = ''doc'', rtp_Description = [], rtp_MimeType = [], rtp_Name = [],
     rtp_ListCallback = None, rtp_CompleteCallbacks = None\<rparr>"

definition two_templates :: rtr_state where
  "two_templates = (let s = NewResourceTemplateRegistry [doc_template, doc_template]
   in fst (RegisterTemplate ''b'' 1 (\<lambda>_. Ok []) (fst (RegisterTemplate ''a'' 0 (\<lambda>_. Ok []) s))))"

theorem FindTemplateForURI_any_order_witness:
  "(\<exists>ks vars. range_order (rtr_templates two_templates) ks \<and> FindTemplateForURI ks ''doc'' two_templates = Ok (0, vars)) \<and>
   (\<exists>ks vars. range_order (rtr_templates two_templates) ks \<and> FindTemplateForURI ks ''doc'' two_templates = Ok (1, vars))"
proof -
  have t: "rtr_templates two_templates = [''a'' \<mapsto> 0, ''b'' \<mapsto> 1]"
    "template_of two_templates 0 = ''doc''" "template_of two_templates 1 = ''doc''"
    "IsEnabled 0 two_templates" "IsEnabled 1 two_templates"
    by (simp_all add: two_templates_def doc_template_def NewResourceTemplateRegistry_def RegisterTemplate_def Let_def object_update_def
        list_changed_def template_of_def IsEnabled_def)
  have "brace_free ''doc''" by (simp add: brace_free_def)
  then have "find_from n (var_re name) (runes ''doc'') = None" for n name
    using brace_free_runes by (intro find_from_none) blast
  then have "template_matches varRegex_text ''doc'' = []"
    unfolding template_matches_def FindAllStringSubmatch_def compile_varRegex
    by (subst find_all.simps) simp
  then have m: "snd (matchesTemplate ''doc'' ''doc'')" by (simp add: matchesTemplate_def)
  have "rtr_templates two_templates ''a'' = Some 0" "rtr_templates two_templates ''b'' = Some 1"
    unfolding t(1) by simp_all
  then have a: "answers two_templates ''doc'' 0" "answers two_templates ''doc'' 1"
    unfolding answers_def t(2,3) using t(4,5) m by blast+
  have ro: "range_order (rtr_templates two_templates) [''a'', ''b'']"
    unfolding t(1) range_order_def by auto
  show ?thesis
    using FindTemplateForURI_any_order [OF ro, of "''doc''" 0] FindTemplateForURI_any_order [OF ro, of "''doc''" 1] a
    by blast
qed

text \<open>The remove function of a registration removes by name: after a template is unregistered and
  another one is registered under its name, removing the old registration takes the new one away,
  though the old registration is not in the registry.\<close>

theorem RemoveTemplate_stale:
  assumes "RegisterTemplate name t1 cb1 s = (s1, Ok a1)"
    and "RegisterTemplate name t2 cb2 (UnregisterTemplate name s1) = (s2, Ok a2)"
  shows "a1 \<noteq> a2 \<and> GetTemplate name s2 = Some a2 \<and> GetTemplate name (RemoveTemplate a1 s2) = None"
proof -
  have r: "rtr_registered (list_changed s) = rtr_registered s" "rtr_templates (list_changed s) = rtr_templates s" for s
    by (simp_all add: list_changed_def)
  have free: "rtr_templates s name = None" using assms(1) by (auto simp: RegisterTemplate_def split: if_splits)
  have a1: "a1 = length (rtr_registered s)" "rtr_registered s1 = rtr_registered s @
      [\<lparr>rgt_Template = t1, rgt_ReadCallback = Some cb1, rgt_Enabled = True, rgt_name = name\<rparr>]"
    using assms(1) free by (auto simp: RegisterTemplate_def Let_def r object_update_def)
  have "a2 = length (rtr_registered s1)" "rtr_templates s2 name = Some a2"
    "rtr_registered s2 = rtr_registered s1 @
      [\<lparr>rgt_Template = t2, rgt_ReadCallback = Some cb2, rgt_Enabled = True, rgt_name = name\<rparr>]"
    using assms(2) by (auto simp: RegisterTemplate_def UnregisterTemplate_def Let_def r object_update_def)
  then show ?thesis
    using a1 by (simp add: GetTemplate_def RemoveTemplate_def UnregisterTemplate_def r nth_append)
qed

theorem RemoveTemplate_stale_witness:
  "\<exists>s1 s2 a1 a2. RegisterTemplate ''docs'' 0 (\<lambda>_. Ok []) (NewResourceTemplateRegistry [doc_template, doc_template]) = (s1, Ok a1) \<and>
     RegisterTemplate ''docs'' 1 (\<lambda>_. Ok []) (UnregisterTemplate ''docs'' s1) = (s2, Ok a2) \<and>
     GetTemplate ''docs'' (RemoveTemplate a1 s2) = None"
proof -
  let ?s = "NewResourceTemplateRegistry [doc_template, doc_template]"
  have "\<exists>s1 a1. RegisterTemplate ''docs'' 0 (\<lambda>_. Ok []) ?s = (s1, Ok a1)"
    by (simp add: RegisterTemplate_def NewResourceTemplateRegistry_def Let_def)
  then obtain s1 a1 where r1: "RegisterTemplate ''docs'' 0 (\<lambda>_. Ok []) ?s = (s1, Ok a1)" by blast
  have "\<exists>s2 a2. RegisterTemplate ''docs'' 1 (\<lambda>_. Ok []) (UnregisterTemplate ''docs'' s1) = (s2, Ok a2)"
    by (simp add: RegisterTemplate_def UnregisterTemplate_def list_changed_def Let_def)
  then obtain s2 a2 where r2: "RegisterTemplate ''docs'' 1 (\<lambda>_. Ok []) (UnregisterTemplate ''docs'' s1) = (s2, Ok a2)" by blast
  from RemoveTemplate_stale [OF r1 r2] r1 r2 show ?thesis by blast
qed

end
