(* ===== verification/Template_Match.thy ===== *)
theory Template_Match
  imports Resource_Template
begin

text \<open>
  What \<open>matchesTemplate\<close> of \<open>server/resource_template.go\<close> makes of a template: the pattern it builds by
  replacing the quoted expressions in the quoted template, and the match of an expanded template.
\<close>

section \<open>The expressions of a valid template\<close>

lemma matches_var_text:
  assumes "valid_template segs"
  shows "template_matches varRegex_text (show_template segs) =
    map (\<lambda>b. [''{'' @ b @ ''}'', fst (split_body b), body_name b, []]) (template_bodies segs)"
proof -
  have free: "brace_free_template segs" using assms by (simp add: valid_template_def)
  have m: "first_match n (var_re (Plus (Class True [(''}'', ''}'')]))) (lb # runes b @ rb # rest)
      [fst (split_star (runes b)), snd (split_star (runes b)), []] rest"
    if b: "b \<in> set (template_bodies segs)" for n b rest
  proof -
    have ne: "body_name b \<noteq> []"
      using assms b by (auto simp: valid_template_def list_all_iff is_identifier_def)
    have "\<forall>x \<in> set (runes b). \<not> in_class [(''}'', ''}'')] (rune_value x)"
      using brace_free_runes [OF template_body_free [OF free b]] by simp
    moreover have "runes b \<noteq> []" using ne split_body_app [of b] text_of_runes [of b] by (auto simp: text_of_def)
    ultimately show ?thesis
      using var_match_plus [of "runes b" "[(''}'', ''}'')]"] split_plus_star [OF ne] by simp
  qed
  show ?thesis
    using find_all_segments [of segs _ _ "\<lambda>b. fst (split_star (runes b))" "\<lambda>b. snd (split_star (runes b))" "[]",
        OF m free] split_star_body
    by (simp add: template_matches_def compile_varRegex FindAllStringSubmatch_def body_name_def)
qed

section \<open>The pattern\<close>

fun segment_pattern_of :: "rt_segment \<Rightarrow> string" where
  "segment_pattern_of (RLit l) = QuoteMeta l"
| "segment_pattern_of (RExpr b) = match_replacement (fst (split_body b)) []"

lemma ReplaceFirst_pair:
  assumes "d \<notin> set p" and "c \<noteq> d"
  shows "ReplaceFirst (p @ (c # d # old) @ t) (c # d # old) new = p @ new @ t"
proof -
  have "Index (p @ (c # d # old) @ t) (c # d # old) = Some (length p)"
    using assms(1)
  proof (induction p)
    case Nil
    show ?case using HasPrefix_append [of "c # d # old" t] by simp
  next
    case (Cons x p)
    then have "\<not> HasPrefix ((x # p) @ (c # d # old) @ t) (c # d # old)" using assms(2) by (cases p) auto
    with Cons show ?case by simp
  qed
  then show ?thesis by (simp add: ReplaceFirst_def)
qed

lemma QuoteMeta_no_brace: "CHR ''{'' \<notin> set l \<Longrightarrow> CHR ''{'' \<notin> set (QuoteMeta l)"
  by (auto simp: QuoteMeta_def split: if_splits)

lemma match_replacement_no_brace: "CHR ''{'' \<notin> set (match_replacement operator modifier)"
  by (simp add: match_replacement_def)

lemma build_pattern_segments:
  assumes "brace_free_template segs" and "CHR ''{'' \<notin> set p"
  shows "fold (\<lambda>m pat. ReplaceFirst pat (QuoteMeta (m ! 0)) (match_replacement (m ! 1) (m ! 3)))
      (map (\<lambda>b. [''{'' @ b @ ''}'', fst (split_body b), body_name b, []]) (template_bodies segs))
      (p @ QuoteMeta (show_template segs)) = p @ concat (map segment_pattern_of segs)"
  using assms
proof (induction segs arbitrary: p)
  case Nil
  then show ?case by (simp add: QuoteMeta_def)
next
  case (Cons seg segs)
  show ?case
  proof (cases seg)
    case (RLit l)
    then show ?thesis
      using Cons.IH [of "p @ QuoteMeta l"] Cons.prems QuoteMeta_no_brace
      by (simp add: QuoteMeta_append brace_free_def)
  next
    case (RExpr b)
    let ?new = "match_replacement (fst (split_body b)) []"
    have q: "QuoteMeta (CHR ''{'' # x) = CHR 0x5C # CHR ''{'' # QuoteMeta x"
      "QuoteMeta (CHR ''}'' # x) = CHR 0x5C # CHR ''}'' # QuoteMeta x" "QuoteMeta [] = []" for x
      by (simp_all add: QuoteMeta_def special_bytes_def)
    have "ReplaceFirst (p @ QuoteMeta (show_template (seg # segs))) (QuoteMeta (''{'' @ b @ ''}'')) ?new =
        (p @ ?new) @ QuoteMeta (show_template segs)"
      using ReplaceFirst_pair [OF Cons.prems(2), of "CHR 0x5C" "QuoteMeta (b @ ''}'')"
          "QuoteMeta (show_template segs)" ?new] RExpr
      by (simp add: q QuoteMeta_append)
    then show ?thesis
      using Cons.IH [of "p @ ?new"] Cons.prems RExpr match_replacement_no_brace by simp
  qed
qed

lemma build_pattern_valid:
  assumes "valid_template segs"
  shows "build_pattern (show_template segs) (template_matches varRegex_text (show_template segs)) =
    concat (map segment_pattern_of segs)"
  using build_pattern_segments [of segs "[]"] assms matches_var_text [OF assms]
  by (simp add: build_pattern_def valid_template_def)

section \<open>Templates of plain variables\<close>

text \<open>No operators, literal text in UTF-8, and each variable before the end or a slash.\<close>

fun plain_segment :: "rt_segment \<Rightarrow> bool" where
  "plain_segment (RLit l) \<longleftrightarrow> brace_free l \<and> ValidString l"
| "plain_segment (RExpr b) \<longleftrightarrow> is_identifier b"

fun slash_separated :: "rt_segment list \<Rightarrow> bool" where
  "slash_separated [] = True"
| "slash_separated (RLit l # segs) = slash_separated segs"
| "slash_separated (RExpr b # segs) =
     ((case segs of [] \<Rightarrow> True | RLit l # _ \<Rightarrow> HasPrefix l ''/'' | RExpr _ # _ \<Rightarrow> False) \<and> slash_separated segs)"

definition slash_class :: "(string \<times> string) list" where
  "slash_class = [(''/'', ''/'')]"

fun plain_res :: "rt_segment \<Rightarrow> re list" where
  "plain_res (RLit l) = map Lit (map fst (runes l))"
| "plain_res (RExpr b) = [Group (Plus (Class True slash_class))]"

lemma identifier_body:
  assumes "is_identifier b"
  shows "split_body b = ([], b)" and "body_name b = b" and "brace_free b"
proof -
  have "\<not> name_start c" if "c \<in> set operators" for c
  proof -
    have "list_all (\<lambda>c. \<not> name_start c) operators" by code_simp
    then show ?thesis using that by (simp add: list_all_iff)
  qed
  then show s: "split_body b = ([], b)" using assms by (cases b) (auto simp: is_identifier_def)
  then show "body_name b = b" by (simp add: body_name_def)
  have "\<not> name_rest CHR ''{''" "\<not> name_rest CHR ''}''" by code_simp+
  then show "brace_free b" using identifier_bytes [OF assms] by (auto simp: brace_free_def)
qed

lemma plain_valid: "list_all plain_segment segs \<Longrightarrow> valid_template segs"
proof (induction segs)
  case (Cons seg segs)
  then show ?case by (cases seg) (auto simp: valid_template_def identifier_body)
qed (simp add: valid_template_def)

lemma plain_names: "list_all plain_segment segs \<Longrightarrow> map body_name (template_bodies segs) = template_bodies segs"
proof (induction segs)
  case (Cons seg segs)
  then show ?case by (cases seg) (auto simp: identifier_body)
qed simp

lemma plain_operators: "list_all plain_segment segs \<Longrightarrow> b \<in> set (template_bodies segs) \<Longrightarrow> split_body b = ([], b)"
proof (induction segs)
  case (Cons seg segs)
  then show ?case by (cases seg) (auto simp: identifier_body)
qed simp

lemma plain_pattern:
  assumes "list_all plain_segment segs"
  shows "ValidString (concat (map segment_pattern_of segs)) \<and>
    parse_re (map fst (runes (concat (map segment_pattern_of segs))) @ rs) (FGroup cap fs # st) =
      parse_re rs (FGroup cap (rev (concat (map plain_res segs)) @ fs) # st)"
  using assms
proof (induction segs arbitrary: fs)
  case (Cons seg segs)
  have ih: "ValidString (concat (map segment_pattern_of segs)) \<and>
    parse_re (map fst (runes (concat (map segment_pattern_of segs))) @ rs) (FGroup cap fs # st) =
      parse_re rs (FGroup cap (rev (concat (map plain_res segs)) @ fs) # st)" for fs
    using Cons by simp
  show ?case
  proof (cases seg)
    case (RLit l)
    then have "map fst (runes (QuoteMeta l)) = concat (map quote_rune (map fst (runes l)))" "ValidString (QuoteMeta l)"
      using runes_QuoteMeta [of l] Cons.prems by simp_all
    then show ?thesis
      using parse_quoted [of "map fst (runes l)"] RLit ih by (simp add: ValidString_append runes_append)
  next
    case (RExpr b)
    define g where "g = ''([^/]+)''"
    have a: "ascii g" unfolding g_def by code_simp
    have pat: "segment_pattern_of seg = g"
      using RExpr Cons.prems identifier_body(1) [of b] by (simp add: match_replacement_def g_def)
    have "parse_re (map fst (runes g) @ rs') (FGroup cap fs # st) =
        parse_re rs' (FGroup cap (Group (Plus (Class True slash_class)) # fs) # st)" for rs' fs
      using runes_ascii [OF a] by (simp add: close_group_def slash_class_def g_def)
    then show ?thesis
      using ih RExpr pat ascii_valid [OF a]
      by (simp add: ValidString_append runes_append del: segment_pattern_of.simps)
  qed
qed (simp add: ValidString_def)

lemma compile_anchored:
  assumes "ValidString p" and "\<And>rs. parse_re (map fst (runes p) @ rs) [FGroup True [Bol]] = parse_re rs [FGroup True (rev res @ [Bol])]"
  shows "Compile (''^'' @ p @ ''$'') = Some (cat_all (Bol # res @ [Eol]))"
proof -
  have hat: "runes ''^'' = [(''^'', True)]" "runes ''$'' = [(''$'', True)]"
    by (subst runes_ascii, code_simp, simp)+
  have v: "ValidString (''^'' @ p @ ''$'')"
    using assms(1) ascii_valid [of "''^''"] ascii_valid [of "''$''"]
    by (intro ValidString_append) (simp_all add: ascii_def)
  have "runes (''^'' @ p @ ''$'') = (''^'', True) # runes p @ [(''$'', True)]"
    using assms(1) hat ascii_valid [of "''^''"] runes_append [of "''^''" "p @ ''$''"] runes_append [of p "''$''"]
    by (simp add: ascii_def)
  then have "Compile (''^'' @ p @ ''$'') = parse_re (map fst (runes p) @ [''$'']) [FGroup True [Bol]]"
    using v by (simp add: Compile_def)
  then show ?thesis using assms(2) [of "[''$'']"] by simp
qed


section \<open>Matching an expanded template\<close>

definition value_of :: "(string \<rightharpoonup> string) \<Rightarrow> string \<Rightarrow> string" where
  "value_of vars n = the (vars n)"

definition plain_value :: "string \<Rightarrow> bool" where
  "plain_value v \<longleftrightarrow> v \<noteq> [] \<and> CHR ''/'' \<notin> set v \<and> CHR ''{'' \<notin> set v"

fun plain_captures :: "(string \<rightharpoonup> string) \<Rightarrow> rt_segment \<Rightarrow> rune list list" where
  "plain_captures vars (RLit l) = []"
| "plain_captures vars (RExpr b) = [runes (value_of vars b)]"

lemma expand_plain_simps:
  "expand_template vars [] = []"
  "expand_template vars (RLit l # segs) = l @ expand_template vars segs"
  "is_identifier b \<Longrightarrow> expand_template vars (RExpr b # segs) = value_of vars b @ expand_template vars segs"
  by (simp_all add: expand_template_def expand_body_def identifier_body expand_replacement_def value_of_def)

text \<open>What follows a variable is empty or starts with a slash.\<close>

lemma slash_rest:
  assumes "slash_separated (RExpr b # segs)"
  shows "expand_template vars segs = [] \<or> (\<exists>t. expand_template vars segs = CHR ''/'' # t)"
proof (cases segs)
  case (Cons seg segs')
  then obtain l where l: "seg = RLit l" "HasPrefix l ''/''" using assms by (cases seg) auto
  then obtain l' where "l = CHR ''/'' # l'" by (auto simp: HasPrefix_iff)
  then show ?thesis using Cons l by (simp add: expand_plain_simps)
qed (simp add: expand_plain_simps)

lemma in_slash_class: "in_class slash_class r \<longleftrightarrow> r = ''/''"
  by (auto simp: in_class_def slash_class_def)

lemma match_plain:
  assumes "list_all plain_segment segs" and "slash_separated segs"
    and "\<And>n. n \<in> set (template_bodies segs) \<Longrightarrow> plain_value (value_of vars n)"
  shows "first_match n (cat_all (concat (map plain_res segs) @ [Eol]))
    (runes (expand_template vars segs)) (concat (map (plain_captures vars) segs)) []"
  using assms
proof (induction segs)
  case Nil
  then show ?case by (simp add: first_match_def expand_plain_simps)
next
  case (Cons seg segs)
  let ?rest = "runes (expand_template vars segs)"
  have ih: "first_match n (cat_all (concat (map plain_res segs) @ [Eol])) ?rest
      (concat (map (plain_captures vars) segs)) []"
    using Cons.prems by (intro Cons.IH) (cases seg; auto)+
  show ?case
  proof (cases seg)
    case (RLit l)
    have "drop_lits (map fst (runes l)) (runes l @ ?rest) = Some ?rest"
      using Cons.prems(1) RLit by (intro drop_lits_same) (simp add: ValidString_def)
    then show ?thesis
      using first_match_lits [OF _ ih, of "map fst (runes l)" "runes l @ ?rest"] Cons.prems(1) RLit
      by (simp add: runes_append expand_plain_simps)
  next
    case (RExpr b)
    let ?v = "runes (value_of vars b)"
    have id: "is_identifier b" using Cons.prems(1) RExpr by simp
    have v: "plain_value (value_of vars b)" using Cons.prems(3) RExpr by simp
    have rest: "expand_template vars segs = [] \<or> (\<exists>t. expand_template vars segs = CHR ''/'' # t)"
      using slash_rest [of b segs vars] Cons.prems(2) RExpr by simp
    have "\<forall>x \<in> set ?v. in_class slash_class (rune_value x) \<noteq> True"
      using v rune_value_byte [of _ "value_of vars b" "CHR ''/''"] by (auto simp: in_slash_class plain_value_def)
    moreover have "?v \<noteq> []"
      using v text_of_runes [of "value_of vars b"] by (auto simp: plain_value_def text_of_def)
    moreover have "?rest = [] \<or> in_class slash_class (rune_value (hd ?rest)) = True"
      using rest by (auto simp: runes_ascii_Cons in_slash_class)
    ultimately have "first_match n (Group (Plus (Class True slash_class))) (?v @ ?rest) [?v] ?rest"
      by (intro first_match_group)
    from first_match_cat_all [OF this ih] have "first_match n (cat_all (concat (map plain_res (seg # segs)) @ [Eol]))
        (?v @ ?rest) (concat (map (plain_captures vars) (seg # segs))) []"
      using RExpr by simp
    moreover have "runes (expand_template vars (seg # segs)) = ?v @ ?rest"
      using rest RExpr id by (simp add: expand_plain_simps) (rule runes_append_ascii, auto simp: ascii_start_def)
    ultimately show ?thesis by simp
  qed
qed

lemma no_expressions: "template_bodies segs = [] \<Longrightarrow> show_template segs = expand_template vars segs"
proof (induction segs)
  case (Cons seg segs)
  then show ?case by (cases seg) (simp_all add: expand_plain_simps)
qed (simp add: expand_plain_simps)

lemma captures_values:
  "map text_of (concat (map (plain_captures vars) segs)) = map (value_of vars) (template_bodies segs)"
proof (induction segs)
  case (Cons seg segs)
  then show ?case by (cases seg) (simp_all add: text_of_runes)
qed simp

lemma bind_values:
  assumes "\<And>n. n \<in> set ns \<Longrightarrow> vars n = Some (value_of vars n)"
  shows "fold (\<lambda>(m, value) acc. acc(m ! 2 \<mapsto> clean_value (m ! 1) value))
      (zip (map (\<lambda>b. [f b, [], b, []]) ns) (map (value_of vars) ns)) acc = acc ++ (vars |` set ns)"
  using assms
proof (induction ns arbitrary: acc)
  case (Cons n ns)
  have "vars n = Some (value_of vars n)" using Cons.prems by simp
  then have "acc(n \<mapsto> value_of vars n) ++ (vars |` set ns) = acc ++ (vars |` set (n # ns))"
    by (auto simp: map_add_def restrict_map_def split: option.splits)
  moreover have "clean_value [] (value_of vars n) = value_of vars n" by (simp add: clean_value_def)
  ultimately show ?case using Cons by (simp add: fun_upd_def cong: if_cong)
qed simp

section \<open>Properties\<close>

text \<open>C18: Matching undoes expansion: a template of plain variables, each before the end or a slash, whose
  variables have values that are not empty and hold no slash and no opening brace, expands to a URI
  that matches the template, with exactly the template's variables, each bound to its value.\<close>

theorem matchesTemplate_ExpandURITemplate:
  assumes "list_all plain_segment segs" and "slash_separated segs" and "show_template segs \<noteq> []"
    and "\<forall>n \<in> set (template_names segs). \<exists>v. vars n = Some v \<and> plain_value v"
  shows "\<exists>uri. ExpandURITemplate (show_template segs) vars = Ok uri \<and>
    matchesTemplate uri (show_template segs) = (vars |` set (template_names segs), True)"
proof -
  let ?ns = "template_bodies segs"
  have names: "template_names segs = ?ns" using plain_names [OF assms(1)] by (simp add: template_names_def)
  have vals: "vars n = Some (value_of vars n)" "plain_value (value_of vars n)" if "n \<in> set ?ns" for n
    using assms(4) that unfolding names by (auto simp: value_of_def)
  have valid: "valid_template segs" by (rule plain_valid [OF assms(1)])
  let ?uri = "expand_template vars segs"
  have "List.find (\<lambda>n. vars n = None) (template_names segs) = None"
    using vals names by (auto simp: find_None_iff)
  then have expand: "ExpandURITemplate (show_template segs) vars = Ok ?uri"
    using ExpandURITemplate_segments [OF valid assms(3), of vars] vals names by (auto simp: plain_value_def)
  let ?ms = "template_matches varRegex_text (show_template segs)"
  have "?ms = map (\<lambda>b. [''{'' @ b @ ''}'', fst (split_body b), body_name b, []]) ?ns"
    by (rule matches_var_text [OF valid])
  also have "\<dots> = map (\<lambda>b. [''{'' @ b @ ''}'', [], b, []]) ?ns"
    using plain_operators [OF assms(1)] by (simp add: body_name_def)
  finally have ms: "?ms = map (\<lambda>b. [''{'' @ b @ ''}'', [], b, []]) ?ns" .
  have re: "Compile (''^'' @ build_pattern (show_template segs) ?ms @ ''$'') =
      Some (cat_all (Bol # concat (map plain_res segs) @ [Eol]))"
    unfolding build_pattern_valid [OF valid] using plain_pattern [OF assms(1)]
    by (intro compile_anchored) simp_all
  let ?re = "cat_all (Bol # concat (map plain_res segs) @ [Eol])"
  have "first_match (length (runes ?uri)) ?re (runes ?uri) ([] @ concat (map (plain_captures vars) segs)) []"
    by (rule first_match_cat_all [OF _ match_plain [OF assms(1,2) vals(2)]]) (auto simp: first_match_def)
  from find_from_first [OF this]
  have sub: "FindStringSubmatch ?re ?uri = Some (?uri # map (value_of vars) ?ns)"
    using captures_values [of vars segs] by (simp add: FindStringSubmatch_def submatch_def text_of_runes)
  have "matchesTemplate ?uri (show_template segs) = (vars |` set ?ns, True)"
  proof (cases "?ns = []")
    case True
    then have "show_template segs = ?uri" using no_expressions by blast
    then show ?thesis using True ms by (simp add: matchesTemplate_def)
  next
    case False
    then show ?thesis
      using re sub bind_values [OF vals(1), of ?ns "\<lambda>b. ''{'' @ b @ ''}''" Map.empty] ms
      by (simp add: matchesTemplate_def)
  qed
  then show ?thesis using expand names by auto
qed

theorem matchesTemplate_ExpandURITemplate_witness:
  "\<exists>uri. ExpandURITemplate ''/users/{id}/posts'' [''id'' \<mapsto> ''a b''] = Ok uri \<and>
    matchesTemplate uri ''/users/{id}/posts'' = ([''id'' \<mapsto> ''a b''], True)"
proof -
  let ?segs = "[RLit ''/users/'', RExpr ''id'', RLit ''/posts'']"
  have v: "list_all plain_segment ?segs" by code_simp
  have n: "template_names ?segs = [''id'']" by code_simp
  show ?thesis
    using matchesTemplate_ExpandURITemplate [OF v, of "[''id'' \<mapsto> ''a b'']"] unfolding n
    by (simp add: plain_value_def)
qed

end
