(* ===== verification/Oauth.thy ===== *)
theory Oauth
  imports Rpc_Types Uri_Template
begin

text \<open>
  \<open>transport/oauth.go\<close> and \<open>transport/oauth_utils.go\<close>: the OAuth client of the HTTP transports,
  its token store and the PKCE strings. The token store is an interface: the configuration holds its
  two methods, and \<open>token_store\<close> is its contract, which \<open>MemoryTokenStore\<close> fulfils. The HTTP client
  is a function from the requests sent so far and the next one to the reply; the state logs the
  requests. Times are nanoseconds; the current time is an argument. What the code calls from
  \<open>crypto\<close>, \<open>net/url\<close> and the parser of times is an argument of the definitions that use it.
\<close>

named_theorems oauth_simps "definitions of the OAuth handler"

section \<open>PKCE strings\<close>

definition url_alphabet :: string where
  "url_alphabet = ''ABCDEFGHIJKLMNOPQRSTUVWXYZabcdefghijklmnopqrstuvwxyz0123456789-_''"

definition url_digit :: "nat \<Rightarrow> char" where
  "url_digit n = url_alphabet ! n"

text \<open>\<open>base64.RawURLEncoding.EncodeToString\<close>: three bytes make four digits, without padding.\<close>

fun encode_bytes :: "nat list \<Rightarrow> nat list" where
  "encode_bytes [] = []"
| "encode_bytes [a] = [a div 4, (a mod 4) * 16]"
| "encode_bytes [a, b] = [a div 4, (a mod 4) * 16 + b div 16, (b mod 16) * 4]"
| "encode_bytes (a # b # c # cs) =
     [a div 4, (a mod 4) * 16 + b div 16, (b mod 16) * 4 + c div 64, c mod 64] @ encode_bytes cs"

definition RawURLEncoding :: "string \<Rightarrow> string" where
  "RawURLEncoding bytes = map url_digit (encode_bytes (map of_char bytes))"

text \<open>\<open>rand\<close> is \<open>rand.Read\<close> on a slice of the given length.\<close>

definition GenerateRandomString :: "(nat \<Rightarrow> string outcome) \<Rightarrow> nat \<Rightarrow> string outcome" where
  "GenerateRandomString rand n =
     (case rand n of
        Err e \<Rightarrow> Err (''failed to generate random bytes: '' @ e)
      | Panic p \<Rightarrow> Panic p
      | Ok bytes \<Rightarrow>
          if n \<le> length (RawURLEncoding bytes) then Ok (take n (RawURLEncoding bytes))
          else Panic ''slice bounds out of range'')"

definition GenerateCodeVerifier :: "(nat \<Rightarrow> string outcome) \<Rightarrow> string outcome" where
  "GenerateCodeVerifier rand = GenerateRandomString rand 64"

definition GenerateState :: "(nat \<Rightarrow> string outcome) \<Rightarrow> string outcome" where
  "GenerateState rand = GenerateRandomString rand 32"

definition GenerateCodeChallenge :: "(string \<Rightarrow> string) \<Rightarrow> string \<Rightarrow> string" where
  "GenerateCodeChallenge sha256 verifier = RawURLEncoding (sha256 verifier)"

section \<open>Tokens\<close>

text \<open>\<^term>\<open>None\<close> is the zero time.\<close>

record token =
  tok_AccessToken :: string
  tok_TokenType :: string
  tok_RefreshToken :: string
  tok_ExpiresIn :: int
  tok_ExpiresAt :: "int option"
  tok_Scope :: string

definition IsExpired :: "int \<Rightarrow> token \<Rightarrow> bool" where
  "IsExpired now t = (case tok_ExpiresAt t of None \<Rightarrow> False | Some expiry \<Rightarrow> expiry < now)"

definition zero_token :: token where
  "zero_token = \<lparr>tok_AccessToken = [], tok_TokenType = [], tok_RefreshToken = [], tok_ExpiresIn = 0,
     tok_ExpiresAt = None, tok_Scope = []\<rparr>"

text \<open>\<open>parse_time\<close> is the JSON decoder of \<open>time.Time\<close>: an error, the zero time or a time.\<close>

definition token_fields :: "(string \<Rightarrow> int option option) \<Rightarrow> token fields" where
  "token_fields parse_time =
     [(''access_token'', dec_string (\<lambda>s t. t\<lparr>tok_AccessToken := s\<rparr>)),
      (''token_type'', dec_string (\<lambda>s t. t\<lparr>tok_TokenType := s\<rparr>)),
      (''refresh_token'', dec_string (\<lambda>s t. t\<lparr>tok_RefreshToken := s\<rparr>)),
      (''expires_in'', dec_int (\<lambda>n t. t\<lparr>tok_ExpiresIn := n\<rparr>)),
      (''expires_at'', \<lambda>j t. case j of
          JStr s \<Rightarrow> map_option (\<lambda>expiry. t\<lparr>tok_ExpiresAt := expiry\<rparr>) (parse_time s)
        | JNull \<Rightarrow> Some t | _ \<Rightarrow> None),
      (''scope'', dec_string (\<lambda>s t. t\<lparr>tok_Scope := s\<rparr>))]"

text \<open>\<open>json.NewDecoder(resp.Body).Decode(&v)\<close>\<close>

definition decode_body :: "'a fields \<Rightarrow> 'a \<Rightarrow> payload \<Rightarrow> 'a option" where
  "decode_body fs zero body = (case body of Malformed \<Rightarrow> None | Text j \<Rightarrow> decode_struct fs zero j)"

text \<open>\<open>time.Duration(token.ExpiresIn) * time.Second\<close> is computed on 64 bits.\<close>

definition duration_of_seconds :: "int \<Rightarrow> int" where
  "duration_of_seconds n = sint (word_of_int n * 1000000000 :: int64)"

definition set_expiry :: "int \<Rightarrow> token \<Rightarrow> token" where
  "set_expiry now t =
     (if tok_ExpiresIn t > 0
      then t\<lparr>tok_ExpiresAt := Some (now + duration_of_seconds (tok_ExpiresIn t))\<rparr> else t)"

record auth_metadata =
  am_Issuer :: string
  am_AuthorizationEndpoint :: string
  am_TokenEndpoint :: string
  am_UserinfoEndpoint :: string
  am_JwksURI :: string
  am_RegistrationEndpoint :: string
  am_ScopesSupported :: "string list"
  am_ResponseTypesSupported :: "string list"
  am_GrantTypesSupported :: "string list"
  am_TokenEndpointAuthMethodsSupported :: "string list"
  am_CodeChallengeMethodsSupported :: "string list"
  am_RevocationEndpoint :: string
  am_IntrospectionEndpoint :: string
  am_ServiceDocumentation :: string
  am_IssParameterSupported :: bool

definition zero_metadata :: auth_metadata where
  "zero_metadata = \<lparr>am_Issuer = [], am_AuthorizationEndpoint = [], am_TokenEndpoint = [],
     am_UserinfoEndpoint = [], am_JwksURI = [], am_RegistrationEndpoint = [], am_ScopesSupported = [],
     am_ResponseTypesSupported = [], am_GrantTypesSupported = [], am_TokenEndpointAuthMethodsSupported = [],
     am_CodeChallengeMethodsSupported = [], am_RevocationEndpoint = [], am_IntrospectionEndpoint = [],
     am_ServiceDocumentation = [], am_IssParameterSupported = False\<rparr>"

text \<open>A slice of strings; the JSON text \<open>null\<close> is the nil slice, and as an element the empty string.\<close>

fun string_items :: "json list \<Rightarrow> string list option" where
  "string_items [] = Some []"
| "string_items (j # js) =
     (case j of
        JStr s \<Rightarrow> map_option (\<lambda>ss. s # ss) (string_items js)
      | JNull \<Rightarrow> map_option (\<lambda>ss. [] # ss) (string_items js)
      | _ \<Rightarrow> None)"

definition dec_strings :: "(string list \<Rightarrow> 'a \<Rightarrow> 'a) \<Rightarrow> json \<Rightarrow> 'a \<Rightarrow> 'a option" where
  "dec_strings upd j a =
     (case j of JArr js \<Rightarrow> map_option (\<lambda>ss. upd ss a) (string_items js) | JNull \<Rightarrow> Some (upd [] a) | _ \<Rightarrow> None)"

definition dec_bool :: "(bool \<Rightarrow> 'a \<Rightarrow> 'a) \<Rightarrow> json \<Rightarrow> 'a \<Rightarrow> 'a option" where
  "dec_bool upd j a = (case j of JBool b \<Rightarrow> Some (upd b a) | JNull \<Rightarrow> Some a | _ \<Rightarrow> None)"

definition metadata_fields :: "auth_metadata fields" where
  "metadata_fields =
     [(''issuer'', dec_string (\<lambda>s m. m\<lparr>am_Issuer := s\<rparr>)),
      (''authorization_endpoint'', dec_string (\<lambda>s m. m\<lparr>am_AuthorizationEndpoint := s\<rparr>)),
      (''token_endpoint'', dec_string (\<lambda>s m. m\<lparr>am_TokenEndpoint := s\<rparr>)),
      (''userinfo_endpoint'', dec_string (\<lambda>s m. m\<lparr>am_UserinfoEndpoint := s\<rparr>)),
      (''jwks_uri'', dec_string (\<lambda>s m. m\<lparr>am_JwksURI := s\<rparr>)),
      (''registration_endpoint'', dec_string (\<lambda>s m. m\<lparr>am_RegistrationEndpoint := s\<rparr>)),
      (''scopes_supported'', dec_strings (\<lambda>s m. m\<lparr>am_ScopesSupported := s\<rparr>)),
      (''response_types_supported'', dec_strings (\<lambda>s m. m\<lparr>am_ResponseTypesSupported := s\<rparr>)),
      (''grant_types_supported'', dec_strings (\<lambda>s m. m\<lparr>am_GrantTypesSupported := s\<rparr>)),
      (''token_endpoint_auth_methods_supported'',
         dec_strings (\<lambda>s m. m\<lparr>am_TokenEndpointAuthMethodsSupported := s\<rparr>)),
      (''code_challenge_methods_supported'', dec_strings (\<lambda>s m. m\<lparr>am_CodeChallengeMethodsSupported := s\<rparr>)),
      (''revocation_endpoint'', dec_string (\<lambda>s m. m\<lparr>am_RevocationEndpoint := s\<rparr>)),
      (''introspection_endpoint'', dec_string (\<lambda>s m. m\<lparr>am_IntrospectionEndpoint := s\<rparr>)),
      (''service_documentation'', dec_string (\<lambda>s m. m\<lparr>am_ServiceDocumentation := s\<rparr>)),
      (''authorization_response_iss_parameter_supported'',
         dec_bool (\<lambda>b m. m\<lparr>am_IssParameterSupported := b\<rparr>))]"

section \<open>Errors\<close>

record oauth_error =
  oe_ErrorCode :: string
  oe_ErrorDescription :: string
  oe_ErrorURI :: string

definition oauth_error_fields :: "oauth_error fields" where
  "oauth_error_fields =
     [(''error'', dec_string (\<lambda>s e. e\<lparr>oe_ErrorCode := s\<rparr>)),
      (''error_description'', dec_string (\<lambda>s e. e\<lparr>oe_ErrorDescription := s\<rparr>)),
      (''error_uri'', dec_string (\<lambda>s e. e\<lparr>oe_ErrorURI := s\<rparr>))]"

definition zero_oauth_error :: oauth_error where
  "zero_oauth_error = \<lparr>oe_ErrorCode = [], oe_ErrorDescription = [], oe_ErrorURI = []\<rparr>"

definition OAuthError_Error :: "oauth_error \<Rightarrow> string" where
  "OAuthError_Error e =
     (if oe_ErrorDescription e \<noteq> [] then ''OAuth error: '' @ oe_ErrorCode e @ '' - '' @ oe_ErrorDescription e
      else ''OAuth error: '' @ oe_ErrorCode e)"

definition AuthorizationRequired :: string where
  "AuthorizationRequired = ''OAuth authorization required''"

definition InvalidState :: string where
  "InvalidState = ''invalid state parameter''"

definition TokenNotFound :: string where
  "TokenNotFound = ''token not found''"


section \<open>The handler\<close>

record http_request =
  hr_Method :: string
  hr_URL :: string
  hr_Body :: string

text \<open>\<open>http.NewRequest\<close> can refuse the URL, and \<open>Do\<close> can fail; else there is a status code and a body.\<close>

datatype http_reply = Refused string | Failed string | Reply int payload

type_synonym http_client = "http_request list \<Rightarrow> http_request \<Rightarrow> http_reply"

text \<open>\<open>'s\<close> is the state of the token store; \<open>None\<close> is a nil error or a nil HTTP client.\<close>

record 's oauth_config =
  oc_ClientID :: string
  oc_ClientSecret :: string
  oc_RedirectURI :: string
  oc_Scopes :: "string list"
  oc_SaveToken :: "token \<Rightarrow> 's \<Rightarrow> 's \<times> string option"
  oc_GetToken :: "'s \<Rightarrow> token outcome"
  oc_AuthServerMetadataURL :: string
  oc_PKCEEnabled :: bool
  oc_HTTPClient :: "http_client option"

record 's oauth_handler =
  oh_config :: "'s oauth_config"
  oh_httpClient :: http_client
  oh_serverMetadata :: "auth_metadata option"
  oh_expectedState :: string
  oh_codeVerifier :: string
  oh_store :: 's
  oh_sent :: "http_request list"

definition NewOAuthHandler :: "http_client \<Rightarrow> 's oauth_config \<Rightarrow> 's \<Rightarrow> 's oauth_handler" where
  "NewOAuthHandler default_client config store =
     \<lparr>oh_config = config,
      oh_httpClient = (case oc_HTTPClient config of None \<Rightarrow> default_client | Some c \<Rightarrow> c),
      oh_serverMetadata = None, oh_expectedState = [], oh_codeVerifier = [], oh_store = store, oh_sent = []\<rparr>"

definition http_send :: "http_request \<Rightarrow> 's oauth_handler \<Rightarrow> 's oauth_handler \<times> http_reply" where
  "http_send req h =
     (case oh_httpClient h (oh_sent h) req of
        Refused e \<Rightarrow> (h, Refused e)
      | reply \<Rightarrow> (h\<lparr>oh_sent := oh_sent h @ [req]\<rparr>, reply))"

text \<open>\<open>url.Values\<close> as a map with sorted keys, and its \<open>Encode\<close>.\<close>

definition Encode :: "(string \<times> string) list \<Rightarrow> string" where
  "Encode params = Join (map (\<lambda>(k, v). QueryEscape k @ ''='' @ QueryEscape v) params) ''&''"

definition GetServerMetadata :: "'s oauth_handler \<Rightarrow> 's oauth_handler \<times> auth_metadata outcome" where
  "GetServerMetadata h =
     (case oh_serverMetadata h of
        Some metadata \<Rightarrow> (h, Ok metadata)
      | None \<Rightarrow>
          (let url = oc_AuthServerMetadataURL (oh_config h);
               wellKnownURL = (if url = [] then url @ ''/.well-known/oauth-authorization-server'' else url);
               (h1, reply) = http_send \<lparr>hr_Method = ''GET'', hr_URL = wellKnownURL, hr_Body = []\<rparr> h
           in case reply of
                Refused e \<Rightarrow> (h1, Err (''failed to create request: '' @ e))
              | Failed e \<Rightarrow> (h1, Err (''failed to send protected resource request: '' @ e))
              | Reply status body \<Rightarrow>
                  if status \<noteq> 200 then (h1, Err (''unexpected status code: '' @ fmt_d status))
                  else (case decode_body metadata_fields zero_metadata body of
                          None \<Rightarrow> (h1, Err ''failed to decode metadata'')
                        | Some metadata \<Rightarrow> (h1\<lparr>oh_serverMetadata := Some metadata\<rparr>, Ok metadata))))"

text \<open>
  \<open>with_query endpoint query\<close> is \<open>url.Parse(endpoint)\<close>, setting \<open>RawQuery\<close>, and \<open>String()\<close>. When PKCE is
  enabled the verifier and the expected state are kept.
\<close>

definition authorization_params :: "'s oauth_config \<Rightarrow> string \<Rightarrow> (string \<times> string) list" where
  "authorization_params config state =
     (let params = map_put_all
        [(''response_type'', ''code''), (''client_id'', oc_ClientID config),
         (''redirect_uri'', oc_RedirectURI config), (''state'', state)] []
      in if oc_Scopes config \<noteq> [] then map_put ''scope'' (Join (oc_Scopes config) '' '') params else params)"

definition GetAuthorizationURL ::
  "(string \<Rightarrow> string \<Rightarrow> string outcome) \<Rightarrow> (string \<Rightarrow> string) \<Rightarrow> (nat \<Rightarrow> string outcome) \<Rightarrow> string \<Rightarrow>
   's oauth_handler \<Rightarrow> 's oauth_handler \<times> string outcome" where
  "GetAuthorizationURL with_query sha256 rand state h =
     (case GetServerMetadata h of
        (h1, Err e) \<Rightarrow> (h1, Err (''failed to get server metadata: '' @ e))
      | (h1, Panic p) \<Rightarrow> (h1, Panic p)
      | (h1, Ok metadata) \<Rightarrow>
          (case with_query (am_AuthorizationEndpoint metadata) [] of
             Err e \<Rightarrow> (h1, Err (''invalid authorization endpoint: '' @ e))
           | Panic p \<Rightarrow> (h1, Panic p)
           | Ok _ \<Rightarrow>
               (let params = authorization_params (oh_config h1) state
                in if oc_PKCEEnabled (oh_config h1) then
                     (case GenerateCodeVerifier rand of
                        Err e \<Rightarrow> (h1, Err (''failed to generate code verifier: '' @ e))
                      | Panic p \<Rightarrow> (h1, Panic p)
                      | Ok verifier \<Rightarrow>
                          (h1\<lparr>oh_codeVerifier := verifier, oh_expectedState := state\<rparr>,
                           with_query (am_AuthorizationEndpoint metadata)
                             (Encode (map_put_all
                                [(''code_challenge'', GenerateCodeChallenge sha256 verifier),
                                 (''code_challenge_method'', ''S256'')] params))))
                   else (h1, with_query (am_AuthorizationEndpoint metadata) (Encode params)))))"

section \<open>Tokens from the server\<close>

text \<open>The part that \<open>exchangeCodeForToken\<close> and \<open>refreshToken\<close> have in common: the POST request, and the token or
  the error in its reply. A JSON object that is an error becomes the error; any text of an object decodes.\<close>

definition request_token ::
  "(string \<Rightarrow> int option option) \<Rightarrow> int \<Rightarrow> string \<Rightarrow> (string \<times> string) list \<Rightarrow>
   's oauth_handler \<Rightarrow> 's oauth_handler \<times> token outcome" where
  "request_token parse_time now endpoint params h =
     (let (h1, reply) = http_send \<lparr>hr_Method = ''POST'', hr_URL = endpoint, hr_Body = Encode params\<rparr> h
      in case reply of
           Refused e \<Rightarrow> (h1, Err (''failed to create request: '' @ e))
         | Failed e \<Rightarrow> (h1, Err (''failed to send token request: '' @ e))
         | Reply status body \<Rightarrow>
             if status \<noteq> 200 then
               (case decode_body oauth_error_fields zero_oauth_error body of
                  None \<Rightarrow> (h1, Err (''unexpected status code: '' @ fmt_d status))
                | Some e \<Rightarrow> (h1, Err (OAuthError_Error e)))
             else
               (case decode_body (token_fields parse_time) zero_token body of
                  None \<Rightarrow> (h1, Err ''failed to decode token response'')
                | Some t \<Rightarrow> (h1, Ok (set_expiry now t))))"

definition with_secret :: "'s oauth_config \<Rightarrow> (string \<times> string) list \<Rightarrow> (string \<times> string) list" where
  "with_secret config params =
     (if oc_ClientSecret config \<noteq> [] then map_put ''client_secret'' (oc_ClientSecret config) params else params)"

definition exchange_params :: "'s oauth_config \<Rightarrow> string \<Rightarrow> string \<Rightarrow> (string \<times> string) list" where
  "exchange_params config code codeVerifier =
     (let params = with_secret config (map_put_all
        [(''grant_type'', ''authorization_code''), (''code'', code), (''redirect_uri'', oc_RedirectURI config),
         (''client_id'', oc_ClientID config)] [])
      in if oc_PKCEEnabled config \<and> codeVerifier \<noteq> [] then map_put ''code_verifier'' codeVerifier params
         else params)"

definition exchangeCodeForToken ::
  "(string \<Rightarrow> int option option) \<Rightarrow> int \<Rightarrow> string \<Rightarrow> string \<Rightarrow> 's oauth_handler \<Rightarrow>
   's oauth_handler \<times> token outcome" where
  "exchangeCodeForToken parse_time now code codeVerifier h =
     (case oh_serverMetadata h of
        None \<Rightarrow> (h, Err ''server metadata not loaded'')
      | Some metadata \<Rightarrow>
          request_token parse_time now (am_TokenEndpoint metadata)
            (exchange_params (oh_config h) code codeVerifier) h)"

definition save_token :: "token \<Rightarrow> 's oauth_handler \<Rightarrow> 's oauth_handler \<times> string option" where
  "save_token t h =
     (case oc_SaveToken (oh_config h) t (oh_store h) of (store, err) \<Rightarrow> (h\<lparr>oh_store := store\<rparr>, err))"

text \<open>The result is \<^term>\<open>None\<close> when the code returns nil.\<close>

definition ProcessAuthorizationResponse ::
  "(string \<Rightarrow> int option option) \<Rightarrow> int \<Rightarrow> string \<Rightarrow> string \<Rightarrow> string \<Rightarrow> 's oauth_handler \<Rightarrow>
   's oauth_handler \<times> string option" where
  "ProcessAuthorizationResponse parse_time now code state codeVerifier h =
     (if oh_expectedState h = [] then (h, Some ''no expected state set'')
      else if state \<noteq> oh_expectedState h then (h, Some InvalidState)
      else (case exchangeCodeForToken parse_time now code codeVerifier h of
              (h1, Ok t) \<Rightarrow>
                (case save_token t h1 of
                   (h2, Some e) \<Rightarrow> (h2, Some (''failed to save token: '' @ e))
                 | (h2, None) \<Rightarrow> (h2, None))
            | (h1, Err e) \<Rightarrow> (h1, Some (''failed to exchange code for token: '' @ e))
            | (h1, Panic p) \<Rightarrow> (h1, Some p)))"

definition refresh_params :: "'s oauth_config \<Rightarrow> string \<Rightarrow> (string \<times> string) list" where
  "refresh_params config refresh =
     with_secret config (map_put_all
       [(''grant_type'', ''refresh_token''), (''refresh_token'', refresh), (''client_id'', oc_ClientID config)] [])"

definition refreshToken ::
  "(string \<Rightarrow> int option option) \<Rightarrow> int \<Rightarrow> string \<Rightarrow> 's oauth_handler \<Rightarrow> 's oauth_handler \<times> token outcome" where
  "refreshToken parse_time now refresh h =
     (case GetServerMetadata h of
        (h1, Err e) \<Rightarrow> (h1, Err (''failed to get server metadata: '' @ e))
      | (h1, Panic p) \<Rightarrow> (h1, Panic p)
      | (h1, Ok metadata) \<Rightarrow>
          (case request_token parse_time now (am_TokenEndpoint metadata) (refresh_params (oh_config h1) refresh) h1 of
             (h2, Ok t) \<Rightarrow>
               (case save_token t h2 of
                  (h3, Some e) \<Rightarrow> (h3, Err (''failed to save token: '' @ e))
                | (h3, None) \<Rightarrow> (h3, Ok t))
           | (h2, failure) \<Rightarrow> (h2, failure)))"

definition header_of :: "token \<Rightarrow> string" where
  "header_of t = tok_TokenType t @ '' '' @ tok_AccessToken t"

definition GetAuthorizationHeader ::
  "(string \<Rightarrow> int option option) \<Rightarrow> int \<Rightarrow> 's oauth_handler \<Rightarrow> 's oauth_handler \<times> string outcome" where
  "GetAuthorizationHeader parse_time now h =
     (case oc_GetToken (oh_config h) (oh_store h) of
        Panic p \<Rightarrow> (h, Panic p)
      | Err e \<Rightarrow> (h, Err AuthorizationRequired)
      | Ok t \<Rightarrow>
          if tok_AccessToken t = [] then (h, Err AuthorizationRequired)
          else if IsExpired now t then
            (if tok_RefreshToken t \<noteq> [] then
               (case refreshToken parse_time now (tok_RefreshToken t) h of
                  (h1, Ok t') \<Rightarrow> (h1, Ok (header_of t'))
                | (h1, Panic p) \<Rightarrow> (h1, Panic p)
                | (h1, Err e) \<Rightarrow> (h1, Err AuthorizationRequired))
             else (h, Err AuthorizationRequired))
          else (h, Ok (header_of t)))"

text \<open>\<open>parse_url\<close> is \<open>url.Parse\<close>: an error, or the scheme and the host name.\<close>

definition ValidateRedirectURI :: "(string \<Rightarrow> (string \<times> string) outcome) \<Rightarrow> string \<Rightarrow> string option" where
  "ValidateRedirectURI parse_url redirectURI =
     (if redirectURI = [] then Some ''redirect URI cannot be empty''
      else case parse_url redirectURI of
        Err e \<Rightarrow> Some (''invalid redirect URI: '' @ e)
      | Panic p \<Rightarrow> Some p
      | Ok (scheme, hostname) \<Rightarrow>
          if scheme \<noteq> ''http'' \<and> scheme \<noteq> ''https'' then Some ''redirect URI must use http or https scheme''
          else if scheme = ''http'' \<and> hostname \<notin> {''localhost'', ''127.0.0.1'', ''::1''}
          then Some ''http redirect URIs are only allowed for localhost''
          else None)"

section \<open>Token stores\<close>

definition MemoryTokenStore_SaveToken :: "token \<Rightarrow> token option \<Rightarrow> token option \<times> string option" where
  "MemoryTokenStore_SaveToken t s = (Some t, None)"

definition MemoryTokenStore_GetToken :: "token option \<Rightarrow> token outcome" where
  "MemoryTokenStore_GetToken s = (case s of None \<Rightarrow> Err TokenNotFound | Some t \<Rightarrow> Ok t)"

definition NewMemoryTokenStore :: "token option" where
  "NewMemoryTokenStore = None"


section \<open>Lemmas\<close>

text \<open>The random strings: as many characters as asked for, all from the URL alphabet.\<close>

lemma digit_bounds:
  fixes a b :: nat
  shows "a < 256 \<Longrightarrow> a div 4 < 64" and "(a mod 4) * 16 < 64" and "(a mod 16) * 4 < 64" and "a mod 64 < 64"
    and "b < 256 \<Longrightarrow> (a mod 4) * 16 + b div 16 < 64" and "b < 256 \<Longrightarrow> (a mod 16) * 4 + b div 64 < 64"
proof -
  have "a mod 4 < 4" "a mod 16 < 16" by simp_all
  moreover have "b div 16 < 16" "b div 64 < 4" if "b < 256" using that by (simp_all add: div_less_iff_less_mult)
  ultimately show "(a mod 4) * 16 < 64" "(a mod 16) * 4 < 64"
    "b < 256 \<Longrightarrow> (a mod 4) * 16 + b div 16 < 64" "b < 256 \<Longrightarrow> (a mod 16) * 4 + b div 64 < 64"
    by fastforce+
qed (simp_all add: div_less_iff_less_mult)

lemma encode_bytes_digits:
  "\<forall>b \<in> set bs. b < 256 \<Longrightarrow> (\<forall>d \<in> set (encode_bytes bs). d < 64) \<and> length bs \<le> length (encode_bytes bs)"
  by (induction bs rule: encode_bytes.induct) (simp_all add: digit_bounds)

lemma GenerateRandomString_alphabet:
  assumes "rand n = Ok bytes" and "length bytes = n"
  shows "\<exists>s. GenerateRandomString rand n = Ok s \<and> length s = n \<and> set s \<subseteq> set url_alphabet"
proof -
  have bytes: "\<forall>b \<in> set (map of_char bytes). b < (256 :: nat)" by simp
  have long: "n \<le> length (RawURLEncoding bytes)"
    using encode_bytes_digits [OF bytes] assms(2) by (simp add: RawURLEncoding_def)
  have "length url_alphabet = 64" by (simp add: url_alphabet_def)
  then have "set (RawURLEncoding bytes) \<subseteq> set url_alphabet"
    using encode_bytes_digits [OF bytes] by (auto simp: RawURLEncoding_def url_digit_def)
  then show ?thesis
    using assms(1) long set_take_subset [of n "RawURLEncoding bytes"] by (auto simp: GenerateRandomString_def)
qed

lemma http_send_keeps:
  "http_send req h = (h1, reply) \<Longrightarrow> \<exists>sent. h1 = h\<lparr>oh_sent := sent\<rparr>"
  by (auto simp: http_send_def split: http_reply.splits intro: exI [of _ "oh_sent h"])

lemma GetServerMetadata_keeps:
  "GetServerMetadata h = (h1, r) \<Longrightarrow> \<exists>m sent. h1 = h\<lparr>oh_serverMetadata := m, oh_sent := sent\<rparr>"
proof -
  assume g: "GetServerMetadata h = (h1, r)"
  show ?thesis
  proof (cases "oh_serverMetadata h")
    case None
    define req where "req = \<lparr>hr_Method = ''GET'', hr_URL = (if oc_AuthServerMetadataURL (oh_config h) = []
        then oc_AuthServerMetadataURL (oh_config h) @ ''/.well-known/oauth-authorization-server''
        else oc_AuthServerMetadataURL (oh_config h)), hr_Body = []\<rparr>"
    obtain h2 reply where s: "http_send req h = (h2, reply)" by (cases "http_send req h")
    then obtain sent where "h2 = h\<lparr>oh_sent := sent\<rparr>" using http_send_keeps by blast
    moreover have "h1 = h2 \<or> (\<exists>m. h1 = h2\<lparr>oh_serverMetadata := m\<rparr>)"
      using g s None unfolding GetServerMetadata_def Let_def req_def
      by (auto split: http_reply.splits if_splits option.splits)
    then obtain m where "h1 = h2\<lparr>oh_serverMetadata := m\<rparr>"
      by (metis oauth_handler.surjective oauth_handler.update_convs(3))
    ultimately have "h1 = h\<lparr>oh_serverMetadata := m, oh_sent := sent\<rparr>" by simp
    then show ?thesis by blast
  next
    case (Some m)
    then have "h1 = h\<lparr>oh_serverMetadata := Some m, oh_sent := oh_sent h\<rparr>"
      using g by (simp add: GetServerMetadata_def)
    then show ?thesis by blast
  qed
qed

lemma request_token_keeps:
  "request_token pt now endpoint params h = (h1, r) \<Longrightarrow> \<exists>sent. h1 = h\<lparr>oh_sent := sent\<rparr>"
proof -
  assume r: "request_token pt now endpoint params h = (h1, r)"
  let ?req = "\<lparr>hr_Method = ''POST'', hr_URL = endpoint, hr_Body = Encode params\<rparr>"
  obtain h2 reply where s: "http_send ?req h = (h2, reply)" by (cases "http_send ?req h")
  with r have "h1 = h2" by (auto simp: request_token_def split: http_reply.splits if_splits option.splits)
  then show ?thesis using http_send_keeps [OF s] by simp
qed

lemma exchange_keeps:
  "exchangeCodeForToken pt now code v h = (h1, r) \<Longrightarrow> \<exists>sent. h1 = h\<lparr>oh_sent := sent\<rparr>"
  using request_token_keeps
  by (fastforce simp: exchangeCodeForToken_def split: option.splits intro: exI [of _ "oh_sent h"])

lemma duration_exact:
  assumes "0 < n" and "n \<le> 9223372036"
  shows "duration_of_seconds n = n * 1000000000"
proof -
  have "(word_of_int n * 1000000000 :: int64) = word_of_int (n * 1000000000)" by simp
  moreover have "sint (word_of_int (n * 1000000000) :: int64) = n * 1000000000"
    using assms by (intro sint_word_of_int_range) simp_all
  ultimately show ?thesis by (simp only: duration_of_seconds_def)
qed

section \<open>The contract of a token store\<close>

text \<open>What the handler relies on: a token that was saved without error is the one found.\<close>

locale token_store =
  fixes save :: "token \<Rightarrow> 's \<Rightarrow> 's \<times> string option"
    and get :: "'s \<Rightarrow> token outcome"
  assumes get_save: "save t s = (s', None) \<Longrightarrow> get s' = Ok t"
begin

definition store_of :: "'s oauth_handler \<Rightarrow> bool" where
  "store_of h \<longleftrightarrow> oc_SaveToken (oh_config h) = save \<and> oc_GetToken (oh_config h) = get"

lemma store_of_cong: "oh_config h' = oh_config h \<Longrightarrow> store_of h' = store_of h"
  by (simp add: store_of_def)

lemma saved_token:
  assumes "store_of h" and "save_token t h = (h', None)"
  shows "store_of h'" and "oc_GetToken (oh_config h') (oh_store h') = Ok t"
  using assms get_save by (auto simp: save_token_def store_of_def split: prod.splits)

lemma stored_header:
  assumes "oc_GetToken (oh_config h) (oh_store h) = Ok t" and "tok_AccessToken t \<noteq> []" and "\<not> IsExpired now t"
  shows "GetAuthorizationHeader pt now h = (h, Ok (header_of t))"
  using assms by (simp add: GetAuthorizationHeader_def)

text \<open>After a successful exchange the header is made of the token that the server sent.\<close>

lemma authorized:
  assumes "store_of h" and "ProcessAuthorizationResponse pt now code state v h = (h', None)"
  shows "state = oh_expectedState h \<and> state \<noteq> [] \<and> store_of h' \<and>
    (\<exists>t. snd (exchangeCodeForToken pt now code v h) = Ok t \<and> oc_GetToken (oh_config h') (oh_store h') = Ok t)"
proof -
  have st: "oh_expectedState h \<noteq> []" "state = oh_expectedState h"
    using assms(2) by (auto simp: ProcessAuthorizationResponse_def split: if_splits)
  obtain h1 r where x: "exchangeCodeForToken pt now code v h = (h1, r)"
    by (cases "exchangeCodeForToken pt now code v h")
  obtain t where t: "r = Ok t" "save_token t h1 = (h', None)"
    using assms(2) st x by (auto simp: ProcessAuthorizationResponse_def split: outcome.splits prod.splits option.splits)
  obtain sent where "h1 = h\<lparr>oh_sent := sent\<rparr>" using exchange_keeps [OF x] by blast
  then have "store_of h1" using assms(1) by (simp add: store_of_def)
  with saved_token [OF _ t(2)] st x t(1) show ?thesis by simp
qed

text \<open>After a refresh the stored token is the one the header was made of.\<close>

lemma refreshed:
  assumes "store_of h" and "refreshToken pt now refresh h = (h', Ok t)"
  shows "store_of h' \<and> oc_GetToken (oh_config h') (oh_store h') = Ok t"
proof -
  obtain h1 m where g: "GetServerMetadata h = (h1, Ok m)"
    using assms(2) by (auto simp: refreshToken_def split: prod.splits outcome.splits)
  let ?p = "refresh_params (oh_config h1) refresh"
  obtain h2 r where q: "request_token pt now (am_TokenEndpoint m) ?p h1 = (h2, r)"
    by (cases "request_token pt now (am_TokenEndpoint m) ?p h1")
  have "r = Ok t \<and> save_token t h2 = (h', None)"
    using assms(2) g q by (auto simp: refreshToken_def split: prod.splits outcome.splits option.splits)
  moreover have "oh_config h2 = oh_config h"
    using GetServerMetadata_keeps [OF g] request_token_keeps [OF q] by auto
  then have "store_of h2" using assms(1) by (simp add: store_of_def)
  ultimately show ?thesis using saved_token by blast
qed

end

interpretation memory: token_store MemoryTokenStore_SaveToken MemoryTokenStore_GetToken
  by unfold_locales (auto simp: MemoryTokenStore_SaveToken_def MemoryTokenStore_GetToken_def)


section \<open>Histories of a handler\<close>

text \<open>The calls a client makes, with what the environment provides to each.\<close>

datatype oauth_op =
    AuthURL string "nat \<Rightarrow> string outcome"      \<comment> \<open>state, random bytes\<close>
  | AuthResponse int string string string       \<comment> \<open>now, code, state, verifier\<close>
  | Header int

fun oauth_apply ::
  "(string \<Rightarrow> int option option) \<Rightarrow> (string \<Rightarrow> string \<Rightarrow> string outcome) \<Rightarrow> (string \<Rightarrow> string) \<Rightarrow>
   oauth_op \<Rightarrow> 's oauth_handler \<Rightarrow> 's oauth_handler" where
  "oauth_apply pt wq sha (AuthURL state rand) h = fst (GetAuthorizationURL wq sha rand state h)"
| "oauth_apply pt wq sha (AuthResponse now code state v) h = fst (ProcessAuthorizationResponse pt now code state v h)"
| "oauth_apply pt wq sha (Header now) h = fst (GetAuthorizationHeader pt now h)"

lemma save_token_keeps: "\<exists>store. fst (save_token t h) = h\<lparr>oh_store := store\<rparr>"
  by (auto simp: save_token_def split: prod.splits)

definition same_login :: "'s oauth_handler \<Rightarrow> 's oauth_handler \<Rightarrow> bool" where
  "same_login h h' \<longleftrightarrow> oh_config h' = oh_config h \<and> oh_expectedState h' = oh_expectedState h"

lemma same_login_refl [simp]: "same_login h h"
  by (simp add: same_login_def)

lemma same_login_trans: "same_login h h1 \<Longrightarrow> same_login h1 h2 \<Longrightarrow> same_login h h2"
  by (simp add: same_login_def)

lemma same_login_steps:
  "same_login h (fst (GetServerMetadata h))"
  "same_login h (fst (request_token pt now endpoint params h))"
  "same_login h (fst (exchangeCodeForToken pt now code v h))"
  "same_login h (fst (save_token t h))"
proof -
  show "same_login h (fst (GetServerMetadata h))"
    using GetServerMetadata_keeps [of h] by (cases "GetServerMetadata h") (auto simp: same_login_def)
  show "same_login h (fst (request_token pt now endpoint params h))"
    using request_token_keeps [of pt now endpoint params h]
    by (cases "request_token pt now endpoint params h") (auto simp: same_login_def)
  show "same_login h (fst (exchangeCodeForToken pt now code v h))"
    using exchange_keeps [of pt now code v h] by (cases "exchangeCodeForToken pt now code v h") (auto simp: same_login_def)
  show "same_login h (fst (save_token t h))"
    using save_token_keeps [of t h] by (auto simp: same_login_def)
qed

lemma same_login_refresh: "same_login h (fst (refreshToken pt now refresh h))"
proof -
  obtain h1 r where g: "GetServerMetadata h = (h1, r)" by (cases "GetServerMetadata h")
  have s1: "same_login h h1" using same_login_steps(1) [of h] g by simp
  show ?thesis
  proof (cases r)
    case (Ok m)
    let ?p = "refresh_params (oh_config h1) refresh"
    obtain h2 q where q: "request_token pt now (am_TokenEndpoint m) ?p h1 = (h2, q)"
      by (cases "request_token pt now (am_TokenEndpoint m) ?p h1")
    have s2: "same_login h h2"
      using same_login_trans [OF s1, of h2] same_login_steps(2) [of h1 pt now "am_TokenEndpoint m" ?p] q by simp
    have s3: "same_login h h3" if "save_token t h2 = (h3, e)" for t h3 e
      using same_login_trans [OF s2 same_login_steps(4), of t] that by simp
    show ?thesis
      using g Ok q s2 by (cases q) (auto simp: refreshToken_def split: prod.split option.split intro: s3)
  qed (use g s1 in \<open>simp_all add: refreshToken_def\<close>)
qed

lemma same_login_response: "same_login h (fst (ProcessAuthorizationResponse pt now code state v h))"
proof -
  obtain h1 r where x: "exchangeCodeForToken pt now code v h = (h1, r)"
    by (cases "exchangeCodeForToken pt now code v h")
  have s1: "same_login h h1" using same_login_steps(3) [of h pt now code v] x by simp
  have s2: "same_login h h2" if "save_token t h1 = (h2, e)" for t h2 e
    using same_login_trans [OF s1 same_login_steps(4), of t] that by simp
  show ?thesis
    using x s1 by (cases r) (auto simp: ProcessAuthorizationResponse_def split: prod.split option.split intro: s2)
qed

lemma same_login_header: "same_login h (fst (GetAuthorizationHeader pt now h))"
  using same_login_refresh [of h pt now]
  by (auto simp: GetAuthorizationHeader_def split: outcome.split prod.split; metis fst_conv)

text \<open>Only \<open>GetAuthorizationURL\<close> sets the expected state, and only with PKCE.\<close>

lemma AuthURL_state:
  assumes "\<not> oc_PKCEEnabled (oh_config h)"
  shows "same_login h (fst (GetAuthorizationURL wq sha rand state h))"
proof -
  obtain h1 r where g: "GetServerMetadata h = (h1, r)" by (cases "GetServerMetadata h")
  have s1: "same_login h h1" using same_login_steps(1) [of h] g by simp
  then have "\<not> oc_PKCEEnabled (oh_config h1)" using assms by (simp add: same_login_def)
  then show ?thesis using g s1 by (cases r) (auto simp: GetAuthorizationURL_def split: outcome.split)
qed

lemma no_pkce_login:
  assumes "\<not> oc_PKCEEnabled (oh_config h)"
  shows "same_login h (fold (oauth_apply pt wq sha) ops h)"
  using assms
proof (induction ops arbitrary: h)
  case (Cons op ops)
  have s: "same_login h (oauth_apply pt wq sha op h)"
    using Cons.prems AuthURL_state same_login_response same_login_header by (cases op) auto
  then have "\<not> oc_PKCEEnabled (oh_config (oauth_apply pt wq sha op h))" using Cons.prems by (simp add: same_login_def)
  from same_login_trans [OF s Cons.IH [OF this]] show ?case by simp
qed simp


section \<open>A handler to evaluate\<close>

text \<open>The server of this handler answers every request with a token for a minute.\<close>

definition bearer_body :: payload where
  "bearer_body = Text (JObj [(''access_token'', JStr ''a''), (''token_type'', JStr ''Bearer''), (''expires_in'', JInt 60)])"

definition bearer :: token where
  "bearer = zero_token\<lparr>tok_AccessToken := ''a'', tok_TokenType := ''Bearer'', tok_ExpiresIn := 60\<rparr>"

definition bearer_config :: "token option oauth_config" where
  "bearer_config = \<lparr>oc_ClientID = ''c'', oc_ClientSecret = [], oc_RedirectURI = ''http://localhost/cb'', oc_Scopes = [],
     oc_SaveToken = MemoryTokenStore_SaveToken, oc_GetToken = MemoryTokenStore_GetToken,
     oc_AuthServerMetadataURL = ''http://as/md'', oc_PKCEEnabled = True,
     oc_HTTPClient = Some (\<lambda>_ _. Reply 200 bearer_body)\<rparr>"

definition bearer_handler :: "token option \<Rightarrow> token option oauth_handler" where
  "bearer_handler store = (NewOAuthHandler (\<lambda>_ _. Failed []) bearer_config store)
     \<lparr>oh_serverMetadata := Some (zero_metadata\<lparr>am_TokenEndpoint := ''http://as/token''\<rparr>), oh_expectedState := ''s''\<rparr>"

lemma bearer_decoded: "decode_body (token_fields pt) zero_token bearer_body = Some bearer"
  by (simp add: decode_body_def bearer_body_def decode_struct_def find_field_def token_fields_def dec_string_def
      dec_int_def bearer_def)

lemma bearer_request:
  "\<exists>sent. request_token pt 0 endpoint params (bearer_handler store) =
     (bearer_handler store\<lparr>oh_sent := sent\<rparr>, Ok (bearer\<lparr>tok_ExpiresAt := Some 60000000000\<rparr>))"
  using bearer_decoded duration_exact [of 60]
  by (simp add: request_token_def http_send_def bearer_handler_def NewOAuthHandler_def bearer_config_def
      set_expiry_def bearer_def zero_token_def)

lemma bearer_login:
  "\<exists>sent. ProcessAuthorizationResponse pt 0 code ''s'' v (bearer_handler None) =
     (bearer_handler (Some (bearer\<lparr>tok_ExpiresAt := Some 60000000000\<rparr>))\<lparr>oh_sent := sent\<rparr>, None)"
proof -
  let ?h = "bearer_handler None"
  have "oh_serverMetadata ?h = Some (zero_metadata\<lparr>am_TokenEndpoint := ''http://as/token''\<rparr>)" "oh_expectedState ?h = ''s''"
    by (simp_all add: bearer_handler_def)
  moreover obtain sent where "request_token pt 0 ''http://as/token'' (exchange_params (oh_config ?h) code v) ?h =
      (?h\<lparr>oh_sent := sent\<rparr>, Ok (bearer\<lparr>tok_ExpiresAt := Some 60000000000\<rparr>))"
    using bearer_request by blast
  ultimately show ?thesis
    by (simp add: ProcessAuthorizationResponse_def exchangeCodeForToken_def save_token_def)
      (simp add: bearer_handler_def NewOAuthHandler_def bearer_config_def MemoryTokenStore_SaveToken_def)
qed

section \<open>Properties\<close>

text \<open>C20: With the memory store, an authorization response is accepted only with the state that was
  announced, which is not empty; once it is accepted, and until the token that the server sent expires,
  \<open>GetAuthorizationHeader\<close> answers with that token and sends nothing.\<close>

theorem authorized_header:
  assumes "oc_SaveToken (oh_config h) = MemoryTokenStore_SaveToken"
    and "oc_GetToken (oh_config h) = MemoryTokenStore_GetToken"
    and "ProcessAuthorizationResponse pt now code state v h = (h', None)"
  shows "state = oh_expectedState h \<and> state \<noteq> [] \<and>
    (\<exists>t. snd (exchangeCodeForToken pt now code v h) = Ok t \<and>
      (tok_AccessToken t = [] \<or> IsExpired now' t \<or> GetAuthorizationHeader pt now' h' = (h', Ok (header_of t))))"
proof -
  have "memory.store_of h" using assms(1,2) by (simp add: memory.store_of_def)
  from memory.authorized [OF this assms(3)] show ?thesis using memory.stored_header by blast
qed

theorem authorized_header_witness:
  "\<exists>h'. ProcessAuthorizationResponse (\<lambda>_. None) 0 ''code'' ''s'' ''v'' (bearer_handler None) = (h', None) \<and>
     GetAuthorizationHeader (\<lambda>_. None) 60000000000 h' = (h', Ok ''Bearer a'')"
proof -
  let ?pt = "\<lambda>_. None :: int option option" and ?h = "bearer_handler None"
  obtain h' where login: "ProcessAuthorizationResponse ?pt 0 ''code'' ''s'' ''v'' ?h = (h', None)"
    using bearer_login by blast
  have m: "oc_SaveToken (oh_config ?h) = MemoryTokenStore_SaveToken" "oc_GetToken (oh_config ?h) = MemoryTokenStore_GetToken"
    "oh_serverMetadata ?h = Some (zero_metadata\<lparr>am_TokenEndpoint := ''http://as/token''\<rparr>)"
    by (simp_all add: bearer_handler_def NewOAuthHandler_def bearer_config_def)
  obtain sent where r: "request_token ?pt 0 ''http://as/token'' (exchange_params (oh_config ?h) ''code'' ''v'') ?h =
      (?h\<lparr>oh_sent := sent\<rparr>, Ok (bearer\<lparr>tok_ExpiresAt := Some 60000000000\<rparr>))"
    using bearer_request by blast
  then have "snd (exchangeCodeForToken ?pt 0 ''code'' ''v'' ?h) = Ok (bearer\<lparr>tok_ExpiresAt := Some 60000000000\<rparr>)"
    using m(3) by (simp add: exchangeCodeForToken_def)
  then show ?thesis
    using authorized_header [OF m(1,2) login, of 60000000000] login
    by (simp add: bearer_def header_of_def IsExpired_def)
qed

text \<open>A refresh token is used once and lost: when the token that a refresh returns carries no refresh
  token of its own, as a server may leave it out to keep the old one in use, the stored token has none
  either, and when it expires the handler asks for a new authorization, without a request.\<close>

theorem refresh_token_lost:
  assumes "oc_SaveToken (oh_config h) = MemoryTokenStore_SaveToken"
    and "oc_GetToken (oh_config h) = MemoryTokenStore_GetToken"
    and "oh_store h = Some t" and "tok_AccessToken t \<noteq> []" and "IsExpired now t" and "tok_RefreshToken t \<noteq> []"
    and "refreshToken pt now (tok_RefreshToken t) h = (h', Ok t')" and "tok_RefreshToken t' = []"
    and "IsExpired later t'"
  shows "GetAuthorizationHeader pt now h = (h', Ok (header_of t')) \<and>
    GetAuthorizationHeader pt later h' = (h', Err AuthorizationRequired)"
proof -
  have "memory.store_of h" using assms(1,2) by (simp add: memory.store_of_def)
  from memory.refreshed [OF this assms(7)] have "oc_GetToken (oh_config h') (oh_store h') = Ok t'" by simp
  moreover have "oc_GetToken (oh_config h) (oh_store h) = Ok t"
    using assms(2,3) by (simp add: MemoryTokenStore_GetToken_def)
  ultimately show ?thesis
    using assms(4-9) by (simp add: GetAuthorizationHeader_def)
qed

theorem refresh_token_lost_witness:
  "let old = bearer\<lparr>tok_RefreshToken := ''r'', tok_ExpiresAt := Some (- 1)\<rparr> in
   \<exists>h'. GetAuthorizationHeader (\<lambda>_. None) 0 (bearer_handler (Some old)) = (h', Ok ''Bearer a'') \<and>
     GetAuthorizationHeader (\<lambda>_. None) 60000000001 h' = (h', Err AuthorizationRequired)"
proof -
  let ?pt = "\<lambda>_. None :: int option option"
  let ?old = "bearer\<lparr>tok_RefreshToken := ''r'', tok_ExpiresAt := Some (- 1)\<rparr>"
  let ?new = "bearer\<lparr>tok_ExpiresAt := Some 60000000000\<rparr>"
  let ?h = "bearer_handler (Some ?old)"
  have m: "oc_SaveToken (oh_config ?h) = MemoryTokenStore_SaveToken" "oc_GetToken (oh_config ?h) = MemoryTokenStore_GetToken"
    "oh_store ?h = Some ?old" "oh_serverMetadata ?h = Some (zero_metadata\<lparr>am_TokenEndpoint := ''http://as/token''\<rparr>)"
    by (simp_all add: bearer_handler_def NewOAuthHandler_def bearer_config_def)
  obtain sent where "request_token ?pt 0 ''http://as/token'' (refresh_params (oh_config ?h) ''r'') ?h =
      (?h\<lparr>oh_sent := sent\<rparr>, Ok ?new)"
    using bearer_request by blast
  then have "\<exists>h'. refreshToken ?pt 0 ''r'' ?h = (h', Ok ?new)"
    using m by (simp add: refreshToken_def GetServerMetadata_def save_token_def MemoryTokenStore_SaveToken_def)
  then obtain h' where r: "refreshToken ?pt 0 (tok_RefreshToken ?old) ?h = (h', Ok ?new)" by auto
  have "tok_AccessToken ?old \<noteq> []" "IsExpired 0 ?old" "tok_RefreshToken ?old \<noteq> []" "tok_RefreshToken ?new = []"
    "IsExpired 60000000001 ?new" "header_of ?new = ''Bearer a''"
    by (simp_all add: bearer_def IsExpired_def zero_token_def header_of_def)
  then show ?thesis
    using refresh_token_lost [OF m(1,2,3) _ _ _ r, of 60000000001] by (auto simp: Let_def)
qed

text \<open>Without PKCE no authorization response is ever accepted: whatever was called before, \<open>GetAuthorizationURL\<close>
  included, the handler knows no expected state, refuses the response and sends nothing.\<close>

theorem no_pkce_never_authorized:
  assumes "\<not> oc_PKCEEnabled config"
  shows "ProcessAuthorizationResponse pt now code state v
      (fold (oauth_apply pt wq sha) ops (NewOAuthHandler client config store)) =
    (fold (oauth_apply pt wq sha) ops (NewOAuthHandler client config store), Some ''no expected state set'')"
proof -
  have "same_login (NewOAuthHandler client config store)
      (fold (oauth_apply pt wq sha) ops (NewOAuthHandler client config store))"
    using assms by (intro no_pkce_login) (simp add: NewOAuthHandler_def)
  then show ?thesis by (simp add: ProcessAuthorizationResponse_def same_login_def NewOAuthHandler_def)
qed

theorem no_pkce_never_authorized_witness:
  "snd (ProcessAuthorizationResponse (\<lambda>_. None) 1 ''code'' ''s'' []
     (fst (GetAuthorizationURL (\<lambda>endpoint query. Ok (endpoint @ ''?'' @ query)) id (\<lambda>n. Ok (replicate n CHR ''x'')) ''s''
       (NewOAuthHandler (\<lambda>_ _. Failed []) (bearer_config\<lparr>oc_PKCEEnabled := False\<rparr>) None)))) =
   Some ''no expected state set''"
  using no_pkce_never_authorized [of "bearer_config\<lparr>oc_PKCEEnabled := False\<rparr>" "\<lambda>_. None" 1 "''code''" "''s''" "[]"
      "\<lambda>endpoint query. Ok (endpoint @ ''?'' @ query)" id "[AuthURL ''s'' (\<lambda>n. Ok (replicate n CHR ''x''))]"
      "\<lambda>_ _. Failed []" None]
  by simp

text \<open>A token whose lifetime is a positive number of seconds up to 9223372036 expires that many seconds after
  it was received. One second more overflows the 64 bits of a duration: the token has expired at once.\<close>

theorem token_lifetime:
  assumes "tok_ExpiresIn t = n" and "0 < n" and "n \<le> 9223372037"
  shows "IsExpired later (set_expiry now t) \<longleftrightarrow>
    (if n = 9223372037 then now - 9223372036709551616 < later else now + n * 1000000000 < later)"
proof (cases "n = 9223372037")
  case True
  have "duration_of_seconds 9223372037 = - 9223372036709551616" by (simp add: duration_of_seconds_def)
  then show ?thesis using assms True by (simp add: set_expiry_def IsExpired_def)
next
  case False
  then show ?thesis using assms duration_exact [of n] by (simp add: set_expiry_def IsExpired_def)
qed

theorem token_lifetime_witness:
  "IsExpired 3600000000001 (set_expiry 0 (zero_token\<lparr>tok_ExpiresIn := 3600\<rparr>)) \<and>
   \<not> IsExpired 3600000000000 (set_expiry 0 (zero_token\<lparr>tok_ExpiresIn := 3600\<rparr>)) \<and>
   IsExpired 0 (set_expiry 0 (zero_token\<lparr>tok_ExpiresIn := 9223372037\<rparr>))"
  using token_lifetime [of "zero_token\<lparr>tok_ExpiresIn := 3600\<rparr>" 3600 3600000000001 0]
    token_lifetime [of "zero_token\<lparr>tok_ExpiresIn := 3600\<rparr>" 3600 3600000000000 0]
    token_lifetime [of "zero_token\<lparr>tok_ExpiresIn := 9223372037\<rparr>" 9223372037 0 0]
  by simp

end
