(* ===== verification/Http_Server.thy ===== *)
theory Http_Server
  imports Message_Handler
begin

text \<open>
  \<open>transport/streamable_http_server.go\<close>: JSON-RPC over HTTP with server-sent events. The state holds the
  HTTP calls and the event streams that were opened, each with what its goroutine and its timer are
  doing, the map of pending requests from ids to calls, and the message handler below. A call runs in
  pieces that other goroutines can interleave: reading the request, entering it in the map, handing
  it on, waiting. \<open>httpMu\<close> is free between pieces unless a panic left it locked. What is written to a
  connection is recorded with the call or the stream; times of day are arguments.
\<close>

named_theorems hst_simps "definitions of the HTTP server transport"

section \<open>State\<close>

record http_config =
  htc_RequestTimeout :: int
  htc_MessageBuffer :: int
  htc_EnableSSE :: bool
  htc_CORSEnabled :: bool
  htc_MaxRequestSize :: int

text \<open>A request as \<open>net/http\<close> presents it: \<^term>\<open>None\<close> when reading the body fails.\<close>

record http_in =
  hin_Method :: string
  hin_Size :: int
  hin_Body :: "payload option"

datatype http_body = NoBody | PlainBody string | JsonBody json

record http_out =
  hout_Status :: int
  hout_Headers :: "(string \<times> string) list"
  hout_Body :: http_body

text \<open>
  The timer of a call is armed, stopped, or its function runs: started, past the removal of the
  pending request, done. \<open>Stop\<close> has an effect on an armed timer only.
\<close>

datatype timer_state = Armed | Stopped | Started | Removed | Fired

datatype call_phase = Storing | Sending | Waiting | Answered http_out | Crashed string

record http_call =
  hc_request :: request
  hc_buf :: "response list"
  hc_closed :: bool
  hc_timer :: timer_state
  hc_phase :: call_phase

datatype sse_event = Event string json | Heartbeat

record sse_client =
  sse_ID :: string
  sse_Headers :: "(string \<times> string) list"
  sse_events :: "sse_event list"
  sse_Done :: bool

record hst_state =
  hst_config :: http_config
  hst_handler :: mh_state
  hst_bufferSize :: nat
  hst_requestChan :: "request list"
  hst_notificationChan :: "notification list"
  hst_chansClosed :: bool
  hst_ctx :: "string option"
  hst_pending :: "gval \<rightharpoonup> nat"
  hst_locked :: bool
  hst_calls :: "http_call list"
  hst_sseClients :: "string \<rightharpoonup> nat"
  hst_clients :: "sse_client list"
  hst_requestsReceived :: int64
  hst_responsesSent :: int64
  hst_sseConnections :: int64
  hst_httpErrors :: int64

definition default_config :: "http_config \<Rightarrow> http_config" where
  "default_config config = config
     \<lparr>htc_RequestTimeout := (if htc_RequestTimeout config = 0 then 30 * 1000000000 else htc_RequestTimeout config),
      htc_MessageBuffer := (if htc_MessageBuffer config = 0 then 100 else htc_MessageBuffer config),
      htc_MaxRequestSize := (if htc_MaxRequestSize config = 0 then 10 * 1024 * 1024 else htc_MaxRequestSize config)\<rparr>"

definition NewStreamableHTTPServerTransport :: "string option \<Rightarrow> http_config \<Rightarrow> hst_state outcome" where
  "NewStreamableHTTPServerTransport ctx config0 =
     (let config = default_config config0
      in case NewMessageHandler ctx
                \<lparr>mhc_RequestTimeout = htc_RequestTimeout config, mhc_BufferSize = htc_MessageBuffer config\<rparr> of
           Panic p \<Rightarrow> Panic p
         | Err e \<Rightarrow> Err e
         | Ok handler \<Rightarrow>
             Ok \<lparr>hst_config = config, hst_handler = handler, hst_bufferSize = nat (htc_MessageBuffer config),
                 hst_requestChan = [], hst_notificationChan = [], hst_chansClosed = False, hst_ctx = ctx,
                 hst_pending = Map.empty, hst_locked = False, hst_calls = [], hst_sseClients = Map.empty,
                 hst_clients = [], hst_requestsReceived = 0, hst_responsesSent = 0, hst_sseConnections = 0,
                 hst_httpErrors = 0\<rparr>)"

section \<open>Pending requests\<close>

definition call_update :: "nat \<Rightarrow> (http_call \<Rightarrow> http_call) \<Rightarrow> hst_state \<Rightarrow> hst_state" where
  "call_update a f s = s\<lparr>hst_calls := (hst_calls s)[a := f (hst_calls s ! a)]\<rparr>"

definition set_phase :: "nat \<Rightarrow> call_phase \<Rightarrow> hst_state \<Rightarrow> hst_state" where
  "set_phase a ph = call_update a (\<lambda>c. c\<lparr>hc_phase := ph\<rparr>)"

definition stop_timer :: "timer_state \<Rightarrow> timer_state" where
  "stop_timer t = (if t = Armed then Stopped else t)"

definition removePendingHTTPRequest :: "gval \<Rightarrow> hst_state \<Rightarrow> hst_state" where
  "removePendingHTTPRequest ident s =
     (case hst_pending s ident of
        None \<Rightarrow> s
      | Some a \<Rightarrow>
          (call_update a (\<lambda>c. c\<lparr>hc_timer := stop_timer (hc_timer c)\<rparr>) s)
            \<lparr>hst_pending := (hst_pending s)(ident := None)\<rparr>)"

text \<open>The same under the lock: \<^term>\<open>None\<close> while it cannot be taken.\<close>

definition locked_remove :: "gval \<Rightarrow> hst_state \<Rightarrow> hst_state option" where
  "locked_remove ident s = (if hst_locked s then None else Some (removePendingHTTPRequest ident s))"

section \<open>A call\<close>

definition cors_headers :: "http_config \<Rightarrow> (string \<times> string) list" where
  "cors_headers config =
     (if htc_CORSEnabled config then map_put_all
        [(''Access-Control-Allow-Origin'', ''*''), (''Access-Control-Allow-Methods'', ''POST, GET, OPTIONS''),
         (''Access-Control-Allow-Headers'', ''Content-Type, X-Session-ID'')] []
      else [])"

text \<open>\<open>http.Error\<close>\<close>

definition http_error :: "(string \<times> string) list \<Rightarrow> string \<Rightarrow> int \<Rightarrow> http_out" where
  "http_error headers msg code =
     \<lparr>hout_Status = code,
      hout_Headers = map_put_all
        [(''Content-Type'', ''text/plain; charset=utf-8''), (''X-Content-Type-Options'', ''nosniff'')] headers,
      hout_Body = PlainBody (msg @ [CHR 0x0A])\<rparr>"

definition json_headers :: "hst_state \<Rightarrow> (string \<times> string) list" where
  "json_headers s = map_put ''Content-Type'' ''application/json'' (cors_headers (hst_config s))"

definition count_http_error :: "hst_state \<Rightarrow> hst_state" where
  "count_http_error s = s\<lparr>hst_httpErrors := hst_httpErrors s + 1\<rparr>"

definition count_received :: "hst_state \<Rightarrow> hst_state" where
  "count_received s = s\<lparr>hst_requestsReceived := hst_requestsReceived s + 1\<rparr>"

text \<open>
  \<open>handleRPC\<close> up to the lock: the answer, or the number of the call that goes on, or a notification
  to hand on. The channel and the timer exist before the call is entered in the map.
\<close>

datatype rpc_result = Answer http_out | Call nat | Notify notification

definition new_http_call :: "request \<Rightarrow> hst_state \<Rightarrow> hst_state \<times> rpc_result" where
  "new_http_call request s =
     (s\<lparr>hst_calls := hst_calls s @ [\<lparr>hc_request = request, hc_buf = [], hc_closed = False, hc_timer = Armed,
         hc_phase = Storing\<rparr>]\<rparr>, Call (length (hst_calls s)))"

definition read_body :: "http_in \<Rightarrow> hst_state \<Rightarrow> payload option" where
  "read_body req s = (if hin_Size req > htc_MaxRequestSize (hst_config s) then None else hin_Body req)"

definition handleRPC :: "http_in \<Rightarrow> hst_state \<Rightarrow> hst_state \<times> rpc_result" where
  "handleRPC req s =
     (let headers = cors_headers (hst_config s)
      in if hin_Method req = ''OPTIONS'' then
           (s, Answer \<lparr>hout_Status = 200, hout_Headers = headers, hout_Body = NoBody\<rparr>)
         else if hin_Method req \<noteq> ''POST'' then (s, Answer (http_error headers ''Method not allowed'' 405))
         else case read_body req s of
           None \<Rightarrow> (count_http_error s, Answer (http_error headers ''Failed to read request body'' 400))
         | Some body \<Rightarrow>
             (case ParseMessage body of
                None \<Rightarrow> (count_http_error (count_received s),
                         Answer (http_error headers ''Invalid JSON-RPC message'' 400))
              | Some msg \<Rightarrow>
                  (let s1 = count_received s
                   in if IsRequest msg then
                        (case ToRequest msg of
                           None \<Rightarrow> (count_http_error s1, Answer (http_error (json_headers s) ''Invalid request format'' 400))
                         | Some request \<Rightarrow> new_http_call request s1)
                      else if IsNotification msg then
                        (case ToNotification msg of
                           None \<Rightarrow> (count_http_error s1, Answer (http_error (json_headers s) ''Invalid notification format'' 400))
                         | Some notification \<Rightarrow> (s1, Notify notification))
                      else (count_http_error s1, Answer (http_error (json_headers s) ''Invalid message type'' 400)))))"

text \<open>
  Entering the call in the map, under the lock. A key that cannot be hashed panics; \<open>net/http\<close> recovers
  the panic of a handler, and nothing unlocks \<open>httpMu\<close>.
\<close>

definition http_store :: "nat \<Rightarrow> hst_state \<Rightarrow> hst_state option" where
  "http_store a s =
     (let ident = req_ID (hc_request (hst_calls s ! a))
      in if hst_locked s then None
         else if \<not> hashable ident then
           Some ((set_phase a (Crashed ''hash of unhashable type'') s)\<lparr>hst_locked := True\<rparr>)
         else Some ((set_phase a Sending s)\<lparr>hst_pending := (hst_pending s)(ident \<mapsto> a)\<rparr>))"

definition shutting_down :: "hst_state \<Rightarrow> http_out" where
  "shutting_down s = http_error (json_headers s) ''Server shutting down'' 503"

text \<open>The two cases of the \<open>select\<close> that hands the request on. Sending on a closed channel panics.\<close>

definition http_enqueue :: "nat \<Rightarrow> hst_state \<Rightarrow> hst_state option" where
  "http_enqueue a s =
     (if hst_chansClosed s then Some (set_phase a (Crashed ''send on closed channel'') s)
      else map_option (\<lambda>buf. (set_phase a Waiting s)\<lparr>hst_requestChan := buf\<rparr>)
             (chan_send (hst_bufferSize s) (hst_requestChan s) (hc_request (hst_calls s ! a))))"

definition http_enqueue_cancelled :: "nat \<Rightarrow> hst_state \<Rightarrow> hst_state option" where
  "http_enqueue_cancelled a s =
     (if hst_ctx s = None then None
      else map_option (set_phase a (Answered (shutting_down s)))
             (locked_remove (req_ID (hc_request (hst_calls s ! a))) s))"

text \<open>The two cases of the \<open>select\<close> that waits; a closed channel gives the nil response.\<close>

definition http_receive :: "nat \<Rightarrow> hst_state \<Rightarrow> hst_state option" where
  "http_receive a s =
     (case hc_buf (hst_calls s ! a) of
        response # rest \<Rightarrow>
          (let s1 = call_update a (\<lambda>c. c\<lparr>hc_buf := rest\<rparr>) s
           in case marshal (response_gval response) of
                None \<Rightarrow> Some (count_http_error (set_phase a (Answered
                    \<lparr>hout_Status = 200, hout_Headers = json_headers s, hout_Body = NoBody\<rparr>) s1))
              | Some j \<Rightarrow> Some ((set_phase a (Answered
                    \<lparr>hout_Status = 200, hout_Headers = json_headers s, hout_Body = JsonBody j\<rparr>) s1)
                  \<lparr>hst_responsesSent := hst_responsesSent s + 1\<rparr>))
      | [] \<Rightarrow>
          if hc_closed (hst_calls s ! a)
          then Some (set_phase a (Answered (http_error (json_headers s) ''Request timeout'' 504)) s)
          else None)"

definition http_receive_cancelled :: "nat \<Rightarrow> hst_state \<Rightarrow> hst_state option" where
  "http_receive_cancelled a s =
     (if hst_ctx s = None then None else Some (set_phase a (Answered (shutting_down s)) s))"

text \<open>Handing a notification on: \<^term>\<open>None\<close> while the channel is full.\<close>

definition http_notify :: "bool \<Rightarrow> notification \<Rightarrow> hst_state \<Rightarrow> (hst_state \<times> http_out outcome) option" where
  "http_notify pick notification s =
     (if hst_chansClosed s \<and> (pick \<or> hst_ctx s = None) then Some (s, Panic ''send on closed channel'')
      else case select_send pick (hst_bufferSize s) (hst_notificationChan s) notification (hst_ctx s) of
             Sent buf \<Rightarrow> Some (s\<lparr>hst_notificationChan := buf\<rparr>,
                 Ok \<lparr>hout_Status = 200, hout_Headers = json_headers s, hout_Body = NoBody\<rparr>)
           | Cancelled _ \<Rightarrow> Some (s, Ok (shutting_down s))
           | Blocked \<Rightarrow> None)"

text \<open>The timer's function: it starts, removes the request under the lock, and closes the channel.\<close>

definition timer_start :: "nat \<Rightarrow> hst_state \<Rightarrow> hst_state" where
  "timer_start a = call_update a (\<lambda>c. c\<lparr>hc_timer := Started\<rparr>)"

definition timer_remove :: "nat \<Rightarrow> hst_state \<Rightarrow> hst_state option" where
  "timer_remove a s =
     map_option (call_update a (\<lambda>c. c\<lparr>hc_timer := Removed\<rparr>))
       (locked_remove (req_ID (hc_request (hst_calls s ! a))) s)"

definition timer_close :: "nat \<Rightarrow> hst_state \<Rightarrow> hst_state" where
  "timer_close a = call_update a (\<lambda>c. c\<lparr>hc_timer := Fired, hc_closed := True\<rparr>)"


section \<open>Event streams\<close>

definition client_update :: "nat \<Rightarrow> (sse_client \<Rightarrow> sse_client) \<Rightarrow> hst_state \<Rightarrow> hst_state" where
  "client_update c f s = s\<lparr>hst_clients := (hst_clients s)[c := f (hst_clients s ! c)]\<rparr>"

definition write_event :: "nat \<Rightarrow> sse_event \<Rightarrow> hst_state \<Rightarrow> hst_state" where
  "write_event c ev = client_update c (\<lambda>cl. cl\<lparr>sse_events := sse_events cl @ [ev]\<rparr>)"

text \<open>The result says whether the data could be encoded. What \<open>Fprintf\<close> returns is ignored.\<close>

definition sendSSEEvent :: "nat \<Rightarrow> string \<Rightarrow> gval \<Rightarrow> hst_state \<Rightarrow> hst_state \<times> bool" where
  "sendSSEEvent c eventType data s =
     (case marshal data of None \<Rightarrow> (s, False) | Some j \<Rightarrow> (write_event c (Event eventType j) s, True))"

definition sendSSEHeartbeat :: "nat \<Rightarrow> hst_state \<Rightarrow> hst_state" where
  "sendSSEHeartbeat c = write_event c Heartbeat"

definition remove_client :: "nat \<Rightarrow> hst_state \<Rightarrow> hst_state" where
  "remove_client c s = s\<lparr>hst_sseClients := (hst_sseClients s)(sse_ID (hst_clients s ! c) := None)\<rparr>"

fun broadcast_all :: "string \<Rightarrow> gval \<Rightarrow> nat list \<Rightarrow> hst_state \<Rightarrow> hst_state" where
  "broadcast_all eventType data [] s = s"
| "broadcast_all eventType data (c # cs) s =
     (case sendSSEEvent c eventType data s of
        (s1, ok) \<Rightarrow> broadcast_all eventType data cs (if ok then s1 else remove_client c s1))"

text \<open>The clients are collected under the lock, in the order \<open>ks\<close> of the loop over the map.\<close>

definition broadcastSSEEvent :: "string list \<Rightarrow> string \<Rightarrow> gval \<Rightarrow> hst_state \<Rightarrow> hst_state" where
  "broadcastSSEEvent ks eventType data s = broadcast_all eventType data (range_values (hst_sseClients s) ks) s"

text \<open>
  \<open>handleSSE\<close> up to its loop: \<open>nanos\<close> and \<open>now\<close> are the times it reads, \<open>session\<close> the header \<open>X-Session-ID\<close>.
  The result is an answer, or \<^term>\<open>None\<close> when the stream is open; its headers are not recorded.
\<close>

definition open_stream :: "int \<Rightarrow> int \<Rightarrow> string \<Rightarrow> hst_state \<Rightarrow> hst_state" where
  "open_stream nanos now session s =
     (let clientID = ''client-'' @ fmt_d nanos; c = length (hst_clients s);
          s1 = s\<lparr>hst_clients := hst_clients s @
                   [\<lparr>sse_ID = clientID,
                     sse_Headers = (if session \<noteq> [] then [(''X-Session-ID'', session)] else []),
                     sse_events = [], sse_Done = False\<rparr>],
                 hst_sseClients := (hst_sseClients s)(clientID \<mapsto> c),
                 hst_sseConnections := hst_sseConnections s + 1\<rparr>
      in fst (sendSSEEvent c ''connected''
                (GMap [(''clientId'', GString clientID), (''timestamp'', GInt64 (word_of_int now))]) s1))"

definition handleSSE ::
  "bool \<Rightarrow> int \<Rightarrow> int \<Rightarrow> string \<Rightarrow> hst_state \<Rightarrow> hst_state \<times> http_out option" where
  "handleSSE flusher nanos now session s =
     (if \<not> flusher then (s, Some (http_error [] ''SSE not supported'' 500))
      else (open_stream nanos now session s, None))"

text \<open>The end of a stream: the deferred function, whose panic \<open>net/http\<close> recovers.\<close>

definition close_stream :: "nat \<Rightarrow> hst_state \<Rightarrow> hst_state outcome" where
  "close_stream c s =
     (if sse_Done (hst_clients s ! c) then Panic ''close of closed channel''
      else Ok (client_update c (\<lambda>cl. cl\<lparr>sse_Done := True\<rparr>) (remove_client c s)))"

definition handleHealth :: "int \<Rightarrow> http_out" where
  "handleHealth now =
     \<lparr>hout_Status = 200, hout_Headers = [(''Content-Type'', ''application/json'')],
      hout_Body = JsonBody (JObj [(''status'', JStr ''healthy''), (''timestamp'', JInt now),
        (''transport'', JStr ''streamable-http'')])\<rparr>"

section \<open>Sending\<close>

definition hst_SendRequest ::
  "bool \<Rightarrow> string \<Rightarrow> gval \<Rightarrow> hst_state \<Rightarrow> (hst_state \<times> nat outcome) option" where
  "hst_SendRequest pick meth params s =
     map_option (\<lambda>(h, res). (s\<lparr>hst_handler := h\<rparr>, res)) (SendRequest pick meth params (hst_handler s))"

definition hst_SendNotification ::
  "bool \<Rightarrow> string list \<Rightarrow> string \<Rightarrow> gval \<Rightarrow> hst_state \<Rightarrow> (hst_state \<times> unit outcome) option" where
  "hst_SendNotification pick ks meth params s =
     (let notification = \<lparr>not_JSONRPC = ''2.0'', not_Method = meth, not_Params = params\<rparr>;
          s1 = (if htc_EnableSSE (hst_config s)
                then broadcastSSEEvent ks ''notification'' (notification_gval notification) s else s)
      in map_option (\<lambda>(h, res). (s1\<lparr>hst_handler := h\<rparr>, res)) (SendNotification pick meth params (hst_handler s1)))"

text \<open>
  \<open>SendResponse\<close> in pieces: looking the request up under the read lock, offering the response to its
  channel, removing the request. A panic here is one of the application's goroutine.
\<close>

definition find_http_request :: "gval \<Rightarrow> hst_state \<Rightarrow> nat option outcome option" where
  "find_http_request ident s =
     (if hst_locked s then None
      else if \<not> hashable ident then Some (Panic ''hash of unhashable type'')
      else Some (Ok (hst_pending s ident)))"

definition offer_http_response :: "nat \<Rightarrow> response \<Rightarrow> hst_state \<Rightarrow> (hst_state \<times> bool) outcome" where
  "offer_http_response a response s =
     (if hc_closed (hst_calls s ! a) then Panic ''send on closed channel''
      else if hc_buf (hst_calls s ! a) = [] then Ok (call_update a (\<lambda>c. c\<lparr>hc_buf := [response]\<rparr>) s, True)
      else Ok (s, False))"

definition hst_SendResponse ::
  "bool \<Rightarrow> gval \<Rightarrow> gval \<Rightarrow> rpc_error option \<Rightarrow> hst_state \<Rightarrow> (hst_state \<times> unit outcome) option" where
  "hst_SendResponse pick ident result err s =
     (case find_http_request ident s of
        None \<Rightarrow> None
      | Some (Panic p) \<Rightarrow> Some (s, Panic p)
      | Some (Err e) \<Rightarrow> Some (s, Err e)
      | Some (Ok (Some a)) \<Rightarrow>
          (case offer_http_response a
                  \<lparr>resp_JSONRPC = ''2.0'', resp_ID = ident, resp_Result = result, resp_Error = err\<rparr> s of
             Panic p \<Rightarrow> Some (s, Panic p)
           | Err e \<Rightarrow> Some (s, Err e)
           | Ok (s1, True) \<Rightarrow> map_option (\<lambda>s2. (s2, Ok ())) (locked_remove ident s1)
           | Ok (s1, False) \<Rightarrow> Some (s1, Ok ()))
      | Some (Ok None) \<Rightarrow>
          map_option (\<lambda>(h, res). (s\<lparr>hst_handler := h\<rparr>, res)) (SendResponse pick ident result err (hst_handler s)))"

section \<open>Goroutines\<close>

text \<open>One iteration each; the result says whether the goroutine goes on.\<close>

definition hst_bridgeOutgoing :: "bool \<Rightarrow> string list \<Rightarrow> hst_state \<Rightarrow> (hst_state \<times> bool) option" where
  "hst_bridgeOutgoing pick ks s =
     (case (mh_outgoingChan (hst_handler s), hst_ctx s) of
        ([], None) \<Rightarrow> None
      | ([], Some _) \<Rightarrow> Some (s, False)
      | (data # rest, ctx) \<Rightarrow>
          if ctx \<noteq> None \<and> \<not> pick then Some (s, False)
          else
            (let s1 = s\<lparr>hst_handler := (hst_handler s)\<lparr>mh_outgoingChan := rest\<rparr>\<rparr>
             in if \<not> htc_EnableSSE (hst_config s) then Some (s1, True)
                else case ParseMessage data of
                  None \<Rightarrow> Some (s1, True)
                | Some msg \<Rightarrow>
                    if IsNotification msg then
                      Some (broadcastSSEEvent ks ''notification'' (message_gval msg) s1, True)
                    else if IsResponse msg then
                      Some (broadcastSSEEvent ks ''response'' (message_gval msg) s1, True)
                    else Some (s1, True)))"

definition hst_bridgeRequests ::
  "bool \<Rightarrow> bool \<Rightarrow> hst_state \<Rightarrow> (hst_state \<times> bool) outcome option" where
  "hst_bridgeRequests pick pick' s =
     (case (mh_requestChan (hst_handler s), hst_ctx s) of
        ([], None) \<Rightarrow> None
      | ([], Some _) \<Rightarrow> Some (Ok (s, False))
      | (req # rest, ctx) \<Rightarrow>
          if ctx \<noteq> None \<and> \<not> pick then Some (Ok (s, False))
          else
            (let s1 = s\<lparr>hst_handler := (hst_handler s)\<lparr>mh_requestChan := rest\<rparr>\<rparr>
             in if hst_chansClosed s \<and> (pick' \<or> ctx = None) then Some (Panic ''send on closed channel'')
                else case select_send pick' (hst_bufferSize s) (hst_requestChan s) req ctx of
                  Sent buf \<Rightarrow> Some (Ok (s1\<lparr>hst_requestChan := buf\<rparr>, True))
                | Cancelled _ \<Rightarrow> Some (Ok (s1, False))
                | Blocked \<Rightarrow> None))"

definition hst_bridgeNotifications ::
  "bool \<Rightarrow> bool \<Rightarrow> hst_state \<Rightarrow> (hst_state \<times> bool) outcome option" where
  "hst_bridgeNotifications pick pick' s =
     (case (mh_notificationChan (hst_handler s), hst_ctx s) of
        ([], None) \<Rightarrow> None
      | ([], Some _) \<Rightarrow> Some (Ok (s, False))
      | (notif # rest, ctx) \<Rightarrow>
          if ctx \<noteq> None \<and> \<not> pick then Some (Ok (s, False))
          else
            (let s1 = s\<lparr>hst_handler := (hst_handler s)\<lparr>mh_notificationChan := rest\<rparr>\<rparr>
             in if hst_chansClosed s \<and> (pick' \<or> ctx = None) then Some (Panic ''send on closed channel'')
                else case select_send pick' (hst_bufferSize s) (hst_notificationChan s) notif ctx of
                  Sent buf \<Rightarrow> Some (Ok (s1\<lparr>hst_notificationChan := buf\<rparr>, True))
                | Cancelled _ \<Rightarrow> Some (Ok (s1, False))
                | Blocked \<Rightarrow> None))"

section \<open>Closing\<close>

text \<open>
  \<open>closeOnce\<close> lets one \<open>Close\<close> through. Its body after the HTTP server was shut down, which waits at most five seconds for
  running calls: \<open>Done\<close> of every stream in the map is closed, the context is cancelled, the message
  handler is closed with its requests in the order \<open>ks'\<close>, and the two channels are closed.
\<close>

fun close_all_streams :: "nat list \<Rightarrow> hst_state \<Rightarrow> hst_state outcome" where
  "close_all_streams [] s = Ok s"
| "close_all_streams (c # cs) s =
     (if sse_Done (hst_clients s ! c) then Panic ''close of closed channel''
      else close_all_streams cs (client_update c (\<lambda>cl. cl\<lparr>sse_Done := True\<rparr>) s))"

definition hst_cancel :: "hst_state \<Rightarrow> hst_state" where
  "hst_cancel s =
     s\<lparr>hst_ctx := (case hst_ctx s of None \<Rightarrow> Some ''context canceled'' | Some e \<Rightarrow> Some e),
       hst_handler := cancel (hst_handler s)\<rparr>"

definition hst_Close :: "string list \<Rightarrow> gval list \<Rightarrow> hst_state \<Rightarrow> hst_state outcome" where
  "hst_Close ks ks' s =
     (if hst_chansClosed s then Ok s
      else case close_all_streams (range_values (hst_sseClients s) ks) s of
        Ok s1 \<Rightarrow>
          (let s2 = hst_cancel s1
           in case MessageHandler_Close ks' (hst_handler s2) of
                Ok h \<Rightarrow> Ok (s2\<lparr>hst_handler := h, hst_chansClosed := True\<rparr>)
              | Err e \<Rightarrow> Err e
              | Panic p \<Rightarrow> Panic p)
      | Err e \<Rightarrow> Err e
      | Panic p \<Rightarrow> Panic p)"


section \<open>Routes and statistics\<close>

text \<open>The paths that \<open>setupHandlers\<close> registers; none is a prefix of others, so \<open>ServeMux\<close> looks for the path itself.\<close>

datatype http_handler = HandleRPC | HandleSSE | HandleHealth

definition setupHandlers :: "http_config \<Rightarrow> (string \<times> http_handler) list" where
  "setupHandlers config =
     [(''/rpc'', HandleRPC)] @ (if htc_EnableSSE config then [(''/sse'', HandleSSE)] else []) @ [(''/health'', HandleHealth)]"

definition http_route :: "http_config \<Rightarrow> string \<Rightarrow> http_handler option" where
  "http_route config path = map_of (setupHandlers config) path"

text \<open>\<open>ks\<close> lists the keys of the map of streams, of which only the number counts.\<close>

record hst_stats =
  hss_RequestsReceived :: int64
  hss_ResponsesSent :: int64
  hss_SSEConnections :: int64
  hss_ActiveSSEClients :: nat
  hss_HTTPErrors :: int64
  hss_MessageStats :: message_stats

definition hst_Stats :: "string list \<Rightarrow> hst_state \<Rightarrow> hst_stats" where
  "hst_Stats ks s = \<lparr>hss_RequestsReceived = hst_requestsReceived s, hss_ResponsesSent = hst_responsesSent s,
     hss_SSEConnections = hst_sseConnections s, hss_ActiveSSEClients = length (range_values (hst_sseClients s) ks),
     hss_HTTPErrors = hst_httpErrors s, hss_MessageStats = MessageHandler_GetStats (hst_handler s)\<rparr>"

section \<open>The transport as a transition system\<close>

text \<open>
  A system is the state together with the goroutines that are inside \<open>SendResponse\<close>: one has found a
  call, or has offered its response and is about to remove the request.
\<close>

datatype sender = Found nat response | Offered gval

type_synonym system = "hst_state \<times> sender list"

inductive call_step :: "system \<Rightarrow> system \<Rightarrow> bool" where
  post: "handleRPC req s = (s', r) \<Longrightarrow> call_step (s, ts) (s', ts)"
| store: "a < length (hst_calls s) \<Longrightarrow> hc_phase (hst_calls s ! a) = Storing \<Longrightarrow> http_store a s = Some s' \<Longrightarrow>
    call_step (s, ts) (s', ts)"
| enqueue: "a < length (hst_calls s) \<Longrightarrow> hc_phase (hst_calls s ! a) = Sending \<Longrightarrow> http_enqueue a s = Some s' \<Longrightarrow>
    call_step (s, ts) (s', ts)"
| enqueue_cancelled: "a < length (hst_calls s) \<Longrightarrow> hc_phase (hst_calls s ! a) = Sending \<Longrightarrow>
    http_enqueue_cancelled a s = Some s' \<Longrightarrow> call_step (s, ts) (s', ts)"
| receive: "a < length (hst_calls s) \<Longrightarrow> hc_phase (hst_calls s ! a) = Waiting \<Longrightarrow> http_receive a s = Some s' \<Longrightarrow>
    call_step (s, ts) (s', ts)"
| receive_cancelled: "a < length (hst_calls s) \<Longrightarrow> hc_phase (hst_calls s ! a) = Waiting \<Longrightarrow>
    http_receive_cancelled a s = Some s' \<Longrightarrow> call_step (s, ts) (s', ts)"
| timer_fires: "a < length (hst_calls s) \<Longrightarrow> hc_timer (hst_calls s ! a) = Armed \<Longrightarrow>
    call_step (s, ts) (timer_start a s, ts)"
| timer_removes: "a < length (hst_calls s) \<Longrightarrow> hc_timer (hst_calls s ! a) = Started \<Longrightarrow> timer_remove a s = Some s' \<Longrightarrow>
    call_step (s, ts) (s', ts)"
| timer_closes: "a < length (hst_calls s) \<Longrightarrow> hc_timer (hst_calls s ! a) = Removed \<Longrightarrow>
    call_step (s, ts) (timer_close a s, ts)"
| find: "find_http_request (resp_ID r) s = Some (Ok (Some a)) \<Longrightarrow> call_step (s, ts) (s, Found a r # ts)"
| offer: "Found a r \<in> set ts \<Longrightarrow> offer_http_response a r s = Ok (s', ok) \<Longrightarrow>
    call_step (s, ts) (s', (if ok then [Offered (resp_ID r)] else []) @ remove1 (Found a r) ts)"
| clean_up: "Offered k \<in> set ts \<Longrightarrow> locked_remove k s = Some s' \<Longrightarrow> call_step (s, ts) (s', remove1 (Offered k) ts)"

text \<open>What goes on beside the calls.\<close>

inductive env_step :: "(float64 \<Rightarrow> int64) \<Rightarrow> system \<Rightarrow> system \<Rightarrow> bool" for oor where
  notify: "http_notify pick n s = Some (s', ans) \<Longrightarrow> env_step oor (s, ts) (s', ts)"
| take_request: "hst_requestChan s = q # qs \<Longrightarrow> env_step oor (s, ts) (s\<lparr>hst_requestChan := qs\<rparr>, ts)"
| take_notification: "hst_notificationChan s = n # ns \<Longrightarrow> env_step oor (s, ts) (s\<lparr>hst_notificationChan := ns\<rparr>, ts)"
| below: "mh_step oor (hst_handler s) h \<Longrightarrow> env_step oor (s, ts) (s\<lparr>hst_handler := h\<rparr>, ts)"
| outgoing: "hst_bridgeOutgoing pick ks s = Some (s', b) \<Longrightarrow> env_step oor (s, ts) (s', ts)"
| requests: "hst_bridgeRequests pick pick' s = Some (Ok (s', b)) \<Longrightarrow> env_step oor (s, ts) (s', ts)"
| notifications: "hst_bridgeNotifications pick pick' s = Some (Ok (s', b)) \<Longrightarrow> env_step oor (s, ts) (s', ts)"
| stream: "handleSSE flusher nanos now session s = (s', opt) \<Longrightarrow> env_step oor (s, ts) (s', ts)"
| heartbeat: "env_step oor (s, ts) (sendSSEHeartbeat c s, ts)"
| broadcast: "env_step oor (s, ts) (broadcastSSEEvent ks eventType data s, ts)"
| stream_ends: "close_stream c s = Ok s' \<Longrightarrow> env_step oor (s, ts) (s', ts)"
| closes: "hst_Close ks ks' s = Ok s' \<Longrightarrow> env_step oor (s, ts) (s', ts)"

definition sys_step :: "(float64 \<Rightarrow> int64) \<Rightarrow> system \<Rightarrow> system \<Rightarrow> bool" where
  "sys_step oor x y \<longleftrightarrow> call_step x y \<or> env_step oor x y"

inductive sys_reachable :: "(float64 \<Rightarrow> int64) \<Rightarrow> system \<Rightarrow> bool" for oor where
  start: "NewStreamableHTTPServerTransport ctx config = Ok s \<Longrightarrow> sys_reachable oor (s, [])"
| step: "sys_reachable oor x \<Longrightarrow> sys_step oor x y \<Longrightarrow> sys_reachable oor y"

section \<open>Lemmas\<close>

subsection \<open>What the steps do to the calls\<close>

lemma call_update_simps [simp]:
  "length (hst_calls (call_update a f s)) = length (hst_calls s)"
  "hst_pending (call_update a f s) = hst_pending s"
  "hst_locked (call_update a f s) = hst_locked s"
  "hst_config (call_update a f s) = hst_config s"
  "hst_ctx (call_update a f s) = hst_ctx s"
  "hst_requestChan (call_update a f s) = hst_requestChan s"
  "hst_bufferSize (call_update a f s) = hst_bufferSize s"
  "hst_chansClosed (call_update a f s) = hst_chansClosed s"
  "b < length (hst_calls s) \<Longrightarrow> hst_calls (call_update a f s) ! b = (if b = a then f (hst_calls s ! a) else hst_calls s ! b)"
  by (auto simp: call_update_def nth_list_update)

lemma set_phase_simps [simp]:
  "length (hst_calls (set_phase a ph s)) = length (hst_calls s)"
  "hst_pending (set_phase a ph s) = hst_pending s"
  "hst_locked (set_phase a ph s) = hst_locked s"
  "hst_config (set_phase a ph s) = hst_config s"
  "hst_requestChan (set_phase a ph s) = hst_requestChan s"
  "hst_bufferSize (set_phase a ph s) = hst_bufferSize s"
  "hst_chansClosed (set_phase a ph s) = hst_chansClosed s"
  "b < length (hst_calls s) \<Longrightarrow> hst_calls (set_phase a ph s) ! b =
     (if b = a then (hst_calls s ! a)\<lparr>hc_phase := ph\<rparr> else hst_calls s ! b)"
  by (simp_all add: set_phase_def)

lemma remove_simps [simp]:
  "length (hst_calls (removePendingHTTPRequest k s)) = length (hst_calls s)"
  "hst_locked (removePendingHTTPRequest k s) = hst_locked s"
  "hst_pending (removePendingHTTPRequest k s) = (hst_pending s)(k := None)"
  "b < length (hst_calls s) \<Longrightarrow> hst_calls (removePendingHTTPRequest k s) ! b =
     (if hst_pending s k = Some b
      then (hst_calls s ! b)\<lparr>hc_timer := stop_timer (hc_timer (hst_calls s ! b))\<rparr> else hst_calls s ! b)"
  by (auto simp: removePendingHTTPRequest_def split: option.splits)

text \<open>Steps that leave the calls alone.\<close>

definition same_http :: "hst_state \<Rightarrow> hst_state \<Rightarrow> bool" where
  "same_http s s' \<longleftrightarrow> hst_calls s' = hst_calls s \<and> hst_pending s' = hst_pending s \<and> hst_locked s' = hst_locked s"

lemma same_http_trans: "same_http s s1 \<Longrightarrow> same_http s1 s2 \<Longrightarrow> same_http s s2"
  by (simp add: same_http_def)

lemma same_http_stream_ops [simp]:
  "same_http s s" "same_http s (client_update c f s)" "same_http s (write_event c ev s)" "same_http s (remove_client c s)"
  by (simp_all add: same_http_def client_update_def write_event_def remove_client_def)

lemma same_http_event: "same_http s (fst (sendSSEEvent c e data s))"
  by (simp add: sendSSEEvent_def split: option.split)

lemma same_http_broadcast: "same_http s (broadcastSSEEvent ks e data s)"
proof -
  have "same_http s (broadcast_all e data cs s)" for cs
  proof (induction cs arbitrary: s)
    case (Cons c cs)
    obtain s1 ok where e: "sendSSEEvent c e data s = (s1, ok)" by (cases "sendSSEEvent c e data s")
    then have s1: "same_http s s1" using same_http_event [of s c e data] by simp
    have "same_http s1 (if ok then s1 else remove_client c s1)" by simp
    from same_http_trans [OF same_http_trans [OF s1 this] Cons.IH] show ?case using e by simp
  qed simp
  then show ?thesis by (simp add: broadcastSSEEvent_def)
qed

lemma same_http_open: "same_http s (open_stream nanos now session s)"
  by (simp add: open_stream_def Let_def sendSSEEvent_def same_http_def write_event_def client_update_def split: option.split)

lemma same_http_close_streams: "close_all_streams cs s = Ok s' \<Longrightarrow> same_http s s'"
proof (induction cs arbitrary: s)
  case (Cons c cs)
  then have "close_all_streams cs (client_update c (\<lambda>cl. cl\<lparr>sse_Done := True\<rparr>) s) = Ok s'"
    by (simp split: if_splits)
  from Cons.IH [OF this] show ?case by (simp add: same_http_def client_update_def)
qed simp

lemma same_http_Close: "hst_Close ks ks' s = Ok s' \<Longrightarrow> same_http s s'"
  using same_http_close_streams
  by (fastforce simp: hst_Close_def hst_cancel_def same_http_def Let_def split: outcome.splits if_splits)


text \<open>The steps that do not belong to a call.\<close>

lemma same_http_others:
  "http_notify pick n s = Some (s', ans) \<Longrightarrow> same_http s s'"
  "hst_bridgeOutgoing pick ks s = Some (s', b) \<Longrightarrow> same_http s s'"
  "hst_bridgeRequests pick pick' s = Some (Ok (s', b)) \<Longrightarrow> same_http s s'"
  "hst_bridgeNotifications pick pick' s = Some (Ok (s', b)) \<Longrightarrow> same_http s s'"
  "handleSSE flusher nanos now session s = (s', opt) \<Longrightarrow> same_http s s'"
  "close_stream c s = Ok s' \<Longrightarrow> same_http s s'"
proof -
  show "http_notify pick n s = Some (s', ans) \<Longrightarrow> same_http s s'"
    by (auto simp: http_notify_def same_http_def split: if_splits select_result.splits)
  show "hst_bridgeOutgoing pick ks s = Some (s', b) \<Longrightarrow> same_http s s'"
    using same_http_broadcast
    by (fastforce simp: hst_bridgeOutgoing_def same_http_def Let_def split: list.splits option.splits if_splits)
  show "hst_bridgeRequests pick pick' s = Some (Ok (s', b)) \<Longrightarrow> same_http s s'"
    by (auto simp: hst_bridgeRequests_def same_http_def Let_def
        split: list.splits option.splits if_splits select_result.splits)
  show "hst_bridgeNotifications pick pick' s = Some (Ok (s', b)) \<Longrightarrow> same_http s s'"
    by (auto simp: hst_bridgeNotifications_def same_http_def Let_def
        split: list.splits option.splits if_splits select_result.splits)
  show "handleSSE flusher nanos now session s = (s', opt) \<Longrightarrow> same_http s s'"
    using same_http_open by (auto simp: handleSSE_def split: if_splits)
  show "close_stream c s = Ok s' \<Longrightarrow> same_http s s'"
    by (auto simp: close_stream_def same_http_def client_update_def remove_client_def split: if_splits)
qed

text \<open>What a POST does: nothing to the calls, or one more call.\<close>

definition fresh_call :: "request \<Rightarrow> http_call" where
  "fresh_call request = \<lparr>hc_request = request, hc_buf = [], hc_closed = False, hc_timer = Armed, hc_phase = Storing\<rparr>"

lemma handleRPC_cases:
  assumes "handleRPC req s = (s', r)"
  shows "same_http s s' \<or> (\<exists>request. hst_calls s' = hst_calls s @ [fresh_call request] \<and> r = Call (length (hst_calls s)) \<and>
    hst_pending s' = hst_pending s \<and> hst_locked s' = hst_locked s)"
  using assms
  by (auto simp: handleRPC_def Let_def new_http_call_def fresh_call_def same_http_def count_http_error_def
      count_received_def split: if_splits option.splits)

text \<open>
  A step on the calls is one of: nothing, a new call, entering a call in the map, a change of one call that
  keeps its request, or a removal from the map and such a change.
\<close>

definition evolves :: "http_call \<Rightarrow> http_call \<Rightarrow> bool" where
  "evolves c c' \<longleftrightarrow> hc_request c' = hc_request c \<and> (hc_phase c' = Storing \<longrightarrow> hc_phase c = Storing)"

definition shape :: "hst_state \<Rightarrow> hst_state \<Rightarrow> bool" where
  "shape s s' \<longleftrightarrow> length (hst_calls s) \<le> length (hst_calls s') \<and>
     (\<forall>a < length (hst_calls s). evolves (hst_calls s ! a) (hst_calls s' ! a))"

lemma shape_same: "same_http s s' \<Longrightarrow> shape s s'"
  by (simp add: same_http_def shape_def evolves_def)

lemma shape_trans: "shape s s1 \<Longrightarrow> shape s1 s2 \<Longrightarrow> shape s s2"
  by (auto simp: shape_def evolves_def)

lemma shape_update: "(\<And>c. evolves c (f c)) \<Longrightarrow> shape s (call_update a f s)"
  by (simp add: shape_def evolves_def)

lemma shape_phase: "ph \<noteq> Storing \<Longrightarrow> shape s (set_phase a ph s)"
  by (simp add: shape_def evolves_def)

lemma shape_remove: "shape s (removePendingHTTPRequest k s)"
  by (simp add: shape_def evolves_def)

lemma shape_cong:
  "hst_calls s1 = hst_calls s2 \<Longrightarrow> shape s s1 = shape s s2"
  by (simp add: shape_def)

lemma locked_remove_Some: "locked_remove k s = Some s' \<longleftrightarrow> \<not> hst_locked s \<and> s' = removePendingHTTPRequest k s"
  by (auto simp: locked_remove_def)

lemma env_same:
  "env_step oor x y \<Longrightarrow> same_http (fst x) (fst y) \<and> snd y = snd x"
proof (induction rule: env_step.induct)
  case (broadcast s ts ks eventType data)
  then show ?case by (simp add: same_http_broadcast)
qed (simp_all add: same_http_others same_http_Close sendSSEHeartbeat_def, simp_all add: same_http_def)

lemma shape_call: "call_step x y \<Longrightarrow> shape (fst x) (fst y)"
proof (induction rule: call_step.induct)
  case (post req s s' r ts)
  then show ?case using handleRPC_cases [OF post] shape_same by (auto simp: shape_def evolves_def nth_append)
next
  case (store a s s' ts)
  then show ?case by (auto simp: http_store_def Let_def shape_def evolves_def split: if_splits)
next
  case (enqueue a s s' ts)
  then show ?case by (auto simp: http_enqueue_def shape_def evolves_def split: if_splits)
next
  case (enqueue_cancelled a s s' ts)
  then show ?case by (auto simp: http_enqueue_cancelled_def locked_remove_Some shape_def evolves_def split: if_splits)
next
  case (receive a s s' ts)
  then show ?case
    by (auto simp: http_receive_def Let_def count_http_error_def shape_def evolves_def
        split: if_splits list.splits option.splits)
next
  case (receive_cancelled a s s' ts)
  then show ?case by (auto simp: http_receive_cancelled_def shape_def evolves_def split: if_splits)
next
  case (timer_fires a s ts)
  then show ?case by (auto simp: timer_start_def intro!: shape_update simp: evolves_def)
next
  case (timer_removes a s s' ts)
  then show ?case by (auto simp: timer_remove_def locked_remove_Some evolves_def
        intro!: shape_trans [OF shape_remove shape_update])
next
  case (timer_closes a s ts)
  then show ?case by (auto simp: timer_close_def intro!: shape_update simp: evolves_def)
next
  case (find r s a ts)
  then show ?case by (simp add: shape_def evolves_def)
next
  case (offer a r ts s s' ok)
  then show ?case by (auto simp: offer_http_response_def shape_def evolves_def split: if_splits)
next
  case (clean_up k ts s s')
  then show ?case by (auto simp: locked_remove_Some intro: shape_remove)
qed

lemma shape_step: "sys_step oor x y \<Longrightarrow> shape (fst x) (fst y)"
  unfolding sys_step_def using shape_call env_same shape_same by blast

subsection \<open>The invariant\<close>

text \<open>A call holds and has written only responses with its own id.\<close>

definition call_fine :: "http_call \<Rightarrow> bool" where
  "call_fine c \<longleftrightarrow>
     (\<forall>r \<in> set (hc_buf c). resp_ID r = req_ID (hc_request c)) \<and>
     (\<forall>out j. hc_phase c = Answered out \<longrightarrow> hout_Body out = JsonBody j \<longrightarrow>
        (\<exists>r. marshal (response_gval r) = Some j \<and> resp_ID r = req_ID (hc_request c)))"

definition calls_fine :: "hst_state \<Rightarrow> bool" where
  "calls_fine s \<longleftrightarrow> (\<forall>a < length (hst_calls s). call_fine (hst_calls s ! a))"

definition own_call :: "hst_state \<Rightarrow> nat \<Rightarrow> gval \<Rightarrow> bool" where
  "own_call s a k \<longleftrightarrow> a < length (hst_calls s) \<and> req_ID (hc_request (hst_calls s ! a)) = k \<and>
     hc_phase (hst_calls s ! a) \<noteq> Storing"

definition pending_fine :: "hst_state \<Rightarrow> bool" where
  "pending_fine s \<longleftrightarrow> (\<forall>k a. hst_pending s k = Some a \<longrightarrow> own_call s a k)"

definition senders_fine :: "system \<Rightarrow> bool" where
  "senders_fine x \<longleftrightarrow> (\<forall>a r. Found a r \<in> set (snd x) \<longrightarrow> own_call (fst x) a (resp_ID r))"

definition sys_inv :: "system \<Rightarrow> bool" where
  "sys_inv x \<longleftrightarrow> calls_fine (fst x) \<and> pending_fine (fst x) \<and> senders_fine x"

lemma own_call_shape: "shape s s' \<Longrightarrow> own_call s a k \<Longrightarrow> own_call s' a k"
  by (auto simp: shape_def evolves_def own_call_def)

lemma call_fine_cong:
  "call_fine c \<Longrightarrow> hc_request c' = hc_request c \<Longrightarrow> hc_buf c' = hc_buf c \<Longrightarrow> hc_phase c' = hc_phase c \<Longrightarrow> call_fine c'"
  by (simp add: call_fine_def)

lemma call_fine_phase:
  "call_fine c \<Longrightarrow> (\<And>out j. ph = Answered out \<Longrightarrow> hout_Body out \<noteq> JsonBody j) \<Longrightarrow> call_fine (c\<lparr>hc_phase := ph\<rparr>)"
  by (auto simp: call_fine_def)

lemma call_fine_timer [simp]: "call_fine (c\<lparr>hc_timer := t\<rparr>) = call_fine c" "call_fine (c\<lparr>hc_closed := b\<rparr>) = call_fine c"
  by (simp_all add: call_fine_def)

lemma calls_fine_same: "same_http s s' \<Longrightarrow> calls_fine s \<Longrightarrow> calls_fine s'"
  by (simp add: same_http_def calls_fine_def)

lemma calls_fine_update: "calls_fine s \<Longrightarrow> (\<And>c. call_fine c \<Longrightarrow> call_fine (f c)) \<Longrightarrow> calls_fine (call_update a f s)"
  by (simp add: calls_fine_def)

lemma calls_fine_at: "calls_fine s \<Longrightarrow> call_fine (f (hst_calls s ! a)) \<Longrightarrow> calls_fine (call_update a f s)"
  by (simp add: calls_fine_def)

lemma calls_fine_remove: "calls_fine s \<Longrightarrow> calls_fine (removePendingHTTPRequest k s)"
  by (auto simp: calls_fine_def)

lemma calls_fine_phase:
  "calls_fine s \<Longrightarrow> (\<And>out j. ph = Answered out \<Longrightarrow> hout_Body out \<noteq> JsonBody j) \<Longrightarrow> calls_fine (set_phase a ph s)"
  unfolding set_phase_def by (intro calls_fine_update call_fine_phase) auto

lemma calls_fine_cong: "hst_calls s' = hst_calls s \<Longrightarrow> calls_fine s' = calls_fine s"
  by (simp add: calls_fine_def)

lemma error_body [simp]: "hout_Body (http_error h m c) \<noteq> JsonBody j" "hout_Body (shutting_down s) \<noteq> JsonBody j"
  by (simp_all add: http_error_def shutting_down_def)

lemma calls_fine_count: "calls_fine s \<Longrightarrow> calls_fine (count_http_error s)"
  by (simp add: count_http_error_def calls_fine_def)

lemma receive_fine:
  assumes fine: "calls_fine s" and a: "a < length (hst_calls s)" and r: "http_receive a s = Some s'"
  shows "calls_fine s'"
proof (cases "hc_buf (hst_calls s ! a)")
  case Nil
  then have "s' = set_phase a (Answered (http_error (json_headers s) ''Request timeout'' 504)) s"
    using r by (simp add: http_receive_def split: if_splits)
  then show ?thesis using fine by (auto intro!: calls_fine_phase)
next
  case (Cons response rest)
  have c: "call_fine (hst_calls s ! a)" using fine a by (simp add: calls_fine_def)
  then have c1: "call_fine ((hst_calls s ! a)\<lparr>hc_buf := rest\<rparr>)" "resp_ID response = req_ID (hc_request (hst_calls s ! a))"
    using Cons by (auto simp: call_fine_def)
  show ?thesis
  proof (cases "marshal (response_gval response)")
    case None
    have "calls_fine (call_update a (\<lambda>c. c\<lparr>hc_buf := rest\<rparr>) s)"
      using c1(1) by (intro calls_fine_at [OF fine])
    then have "calls_fine (set_phase a (Answered \<lparr>hout_Status = 200, hout_Headers = json_headers s, hout_Body = NoBody\<rparr>)
        (call_update a (\<lambda>c. c\<lparr>hc_buf := rest\<rparr>) s))"
      by (auto intro!: calls_fine_phase)
    then show ?thesis
      using r Cons None calls_fine_count by (simp add: http_receive_def Let_def) blast
  next
    case (Some j)
    then have "call_fine ((hst_calls s ! a)\<lparr>hc_buf := rest,
        hc_phase := Answered \<lparr>hout_Status = 200, hout_Headers = json_headers s, hout_Body = JsonBody j\<rparr>\<rparr>)"
      using c1 by (auto simp: call_fine_def)
    then show ?thesis using r Cons Some fine by (auto simp: http_receive_def Let_def calls_fine_def)
  qed
qed

lemma calls_fine_step:
  assumes "call_step x y" and "sys_inv x"
  shows "calls_fine (fst y)"
  using assms
proof (induction rule: call_step.induct)
  case (post req s s' r ts)
  then have "calls_fine s" by (simp add: sys_inv_def)
  moreover have "call_fine (fresh_call request)" for request by (simp add: call_fine_def fresh_call_def)
  ultimately show ?case using handleRPC_cases [OF post(1)]
    by (auto simp: calls_fine_def nth_append less_Suc_eq same_http_def)
next
  case (store a s s' ts)
  then have "calls_fine (set_phase a ph s)" if "ph = Sending \<or> (\<exists>p. ph = Crashed p)" for ph
    using that by (intro calls_fine_phase) (auto simp: sys_inv_def)
  then have "calls_fine (set_phase a Sending s)" "calls_fine (set_phase a (Crashed p) s)" for p by blast+
  then show ?case using store by (auto simp: http_store_def Let_def calls_fine_def split: if_splits)
next
  case (enqueue a s s' ts)
  then have "calls_fine (set_phase a Waiting s)" "calls_fine (set_phase a (Crashed p) s)" for p
    by (auto simp: sys_inv_def intro: calls_fine_phase)
  then show ?case using enqueue by (auto simp: http_enqueue_def calls_fine_def split: if_splits)
next
  case (enqueue_cancelled a s s' ts)
  then show ?case
    by (auto simp: http_enqueue_cancelled_def locked_remove_Some sys_inv_def intro!: calls_fine_phase calls_fine_remove
        split: if_splits)
next
  case (receive a s s' ts)
  then show ?case using receive_fine by (auto simp: sys_inv_def)
next
  case (receive_cancelled a s s' ts)
  then show ?case by (auto simp: http_receive_cancelled_def sys_inv_def intro!: calls_fine_phase split: if_splits)
next
  case (timer_fires a s ts)
  then show ?case by (auto simp: timer_start_def sys_inv_def intro!: calls_fine_update)
next
  case (timer_removes a s s' ts)
  then show ?case
    by (auto simp: timer_remove_def locked_remove_Some sys_inv_def
        intro!: calls_fine_update calls_fine_remove)
next
  case (timer_closes a s ts)
  then show ?case by (auto simp: timer_close_def sys_inv_def intro!: calls_fine_update)
next
  case (offer a r ts s s' ok)
  then have "own_call s a (resp_ID r)" by (auto simp: sys_inv_def senders_fine_def)
  moreover have fine: "calls_fine s" using offer by (simp add: sys_inv_def)
  ultimately have "call_fine (hst_calls s ! a)" "resp_ID r = req_ID (hc_request (hst_calls s ! a))"
    by (simp_all add: calls_fine_def own_call_def)
  then have "call_fine ((hst_calls s ! a)\<lparr>hc_buf := [r]\<rparr>)" by (simp add: call_fine_def)
  from calls_fine_at [where f = "\<lambda>c. c\<lparr>hc_buf := [r]\<rparr>", OF fine this] show ?case
    using offer fine by (auto simp: offer_http_response_def split: if_splits)
next
  case (clean_up k ts s s')
  then show ?case by (auto simp: locked_remove_Some sys_inv_def intro: calls_fine_remove)
qed (simp_all add: sys_inv_def)


lemma pending_fine_shape:
  assumes "pending_fine s" and "shape s s'" and "\<And>k a. hst_pending s' k = Some a \<Longrightarrow> hst_pending s k = Some a"
  shows "pending_fine s'"
  using assms own_call_shape by (auto simp: pending_fine_def)

lemma pending_step:
  "call_step x y \<Longrightarrow> hst_pending (fst y) k = Some b \<Longrightarrow> hst_pending (fst x) k \<noteq> Some b \<Longrightarrow>
     hc_phase (hst_calls (fst x) ! b) = Storing \<and> own_call (fst y) b k"
proof (induction rule: call_step.induct)
  case (post req s s' r ts)
  then show ?case using handleRPC_cases [OF post(1)] by (auto simp: same_http_def)
next
  case (store a s s' ts)
  then show ?case by (auto simp: http_store_def Let_def own_call_def split: if_splits)
next
  case (enqueue a s s' ts)
  then show ?case by (auto simp: http_enqueue_def split: if_splits)
next
  case (enqueue_cancelled a s s' ts)
  then show ?case by (auto simp: http_enqueue_cancelled_def locked_remove_Some split: if_splits)
next
  case (receive a s s' ts)
  then show ?case
    by (auto simp: http_receive_def Let_def count_http_error_def split: if_splits list.splits option.splits)
next
  case (receive_cancelled a s s' ts)
  then show ?case by (auto simp: http_receive_cancelled_def split: if_splits)
next
  case (timer_fires a s ts)
  then show ?case by (simp add: timer_start_def)
next
  case (timer_removes a s s' ts)
  then show ?case by (auto simp: timer_remove_def locked_remove_Some split: if_splits)
next
  case (timer_closes a s ts)
  then show ?case by (simp add: timer_close_def)
next
  case (find r s a ts)
  then show ?case by simp
next
  case (offer a r ts s s' ok)
  then show ?case by (auto simp: offer_http_response_def split: if_splits)
next
  case (clean_up k ts s s')
  then show ?case by (auto simp: locked_remove_Some split: if_splits)
qed

text \<open>A sender that was not there before has found the call in the map.\<close>

lemma senders_step:
  "call_step x y \<Longrightarrow> Found a r \<in> set (snd y) \<Longrightarrow> Found a r \<in> set (snd x) \<or> hst_pending (fst x) (resp_ID r) = Some a"
  by (induction rule: call_step.induct)
    (auto simp: find_http_request_def split: if_splits dest: subsetD [OF set_remove1_subset])

lemma sys_inv_call:
  assumes "call_step x y" and "sys_inv x"
  shows "sys_inv y"
proof -
  have sh: "shape (fst x) (fst y)" by (rule shape_call [OF assms(1)])
  have inv: "pending_fine (fst x)" "senders_fine x" using assms(2) by (simp_all add: sys_inv_def)
  have "pending_fine (fst y)"
    unfolding pending_fine_def
  proof (intro allI impI)
    fix k a
    assume k: "hst_pending (fst y) k = Some a"
    show "own_call (fst y) a k"
      using pending_step [OF assms(1) k] own_call_shape [OF sh] inv(1) by (auto simp: pending_fine_def)
  qed
  moreover have "senders_fine y"
    unfolding senders_fine_def
    using senders_step [OF assms(1)] own_call_shape [OF sh] inv unfolding senders_fine_def pending_fine_def by blast
  ultimately show ?thesis using calls_fine_step [OF assms] by (simp add: sys_inv_def)
qed

lemma sys_inv_env: "env_step oor x y \<Longrightarrow> sys_inv x \<Longrightarrow> sys_inv y"
  using env_same [of oor x y]
  by (auto simp: sys_inv_def calls_fine_def pending_fine_def senders_fine_def own_call_def same_http_def)

lemma sys_reachable_inv: "sys_reachable oor x \<Longrightarrow> sys_inv x"
proof (induction rule: sys_reachable.induct)
  case (start ctx config s)
  then show ?case
    by (auto simp: NewStreamableHTTPServerTransport_def Let_def sys_inv_def calls_fine_def pending_fine_def
        senders_fine_def split: outcome.splits)
qed (auto simp: sys_step_def intro: sys_inv_call sys_inv_env)


subsection \<open>Calls that nothing leads to any more\<close>

definition json_answered :: "http_call \<Rightarrow> bool" where
  "json_answered c \<longleftrightarrow> (\<exists>out j. hc_phase c = Answered out \<and> hout_Body out = JsonBody j)"

lemma json_answered_simps [simp]:
  "json_answered (c\<lparr>hc_timer := t\<rparr>) = json_answered c" "json_answered (c\<lparr>hc_closed := b\<rparr>) = json_answered c"
  "json_answered (c\<lparr>hc_buf := l\<rparr>) = json_answered c"
  "\<not> json_answered (c\<lparr>hc_phase := Sending\<rparr>)" "\<not> json_answered (c\<lparr>hc_phase := Waiting\<rparr>)"
  "\<not> json_answered (c\<lparr>hc_phase := Crashed p\<rparr>)" "\<not> json_answered (c\<lparr>hc_phase := Answered (http_error h m n)\<rparr>)"
  "\<not> json_answered (c\<lparr>hc_phase := Answered (shutting_down s)\<rparr>)"
  by (auto simp: json_answered_def)

text \<open>A response comes to a call only through a sender that has found it.\<close>

lemma unfound_step:
  "call_step x y \<Longrightarrow> a < length (hst_calls (fst x)) \<Longrightarrow> hc_buf (hst_calls (fst x) ! a) = [] \<Longrightarrow>
     \<forall>r. Found a r \<notin> set (snd x) \<Longrightarrow> \<not> json_answered (hst_calls (fst x) ! a) \<Longrightarrow>
     hc_buf (hst_calls (fst y) ! a) = [] \<and> \<not> json_answered (hst_calls (fst y) ! a)"
proof (induction rule: call_step.induct)
  case (post req s s' r ts)
  then show ?case using handleRPC_cases [OF post(1)] by (auto simp: same_http_def nth_append)
next
  case (store b s s' ts)
  then show ?case by (auto simp: http_store_def Let_def split: if_splits)
next
  case (enqueue b s s' ts)
  then show ?case by (auto simp: http_enqueue_def split: if_splits)
next
  case (enqueue_cancelled b s s' ts)
  then show ?case by (auto simp: http_enqueue_cancelled_def locked_remove_Some split: if_splits)
next
  case (receive b s s' ts)
  then show ?case
    by (auto simp: http_receive_def Let_def count_http_error_def split: if_splits list.splits option.splits)
next
  case (receive_cancelled b s s' ts)
  then show ?case by (auto simp: http_receive_cancelled_def split: if_splits)
next
  case (timer_fires b s ts)
  then show ?case by (auto simp: timer_start_def)
next
  case (timer_removes b s s' ts)
  then show ?case by (cases "a = b") (auto simp: timer_remove_def locked_remove_Some split: if_splits)
next
  case (timer_closes b s ts)
  then show ?case by (auto simp: timer_close_def)
next
  case (find r s b ts)
  then show ?case by simp
next
  case (offer b r ts s s' ok)
  then show ?case by (auto simp: offer_http_response_def split: if_splits)
next
  case (clean_up k ts s s')
  then show ?case by (auto simp: locked_remove_Some)
qed

text \<open>A timer that was stopped stays so, and the channel open.\<close>

lemma stopped_step:
  "call_step x y \<Longrightarrow> a < length (hst_calls (fst x)) \<Longrightarrow> hc_timer (hst_calls (fst x) ! a) = Stopped \<Longrightarrow>
     \<not> hc_closed (hst_calls (fst x) ! a) \<Longrightarrow>
     hc_timer (hst_calls (fst y) ! a) = Stopped \<and> \<not> hc_closed (hst_calls (fst y) ! a)"
proof (induction rule: call_step.induct)
  case (post req s s' r ts)
  then show ?case using handleRPC_cases [OF post(1)] by (auto simp: same_http_def nth_append)
next
  case (store b s s' ts)
  then show ?case by (auto simp: http_store_def Let_def split: if_splits)
next
  case (enqueue b s s' ts)
  then show ?case by (auto simp: http_enqueue_def split: if_splits)
next
  case (enqueue_cancelled b s s' ts)
  then show ?case by (auto simp: http_enqueue_cancelled_def locked_remove_Some stop_timer_def split: if_splits)
next
  case (receive b s s' ts)
  then show ?case
    by (auto simp: http_receive_def Let_def count_http_error_def split: if_splits list.splits option.splits)
next
  case (receive_cancelled b s s' ts)
  then show ?case by (auto simp: http_receive_cancelled_def split: if_splits)
next
  case (timer_fires b s ts)
  then show ?case by (auto simp: timer_start_def)
next
  case (timer_removes b s s' ts)
  then show ?case by (cases "a = b") (auto simp: timer_remove_def locked_remove_Some stop_timer_def split: if_splits)
next
  case (timer_closes b s ts)
  then show ?case by (auto simp: timer_close_def)
next
  case (find r s b ts)
  then show ?case by simp
next
  case (offer b r ts s s' ok)
  then show ?case by (auto simp: offer_http_response_def split: if_splits)
next
  case (clean_up k ts s s')
  then show ?case by (auto simp: locked_remove_Some stop_timer_def)
qed

text \<open>A call that is not in the map and that no sender has found has no way to a response.\<close>

definition orphan :: "nat \<Rightarrow> system \<Rightarrow> bool" where
  "orphan a x \<longleftrightarrow> a < length (hst_calls (fst x)) \<and> hc_phase (hst_calls (fst x) ! a) \<noteq> Storing \<and>
     (\<forall>k. hst_pending (fst x) k \<noteq> Some a) \<and> (\<forall>r. Found a r \<notin> set (snd x)) \<and>
     hc_buf (hst_calls (fst x) ! a) = [] \<and> \<not> json_answered (hst_calls (fst x) ! a)"

definition stranded :: "nat \<Rightarrow> system \<Rightarrow> bool" where
  "stranded a x \<longleftrightarrow> orphan a x \<and> hc_timer (hst_calls (fst x) ! a) = Stopped \<and> \<not> hc_closed (hst_calls (fst x) ! a)"

lemma orphan_step:
  assumes "sys_step oor x y" and "orphan a x"
  shows "orphan a y"
proof (cases "call_step x y")
  case True
  have sh: "shape (fst x) (fst y)" by (rule shape_call [OF True])
  have x: "a < length (hst_calls (fst x))" "hc_phase (hst_calls (fst x) ! a) \<noteq> Storing"
    "\<And>k. hst_pending (fst x) k \<noteq> Some a" "\<And>r. Found a r \<notin> set (snd x)"
    using assms(2) by (auto simp: orphan_def)
  have "a < length (hst_calls (fst y))" "hc_phase (hst_calls (fst y) ! a) \<noteq> Storing"
    using sh x(1,2) by (auto simp: shape_def evolves_def)
  moreover have "hst_pending (fst y) k \<noteq> Some a" for k using pending_step [OF True, of k a] x(2,3) by blast
  moreover have "Found a r \<notin> set (snd y)" for r using senders_step [OF True, of a r] x(3,4) by blast
  ultimately show ?thesis using unfound_step [OF True x(1)] assms(2) by (simp add: orphan_def)
next
  case False
  then have "same_http (fst x) (fst y) \<and> snd y = snd x" using assms(1) env_same by (auto simp: sys_step_def)
  then show ?thesis using assms(2) by (simp add: orphan_def same_http_def)
qed

lemma stranded_step:
  assumes "sys_step oor x y" and "stranded a x"
  shows "stranded a y"
proof -
  have o: "orphan a y" using orphan_step [OF assms(1)] assms(2) by (simp add: stranded_def)
  show ?thesis
  proof (cases "call_step x y")
    case True
    from stopped_step [OF this, of a] assms(2) o show ?thesis by (simp add: stranded_def orphan_def)
  next
    case False
    then have "same_http (fst x) (fst y)" using assms(1) env_same by (auto simp: sys_step_def)
    then show ?thesis using assms(2) o by (simp add: stranded_def same_http_def)
  qed
qed

lemma orphan_steps: "rtranclp (sys_step oor) x y \<Longrightarrow> orphan a x \<Longrightarrow> orphan a y"
  by (induction rule: rtranclp_induct) (auto intro: orphan_step)

lemma stranded_steps: "rtranclp (sys_step oor) x y \<Longrightarrow> stranded a x \<Longrightarrow> stranded a y"
  by (induction rule: rtranclp_induct) (auto intro: stranded_step)

subsection \<open>A lock that nobody releases\<close>

text \<open>Once the lock is lost, no call leaves the state in which it needs it.\<close>

lemma locked_call:
  "call_step x y \<Longrightarrow> hst_locked (fst x) \<Longrightarrow>
     hst_locked (fst y) \<and>
     (\<forall>b < length (hst_calls (fst y)). length (hst_calls (fst x)) \<le> b \<or> hc_phase (hst_calls (fst x) ! b) = Storing \<longrightarrow>
        hc_phase (hst_calls (fst y) ! b) = Storing)"
proof (induction rule: call_step.induct)
  case (post req s s' r ts)
  then show ?case using handleRPC_cases [OF post(1)]
    by (auto simp: same_http_def nth_append fresh_call_def less_Suc_eq)
next
  case (store b s s' ts)
  then show ?case by (auto simp: http_store_def Let_def)
next
  case (enqueue b s s' ts)
  then show ?case by (auto simp: http_enqueue_def split: if_splits)
next
  case (enqueue_cancelled b s s' ts)
  then show ?case by (auto simp: http_enqueue_cancelled_def locked_remove_Some split: if_splits)
next
  case (receive b s s' ts)
  then show ?case
    by (auto simp: http_receive_def Let_def count_http_error_def split: if_splits list.splits option.splits)
next
  case (receive_cancelled b s s' ts)
  then show ?case by (auto simp: http_receive_cancelled_def split: if_splits)
next
  case (timer_fires b s ts)
  then show ?case by (auto simp: timer_start_def)
next
  case (timer_removes b s s' ts)
  then show ?case by (auto simp: timer_remove_def locked_remove_Some)
next
  case (timer_closes b s ts)
  then show ?case by (auto simp: timer_close_def)
next
  case (find r s b ts)
  then show ?case by simp
next
  case (offer b r ts s s' ok)
  then show ?case by (auto simp: offer_http_response_def split: if_splits)
next
  case (clean_up k ts s s')
  then show ?case by (auto simp: locked_remove_Some)
qed


lemma locked_step:
  assumes "sys_step oor x y" and "hst_locked (fst x)"
  shows "hst_locked (fst y) \<and>
     (\<forall>b < length (hst_calls (fst y)). length (hst_calls (fst x)) \<le> b \<or> hc_phase (hst_calls (fst x) ! b) = Storing \<longrightarrow>
        hc_phase (hst_calls (fst y) ! b) = Storing)"
  using assms locked_call [of x y] env_same [of oor x y] by (auto simp: sys_step_def same_http_def)

lemma locked_steps:
  assumes "rtranclp (sys_step oor) x y" and "hst_locked (fst x)"
  shows "hst_locked (fst y) \<and> length (hst_calls (fst x)) \<le> length (hst_calls (fst y)) \<and>
     (\<forall>b < length (hst_calls (fst y)). length (hst_calls (fst x)) \<le> b \<or> hc_phase (hst_calls (fst x) ! b) = Storing \<longrightarrow>
        hc_phase (hst_calls (fst y) ! b) = Storing)"
  using assms
proof (induction rule: rtranclp_induct)
  case (step y z)
  have l: "length (hst_calls (fst y)) \<le> length (hst_calls (fst z))" using shape_step [OF step(2)] by (simp add: shape_def)
  show ?case
    using step.IH [OF step.prems] locked_step [OF step(2)] l by (auto simp: not_le)
qed simp

subsection \<open>Broadcasts\<close>

lemma broadcast_client:
  assumes "marshal data = Some j" and "distinct cs" and "c < length (hst_clients s)"
  shows "hst_clients (broadcast_all e data cs s) ! c =
    (hst_clients s ! c)\<lparr>sse_events := sse_events (hst_clients s ! c) @ (if c \<in> set cs then [Event e j] else [])\<rparr> \<and>
    hst_sseClients (broadcast_all e data cs s) = hst_sseClients s \<and>
    length (hst_clients (broadcast_all e data cs s)) = length (hst_clients s)"
  using assms(2,3)
proof (induction cs arbitrary: s)
  case (Cons d cs)
  let ?s = "write_event d (Event e j) s"
  have len: "length (hst_clients ?s) = length (hst_clients s)" and m: "hst_sseClients ?s = hst_sseClients s"
    by (simp_all add: write_event_def client_update_def)
  have "hst_clients ?s ! c = (if c = d then (hst_clients s ! c)\<lparr>sse_events := sse_events (hst_clients s ! c) @ [Event e j]\<rparr>
      else hst_clients s ! c)"
    using Cons.prems(2) by (auto simp: write_event_def client_update_def nth_list_update)
  then show ?case using Cons.IH [of ?s] Cons.prems assms(1) len m by (auto simp: sendSSEEvent_def)
qed simp

lemma broadcast_keeps:
  "hst_handler (broadcastSSEEvent ks e data s) = hst_handler s \<and>
   hst_config (broadcastSSEEvent ks e data s) = hst_config s \<and> hst_ctx (broadcastSSEEvent ks e data s) = hst_ctx s"
proof -
  have "hst_handler (broadcast_all e data cs s) = hst_handler s \<and> hst_config (broadcast_all e data cs s) = hst_config s \<and>
      hst_ctx (broadcast_all e data cs s) = hst_ctx s" for cs
    by (induction cs arbitrary: s)
      (auto simp: sendSSEEvent_def write_event_def client_update_def remove_client_def split: option.splits)
  then show ?thesis by (simp add: broadcastSSEEvent_def)
qed

text \<open>Data without JSON form takes every client out of the map.\<close>

lemma broadcast_unencodable:
  assumes "marshal data = None" and "range_order (hst_sseClients s) ks"
    and "\<And>k c. hst_sseClients s k = Some c \<Longrightarrow> sse_ID (hst_clients s ! c) = k"
  shows "hst_sseClients (broadcastSSEEvent ks e data s) = Map.empty"
proof -
  let ?id = "\<lambda>c. sse_ID (hst_clients s ! c)"
  have all: "hst_sseClients (broadcast_all e data cs s') k = (if k \<in> ?id ` set cs then None else hst_sseClients s' k)"
    if "hst_clients s' = hst_clients s" for s' cs k
    using that
  proof (induction cs arbitrary: s')
    case (Cons c cs)
    have "hst_clients (remove_client c s') = hst_clients s" using Cons.prems by (simp add: remove_client_def)
    from Cons.IH [OF this] show ?case
      using assms(1) Cons.prems by (simp add: sendSSEEvent_def remove_client_def)
  qed simp
  show ?thesis
  proof
    fix k
    show "hst_sseClients (broadcastSSEEvent ks e data s) k = None"
    proof (cases "hst_sseClients s k")
      case (Some c)
      then have "c \<in> set (range_values (hst_sseClients s) ks)"
        unfolding set_range_values [OF assms(2)] by (rule ranI)
      then have "k \<in> ?id ` set (range_values (hst_sseClients s) ks)" using assms(3) [OF Some] by blast
      then show ?thesis by (simp add: broadcastSSEEvent_def all)
    qed (simp add: broadcastSSEEvent_def all)
  qed
qed


subsection \<open>A served call\<close>

definition json_out :: "hst_state \<Rightarrow> json \<Rightarrow> http_out" where
  "json_out s j = \<lparr>hout_Status = 200, hout_Headers = json_headers s, hout_Body = JsonBody j\<rparr>"

definition answer_to :: "gval \<Rightarrow> gval \<Rightarrow> rpc_error option \<Rightarrow> response" where
  "answer_to ident result err =
     \<lparr>resp_JSONRPC = ''2.0'', resp_ID = ident, resp_Result = result, resp_Error = err\<rparr>"

lemma json_headers_config: "hst_config s' = hst_config s \<Longrightarrow> json_headers s' = json_headers s"
  by (simp add: json_headers_def)

subsection \<open>Concrete runs\<close>

text \<open>A fresh transport, one whose only call waits, and one where a second call with the same id came in.\<close>

definition sse_config :: http_config where
  "sse_config = \<lparr>htc_RequestTimeout = 0, htc_MessageBuffer = 0, htc_EnableSSE = True, htc_CORSEnabled = False,
     htc_MaxRequestSize = 0\<rparr>"

definition http_ping :: http_in where
  "http_ping = \<lparr>hin_Method = ''POST'', hin_Size = 40, hin_Body = Some ping_payload\<rparr>"

definition ping_request :: request where
  "ping_request = \<lparr>req_JSONRPC = ''2.0'', req_ID = GFloat (F64 1), req_Method = ''ping'', req_Params = GNil\<rparr>"

definition hst_fresh :: hst_state where
  "hst_fresh = \<lparr>hst_config = default_config sse_config, hst_handler = mh_fresh, hst_bufferSize = 100,
     hst_requestChan = [], hst_notificationChan = [], hst_chansClosed = False, hst_ctx = None,
     hst_pending = Map.empty, hst_locked = False, hst_calls = [], hst_sseClients = Map.empty,
     hst_clients = [], hst_requestsReceived = 0, hst_responsesSent = 0, hst_sseConnections = 0, hst_httpErrors = 0\<rparr>"

definition hst_waiting :: hst_state where
  "hst_waiting = hst_fresh\<lparr>hst_calls := [(fresh_call ping_request)\<lparr>hc_phase := Waiting\<rparr>],
     hst_pending := [GFloat (F64 1) \<mapsto> 0], hst_requestChan := [ping_request], hst_requestsReceived := 1\<rparr>"

definition hst_two :: hst_state where
  "hst_two = hst_waiting\<lparr>hst_calls := [(fresh_call ping_request)\<lparr>hc_phase := Waiting\<rparr>, fresh_call ping_request],
     hst_requestsReceived := 2\<rparr>"

lemma ping_parsed:
  "ParseMessage ping_payload = Some \<lparr>msg_JSONRPC = ''2.0'', msg_ID = GFloat (F64 1), msg_Method = ''ping'',
     msg_Params = GNil, msg_Result = GNil, msg_Error = None\<rparr>"
  by (simp add: ParseMessage_def ping_payload_def decode_struct_def find_message_field dec_string_def
      dec_iface_def wire_one zero_message_def del: to_iface.simps(3))

lemma ping_posted:
  assumes "hst_config s = default_config sse_config"
  shows "handleRPC http_ping s =
    ((count_received s)\<lparr>hst_calls := hst_calls s @ [fresh_call ping_request]\<rparr>, Call (length (hst_calls s)))"
  using assms
  by (simp add: handleRPC_def http_ping_def read_body_def default_config_def sse_config_def ping_parsed IsRequest_def
      ToRequest_def new_http_call_def fresh_call_def ping_request_def count_received_def Let_def)

lemma new_fresh: "NewStreamableHTTPServerTransport None sse_config = Ok hst_fresh"
  by (simp add: NewStreamableHTTPServerTransport_def NewMessageHandler_def default_config_def sse_config_def hst_fresh_def
      mh_fresh_def default_timeout_def Let_def)

lemma waiting_reachable: "sys_reachable oor (hst_waiting, [])"
proof -
  let ?c = "fresh_call ping_request"
  let ?s1 = "hst_fresh\<lparr>hst_calls := [?c], hst_requestsReceived := 1\<rparr>"
  let ?s2 = "hst_fresh\<lparr>hst_calls := [?c\<lparr>hc_phase := Sending\<rparr>], hst_pending := [GFloat (F64 1) \<mapsto> 0],
     hst_requestsReceived := 1\<rparr>"
  have "handleRPC http_ping hst_fresh = (?s1, Call 0)"
    using ping_posted [of hst_fresh] by (simp add: hst_fresh_def count_received_def)
  with sys_reachable.start [OF new_fresh] have 1: "sys_reachable oor (?s1, [])"
    by (blast intro: sys_reachable.step call_step.post sys_step_def [THEN iffD2])
  have "http_store 0 ?s1 = Some ?s2"
    by (simp add: http_store_def set_phase_def call_update_def fresh_call_def ping_request_def hst_fresh_def Let_def)
  then have "call_step (?s1, []) (?s2, [])" by (rule call_step.store [rotated 2]) (simp_all add: fresh_call_def)
  with 1 have 2: "sys_reachable oor (?s2, [])" by (blast intro: sys_reachable.step sys_step_def [THEN iffD2])
  have "http_enqueue 0 ?s2 = Some hst_waiting"
    by (simp add: http_enqueue_def chan_send_def set_phase_def call_update_def fresh_call_def ping_request_def hst_fresh_def
        hst_waiting_def)
  then have "call_step (?s2, []) (hst_waiting, [])" by (rule call_step.enqueue [rotated 2]) simp_all
  with 2 show ?thesis by (blast intro: sys_reachable.step sys_step_def [THEN iffD2])
qed

lemma two_reachable: "sys_reachable oor (hst_two, [])"
proof -
  have "handleRPC http_ping hst_waiting = (hst_two, Call 1)"
    using ping_posted [of hst_waiting] by (simp add: hst_two_def hst_waiting_def hst_fresh_def count_received_def)
  with waiting_reachable show ?thesis
    by (blast intro: sys_reachable.step call_step.post sys_step_def [THEN iffD2])
qed

section \<open>Properties\<close>

text \<open>C21: A POST with a request is answered with the response that the application sends for its id: its
  call is entered, handed on and waits; \<open>SendResponse\<close> finds it, and the HTTP client gets status 200
  and the JSON of that response. The id is free again afterwards.\<close>

theorem http_request_answered:
  assumes "read_body req s = Some body" and "hin_Method req = ''POST''" and "ParseMessage body = Some msg"
    and "ToRequest msg = Some request" and "hashable (req_ID request)" and "\<not> hst_locked s"
    and "\<not> hst_chansClosed s" and "length (hst_requestChan s) < hst_bufferSize s"
    and "marshal (response_gval (answer_to (req_ID request) result err)) = Some j"
  shows "\<exists>s1 a s2 s3 s4 s5. handleRPC req s = (s1, Call a) \<and> http_store a s1 = Some s2 \<and>
    http_enqueue a s2 = Some s3 \<and> hst_requestChan s3 = hst_requestChan s @ [request] \<and>
    hst_SendResponse pick (req_ID request) result err s3 = Some (s4, Ok ()) \<and> http_receive a s4 = Some s5 \<and>
    hc_phase (hst_calls s5 ! a) = Answered (json_out s j) \<and> hst_pending s5 (req_ID request) = None"
proof -
  let ?k = "req_ID request" and ?a = "length (hst_calls s)"
  let ?s1 = "(count_received s)\<lparr>hst_calls := hst_calls s @ [fresh_call request]\<rparr>"
  have msg: "IsRequest msg" using assms(4) by (auto simp: ToRequest_def split: if_splits)
  have s1: "handleRPC req s = (?s1, Call ?a)"
    using assms(1-4) msg
    by (simp add: handleRPC_def Let_def new_http_call_def fresh_call_def count_received_def)
  have c1: "hst_calls ?s1 ! ?a = fresh_call request" by simp
  let ?s2 = "(set_phase ?a Sending ?s1)\<lparr>hst_pending := (hst_pending ?s1)(?k \<mapsto> ?a)\<rparr>"
  have s2: "http_store ?a ?s1 = Some ?s2"
    using assms(5,6) c1 by (simp add: http_store_def fresh_call_def count_received_def)
  have c2: "hst_calls ?s2 ! ?a = (fresh_call request)\<lparr>hc_phase := Sending\<rparr>" by simp
  let ?s3 = "(set_phase ?a Waiting ?s2)\<lparr>hst_requestChan := hst_requestChan s @ [request]\<rparr>"
  have f2: "hst_chansClosed ?s2 = hst_chansClosed s" "hst_bufferSize ?s2 = hst_bufferSize s"
    "hst_requestChan ?s2 = hst_requestChan s"
    by (simp_all add: set_phase_def call_update_def count_received_def)
  have s3: "http_enqueue ?a ?s2 = Some ?s3"
    using assms(7,8) c2 f2 by (simp add: http_enqueue_def chan_send_def fresh_call_def count_received_def)
  let ?r = "answer_to ?k result err"
  have c3: "hst_calls ?s3 ! ?a = (fresh_call request)\<lparr>hc_phase := Waiting\<rparr>" by simp
  let ?s4 = "removePendingHTTPRequest ?k (call_update ?a (\<lambda>c. c\<lparr>hc_buf := [?r]\<rparr>) ?s3)"
  have f3: "\<not> hst_locked ?s3" "hst_pending ?s3 ?k = Some ?a" using assms(6) by (simp_all add: count_received_def)
  have s4: "hst_SendResponse pick ?k result err ?s3 = Some (?s4, Ok ())"
    using f3 assms(5) c3
    by (simp add: hst_SendResponse_def find_http_request_def offer_http_response_def locked_remove_def answer_to_def
        fresh_call_def)
  have c4: "hc_buf (hst_calls ?s4 ! ?a) = [?r]" "?a < length (hst_calls ?s4)" by simp_all
  have "hst_config ?s4 = hst_config s"
    by (simp add: removePendingHTTPRequest_def set_phase_def call_update_def count_received_def split: option.split)
  then have h4: "json_headers ?s4 = json_headers s" by (rule json_headers_config)
  have p4: "hst_pending ?s4 ?k = None" by simp
  obtain s5 where "http_receive ?a ?s4 = Some s5" "hc_phase (hst_calls s5 ! ?a) = Answered (json_out s j)"
    "hst_pending s5 = hst_pending ?s4"
    using assms(9) c4 h4 by (simp add: http_receive_def json_out_def)
  then show ?thesis using s1 s2 s3 s4 p4 by force
qed

lemma ping_request_id: "req_ID ping_request = GFloat (F64 1)"
  by (simp add: ping_request_def)

lemma ping_answer: "marshal (response_gval (answer_to (GFloat (F64 1)) (GString ''pong'') None)) =
    Some (JObj [(''jsonrpc'', JStr ''2.0''), (''id'', JInt 1), (''result'', JStr ''pong'')])"
  by (simp add: response_gval_def answer_to_def omit_nil_def omit_None_def marshal_float_def)

theorem http_request_answered_witness:
  "\<exists>s1 a s2 s3 s4 s5. handleRPC http_ping hst_fresh = (s1, Call a) \<and> http_store a s1 = Some s2 \<and>
    http_enqueue a s2 = Some s3 \<and> hst_requestChan s3 = [ping_request] \<and>
    hst_SendResponse True (GFloat (F64 1)) (GString ''pong'') None s3 = Some (s4, Ok ()) \<and> http_receive a s4 = Some s5 \<and>
    hc_phase (hst_calls s5 ! a) = Answered (json_out hst_fresh
      (JObj [(''jsonrpc'', JStr ''2.0''), (''id'', JInt 1), (''result'', JStr ''pong'')])) \<and>
    hst_pending s5 (GFloat (F64 1)) = None"
  using http_request_answered [of http_ping hst_fresh ping_payload _ ping_request "GString ''pong''" None _ True,
      OF _ _ ping_parsed _ _ _ _ _ ping_answer [folded ping_request_id]]
  by (simp add: http_ping_def read_body_def hst_fresh_def default_config_def sse_config_def ToRequest_def IsRequest_def
      ping_request_def)

text \<open>C22: Whatever the goroutines, timers and streams do, the JSON with which an HTTP call was answered is a
  response with the id of that call's request.\<close>

theorem http_answer_own_id:
  assumes "sys_reachable oor (s, ts)" and "a < length (hst_calls s)"
    and "hc_phase (hst_calls s ! a) = Answered out" and "hout_Body out = JsonBody j"
  shows "\<exists>r. marshal (response_gval r) = Some j \<and> resp_ID r = req_ID (hc_request (hst_calls s ! a))"
  using sys_reachable_inv [OF assms(1)] assms(2-4) by (auto simp: sys_inv_def calls_fine_def call_fine_def)

theorem http_answer_own_id_witness:
  "\<exists>s a out j. sys_reachable (\<lambda>_. 0) (s, []) \<and> hc_phase (hst_calls s ! a) = Answered out \<and> hout_Body out = JsonBody j \<and>
    (\<exists>r. marshal (response_gval r) = Some j \<and> resp_ID r = GFloat (F64 1))"
proof -
  let ?k = "GFloat (F64 1)" and ?R = "sys_reachable (\<lambda>_. 0)"
  let ?r = "answer_to ?k (GString ''pong'') None"
  let ?s1 = "call_update 0 (\<lambda>c. c\<lparr>hc_buf := [?r]\<rparr>) hst_waiting"
  let ?s2 = "removePendingHTTPRequest ?k ?s1"
  have k: "resp_ID ?r = ?k" by (simp add: answer_to_def)
  have "find_http_request (resp_ID ?r) hst_waiting = Some (Ok (Some 0))"
    by (simp add: find_http_request_def k hst_waiting_def hst_fresh_def)
  with waiting_reachable have "?R (hst_waiting, [Found 0 ?r])"
    by (blast intro: sys_reachable.step call_step.find sys_step_def [THEN iffD2])
  moreover have "offer_http_response 0 ?r hst_waiting = Ok (?s1, True)"
    by (simp add: offer_http_response_def hst_waiting_def fresh_call_def)
  then have "call_step (hst_waiting, [Found 0 ?r]) (?s1, [Offered ?k])"
    using call_step.offer [of 0 ?r "[Found 0 ?r]" hst_waiting ?s1 True] k by simp
  ultimately have "?R (?s1, [Offered ?k])" by (blast intro: sys_reachable.step sys_step_def [THEN iffD2])
  moreover have "call_step (?s1, [Offered ?k]) (?s2, [])"
    using call_step.clean_up [of ?k "[Offered ?k]" ?s1 ?s2]
    by (simp add: locked_remove_def hst_waiting_def hst_fresh_def)
  ultimately obtain s2 where s2: "?R (s2, [])" "s2 = ?s2" by (blast intro: sys_reachable.step sys_step_def [THEN iffD2])
  have c: "hst_calls s2 ! 0 = (fresh_call ping_request)\<lparr>hc_buf := [?r], hc_timer := Stopped, hc_phase := Waiting\<rparr>"
    "length (hst_calls s2) = 1"
    by (simp_all add: s2(2) hst_waiting_def fresh_call_def stop_timer_def)
  have "\<exists>s3 out j. http_receive 0 s2 = Some s3 \<and> hc_phase (hst_calls s3 ! 0) = Answered out \<and>
      hout_Body out = JsonBody j \<and> length (hst_calls s3) = 1 \<and> req_ID (hc_request (hst_calls s3 ! 0)) = ?k"
    using c by (simp add: http_receive_def ping_answer ping_request_def fresh_call_def Let_def)
  then obtain s3 out j where s3: "http_receive 0 s2 = Some s3" "hc_phase (hst_calls s3 ! 0) = Answered out"
    "hout_Body out = JsonBody j" "length (hst_calls s3) = 1" "req_ID (hc_request (hst_calls s3 ! 0)) = ?k" by blast
  have "call_step (s2, []) (s3, [])" using s3(1) c by (intro call_step.receive [where a = 0]) simp_all
  with s2(1) have r3: "?R (s3, [])" by (blast intro: sys_reachable.step sys_step_def [THEN iffD2])
  from http_answer_own_id [OF r3 _ s3(2,3)] s3 have "\<exists>r. marshal (response_gval r) = Some j \<and> resp_ID r = ?k"
    by simp
  then show ?thesis using r3 s3(2,3) by blast
qed

text \<open>Two HTTP clients that use the same id get into each other's way: when a second call is entered under the
  id of a waiting one, the first is never answered with a response, whatever happens later.\<close>

theorem overwritten_call_unanswered:
  assumes "sys_reachable oor (s, ts)" and "hst_pending s k = Some a" and "list_all (\<lambda>t. \<forall>r. t \<noteq> Found a r) ts"
    and "hc_buf (hst_calls s ! a) = []" and "\<not> json_answered (hst_calls s ! a)"
    and "b < length (hst_calls s)" and "hc_phase (hst_calls s ! b) = Storing"
    and "req_ID (hc_request (hst_calls s ! b)) = k" and "hashable k" and "http_store b s = Some s1"
    and "rtranclp (sys_step oor) (s1, ts) (s2, ts2)"
  shows "hst_pending s1 k = Some b \<and> hc_buf (hst_calls s2 ! a) = [] \<and> \<not> json_answered (hst_calls s2 ! a)"
proof -
  have own: "own_call s a' k'" if "hst_pending s k' = Some a'" for a' k'
    using sys_reachable_inv [OF assms(1)] that by (simp add: sys_inv_def pending_fine_def)
  have a: "a < length (hst_calls s)" "a \<noteq> b" "hc_phase (hst_calls s ! a) \<noteq> Storing"
    using own [OF assms(2)] assms(7) by (auto simp: own_call_def)
  have s1: "s1 = (set_phase b Sending s)\<lparr>hst_pending := (hst_pending s)(k \<mapsto> b)\<rparr>"
    using assms(8-10) by (auto simp: http_store_def Let_def split: if_splits)
  have "hst_pending s k' \<noteq> Some a" if "k' \<noteq> k" for k' using own [of k' a] own [OF assms(2)] that by (auto simp: own_call_def)
  then have "orphan a (s1, ts)"
    using a assms(3-5) by (auto simp: orphan_def s1 list_all_iff)
  from orphan_steps [OF assms(11) this] show ?thesis by (simp add: orphan_def s1)
qed

theorem overwritten_call_unanswered_witness:
  "\<exists>s1. http_store 1 hst_two = Some s1 \<and> hst_pending hst_two (GFloat (F64 1)) = Some 0 \<and>
    hst_pending s1 (GFloat (F64 1)) = Some 1 \<and>
    hc_buf (hst_calls (timer_start 1 s1) ! 0) = [] \<and> \<not> json_answered (hst_calls (timer_start 1 s1) ! 0)"
proof -
  obtain s1 where s1: "http_store 1 hst_two = Some s1"
    by (simp add: http_store_def hst_two_def hst_waiting_def hst_fresh_def fresh_call_def ping_request_def Let_def)
  have "call_step (s1, []) (timer_start 1 s1, [])"
    using s1 by (intro call_step.timer_fires)
      (auto simp: http_store_def hst_two_def hst_waiting_def hst_fresh_def fresh_call_def ping_request_def Let_def)
  then have run: "rtranclp (sys_step (\<lambda>_. 0)) (s1, []) (timer_start 1 s1, [])" by (auto simp: sys_step_def)
  have f: "hst_pending hst_two (GFloat (F64 1)) = Some 0" "hc_buf (hst_calls hst_two ! 0) = []"
    "\<not> json_answered (hst_calls hst_two ! 0)" "1 < length (hst_calls hst_two)" "hc_phase (hst_calls hst_two ! 1) = Storing"
    "req_ID (hc_request (hst_calls hst_two ! 1)) = GFloat (F64 1)"
    by (simp_all add: hst_two_def hst_waiting_def fresh_call_def ping_request_def json_answered_def)
  from overwritten_call_unanswered [OF two_reachable f(1) _ f(2-6) _ s1 run] s1 f(1) run show ?thesis by auto
qed

text \<open>The timeout of a call removes whichever call is pending under its id. If that is another call, its timer
  is stopped as well: it gets no response and no timeout, and waits until the transport is closed.\<close>

theorem timeout_strands_other:
  assumes "sys_reachable oor (s, ts)" and "hst_pending s k = Some b" and "a \<noteq> b" and "a < length (hst_calls s)"
    and "req_ID (hc_request (hst_calls s ! a)) = k" and "timer_remove a s = Some s1"
    and "list_all (\<lambda>t. \<forall>r. t \<noteq> Found b r) ts" and "hc_buf (hst_calls s ! b) = []"
    and "\<not> json_answered (hst_calls s ! b)" and "hc_timer (hst_calls s ! b) = Armed" and "\<not> hc_closed (hst_calls s ! b)"
    and "rtranclp (sys_step oor) (s1, ts) (s2, ts2)"
  shows "http_receive b s2 = None \<and> hc_timer (hst_calls s2 ! b) = Stopped \<and> \<not> json_answered (hst_calls s2 ! b)"
proof -
  have own: "own_call s a' k'" if "hst_pending s k' = Some a'" for a' k'
    using sys_reachable_inv [OF assms(1)] that by (simp add: sys_inv_def pending_fine_def)
  have b: "b < length (hst_calls s)" "hc_phase (hst_calls s ! b) \<noteq> Storing"
    using own [OF assms(2)] by (auto simp: own_call_def)
  have s1: "s1 = call_update a (\<lambda>c. c\<lparr>hc_timer := Removed\<rparr>) (removePendingHTTPRequest k s)"
    using assms(5,6) by (auto simp: timer_remove_def locked_remove_Some)
  have "hst_pending s k' \<noteq> Some b" if "k' \<noteq> k" for k' using own [of k' b] own [OF assms(2)] that by (auto simp: own_call_def)
  then have "stranded b (s1, ts)"
    using b assms(2,3,7-11) by (auto simp: stranded_def orphan_def s1 stop_timer_def list_all_iff)
  from stranded_steps [OF assms(12) this] show ?thesis
    by (simp add: stranded_def orphan_def http_receive_def)
qed

theorem timeout_strands_other_witness:
  "\<exists>s s1. sys_reachable (\<lambda>_. 0) (s, []) \<and> hst_pending s (GFloat (F64 1)) = Some 1 \<and> timer_remove 0 s = Some s1 \<and>
    hst_calls s ! 0 \<noteq> hst_calls s ! 1 \<and> http_receive 1 s1 = None \<and> hc_timer (hst_calls s1 ! 1) = Stopped \<and>
    \<not> json_answered (hst_calls s1 ! 1)"
proof -
  let ?k = "GFloat (F64 1)"
  let ?u = "(set_phase 1 Sending hst_two)\<lparr>hst_pending := (hst_pending hst_two)(?k \<mapsto> 1)\<rparr>"
  let ?s = "timer_start 0 ?u"
  have c: "hst_calls hst_two = [(fresh_call ping_request)\<lparr>hc_phase := Waiting\<rparr>, fresh_call ping_request]"
    "\<not> hst_locked hst_two"
    by (simp_all add: hst_two_def hst_waiting_def hst_fresh_def)
  have "http_store 1 hst_two = Some ?u"
    by (simp add: http_store_def c fresh_call_def ping_request_def Let_def)
  then have "call_step (hst_two, []) (?u, [])" by (rule call_step.store [rotated 2]) (simp_all add: c fresh_call_def)
  moreover have "call_step (?u, []) (?s, [])"
    using call_step.timer_fires [of 0 ?u "[]"] by (simp add: c fresh_call_def)
  ultimately have r: "sys_reachable (\<lambda>_. 0) (?s, [])"
    using two_reachable by (blast intro: sys_reachable.step sys_step_def [THEN iffD2])
  have f: "hst_pending ?s ?k = Some 1" "length (hst_calls ?s) = 2" "hst_calls ?s ! 1 = (fresh_call ping_request)\<lparr>hc_phase := Sending\<rparr>"
    "hst_calls ?s ! 0 = (fresh_call ping_request)\<lparr>hc_phase := Waiting, hc_timer := Started\<rparr>"
    by (simp_all add: timer_start_def c)
  obtain s1 where s1: "timer_remove 0 ?s = Some s1"
    by (simp add: timer_remove_def locked_remove_def timer_start_def c)
  have "http_receive 1 s1 = None \<and> hc_timer (hst_calls s1 ! 1) = Stopped \<and> \<not> json_answered (hst_calls s1 ! 1)"
    by (rule timeout_strands_other [OF r f(1) _ _ _ s1 _ _ _ _ _ rtranclp.rtrancl_refl])
      (simp_all add: f fresh_call_def ping_request_def json_answered_def del: One_nat_def)
  moreover have "hst_calls ?s ! 0 \<noteq> hst_calls ?s ! 1" unfolding f(3,4) by (simp add: fresh_call_def)
  ultimately show ?thesis using r f(1) s1 by blast
qed

text \<open>C23: One request whose id is an array or an object stops the transport: its panic leaves \<open>httpMu\<close> locked,
  and from then on no call is ever entered and \<open>SendResponse\<close> never gets past its first line.\<close>

theorem unhashable_id_freezes:
  assumes "http_store a s = Some s1" and "\<not> hashable (req_ID (hc_request (hst_calls s ! a)))"
    and "rtranclp (sys_step oor) (s1, ts) (s2, ts2)"
  shows "list_all (\<lambda>c. hc_phase c = Storing) (drop (length (hst_calls s1)) (hst_calls s2)) \<and>
    http_store b s2 = None \<and> hst_SendResponse pick k result err s2 = None"
proof -
  have "hst_locked s1" using assms(1,2) by (auto simp: http_store_def Let_def split: if_splits)
  then have l: "hst_locked s2"
    "\<forall>b < length (hst_calls s2). length (hst_calls s1) \<le> b \<longrightarrow> hc_phase (hst_calls s2 ! b) = Storing"
    using locked_steps [OF assms(3)] by auto
  then show ?thesis
    by (auto simp: http_store_def hst_SendResponse_def find_http_request_def list_all_length)
qed

theorem unhashable_id_freezes_witness:
  "\<exists>s1. http_store 0 (hst_fresh\<lparr>hst_calls := [fresh_call (ping_request\<lparr>req_ID := GList []\<rparr>)]\<rparr>) = Some s1 \<and>
    http_store 1 (fst (handleRPC http_ping s1)) = None \<and>
    hst_SendResponse True (GFloat (F64 1)) GNil None (fst (handleRPC http_ping s1)) = None"
proof -
  let ?s = "hst_fresh\<lparr>hst_calls := [fresh_call (ping_request\<lparr>req_ID := GList []\<rparr>)]\<rparr>"
  obtain s1 where s1: "http_store 0 ?s = Some s1"
    by (simp add: http_store_def hst_fresh_def fresh_call_def Let_def)
  obtain s2 r where s2: "handleRPC http_ping s1 = (s2, r)" by fastforce
  have "rtranclp (sys_step (\<lambda>_. 0)) (s1, []) (s2, [])"
    using call_step.post [OF s2] by (auto simp: sys_step_def)
  from unhashable_id_freezes [OF s1 _ this, of 1 True "GFloat (F64 1)" GNil None] s1 s2
  show ?thesis by (simp add: fresh_call_def)
qed

text \<open>Every notification reaches an event stream twice: \<open>SendNotification\<close> writes it to the streams and gives it
  to the message handler, whose outgoing messages are written to the streams as well.\<close>

theorem notification_sent_twice:
  assumes "hst_SendNotification pick ks meth params s = Some (s1, Ok ())" and "htc_EnableSSE (hst_config s)"
    and "generic params" and "meth \<noteq> []" and "range_order (hst_sseClients s) ks" and "inj_on (hst_sseClients s) (dom (hst_sseClients s))"
    and "hst_sseClients s k = Some c" and "c < length (hst_clients s)" and "mh_outgoingChan (hst_handler s) = []"
    and "hst_ctx s = None"
  shows "\<exists>j s2. hst_bridgeOutgoing pick' ks s1 = Some (s2, True) \<and>
    sse_events (hst_clients s2 ! c) = sse_events (hst_clients s ! c) @ [Event ''notification'' j, Event ''notification'' j]"
proof -
  let ?n = "\<lparr>not_JSONRPC = ''2.0'', not_Method = meth, not_Params = params\<rparr>"
  let ?m = "\<lparr>msg_JSONRPC = ''2.0'', msg_ID = GNil, msg_Method = meth, msg_Params = params, msg_Result = GNil,
     msg_Error = None\<rparr>"
  let ?cs = "range_values (hst_sseClients s) ks"
  obtain j where j: "marshal (notification_gval ?n) = Some j" "ParseMessage (Text j) = Some ?m"
    using notification_wire [of ?n params] assms(3) by auto
  have jm: "marshal (message_gval ?m) = Some j"
    using j(1) assms(4) by (simp add: message_gval_def notification_gval_def omit_nil_def omit_empty_def omit_None_def)
  have "c \<in> set ?cs" unfolding set_range_values [OF assms(5)]
    using assms(7) by (auto simp: ran_def)
  moreover have "distinct ?cs"
    using assms(5,6) by (auto simp: range_values_map distinct_map range_order_def inj_on_def domIff)
  ultimately have cs: "distinct ?cs" "c \<in> set ?cs" by simp_all
  let ?s0 = "broadcastSSEEvent ks ''notification'' (notification_gval ?n) s"
  have b1: "hst_clients ?s0 ! c = (hst_clients s ! c)\<lparr>sse_events := sse_events (hst_clients s ! c) @ [Event ''notification'' j]\<rparr>"
    "hst_sseClients ?s0 = hst_sseClients s" "length (hst_clients ?s0) = length (hst_clients s)"
    using broadcast_client [OF j(1) cs(1) assms(8), of "''notification''"] cs(2) by (simp_all add: broadcastSSEEvent_def)
  have h0: "hst_handler ?s0 = hst_handler s" "hst_config ?s0 = hst_config s" "hst_ctx ?s0 = hst_ctx s"
    using broadcast_keeps by simp_all
  obtain h where h: "SendNotification pick meth params (hst_handler s) = Some (h, Ok ())" "s1 = ?s0\<lparr>hst_handler := h\<rparr>"
    using assms(1,2) h0(1) by (auto simp: hst_SendNotification_def Let_def)
  have out: "mh_outgoingChan h = [Text j]"
    using h(1) assms(9) j(1)
    by (auto simp: SendNotification_def to_payload_def select_send_def chan_send_def stats_update_def
        split: option.splits if_splits)
  let ?s1 = "s1\<lparr>hst_handler := (hst_handler s1)\<lparr>mh_outgoingChan := []\<rparr>\<rparr>"
  have s1: "hst_clients ?s1 = hst_clients ?s0" "hst_sseClients ?s1 = hst_sseClients s" using h(2) b1(2) by simp_all
  have "hst_bridgeOutgoing pick' ks s1 =
      Some (broadcastSSEEvent ks ''notification'' (message_gval ?m) ?s1, True)"
    using out h h0 assms(2,4,10) j(2) by (simp add: hst_bridgeOutgoing_def IsNotification_def)
  moreover have "sse_events (hst_clients (broadcastSSEEvent ks ''notification'' (message_gval ?m) ?s1) ! c) =
      sse_events (hst_clients s ! c) @ [Event ''notification'' j, Event ''notification'' j]"
    using broadcast_client [OF jm cs(1), of c ?s1 "''notification''"] cs(2) b1 s1 assms(8)
    by (simp add: broadcastSSEEvent_def)
  ultimately show ?thesis by blast
qed

definition streaming :: hst_state where
  "streaming = hst_fresh\<lparr>hst_sseClients := [''client-7'' \<mapsto> 0],
     hst_clients := [\<lparr>sse_ID = ''client-7'', sse_Headers = [], sse_events = [], sse_Done = False\<rparr>]\<rparr>"

theorem notification_sent_twice_witness:
  "\<exists>s1 j s2. hst_SendNotification True [''client-7''] ''x'' GNil streaming = Some (s1, Ok ()) \<and>
    hst_bridgeOutgoing True [''client-7''] s1 = Some (s2, True) \<and>
    sse_events (hst_clients s2 ! 0) = [Event ''notification'' j, Event ''notification'' j]"
proof -
  have "\<exists>h. SendNotification True ''x'' GNil mh_fresh = Some (h, Ok ())"
    by (simp add: SendNotification_def mh_fresh_def to_payload_def notification_gval_def omit_nil_def select_send_def
        chan_send_def stats_update_def)
  then have "\<exists>s1. hst_SendNotification True [''client-7''] ''x'' GNil streaming = Some (s1, Ok ())"
    using broadcast_keeps by (auto simp: hst_SendNotification_def streaming_def hst_fresh_def Let_def)
  then obtain s1 where s1: "hst_SendNotification True [''client-7''] ''x'' GNil streaming = Some (s1, Ok ())" by blast
  have "\<exists>j s2. hst_bridgeOutgoing True [''client-7''] s1 = Some (s2, True) \<and>
      sse_events (hst_clients s2 ! 0) = sse_events (hst_clients streaming ! 0) @ [Event ''notification'' j, Event ''notification'' j]"
    by (rule notification_sent_twice [OF s1, where k = "''client-7''"])
      (auto simp: streaming_def hst_fresh_def default_config_def sse_config_def mh_fresh_def range_order_def)
  then show ?thesis using s1 by (auto simp: streaming_def)
qed

end
