(* ===== verification/Mcp_Client.thy ===== *)
theory Mcp_Client
  imports Inprocess
begin

text \<open>
  \<open>client/client.go\<close>: the operations of an MCP client over any transport. The interface \<open>Transport\<close> of
  \<open>transport/interface.go\<close> is a record of functions on the transport's state, with the methods the
  client calls. \<open>rpc_transport\<close> says what the client's results rest on: a request is answered with
  what the other side makes of it, as the wire shows it. The context of a call is its error once it
  is done, and \<open>pick\<close> the choice of a \<open>select\<close> with two cases ready. The field \<open>ctx\<close> is never read
  and left out.
\<close>

named_theorems client_simps "definitions of the client"

section \<open>State\<close>

text \<open>What a receive on a response channel finds.\<close>

datatype arrival = Nothing_yet | Drained | Arrived response

text \<open>
  \<open>SendRequest\<close> gives the state of the channel it returned at the time the client looks at it;
  \<^term>\<open>None\<close> while it blocks. \<open>Start\<close> is found by a type assertion, so it may be missing.
\<close>

record 't transport_ops =
  tr_SendRequest :: "string \<Rightarrow> gval \<Rightarrow> 't \<Rightarrow> ('t \<times> arrival outcome) option"
  tr_Start :: "('t \<Rightarrow> 't \<times> string option) option"
  tr_Close :: "'t \<Rightarrow> ('t \<times> unit outcome) option"

record client_info =
  cinfo_Name :: string
  cinfo_Version :: string

record client_config =
  cc_ClientInfo :: client_info
  cc_Capabilities :: client_capabilities

record server_info =
  sinfo_Name :: string
  sinfo_Version :: string

record 't client =
  cl_transport :: 't
  cl_serverInfo :: "server_info option"
  cl_config :: client_config

definition New :: "'t \<Rightarrow> 't client" where
  "New t =
     \<lparr>cl_transport = t, cl_serverInfo = None,
      cl_config = \<lparr>cc_ClientInfo = \<lparr>cinfo_Name = ''mcp-go-client'', cinfo_Version = ''1.0.0''\<rparr>,
        cc_Capabilities = \<lparr>ccap_Experimental = None, ccap_Sampling = None, ccap_Roots = None\<rparr>\<rparr>\<rparr>"

section \<open>Reading results\<close>

definition getString :: "(string \<times> gval) list \<Rightarrow> string \<Rightarrow> string" where
  "getString m key = (case map_of m key of Some (GString s) \<Rightarrow> s | _ \<Rightarrow> [])"

definition getBool :: "(string \<times> gval) list \<Rightarrow> string \<Rightarrow> bool" where
  "getBool m key = (case map_of m key of Some (GBool b) \<Rightarrow> b | _ \<Rightarrow> False)"

text \<open>The type assertions on a map, on a list member of a map, and on the elements of a list.\<close>

definition as_map :: "gval \<Rightarrow> (string \<times> gval) list option" where
  "as_map v = (case v of GMap m \<Rightarrow> Some m | _ \<Rightarrow> None)"

definition getMaps :: "(string \<times> gval) list \<Rightarrow> string \<Rightarrow> (string \<times> gval) list list" where
  "getMaps m key = (case map_of m key of Some (GList vs) \<Rightarrow> List.map_filter as_map vs | _ \<Rightarrow> [])"

definition result_maps :: "string \<Rightarrow> gval \<Rightarrow> (string \<times> gval) list list" where
  "result_maps key v = (case v of GMap m \<Rightarrow> getMaps m key | _ \<Rightarrow> [])"

definition read_resource :: "(string \<times> gval) list \<Rightarrow> resource" where
  "read_resource m =
     \<lparr>res_URI = getString m ''uri'', res_Name = getString m ''name'', res_Description = getString m ''description'',
      res_MimeType = getString m ''mimeType'', res_Annotations = GNil\<rparr>"

definition read_resource_content :: "(string \<times> gval) list \<Rightarrow> resource_content" where
  "read_resource_content m =
     \<lparr>rcont_URI = getString m ''uri'', rcont_MimeType = getString m ''mimeType'', rcont_Text = getString m ''text'',
      rcont_Blob = getString m ''blob''\<rparr>"

definition read_tool :: "(string \<times> gval) list \<Rightarrow> tool" where
  "read_tool m =
     \<lparr>tool_Name = getString m ''name'', tool_Description = getString m ''description'',
      tool_InputSchema = (case map_of m ''inputSchema'' of Some v \<Rightarrow> as_map v | None \<Rightarrow> None)\<rparr>"

definition read_text :: "(string \<times> gval) list \<Rightarrow> content" where
  "read_text m = TextContent ''text'' (getString m ''text'') (getString m ''uri'')"

definition read_prompt_argument :: "(string \<times> gval) list \<Rightarrow> prompt_argument" where
  "read_prompt_argument m =
     \<lparr>parg_Name = getString m ''name'', parg_Description = getString m ''description'',
      parg_Required = getBool m ''required''\<rparr>"

definition read_prompt :: "(string \<times> gval) list \<Rightarrow> prompt" where
  "read_prompt m =
     \<lparr>prompt_Name = getString m ''name'', prompt_Description = getString m ''description'',
      prompt_Arguments = map read_prompt_argument (getMaps m ''arguments'')\<rparr>"

record call_tool_result =
  ctr_Content :: "content list"
  ctr_IsError :: bool

definition read_call_result :: "gval \<Rightarrow> call_tool_result" where
  "read_call_result v =
     \<lparr>ctr_Content = map read_text (result_maps ''content'' v),
      ctr_IsError = (case v of GMap m \<Rightarrow> getBool m ''isError'' | _ \<Rightarrow> False)\<rparr>"

text \<open>The content of a prompt message: nil, one content, or a slice.\<close>

datatype message_content = NoContent | OneContent content | Contents "content list"

record prompt_text =
  pt_Role :: string
  pt_Content :: message_content

record prompt_result =
  pres_Description :: string
  pres_Messages :: "prompt_text list"

definition read_message :: "(string \<times> gval) list \<Rightarrow> prompt_text" where
  "read_message m =
     \<lparr>pt_Role = getString m ''role'',
      pt_Content =
        (case map_of m ''content'' of
           Some (GString s) \<Rightarrow> OneContent (TextContent ''text'' s [])
         | Some (GMap c) \<Rightarrow> OneContent (read_text c)
         | Some (GList vs) \<Rightarrow> Contents (map read_text (List.map_filter as_map vs))
         | _ \<Rightarrow> NoContent)\<rparr>"

definition read_prompt_result :: "gval \<Rightarrow> prompt_result" where
  "read_prompt_result v =
     \<lparr>pres_Description = (case v of GMap m \<Rightarrow> getString m ''description'' | _ \<Rightarrow> []),
      pres_Messages = map read_message (result_maps ''messages'' v)\<rparr>"

definition read_server_info :: "gval \<Rightarrow> server_info option" where
  "read_server_info v =
     (case v of
        GMap m \<Rightarrow>
          (case map_of m ''serverInfo'' of
             Some (GMap i) \<Rightarrow> Some \<lparr>sinfo_Name = getString i ''name'', sinfo_Version = getString i ''version''\<rparr>
           | _ \<Rightarrow> None)
      | _ \<Rightarrow> None)"

section \<open>Calls\<close>

text \<open>\<open>select\<close> on the response channel and the context: \<^term>\<open>None\<close> while neither is ready.\<close>

definition wait_response :: "bool \<Rightarrow> string option \<Rightarrow> arrival \<Rightarrow> response option outcome option" where
  "wait_response pick ctx a =
     (let ready = (case a of Nothing_yet \<Rightarrow> None | Drained \<Rightarrow> Some None | Arrived r \<Rightarrow> Some (Some r))
      in case (ready, ctx) of
           (None, None) \<Rightarrow> None
         | (None, Some e) \<Rightarrow> Some (Err e)
         | (Some r, None) \<Rightarrow> Some (Ok r)
         | (Some r, Some e) \<Rightarrow> Some (if pick then Ok r else Err e))"

text \<open>
  What the operations have in common: send, wait, and refuse nil and errors. \<open>failed\<close> and \<open>refused\<close> are
  put before the message of an error of \<open>SendRequest\<close> and of the response.
\<close>

definition request_result ::
  "'t transport_ops \<Rightarrow> bool \<Rightarrow> string option \<Rightarrow> string \<Rightarrow> string \<Rightarrow> string \<Rightarrow> gval \<Rightarrow> 't \<Rightarrow> ('t \<times> gval outcome) option" where
  "request_result T pick ctx failed refused meth params t =
     (case tr_SendRequest T meth params t of
        None \<Rightarrow> None
      | Some (t1, Err e) \<Rightarrow> Some (t1, Err (failed @ e))
      | Some (t1, Panic p) \<Rightarrow> Some (t1, Panic p)
      | Some (t1, Ok a) \<Rightarrow>
          (case wait_response pick ctx a of
             None \<Rightarrow> None
           | Some (Err e) \<Rightarrow> Some (t1, Err e)
           | Some (Panic p) \<Rightarrow> Some (t1, Panic p)
           | Some (Ok None) \<Rightarrow> Some (t1, Err ''no response received'')
           | Some (Ok (Some response)) \<Rightarrow>
               Some (t1, case resp_Error response of
                           Some e \<Rightarrow> Err (refused @ err_Message e)
                         | None \<Rightarrow> Ok (resp_Result response))))"

definition call ::
  "'t transport_ops \<Rightarrow> bool \<Rightarrow> string option \<Rightarrow> string \<Rightarrow> gval \<Rightarrow> (gval \<Rightarrow> 'a) \<Rightarrow> 't client \<Rightarrow>
   ('t client \<times> 'a outcome) option" where
  "call T pick ctx meth params read c =
     map_option
       (\<lambda>(t, r). (c\<lparr>cl_transport := t\<rparr>, case r of Ok v \<Rightarrow> Ok (read v) | Err e \<Rightarrow> Err e | Panic p \<Rightarrow> Panic p))
       (request_result T pick ctx [] ''error: '' meth params (cl_transport c))"

definition initialize_params :: "client_config \<Rightarrow> gval" where
  "initialize_params config =
     GMap [(''capabilities'', client_capabilities_gval (cc_Capabilities config)),
           (''clientInfo'', GMap [(''name'', GString (cinfo_Name (cc_ClientInfo config))),
                                  (''version'', GString (cinfo_Version (cc_ClientInfo config)))]),
           (''protocolVersion'', GString ProtocolVersion)]"

definition Initialize ::
  "'t transport_ops \<Rightarrow> bool \<Rightarrow> string option \<Rightarrow> 't client \<Rightarrow> ('t client \<times> unit outcome) option" where
  "Initialize T pick ctx c =
     (case request_result T pick ctx ''failed to send initialize request: '' ''initialize error: '' ''initialize''
             (initialize_params (cl_config c)) (cl_transport c) of
        None \<Rightarrow> None
      | Some (t, Ok v) \<Rightarrow>
          Some (c\<lparr>cl_transport := t,
                  cl_serverInfo := (case read_server_info v of None \<Rightarrow> cl_serverInfo c | Some i \<Rightarrow> Some i)\<rparr>, Ok ())
      | Some (t, Err e) \<Rightarrow> Some (c\<lparr>cl_transport := t\<rparr>, Err e)
      | Some (t, Panic p) \<Rightarrow> Some (c\<lparr>cl_transport := t\<rparr>, Panic p))"

definition NewClient ::
  "'t transport_ops \<Rightarrow> bool \<Rightarrow> string option \<Rightarrow> 't \<Rightarrow> client_config \<Rightarrow> 't client outcome option" where
  "NewClient T pick ctx t config =
     map_option
       (\<lambda>(c, r). case r of Ok _ \<Rightarrow> Ok c | Err e \<Rightarrow> Err (''failed to initialize client: '' @ e) | Panic p \<Rightarrow> Panic p)
       (Initialize T pick ctx \<lparr>cl_transport = t, cl_serverInfo = None, cl_config = config\<rparr>)"

definition client_Start ::
  "'t transport_ops \<Rightarrow> bool \<Rightarrow> string option \<Rightarrow> 't client \<Rightarrow> ('t client \<times> unit outcome) option" where
  "client_Start T pick ctx c =
     (case tr_Start T of
        None \<Rightarrow> Initialize T pick ctx c
      | Some start \<Rightarrow>
          (case start (cl_transport c) of
             (t, Some e) \<Rightarrow> Some (c\<lparr>cl_transport := t\<rparr>, Err (''failed to start transport: '' @ e))
           | (t, None) \<Rightarrow> Initialize T pick ctx (c\<lparr>cl_transport := t\<rparr>)))"

definition ListResources where
  "ListResources T pick ctx = call T pick ctx ''resources/list'' GNil (\<lambda>v. map read_resource (result_maps ''resources'' v))"

definition ReadResource where
  "ReadResource T pick ctx uri =
     call T pick ctx ''resources/read'' (GMap [(''uri'', GString uri)])
       (\<lambda>v. map read_resource_content (result_maps ''contents'' v))"

definition ListTools where
  "ListTools T pick ctx = call T pick ctx ''tools/list'' GNil (\<lambda>v. map read_tool (result_maps ''tools'' v))"

definition call_params_gval :: "string \<Rightarrow> arguments \<Rightarrow> gval" where
  "call_params_gval name args = GMap [(''arguments'', opt_map_gval args), (''name'', GString name)]"

definition CallTool where
  "CallTool T pick ctx name args = call T pick ctx ''tools/call'' (call_params_gval name args) read_call_result"

definition ListPrompts where
  "ListPrompts T pick ctx = call T pick ctx ''prompts/list'' GNil (\<lambda>v. map read_prompt (result_maps ''prompts'' v))"

definition GetPrompt where
  "GetPrompt T pick ctx name args = call T pick ctx ''prompts/get'' (call_params_gval name args) read_prompt_result"

definition client_Close :: "'t transport_ops \<Rightarrow> 't client \<Rightarrow> ('t client \<times> unit outcome) option" where
  "client_Close T c = map_option (\<lambda>(t, r). (c\<lparr>cl_transport := t\<rparr>, r)) (tr_Close T (cl_transport c))"

section \<open>What the other side's structs look like\<close>

lemma wire_atoms [simp]:
  "wire_view (GString x) = Some (GString x)" "wire_view (GBool b) = Some (GBool b)"
  by (simp_all add: wire_view_def)

lemma wire_map_struct: "wire_view (GMap fs) = wire_view (GStruct fs)"
  by (simp add: wire_view_def)

lemma wire_list:
  assumes "list_all2 (\<lambda>v w. wire_view v = Some w) vs ws"
  shows "wire_view (GSlice vs) = Some (GList ws)"
proof -
  have "\<exists>js. marshal_list vs = Some js \<and> to_iface_list js = Some ws"
    using assms by (induction rule: list_all2_induct) (auto simp: wire_view_def split: option.splits)
  then show ?thesis by (auto simp: wire_view_def)
qed

lemma to_iface_members_lookup:
  "to_iface_members js acc = Some m \<Longrightarrow> distinct (map fst js) \<Longrightarrow>
    map_of m k = (case map_of js k of None \<Rightarrow> map_of acc k | Some j \<Rightarrow> to_iface j)"
proof (induction js arbitrary: acc)
  case (Cons p js)
  obtain k' j where p: "p = (k', j)" by (cases p)
  then obtain v where v: "to_iface j = Some v" "to_iface_members js (map_put k' v acc) = Some m"
    using Cons.prems(1) by (auto split: option.splits)
  have "map_of js k' = None" using Cons.prems(2) p by (simp add: map_of_eq_None_iff)
  then show ?case using Cons.IH [OF v(2)] Cons.prems(2) p v(1) by (auto split: option.splits)
qed simp

lemma to_iface_members_total:
  "list_all (\<lambda>(k, j). to_iface j \<noteq> None) js \<Longrightarrow> to_iface_members js acc \<noteq> None"
  by (induction js arbitrary: acc) (auto split: option.splits)

text \<open>A struct arrives as a map with the fields' wire views.\<close>

lemma wire_struct:
  assumes "list_all (\<lambda>(k, v). wire_view v \<noteq> None) fs" and "distinct (map fst fs)"
  obtains m where "wire_view (GStruct fs) = Some (GMap m)"
    and "\<And>k. map_of m k = (case map_of fs k of None \<Rightarrow> None | Some v \<Rightarrow> wire_view v)"
proof -
  have "\<exists>js. marshal_members fs = Some js \<and> list_all (\<lambda>(k, j). to_iface j \<noteq> None) js \<and> map fst js = map fst fs \<and>
      (\<forall>k. (case map_of js k of None \<Rightarrow> None | Some j \<Rightarrow> to_iface j) =
           (case map_of fs k of None \<Rightarrow> None | Some v \<Rightarrow> wire_view v))"
    using assms(1)
  proof (induction fs)
    case (Cons p fs)
    obtain k v where p: "p = (k, v)" by (cases p)
    then obtain j w where j: "marshal v = Some j" "to_iface j = Some w"
      using Cons.prems by (auto simp: wire_view_def split: option.splits)
    moreover obtain js where "marshal_members fs = Some js" "list_all (\<lambda>(k, j). to_iface j \<noteq> None) js" "map fst js = map fst fs"
      "\<forall>k. (case map_of js k of None \<Rightarrow> None | Some j \<Rightarrow> to_iface j) = (case map_of fs k of None \<Rightarrow> None | Some v \<Rightarrow> wire_view v)"
      using Cons by auto
    ultimately show ?case using p by (auto simp: wire_view_def)
  qed simp
  then obtain js where js: "marshal_members fs = Some js" "list_all (\<lambda>(k, j). to_iface j \<noteq> None) js" "map fst js = map fst fs"
    "\<And>k. (case map_of js k of None \<Rightarrow> None | Some j \<Rightarrow> to_iface j) = (case map_of fs k of None \<Rightarrow> None | Some v \<Rightarrow> wire_view v)"
    by blast
  obtain m where m: "to_iface_members js [] = Some m" using to_iface_members_total [OF js(2), of "[]"] by auto
  show ?thesis
  proof (rule that [of m])
    show "wire_view (GStruct fs) = Some (GMap m)" using js(1) m by (simp add: wire_view_def)
    show "map_of m k = (case map_of fs k of None \<Rightarrow> None | Some v \<Rightarrow> wire_view v)" for k
      using to_iface_members_lookup [OF m, of k] js(3) js(4) [of k] assms(2) by (cases "map_of js k") simp_all
  qed
qed

lemma as_maps [simp]: "List.map_filter as_map (map GMap ms) = ms"
  by (induction ms) (simp_all add: as_map_def List.map_filter_simps)

lemma wire_maps:
  assumes "\<And>x. x \<in> set xs \<Longrightarrow> \<exists>m. wire_view (f x) = Some (GMap m) \<and> read m = g x"
  obtains ms where "wire_view (GSlice (map f xs)) = Some (GList (map GMap ms))" and "map read ms = map g xs"
proof -
  have "\<exists>ms. list_all2 (\<lambda>v w. wire_view v = Some w) (map f xs) (map GMap ms) \<and> map read ms = map g xs"
    using assms
  proof (induction xs)
    case (Cons x xs)
    obtain m where m: "wire_view (f x) = Some (GMap m)" "read m = g x" using Cons.prems [of x] by auto
    obtain ms where "list_all2 (\<lambda>v w. wire_view v = Some w) (map f xs) (map GMap ms)" "map read ms = map g xs"
      using Cons by auto
    with m show ?case by (intro exI [of _ "m # ms"]) simp
  qed (auto intro: exI [of _ "[]"])
  then show ?thesis using that wire_list by blast
qed

text \<open>The result of a list request, whether it is a struct or a map.\<close>

lemma wire_result_maps:
  assumes "\<And>x. x \<in> set xs \<Longrightarrow> \<exists>m. wire_view (f x) = Some (GMap m) \<and> read m = g x"
  shows "\<exists>w. wire_view (GStruct [(key, GSlice (map f xs))]) = Some w \<and> map read (result_maps key w) = map g xs"
proof -
  obtain ms where ms: "wire_view (GSlice (map f xs)) = Some (GList (map GMap ms))" "map read ms = map g xs"
    using wire_maps [of xs f read g] assms by blast
  obtain m where m: "wire_view (GStruct [(key, GSlice (map f xs))]) = Some (GMap m)"
    "\<And>k. map_of m k = (case map_of [(key, GSlice (map f xs))] k of None \<Rightarrow> None | Some v \<Rightarrow> wire_view v)"
    by (rule wire_struct [of "[(key, GSlice (map f xs))]"]) (use ms in simp_all)
  from m(2) [of key] ms m(1) show ?thesis by (simp add: result_maps_def getMaps_def)
qed

lemmas omit_defs [client_simps] = omit_nil_def omit_empty_def omit_false_def omit_None_def

lemmas read_defs [client_simps] = getString_def getBool_def getMaps_def as_map_def

lemma wire_read:
  assumes "list_all (\<lambda>(k, v). wire_view v \<noteq> None) fs" and "distinct (map fst fs)"
    and "\<And>m. (\<And>k. map_of m k = (case map_of fs k of None \<Rightarrow> None | Some v \<Rightarrow> wire_view v)) \<Longrightarrow> read m = x"
  shows "\<exists>m. wire_view (GStruct fs) = Some (GMap m) \<and> read m = x"
  using wire_struct [OF assms(1,2)] assms(3) by metis

lemma resource_wire:
  assumes "wire_view (res_Annotations r) \<noteq> None"
  shows "\<exists>m. wire_view (resource_gval r) = Some (GMap m) \<and> read_resource m = r\<lparr>res_Annotations := GNil\<rparr>"
  unfolding resource_gval_def
  by (rule wire_read) (use assms in \<open>auto simp: read_resource_def client_simps\<close>)

lemma tool_wire:
  assumes "generic (opt_map_gval (tool_InputSchema t))"
  shows "\<exists>m. wire_view (tool_gval t) = Some (GMap m) \<and> read_tool m = t"
  unfolding tool_gval_def
  by (rule wire_read) (use assms in \<open>auto simp: read_tool_def client_simps opt_map_gval_def split: option.splits\<close>)

lemma resource_content_wire: "\<exists>m. wire_view (resource_content_gval c) = Some (GMap m) \<and> read_resource_content m = c"
  unfolding resource_content_gval_def by (rule wire_read) (auto simp: read_resource_content_def client_simps)

text \<open>The client reads every content as text: of an image or a sound nothing is left.\<close>

fun as_text :: "content \<Rightarrow> content" where
  "as_text (TextContent t x u) = TextContent ''text'' x u"
| "as_text (ImageContent t d m) = TextContent ''text'' [] []"
| "as_text (AudioContent t d m) = TextContent ''text'' [] []"

lemma content_wire: "\<exists>m. wire_view (content_gval c) = Some (GMap m) \<and> read_text m = as_text c"
  by (cases c; simp add: content_gval_def; rule wire_read) (auto simp: read_text_def client_simps)

lemma call_result_wire:
  "\<exists>w. wire_view (call_tool_result_gval cs b) = Some w \<and>
     read_call_result w = \<lparr>ctr_Content = map as_text (case cs of None \<Rightarrow> [] | Some xs \<Rightarrow> xs), ctr_IsError = b\<rparr>"
proof -
  let ?xs = "case cs of None \<Rightarrow> [] | Some xs \<Rightarrow> xs"
  obtain ms where ms: "wire_view (GSlice (map content_gval ?xs)) = Some (GList (map GMap ms))"
    "map read_text ms = map as_text ?xs"
    by (rule wire_maps [of ?xs content_gval read_text as_text, OF content_wire])
  then have "wire_view (contents_gval cs) = Some (case cs of None \<Rightarrow> GNil | Some xs \<Rightarrow> GList (map GMap ms))"
    by (auto simp: contents_gval_def split: option.splits)
  note ms = this ms(2)
  have "\<exists>m. wire_view (call_tool_result_gval cs b) = Some (GMap m) \<and>
      read_call_result (GMap m) = \<lparr>ctr_Content = map as_text (case cs of None \<Rightarrow> [] | Some xs \<Rightarrow> xs), ctr_IsError = b\<rparr>"
    unfolding call_tool_result_gval_def
    by (rule wire_read) (use ms in \<open>auto simp: read_call_result_def result_maps_def client_simps split: option.splits\<close>)
  then show ?thesis by blast
qed

lemma prompt_argument_wire: "\<exists>m. wire_view (prompt_argument_gval a) = Some (GMap m) \<and> read_prompt_argument m = a"
  unfolding prompt_argument_gval_def by (rule wire_read) (auto simp: read_prompt_argument_def client_simps)

lemma prompt_wire: "\<exists>m. wire_view (prompt_gval p) = Some (GMap m) \<and> read_prompt m = p"
proof -
  obtain ms where "wire_view (GSlice (map prompt_argument_gval (prompt_Arguments p))) = Some (GList (map GMap ms))"
    "map read_prompt_argument ms = map id (prompt_Arguments p)"
    using wire_maps [of "prompt_Arguments p" prompt_argument_gval read_prompt_argument id] prompt_argument_wire by auto
  then show ?thesis
    unfolding prompt_gval_def by (intro wire_read) (auto simp: read_prompt_def client_simps)
qed

section \<open>The contract of a transport\<close>

text \<open>
  \<open>ready n t\<close>: the transport \<open>t\<close> is idle and has room for \<open>n\<close> more requests. \<open>serve t meth params\<close> is what the
  other side makes of a request: a result and an error, as values of its own.
\<close>

locale rpc_transport =
  fixes T :: "'t transport_ops"
    and ready :: "nat \<Rightarrow> 't \<Rightarrow> bool"
    and serve :: "'t \<Rightarrow> string \<Rightarrow> gval \<Rightarrow> (gval \<times> rpc_error option) option"
  assumes answered: "ready (Suc n) t \<Longrightarrow> meth \<noteq> [] \<Longrightarrow> wire_view params = Some ps \<Longrightarrow> serve t meth ps = Some (v, err) \<Longrightarrow>
      wire_view v = Some w \<Longrightarrow>
      \<exists>t' r. tr_SendRequest T meth params t = Some (t', Ok (Arrived r)) \<and> resp_Result r = w \<and> resp_Error r = err \<and>
        ready n t' \<and> serve t' = serve t"
begin

lemma request_answered:
  assumes "ready (Suc n) t" and "meth \<noteq> []" and "wire_view params = Some ps" and "serve t meth ps = Some (v, err)"
    and "wire_view v = Some w"
  shows "\<exists>t'. request_result T pick None failed refused meth params t =
      Some (t', case err of Some e \<Rightarrow> Err (refused @ err_Message e) | None \<Rightarrow> Ok w) \<and> ready n t' \<and> serve t' = serve t"
  using answered [OF assms] by (force simp: request_result_def wait_response_def)

lemma call_answered:
  assumes "ready (Suc n) (cl_transport c)" and "meth \<noteq> []" and "wire_view params = Some ps"
    and "serve (cl_transport c) meth ps = Some (v, err)" and "wire_view v = Some w"
  shows "\<exists>c'. call T pick None meth params read c =
      Some (c', case err of Some e \<Rightarrow> Err (''error: '' @ err_Message e) | None \<Rightarrow> Ok (read w)) \<and>
      ready n (cl_transport c') \<and> serve (cl_transport c') = serve (cl_transport c)"
  using request_answered [OF assms, of pick "[]" "''error: ''"] by (force simp: call_def split: option.splits)

text \<open>A list request whose result is a slice of structs.\<close>

lemma list_answered:
  assumes "ready (Suc n) (cl_transport c)" and "meth \<noteq> []"
    and "serve (cl_transport c) meth GNil = Some (v, None)" and "wire_view v = wire_view (GStruct [(key, GSlice (map f xs))])"
    and "\<And>x. x \<in> set xs \<Longrightarrow> \<exists>m. wire_view (f x) = Some (GMap m) \<and> read m = g x"
  shows "\<exists>c'. call T pick None meth GNil (\<lambda>v. map read (result_maps key v)) c = Some (c', Ok (map g xs)) \<and>
      ready n (cl_transport c') \<and> serve (cl_transport c') = serve (cl_transport c)"
proof -
  obtain w where w: "wire_view v = Some w" "map read (result_maps key w) = map g xs"
    using wire_result_maps [of xs f read g key] assms(4,5) by auto
  from call_answered [OF assms(1,2) _ assms(3) w(1), of GNil pick "\<lambda>v. map read (result_maps key v)"] w(2)
  show ?thesis by simp
qed

end

section \<open>The in-process transport as a provider\<close>

definition chan_arrival :: "rchan \<Rightarrow> arrival" where
  "chan_arrival ch =
     (case rc_buf ch of r # _ \<Rightarrow> Arrived r | [] \<Rightarrow> if rc_closed ch then Drained else Nothing_yet)"

text \<open>
  \<open>SendRequest\<close> of the in-process transport and a schedule of its goroutines that runs the request to its
  end: the bridge answers it, the message handler reads and correlates the answer, the client receives.
  \<open>ks\<close> is the order in which a list request visits its table.
\<close>

definition ip_exchange ::
  "(float64 \<Rightarrow> int64) \<Rightarrow> string list \<Rightarrow> string \<Rightarrow> gval \<Rightarrow> ip_state \<Rightarrow> (ip_state \<times> arrival outcome) option" where
  "ip_exchange oor ks meth params s =
     (case ip_SendRequest True meth params s of
        None \<Rightarrow> None
      | Some (s1, Err e) \<Rightarrow> Some (s1, Err e)
      | Some (s1, Panic p) \<Rightarrow> Some (s1, Panic p)
      | Some (s1, Ok c) \<Rightarrow>
          (case bridgeOutgoing ks True True s1 of
             None \<Rightarrow> None
           | Some (Err e) \<Rightarrow> Some (s1, Err e)
           | Some (Panic p) \<Rightarrow> Some (s1, Panic p)
           | Some (Ok s2) \<Rightarrow>
               (case processIncomingMessages True True (ip_handler s2) of
                  None \<Rightarrow> None
                | Some (h, _) \<Rightarrow>
                    (case handleResponses oor True h of
                       None \<Rightarrow> None
                     | Some (Err e) \<Rightarrow> Some (s2, Err e)
                     | Some (Panic p) \<Rightarrow> Some (s2, Panic p)
                     | Some (Ok (h', _)) \<Rightarrow>
                         Some (s2\<lparr>ip_handler := chan_update c (\<lambda>ch. ch\<lparr>rc_buf := []\<rparr>) h'\<rparr>,
                               Ok (chan_arrival (mh_chans h' ! c)))))))"

text \<open>\<open>Close\<close> when all goroutines stop at once; \<open>ks\<close> is the order of the pending requests.\<close>

definition ip_close :: "gval list \<Rightarrow> ip_state \<Rightarrow> (ip_state \<times> unit outcome) option" where
  "ip_close ks s =
     (let s1 = (ip_cancel s)\<lparr>ip_outgoingRuns := False, ip_requestsRuns := False, ip_notificationsRuns := False,
                 ip_serverRuns := False\<rparr>
      in map_option (\<lambda>r. case r of Ok s2 \<Rightarrow> (s2, Ok ()) | Err e \<Rightarrow> (s1, Err e) | Panic p \<Rightarrow> (s1, Panic p))
           (ip_finish_close ks s1))"

definition ip_ops :: "(float64 \<Rightarrow> int64) \<Rightarrow> string list \<Rightarrow> gval list \<Rightarrow> ip_state transport_ops" where
  "ip_ops oor ks ks' =
     \<lparr>tr_SendRequest = ip_exchange oor ks, tr_Start = Some (\<lambda>s. (s, None)), tr_Close = ip_close ks'\<rparr>"

definition NewInProcessClient :: "ip_state client outcome" where
  "NewInProcessClient =
     (case NewInProcessTransport of Ok t \<Rightarrow> Ok (New t) | Err e \<Rightarrow> Err e | Panic p \<Rightarrow> Panic p)"

definition ip_ready :: "(float64 \<Rightarrow> int64) \<Rightarrow> nat \<Rightarrow> ip_state \<Rightarrow> bool" where
  "ip_ready oor n s \<longleftrightarrow> mh_reachable oor (ip_handler s) \<and> ip_idle s \<and> ip_outgoingRuns s \<and>
     length (mh_chans (ip_handler s)) + n \<le> 2 ^ 53 \<and> 0 < mh_bufferSize (ip_handler s)"

definition ip_serve :: "string list \<Rightarrow> ip_state \<Rightarrow> string \<Rightarrow> gval \<Rightarrow> (gval \<times> rpc_error option) option" where
  "ip_serve ks s meth params =
     (case ip_handleRequest ks s meth params GNil of Ok r \<Rightarrow> Some (resp_Result r, resp_Error r) | _ \<Rightarrow> None)"

lemma correlate_frame:
  "correlateResponse oor r s = Ok s' \<Longrightarrow>
     mh_incomingChan s' = mh_incomingChan s \<and> mh_outgoingChan s' = mh_outgoingChan s \<and> mh_responseChan s' = mh_responseChan s \<and>
     mh_requestChan s' = mh_requestChan s \<and> mh_notificationChan s' = mh_notificationChan s \<and> mh_ctx s' = mh_ctx s \<and>
     mh_bufferSize s' = mh_bufferSize s \<and> length (mh_chans s') = length (mh_chans s)"
  by (auto simp: correlateResponse_def deliver_def take_pending_def mh_simps split: if_splits option.splits outcome.splits)

lemma process_frame:
  "processIncomingMessages pick pick' s = Some (s', True) \<Longrightarrow> mh_incomingChan s = [data] \<Longrightarrow> mh_responseChan s = [] \<Longrightarrow>
     mh_incomingChan s' = [] \<and> mh_outgoingChan s' = mh_outgoingChan s \<and> mh_ctx s' = mh_ctx s \<and>
     mh_bufferSize s' = mh_bufferSize s \<and> mh_chans s' = mh_chans s \<and>
     (mh_responseChan s' \<noteq> [] \<longrightarrow> length (mh_responseChan s') = 1 \<and> mh_requestChan s' = mh_requestChan s \<and>
        mh_notificationChan s' = mh_notificationChan s)"
  by (auto simp: processIncomingMessages_def handleIncomingMessage_def stats_update_def select_send_def chan_send_def
      split: if_splits option.splits select_result.splits)

lemma ip_handlers_ident:
  "ip_initialize s i = Ok r \<Longrightarrow> ip_initialize s i' = Ok (r\<lparr>resp_ID := i'\<rparr>)"
  "ip_tools_list ks s i = Ok r \<Longrightarrow> ip_tools_list ks s i' = Ok (r\<lparr>resp_ID := i'\<rparr>)"
  "ip_tools_call s params i = Ok r \<Longrightarrow> ip_tools_call s params i' = Ok (r\<lparr>resp_ID := i'\<rparr>)"
  "ip_resources_list ks s i = Ok r \<Longrightarrow> ip_resources_list ks s i' = Ok (r\<lparr>resp_ID := i'\<rparr>)"
  "ip_resources_read s params i = Ok r \<Longrightarrow> ip_resources_read s params i' = Ok (r\<lparr>resp_ID := i'\<rparr>)"
  "ip_prompts_list ks s i = Ok r \<Longrightarrow> ip_prompts_list ks s i' = Ok (r\<lparr>resp_ID := i'\<rparr>)"
  "ip_prompts_get s params i = Ok r \<Longrightarrow> ip_prompts_get s params i' = Ok (r\<lparr>resp_ID := i'\<rparr>)"
  "ip_failure i code msg = Ok r \<Longrightarrow> ip_failure i' code msg = Ok (r\<lparr>resp_ID := i'\<rparr>)"
  by (auto simp: ip_simps split: gval.splits option.splits outcome.splits)

lemma if_Ok:
  "(if b then x else y) = Ok r \<Longrightarrow> (x = Ok r \<Longrightarrow> x' = Ok r') \<Longrightarrow> (y = Ok r \<Longrightarrow> y' = Ok r') \<Longrightarrow>
   (if b then x' else y') = Ok r'"
  by (cases b) simp_all

lemma ip_handleRequest_ident:
  "ip_handleRequest ks s meth params i = Ok r \<Longrightarrow> ip_handleRequest ks s meth params i' = Ok (r\<lparr>resp_ID := i'\<rparr>)"
  unfolding ip_handleRequest_def by (erule if_Ok | erule ip_handlers_ident)+

lemma ip_handlers_tables [simp]:
  "ip_tools_call (s\<lparr>ip_handler := h\<rparr>) params i = ip_tools_call s params i"
  "ip_resources_read (s\<lparr>ip_handler := h\<rparr>) params i = ip_resources_read s params i"
  "ip_prompts_get (s\<lparr>ip_handler := h\<rparr>) params i = ip_prompts_get s params i"
  by (auto simp: ip_tools_call_def ip_resources_read_def ip_prompts_get_def split: gval.split option.split)

lemma ip_handleRequest_tables [simp]:
  "ip_handleRequest ks (s\<lparr>ip_handler := h\<rparr>) meth params i = ip_handleRequest ks s meth params i"
  by (simp add: ip_handleRequest_def ip_initialize_def ip_tools_list_def ip_resources_list_def ip_prompts_list_def)

lemma SendRequest_idle:
  assumes "mh_ctx h = None" and "marshal params = Some j" and "length (mh_outgoingChan h) < mh_bufferSize h"
  shows "\<exists>h1 c. SendRequest pick meth params h = Some (h1, Ok c)"
  using assms
  by (auto simp: SendRequest_def new_call_def RequestID_Next_def store_pending_def finish_request_def to_payload_def
      request_gval_def marshal_members_append marshal_omit_nil select_send_def chan_send_def Let_def)

lemma bridgeOutgoing_steps:
  assumes "bridgeOutgoing ks pick pick' s = Some (Ok s')"
  shows "(mh_step oor)\<^sup>*\<^sup>* (ip_handler s) (ip_handler s') \<and> mh_chans (ip_handler s') = mh_chans (ip_handler s)"
proof -
  have take: "(mh_step oor)\<^sup>*\<^sup>* h (h\<lparr>mh_outgoingChan := rest\<rparr>)" if "mh_outgoingChan h = data # rest" for h data rest
    using mh_step.take_out [OF that] by blast
  have deliver: "mh_step oor h (h\<lparr>mh_incomingChan := buf\<rparr>)"
    if "select_send p (mh_bufferSize h) (mh_incomingChan h) d ctx = Sent buf" for h p d ctx buf
    using that by (intro mh_step.deliver_in) (auto simp: select_send_def split: option.splits if_splits)
  have both: "(mh_step oor)\<^sup>*\<^sup>* h (h\<lparr>mh_outgoingChan := rest, mh_incomingChan := buf\<rparr>)"
    if "mh_outgoingChan h = data # rest" "select_send p (mh_bufferSize h) (mh_incomingChan h) d ctx = Sent buf"
    for h data rest p d ctx buf
    using take [OF that(1)] deliver [of p "h\<lparr>mh_outgoingChan := rest\<rparr>" d ctx buf] that(2) by force
  show ?thesis
    using assms
    by (auto simp: bridgeOutgoing_def stop_outgoing_def Let_def intro: take both
        split: list.splits option.splits if_splits outcome.splits select_result.splits)
qed

lemma mh_reachable_steps: "(mh_step oor)\<^sup>*\<^sup>* h h' \<Longrightarrow> mh_reachable oor h \<Longrightarrow> mh_reachable oor h'"
  by (induction rule: rtranclp_induct) (auto intro: mh_reachable.step)

text \<open>
  One exchange of a message handler that waits: it hands out the request, and when the answer comes in it gives it
  to the caller and waits again.
\<close>

definition mh_idle :: "mh_state \<Rightarrow> bool" where
  "mh_idle h \<longleftrightarrow> mh_ctx h = None \<and> mh_outgoingChan h = [] \<and> mh_incomingChan h = [] \<and> mh_responseChan h = [] \<and>
     mh_requestChan h = [] \<and> mh_notificationChan h = []"

definition mh_ready :: "(float64 \<Rightarrow> int64) \<Rightarrow> nat \<Rightarrow> mh_state \<Rightarrow> bool" where
  "mh_ready oor n h \<longleftrightarrow> mh_reachable oor h \<and> mh_idle h \<and> length (mh_chans h) + n \<le> 2 ^ 53 \<and> 0 < mh_bufferSize h"

text \<open>The handler with the answer \<open>r\<close> to its pending request \<open>c\<close> in the incoming channel.\<close>

definition mh_answered :: "(float64 \<Rightarrow> int64) \<Rightarrow> nat \<Rightarrow> response \<Rightarrow> mh_state \<Rightarrow> bool" where
  "mh_answered oor c r h \<longleftrightarrow> mh_reachable oor h \<and> mh_idle (h\<lparr>mh_incomingChan := []\<rparr>) \<and>
     mh_incomingChan h = [response_bytes r] \<and> c < length (mh_chans h) \<and> length (mh_chans h) \<le> 2 ^ 53 \<and> 0 < mh_bufferSize h \<and>
     mh_pendingRequests h (ident_of c) = Some \<lparr>pend_ID = ident_of c, pend_Response = c\<rparr>"

lemma handler_asks:
  assumes ready: "mh_ready oor (Suc n) h" and ps: "wire_view params = Some ps"
  shows "\<exists>h1 c j. SendRequest True meth params h = Some (h1, Ok c) \<and> mh_outgoingChan h1 = [Text j] \<and>
    ParseMessage (Text j) = Some \<lparr>msg_JSONRPC = ''2.0'', msg_ID = GFloat (F64 (of_nat (Suc c))), msg_Method = meth,
      msg_Params = ps, msg_Result = GNil, msg_Error = None\<rparr> \<and> length (mh_chans h1) = Suc (length (mh_chans h)) \<and>
    mh_ctx h1 = None \<and> mh_incomingChan h1 = [] \<and> mh_bufferSize h1 = mh_bufferSize h \<and>
    (\<forall>r. mh_answered oor c r (h1\<lparr>mh_outgoingChan := [], mh_incomingChan := [response_bytes r]\<rparr>))"
proof -
  have h: "mh_reachable oor h" "mh_idle h" "length (mh_chans h) < 2 ^ 53" "0 < mh_bufferSize h" using ready by (auto simp: mh_ready_def)
  have inv: "mh_inv h" using reachable_inv [OF h(1)] h(3) by simp
  obtain j where j: "marshal params = Some j" using ps by (rule wire_viewE)
  obtain h1 c where h1: "SendRequest True meth params h = Some (h1, Ok c)"
    using SendRequest_idle [OF _ j] h(2,4) by (fastforce simp: mh_idle_def)
  have "Suc (length (mh_chans h)) < 2 ^ 64" using h(3) by simp
  note q = SendRequest_Ok [OF inv h1 this]
  have frame: "mh_requestChan h1 = []" "mh_notificationChan h1 = []"
    using h1 h(2)
    by (auto simp: SendRequest_def new_call_def RequestID_Next_def store_pending_def finish_request_def stats_update_def
        mh_idle_def Let_def split: option.splits select_result.splits)
  have c: "Suc c \<le> 2 ^ 53" using h(3) q(2) by simp
  obtain d where d: "to_payload (request_gval \<lparr>req_JSONRPC = ''2.0'', req_ID = ident_of c, req_Method = meth, req_Params = params\<rparr>) = Some d"
    "mh_outgoingChan h1 = [d]"
    using q(5) h(2) by (auto simp: mh_idle_def)
  obtain jd where jd: "d = Text jd" "ParseMessage (Text jd) = Some \<lparr>msg_JSONRPC = ''2.0'', msg_ID = GFloat (F64 (of_nat (Suc c))),
      msg_Method = meth, msg_Params = ps, msg_Result = GNil, msg_Error = None\<rparr>"
    using d(1) request_wire [of "\<lparr>req_JSONRPC = ''2.0'', req_ID = ident_of c, req_Method = meth, req_Params = params\<rparr>" _ ps]
      ident_of_wire [OF c] ps by (auto simp: to_payload_def)
  have reach1: "mh_reachable oor (h1\<lparr>mh_outgoingChan := []\<rparr>)"
    using mh_reachable.step [OF mh_reachable.step [OF h(1) mh_step.send_request [OF h1]] mh_step.take_out [OF d(2)]] .
  have "mh_answered oor c r (h1\<lparr>mh_outgoingChan := [], mh_incomingChan := [response_bytes r]\<rparr>)" for r
  proof -
    have "mh_step oor (h1\<lparr>mh_outgoingChan := []\<rparr>) (h1\<lparr>mh_outgoingChan := [], mh_incomingChan := [response_bytes r]\<rparr>)"
      using mh_step.deliver_in [of "h1\<lparr>mh_outgoingChan := []\<rparr>" "response_bytes r" "[response_bytes r]" oor] q(6,10) h(2,4)
      by (simp add: chan_send_def mh_idle_def)
    then show ?thesis using mh_reachable.step [OF reach1] q(2,3,4,7,9,10) h(2,3,4) frame by (simp add: mh_answered_def mh_idle_def)
  qed
  then show ?thesis using h1 d(2) jd q(2,3,6,9,10) h(2) by (auto simp: mh_idle_def)
qed

lemma handler_answers:
  assumes a: "mh_answered oor c r h" and ok: "answer_ok (GFloat (F64 (of_nat (Suc c)))) r" and w: "wire_view (resp_Result r) = Some w"
  shows "\<exists>h2 h3. processIncomingMessages True True h = Some (h2, True) \<and> handleResponses oor True h2 = Some (Ok (h3, True)) \<and>
    chan_arrival (mh_chans h3 ! c) = Arrived \<lparr>resp_JSONRPC = ''2.0'', resp_ID = ident_of c, resp_Result = w, resp_Error = resp_Error r\<rparr> \<and>
    mh_reachable oor (chan_update c (\<lambda>ch. ch\<lparr>rc_buf := []\<rparr>) h3) \<and> mh_idle (chan_update c (\<lambda>ch. ch\<lparr>rc_buf := []\<rparr>) h3) \<and>
    length (mh_chans h3) = length (mh_chans h) \<and> mh_bufferSize h3 = mh_bufferSize h"
proof -
  have h: "mh_reachable oor h" "mh_incomingChan h = [response_bytes r]" "mh_responseChan h = []" "mh_ctx h = None" "0 < mh_bufferSize h"
    "c < length (mh_chans h)" "Suc c \<le> 2 ^ 53" "mh_pendingRequests h (ident_of c) = Some \<lparr>pend_ID = ident_of c, pend_Response = c\<rparr>"
    "mh_outgoingChan h = []" "mh_requestChan h = []" "mh_notificationChan h = []" "length (mh_chans h) < 2 ^ 64"
    using a by (auto simp: mh_answered_def mh_idle_def)
  have inv: "mh_inv h" using reachable_inv [OF h(1)] h(12) by simp
  obtain h2 h3 where h3: "processIncomingMessages True True h = Some (h2, True)"
    "handleResponses oor True h2 = Some (Ok (h3, True))"
    "mh_chans h3 ! c = \<lparr>rc_buf = [\<lparr>resp_JSONRPC = ''2.0'', resp_ID = ident_of c, resp_Result = w, resp_Error = resp_Error r\<rparr>],
      rc_closed = True, rc_cancelled = True\<rparr>"
    using response_delivered [OF inv h(6,7,8) ok w h(2,3,4,5), of True True oor] by auto
  note f = process_frame [OF h3(1) h(2,3)]
  have "mh_responseChan h2 \<noteq> []" using h3(2) f h(4) by (auto simp: handleResponses_def)
  then obtain resp where resp: "mh_responseChan h2 = [resp]" "mh_requestChan h2 = []" "mh_notificationChan h2 = []"
    using f h(10,11) by (auto simp: length_Suc_conv)
  have "correlateResponse oor resp (h2\<lparr>mh_responseChan := []\<rparr>) = Ok h3"
    using h3(2) f h(4) resp(1) by (auto simp: handleResponses_def split: outcome.splits)
  note g = correlate_frame [OF this]
  have "mh_reachable oor h3" using mh_step.process [OF h3(1)] mh_step.responses [OF h3(2)] h(1) by (metis mh_reachable.step)
  then have "mh_reachable oor (chan_update c (\<lambda>ch. ch\<lparr>rc_buf := []\<rparr>) h3)"
    using mh_reachable.step [OF _ mh_step.read_response, of oor h3 c] f g h(6) by simp
  moreover have "mh_idle (chan_update c (\<lambda>ch. ch\<lparr>rc_buf := []\<rparr>) h3)"
    using f g resp h(4,9) by (simp add: mh_idle_def chan_update_def)
  moreover have "chan_arrival (mh_chans h3 ! c) =
      Arrived \<lparr>resp_JSONRPC = ''2.0'', resp_ID = ident_of c, resp_Result = w, resp_Error = resp_Error r\<rparr>"
    using h3(3) by (simp add: chan_arrival_def)
  moreover have "length (mh_chans h3) = length (mh_chans h)" "mh_bufferSize h3 = mh_bufferSize h" using f g by simp_all
  ultimately show ?thesis using h3(1,2) by blast
qed

lemma ip_exchange_answers:
  assumes "ip_ready oor (Suc n) s" and "wire_view params = Some ps" and "ip_serve ks s meth ps = Some (v, err)"
    and "wire_view v = Some w"
  shows "\<exists>h r. ip_exchange oor ks meth params s = Some (s\<lparr>ip_handler := h\<rparr>, Ok (Arrived r)) \<and> resp_Result r = w \<and>
    resp_Error r = err \<and> ip_ready oor n (s\<lparr>ip_handler := h\<rparr>)"
proof -
  let ?c = "length (mh_chans (ip_handler s))"
  have s: "mh_reachable oor (ip_handler s)" "ip_idle s" "ip_outgoingRuns s" "?c < 2 ^ 53" "0 < mh_bufferSize (ip_handler s)"
    using assms(1) by (auto simp: ip_ready_def)
  have inv: "mh_inv (ip_handler s)" using reachable_inv [OF s(1)] s(4) by simp
  obtain j where j: "marshal params = Some j" using assms(2) by (rule wire_viewE)
  obtain h0 c where h0: "SendRequest True meth params (ip_handler s) = Some (h0, Ok c)"
    using SendRequest_idle [OF _ j] s(2,5) by (fastforce simp: ip_idle_def)
  have "Suc ?c < 2 ^ 64" using s(4) by simp
  note q = SendRequest_Ok [OF inv h0 this]
  let ?s1 = "s\<lparr>ip_handler := h0\<rparr>"
  have s1: "ip_SendRequest True meth params s = Some (?s1, Ok c)" using h0 by (simp add: ip_SendRequest_def)
  let ?f = "GFloat (F64 (of_nat (Suc c)))"
  obtain r0 where r0: "ip_handleRequest ks s meth ps GNil = Ok r0" "v = resp_Result r0" "err = resp_Error r0"
    using assms(3) by (auto simp: ip_serve_def split: outcome.splits)
  from r0(1) have r: "ip_handleRequest ks ?s1 meth ps ?f = Ok (r0\<lparr>resp_ID := ?f\<rparr>)"
    using ip_handleRequest_ident by simp
  obtain h1 where h1: "bridgeOutgoing ks True True ?s1 = Some (Ok (?s1\<lparr>ip_handler := h1\<rparr>))" "mh_inv h1"
    "mh_incomingChan h1 = [response_bytes (r0\<lparr>resp_ID := ?f\<rparr>)]" "mh_responseChan h1 = []" "mh_ctx h1 = None"
    "0 < mh_bufferSize h1" "c < length (mh_chans h1)" "Suc c \<le> 2 ^ 53"
    "mh_pendingRequests h1 (ident_of c) = Some \<lparr>pend_ID = ident_of c, pend_Response = c\<rparr>"
    "mh_outgoingChan h1 = []" "mh_requestChan h1 = mh_requestChan h0" "mh_notificationChan h1 = mh_notificationChan h0"
    using bridge_answers [OF inv s(2) s1 s(4) assms(2) r, of True True] by auto
  have out: "mh_requestChan h0 = []" "mh_notificationChan h0 = []"
    using h0 s(2)
    by (auto simp: SendRequest_def new_call_def RequestID_Next_def store_pending_def finish_request_def stats_update_def
        ip_idle_def Let_def split: option.splits select_result.splits)
  have "mh_reachable oor h0" by (rule mh_reachable.step [OF s(1) mh_step.send_request [OF h0]])
  then have "mh_reachable oor h1" using bridgeOutgoing_steps [OF h1(1), of oor] mh_reachable_steps [of oor h0 h1] by simp
  moreover have len: "length (mh_chans h1) = Suc ?c" using q(2,3) bridgeOutgoing_steps [OF h1(1), of oor] by simp
  ultimately have a: "mh_answered oor c (r0\<lparr>resp_ID := ?f\<rparr>) h1" using h1 out s(4) by (simp add: mh_answered_def mh_idle_def)
  have ans: "answer_ok ?f (r0\<lparr>resp_ID := ?f\<rparr>)" using ip_handleRequest_answer [OF r] .
  have "wire_view (resp_Result (r0\<lparr>resp_ID := ?f\<rparr>)) = Some w" using assms(4) r0(2) by simp
  then obtain h2 h3 where h3: "processIncomingMessages True True h1 = Some (h2, True)" "handleResponses oor True h2 = Some (Ok (h3, True))"
    "chan_arrival (mh_chans h3 ! c) = Arrived \<lparr>resp_JSONRPC = ''2.0'', resp_ID = ident_of c, resp_Result = w, resp_Error = err\<rparr>"
    "mh_reachable oor (chan_update c (\<lambda>ch. ch\<lparr>rc_buf := []\<rparr>) h3)" "mh_idle (chan_update c (\<lambda>ch. ch\<lparr>rc_buf := []\<rparr>) h3)"
    "length (mh_chans h3) = length (mh_chans h1)" "mh_bufferSize h3 = mh_bufferSize h1"
    using handler_answers [OF a ans] r0(3) by auto
  let ?h = "chan_update c (\<lambda>ch. ch\<lparr>rc_buf := []\<rparr>) h3"
  have ex: "ip_exchange oor ks meth params s = Some (s\<lparr>ip_handler := ?h\<rparr>, Ok (Arrived
      \<lparr>resp_JSONRPC = ''2.0'', resp_ID = ident_of c, resp_Result = w, resp_Error = err\<rparr>))"
    using s1 h1(1) h3(1-3) by (simp add: ip_exchange_def)
  have "ip_ready oor n (s\<lparr>ip_handler := ?h\<rparr>)"
    using assms(1) s(2,3) h3(4-7) h1(6) len by (auto simp: ip_ready_def ip_idle_def mh_idle_def chan_update_def)
  with ex show ?thesis by fastforce
qed

interpretation inprocess: rpc_transport "ip_ops oor ks ks'" "ip_ready oor" "ip_serve ks"
proof unfold_locales
  fix n t meth params ps v err w
  assume "ip_ready oor (Suc n) t" "wire_view params = Some ps" "ip_serve ks t meth ps = Some (v, err)" "wire_view v = Some w"
  from ip_exchange_answers [OF this]
  show "\<exists>t' r. tr_SendRequest (ip_ops oor ks ks') meth params t = Some (t', Ok (Arrived r)) \<and> resp_Result r = w \<and>
      resp_Error r = err \<and> ip_ready oor n t' \<and> ip_serve ks t' = ip_serve ks t"
    by (force simp: ip_ops_def ip_serve_def)
qed

section \<open>Properties\<close>

text \<open>Listing and reading of the other tables: annotations of resources are lost.\<close>

lemma client_lists_resources:
  assumes "ip_ready oor (Suc n) (cl_transport c)" and "range_order (ip_resourceMeta (cl_transport c)) ks"
    and "\<forall>r \<in> ran (ip_resourceMeta (cl_transport c)). wire_view (res_Annotations r) \<noteq> None"
  shows "\<exists>c'. ListResources (ip_ops oor ks ks') pick None c =
      Some (c', Ok (map (\<lambda>r. r\<lparr>res_Annotations := GNil\<rparr>) (range_values (ip_resourceMeta (cl_transport c)) ks))) \<and>
    ip_ready oor n (cl_transport c')"
proof -
  let ?rs = "range_values (ip_resourceMeta (cl_transport c)) ks"
  have "\<exists>m. wire_view (resource_gval r) = Some (GMap m) \<and> read_resource m = r\<lparr>res_Annotations := GNil\<rparr>" if "r \<in> set ?rs" for r
    using that resource_wire assms(3) by (simp add: set_range_values [OF assms(2)])
  from inprocess.list_answered [OF assms(1), of "''resources/list''" ks "GStruct [(''resources'', GSlice (map resource_gval ?rs))]"
      _ resource_gval ?rs, OF _ _ refl this]
  show ?thesis
    by (auto simp: ListResources_def ip_serve_def ip_handleRequest_def ip_resources_list_def ip_success_def)
qed

lemma client_lists_prompts:
  assumes "ip_ready oor (Suc n) (cl_transport c)"
  shows "\<exists>c'. ListPrompts (ip_ops oor ks ks') pick None c = Some (c', Ok (range_values (ip_promptMeta (cl_transport c)) ks)) \<and>
    ip_ready oor n (cl_transport c')"
proof -
  let ?ps = "range_values (ip_promptMeta (cl_transport c)) ks"
  have "\<exists>m. wire_view (prompt_gval p) = Some (GMap m) \<and> read_prompt m = id p" for p using prompt_wire by simp
  from inprocess.list_answered [OF assms, of "''prompts/list''" ks "GStruct [(''prompts'', GSlice (map prompt_gval ?ps))]" _
      prompt_gval ?ps, OF _ _ refl this]
  show ?thesis
    by (auto simp: ListPrompts_def ip_serve_def ip_handleRequest_def ip_prompts_list_def ip_success_def)
qed

lemma client_reads_resource:
  assumes "ip_ready oor (Suc n) (cl_transport c)" and "ip_resourceHandlers (cl_transport c) uri = Some handler"
    and "handler uri = Ok (Some cs)"
  shows "\<exists>c'. ReadResource (ip_ops oor ks ks') pick None uri c = Some (c', Ok cs) \<and> ip_ready oor n (cl_transport c')"
proof -
  have "\<exists>m. wire_view (resource_content_gval x) = Some (GMap m) \<and> read_resource_content m = id x" for x
    using resource_content_wire by simp
  then obtain w where w: "wire_view (GStruct [(''contents'', GSlice (map resource_content_gval cs))]) = Some w"
    "map read_resource_content (result_maps ''contents'' w) = map id cs"
    using wire_result_maps [of cs resource_content_gval read_resource_content id] by blast
  have p: "wire_view (GMap [(''uri'', GString uri)]) = Some (GMap [(''uri'', GString uri)])" by (simp add: sorted_map_def)
  have "ip_serve ks (cl_transport c) ''resources/read'' (GMap [(''uri'', GString uri)]) =
      Some (GStruct [(''contents'', GSlice (map resource_content_gval cs))], None)"
    using assms(2,3)
    by (simp add: ip_serve_def ip_handleRequest_def ip_resources_read_def get_string_def ip_success_def
        read_resource_result_gval_def)
  from inprocess.call_answered [where pick = pick and ks' = ks' and read = "\<lambda>v. map read_resource_content (result_maps ''contents'' v)",
      OF assms(1) _ p this w(1)] w(2)
  show ?thesis by (auto simp: ReadResource_def)
qed

text \<open>A client of the in-process transport lists exactly the tools that are registered, each with its name,
  description and input schema, in the order in which the server visits its table.\<close>

theorem client_lists_tools:
  assumes "ip_ready oor (Suc n) (cl_transport c)" and "\<forall>t \<in> ran (ip_toolMeta (cl_transport c)). generic (opt_map_gval (tool_InputSchema t))"
    and "range_order (ip_toolMeta (cl_transport c)) ks"
  shows "\<exists>c'. ListTools (ip_ops oor ks ks') pick None c =
      Some (c', Ok (range_values (ip_toolMeta (cl_transport c)) ks)) \<and> ip_ready oor n (cl_transport c')"
proof -
  let ?ts = "range_values (ip_toolMeta (cl_transport c)) ks"
  have "\<exists>m. wire_view (tool_gval t) = Some (GMap m) \<and> read_tool m = id t" if "t \<in> set ?ts" for t
    using that tool_wire assms(2) by (simp add: set_range_values [OF assms(3)])
  from inprocess.list_answered [OF assms(1), of "''tools/list''" ks "GStruct [(''tools'', GSlice (map tool_gval ?ts))]" _ tool_gval ?ts, OF _ _ refl this]
  show ?thesis
    by (auto simp: ListTools_def ip_serve_def ip_handleRequest_def ip_tools_list_def ip_success_def)
qed

lemma ip_start: "tr_Start (ip_ops oor ks ks') = Some (\<lambda>s. (s, None))"
  by (simp add: ip_ops_def)

text \<open>A tool call, in terms of what the server makes of it.\<close>

lemma tool_call_served:
  assumes "ip_ready oor (Suc n) (cl_transport c)" and "generic (opt_map_gval args)"
    and "ip_serve ks (cl_transport c) ''tools/call'' (call_params_gval name args) =
      (case res of Ok cs \<Rightarrow> Some (call_tool_result_gval cs False, None)
       | Err e \<Rightarrow> Some (GNil, Some (rpc_err (- 32603) e)) | Panic p \<Rightarrow> None)"
    and "\<And>p. res \<noteq> Panic p"
  shows "\<exists>c'. CallTool (ip_ops oor ks ks') pick None name args c =
      Some (c', case res of
                  Ok cs \<Rightarrow> Ok \<lparr>ctr_Content = map as_text (case cs of None \<Rightarrow> [] | Some xs \<Rightarrow> xs), ctr_IsError = False\<rparr>
                | Err e \<Rightarrow> Err (''error: '' @ e)) \<and> ip_ready oor n (cl_transport c') \<and>
      ip_serve ks (cl_transport c') = ip_serve ks (cl_transport c)"
proof -
  have p: "wire_view (call_params_gval name args) = Some (call_params_gval name args)"
    using assms(2) by (simp add: call_params_gval_def sorted_map_def)
  note answered = inprocess.call_answered [where read = read_call_result and pick = pick and ks' = ks' and ks = ks,
      OF assms(1) _ p, of "''tools/call''"]
  show ?thesis
  proof (cases res)
    case (Ok cs)
    obtain w where w: "wire_view (call_tool_result_gval cs False) = Some w"
        "read_call_result w = \<lparr>ctr_Content = map as_text (case cs of None \<Rightarrow> [] | Some xs \<Rightarrow> xs), ctr_IsError = False\<rparr>"
      using call_result_wire by blast
    from answered [OF _ _ w(1), of None] assms(3) Ok w(2) show ?thesis by (auto simp: CallTool_def)
  next
    case (Err e)
    from answered [of GNil "Some (rpc_err (- 32603) e)" GNil] assms(3) Err show ?thesis
      by (auto simp: CallTool_def rpc_err_def)
  qed (use assms(4) in simp)
qed

lemma ip_tool_served:
  assumes "ip_toolHandlers s name = Some handler"
  shows "ip_serve ks s ''tools/call'' (call_params_gval name args) =
    (case handler args of Ok cs \<Rightarrow> Some (call_tool_result_gval cs False, None)
     | Err e \<Rightarrow> Some (GNil, Some (rpc_err (- 32603) e)) | Panic p \<Rightarrow> None)"
proof -
  have "get_arguments [(''arguments'', opt_map_gval args), (''name'', GString name)] = args"
    by (cases args) (simp_all add: get_arguments_def opt_map_gval_def)
  then show ?thesis
    using assms
    by (simp add: ip_serve_def ip_handleRequest_def ip_tools_call_def call_params_gval_def get_string_def ip_success_def
        ip_failure_def split: outcome.split)
qed

lemma hello_ready: "ip_ready oor 1 ip_hello"
  using fresh_reachable hello_idle by (simp add: ip_ready_def mh_fresh_def)

lemma hello_tables:
  "cl_transport (New ip_hello) = ip_hello"
  "ip_toolHandlers ip_hello ''hello'' = Some (\<lambda>_. Ok (Some [TextContent ''text'' ''hi'' []]))"
  "ip_toolMeta ip_hello = [''hello'' \<mapsto> \<lparr>tool_Name = ''hello'', tool_Description = [], tool_InputSchema = None\<rparr>]"
  by (simp_all add: New_def ip_hello_def AddTool_def ip_fresh_def)

theorem client_lists_tools_witness:
  "\<exists>c' t. ListTools (ip_ops (\<lambda>_. 0) [''hello''] []) True None (New ip_hello) = Some (c', Ok [t]) \<and> tool_Name t = ''hello''"
proof -
  have "range_order (ip_toolMeta ip_hello) [''hello'']"
    by (auto simp: range_order_def hello_tables)
  then have "\<exists>c'. ListTools (ip_ops (\<lambda>_. 0) [''hello''] []) True None (New ip_hello) =
      Some (c', Ok (range_values (ip_toolMeta ip_hello) [''hello''])) \<and> ip_ready (\<lambda>_. 0) 0 (cl_transport c')"
    using client_lists_tools [of "\<lambda>_. 0" 0 "New ip_hello" "[''hello'']" "[]" True] hello_ready
    by (simp add: hello_tables opt_map_gval_def)
  then show ?thesis by (auto simp: hello_tables range_values_def List.map_filter_simps)
qed

text \<open>C24: A tool call of the client runs the registered handler with the client's arguments and gives its contents
  as texts, or its error; images and sounds are reduced to empty texts.\<close>

theorem client_calls_tool:
  assumes "ip_ready oor (Suc n) (cl_transport c)" and "ip_toolHandlers (cl_transport c) name = Some handler"
    and "generic (opt_map_gval args)" and "\<forall>p. handler args \<noteq> Panic p"
  shows "\<exists>c'. CallTool (ip_ops oor ks ks') pick None name args c =
      Some (c', case handler args of
                  Ok cs \<Rightarrow> Ok \<lparr>ctr_Content = map as_text (case cs of None \<Rightarrow> [] | Some xs \<Rightarrow> xs), ctr_IsError = False\<rparr>
                | Err e \<Rightarrow> Err (''error: '' @ e)) \<and> ip_ready oor n (cl_transport c')"
  using tool_call_served [where res = "handler args" and ks = ks and ks' = ks' and pick = pick, OF assms(1,3)]
    ip_tool_served [OF assms(2), of ks args] assms(4) by blast

theorem client_calls_tool_witness:
  "\<exists>c'. CallTool (ip_ops (\<lambda>_. 0) [] []) True None ''hello'' None (New ip_hello) =
     Some (c', Ok \<lparr>ctr_Content = [TextContent ''text'' ''hi'' []], ctr_IsError = False\<rparr>)"
  using client_calls_tool [of "\<lambda>_. 0" 0 "New ip_hello" "''hello''" _ None "[]" "[]" True] hello_ready
  by (auto simp: hello_tables opt_map_gval_def)

text \<open>A session: a client made with \<open>NewInProcessClient\<close>, for which a tool is added, is started, learns the server's
  name and version, and then calls the tool.\<close>

theorem client_session:
  assumes "NewInProcessClient = Ok c" and "handler args = Ok cs" and "generic (opt_map_gval args)"
  shows "\<exists>c1 c2. client_Start (ip_ops oor ks ks') pick None (c\<lparr>cl_transport := AddTool t handler (cl_transport c)\<rparr>) = Some (c1, Ok ()) \<and>
    cl_serverInfo c1 = Some \<lparr>sinfo_Name = ''in-process-server'', sinfo_Version = ''1.0.0''\<rparr> \<and>
    CallTool (ip_ops oor ks ks') pick None (tool_Name t) args c1 =
      Some (c2, Ok \<lparr>ctr_Content = map as_text (case cs of None \<Rightarrow> [] | Some xs \<Rightarrow> xs), ctr_IsError = False\<rparr>)"
proof -
  let ?s = "AddTool t handler (cl_transport c)"
  have c: "cl_transport c = ip_fresh" "cl_config c = cl_config (New ())"
    using assms(1)
    by (auto simp: NewInProcessClient_def NewInProcessTransport_def NewMessageHandler_def New_def ip_fresh_def mh_fresh_def
        default_timeout_def Let_def)
  have ready: "ip_ready oor (Suc (Suc 0)) ?s"
    using fresh_reachable by (simp add: c ip_ready_def AddTool_def ip_fresh_def ip_idle_def, simp add: mh_fresh_def)
  obtain ps where ps: "wire_view (initialize_params (cl_config c)) = Some ps"
    by (simp add: c New_def initialize_params_def client_capabilities_gval_def wire_view_def omit_empty_map_def omit_None_def)
  let ?v = "case ip_initialize ?s GNil of Ok r \<Rightarrow> resp_Result r"
  have v: "ip_serve ks ?s ''initialize'' ps = Some (?v, None)"
    by (simp add: ip_serve_def ip_handleRequest_def ip_initialize_def ip_success_def)
  obtain w where w: "wire_view ?v = Some w" "read_server_info w = Some \<lparr>sinfo_Name = ''in-process-server'', sinfo_Version = ''1.0.0''\<rparr>"
    by (simp add: ip_initialize_def ip_success_def c AddTool_def ip_fresh_def implementation_gval_def omit_empty_def wire_view_def
        read_server_info_def getString_def less_list_code)
  have meth: "''initialize'' \<noteq> []" by simp
  obtain t1 where t1: "request_result (ip_ops oor ks ks') pick None ''failed to send initialize request: '' ''initialize error: ''
      ''initialize'' (initialize_params (cl_config c)) ?s = Some (t1, Ok w)" "ip_ready oor (Suc 0) t1" "ip_serve ks t1 = ip_serve ks ?s"
    using inprocess.request_answered [OF ready meth ps v w(1)] by fastforce
  let ?c1 = "c\<lparr>cl_transport := t1, cl_serverInfo := Some \<lparr>sinfo_Name = ''in-process-server'', sinfo_Version = ''1.0.0''\<rparr>\<rparr>"
  have "client_Start (ip_ops oor ks ks') pick None (c\<lparr>cl_transport := ?s\<rparr>) = Some (?c1, Ok ())"
    using t1(1) w(2) by (simp add: client_Start_def Initialize_def ip_start)
  moreover have "ip_serve ks t1 ''tools/call'' (call_params_gval (tool_Name t) args) = Some (call_tool_result_gval cs False, None)"
    using ip_tool_served [of ?s "tool_Name t" handler ks args] assms(2) t1(3) by (simp add: AddTool_def)
  then obtain c2 where "CallTool (ip_ops oor ks ks') pick None (tool_Name t) args ?c1 =
      Some (c2, Ok \<lparr>ctr_Content = map as_text (case cs of None \<Rightarrow> [] | Some xs \<Rightarrow> xs), ctr_IsError = False\<rparr>)"
    using tool_call_served [where c = ?c1 and res = "Ok cs" and n = 0] t1(2) assms(3) by fastforce
  ultimately show ?thesis by (intro exI [of _ ?c1] exI [of _ c2]) simp
qed

theorem client_session_witness:
  "\<exists>c c1 c2. NewInProcessClient = Ok c \<and>
    client_Start (ip_ops (\<lambda>_. 0) [] []) True None (c\<lparr>cl_transport := AddTool
      \<lparr>tool_Name = ''echo'', tool_Description = [], tool_InputSchema = None\<rparr> (\<lambda>_. Ok (Some [ImageContent ''image'' ''x'' ''image/png'']))
      (cl_transport c)\<rparr>) = Some (c1, Ok ()) \<and>
    CallTool (ip_ops (\<lambda>_. 0) [] []) True None ''echo'' (Some []) c1 =
      Some (c2, Ok \<lparr>ctr_Content = [TextContent ''text'' [] []], ctr_IsError = False\<rparr>)"
proof -
  obtain c where c: "NewInProcessClient = Ok c"
    by (simp add: NewInProcessClient_def NewInProcessTransport_def NewMessageHandler_def)
  show ?thesis
    using client_session [OF c, of "\<lambda>_. Ok (Some [ImageContent ''image'' ''x'' ''image/png''])" "Some []" _ "\<lambda>_. 0" "[]" "[]" True
        "\<lparr>tool_Name = ''echo'', tool_Description = [], tool_InputSchema = None\<rparr>"] c
    by (auto simp: opt_map_gval_def sorted_map_def)
qed



end
