(* ===== verification/Http_Client.thy ===== *)
theory Http_Client
  imports Http_Server Oauth Mcp_Client
begin

text \<open>
  \<open>transport/streamable_http.go\<close>: the client side of the HTTP transport. A request is a POST of its own
  whose body comes back as the response; notifications go through the message handler and a bridge with a
  bounded number of goroutines; an event stream brings requests and notifications of the server. What the
  network does is an argument: which URLs \<open>http.NewRequest\<close> refuses, and what \<open>Do\<close> returns, with a state
  of its own. The timeouts and pool sizes given to the HTTP client are left out.
\<close>

named_theorems sht_simps "definitions of the HTTP client transport"

section \<open>The network\<close>

record http_post =
  po_Method :: string
  po_URL :: string
  po_Headers :: "(string \<times> string) list"
  po_Body :: "payload option"

text \<open>A body that cannot be read is \<^term>\<open>Malformed\<close>: reading it and parsing it fail alike.\<close>

datatype do_reply = DoFailed string | DoReply int payload

text \<open>An event stream: its lines, and whether the scanner ends with an error.\<close>

datatype stream_reply = StreamFailed string | Stream int "string list" bool

record 'w http_env =
  he_refuses :: "string \<Rightarrow> bool"
  he_do :: "http_post \<Rightarrow> 'w \<Rightarrow> 'w \<times> do_reply"
  he_stream :: "http_post \<Rightarrow> 'w \<Rightarrow> 'w \<times> stream_reply"

text \<open>\<open>Header.Set\<close> stores under the canonical form of the key; a key with any other byte stays as it is.\<close>

definition header_byte :: "char \<Rightarrow> bool" where
  "header_byte c \<longleftrightarrow> c \<in> set (''!#$%&*+-.^_`|~0123456789'' @ [CHR 0x27]) \<or> upper_byte c \<noteq> c \<or>
     (CHR ''A'' \<le> c \<and> c \<le> CHR ''Z'')"

definition lower_byte :: "char \<Rightarrow> char" where
  "lower_byte c = (if CHR ''A'' \<le> c \<and> c \<le> CHR ''Z'' then char_of (of_char c + (32::nat)) else c)"

fun canonical_from :: "bool \<Rightarrow> string \<Rightarrow> string" where
  "canonical_from up [] = []"
| "canonical_from up (c # cs) =
     (if up then upper_byte c else lower_byte c) # canonical_from (c = CHR ''-'') cs"

definition canonical_key :: "string \<Rightarrow> string" where
  "canonical_key k = (if list_all header_byte k then canonical_from True k else k)"

definition set_header :: "string \<Rightarrow> string \<Rightarrow> (string \<times> string) list \<Rightarrow> (string \<times> string) list" where
  "set_header k v hs = map_put (canonical_key k) v hs"

definition set_headers :: "(string \<times> string) list \<Rightarrow> (string \<times> string) list \<Rightarrow> (string \<times> string) list" where
  "set_headers kvs hs = fold (\<lambda>(k, v). set_header k v) kvs hs"

section \<open>State\<close>

record sht_config =
  shc_ClientEndpoint :: string
  shc_SSEEndpoint :: string
  shc_SessionID :: string
  shc_Headers :: "(string \<times> string) list"
  shc_MaxConcurrentRequests :: int
  shc_RequestTimeout :: int
  shc_MessageBuffer :: int
  shc_EnableSSE :: bool
  shc_MaxReconnects :: int

text \<open>The goroutine of a request: what it posts, and its response channel, which it closes in the end.\<close>

record http_exchange =
  xc_data :: payload
  xc_buf :: "response list"
  xc_closed :: bool

text \<open>The goroutine of the event stream.\<close>

datatype sse_phase = Connecting | Reading "string list" bool | Delaying | Ended

record 's sht_state =
  sht_clientEndpoint :: string
  sht_sseEndpoint :: string
  sht_sessionID :: string
  sht_headers :: "(string \<times> string) list"
  sht_maxReconnects :: int
  sht_maxConcurrentRequests :: nat
  sht_bufferSize :: nat
  sht_handler :: mh_state
  sht_requestChan :: "request list"
  sht_notificationChan :: "notification list"
  sht_chansClosed :: bool
  sht_ctx :: "string option"
  sht_requestsSent :: int64
  sht_responsesReceived :: int64
  sht_connectionErrors :: int64
  sht_httpErrors :: int64
  sht_sseConnected :: bool
  sht_sseReconnects :: int64
  sht_requestCounter :: int64
  sht_oauthHandler :: "'s oauth_handler option"
  sht_oauthEnabled :: bool
  sht_calls :: "http_exchange list"
  sht_sends :: "payload list"
  sht_sse :: sse_phase
  sht_reconnectCount :: int

definition sht_defaults :: "sht_config \<Rightarrow> sht_config" where
  "sht_defaults config = config
     \<lparr>shc_MaxConcurrentRequests := (if shc_MaxConcurrentRequests config = 0 then 100 else shc_MaxConcurrentRequests config),
      shc_RequestTimeout := (if shc_RequestTimeout config = 0 then 30 * 1000000000 else shc_RequestTimeout config),
      shc_MessageBuffer := (if shc_MessageBuffer config = 0 then 100 else shc_MessageBuffer config),
      shc_MaxReconnects := (if shc_MaxReconnects config = 0 then 5 else shc_MaxReconnects config)\<rparr>"

text \<open>The constructor; the semaphore of the bridge is made by its goroutine, where a negative size panics.\<close>

definition NewStreamableHTTPTransportWithConfig ::
  "string option \<Rightarrow> sht_config \<Rightarrow> 's sht_state outcome" where
  "NewStreamableHTTPTransportWithConfig ctx config0 =
     (if shc_ClientEndpoint config0 = [] then Err ''client endpoint is required''
      else let config = sht_defaults config0
      in case NewMessageHandler ctx
                \<lparr>mhc_RequestTimeout = shc_RequestTimeout config, mhc_BufferSize = shc_MessageBuffer config\<rparr> of
           Panic p \<Rightarrow> Panic p
         | Err e \<Rightarrow> Err e
         | Ok handler \<Rightarrow>
             if shc_MaxConcurrentRequests config < 0 then Panic ''makechan: size out of range''
             else Ok \<lparr>sht_clientEndpoint = shc_ClientEndpoint config, sht_sseEndpoint = shc_SSEEndpoint config,
               sht_sessionID = shc_SessionID config, sht_headers = shc_Headers config,
               sht_maxReconnects = shc_MaxReconnects config,
               sht_maxConcurrentRequests = nat (shc_MaxConcurrentRequests config),
               sht_bufferSize = nat (shc_MessageBuffer config), sht_handler = handler,
               sht_requestChan = [], sht_notificationChan = [], sht_chansClosed = False, sht_ctx = ctx,
               sht_requestsSent = 0, sht_responsesReceived = 0, sht_connectionErrors = 0, sht_httpErrors = 0,
               sht_sseConnected = False, sht_sseReconnects = 0, sht_requestCounter = 0,
               sht_oauthHandler = None, sht_oauthEnabled = False, sht_calls = [], sht_sends = [],
               sht_sse = (if shc_EnableSSE config \<and> shc_SSEEndpoint config \<noteq> [] then Connecting else Ended),
               sht_reconnectCount = 0\<rparr>)"

definition url_config :: "string \<Rightarrow> sht_config" where
  "url_config url =
     \<lparr>shc_ClientEndpoint = url, shc_SSEEndpoint = [], shc_SessionID = [], shc_Headers = [],
      shc_MaxConcurrentRequests = 0, shc_RequestTimeout = 0, shc_MessageBuffer = 0, shc_EnableSSE = False,
      shc_MaxReconnects = 0\<rparr>"

text \<open>The error is dropped: for the empty URL the transport is nil.\<close>

definition NewStreamableHTTPTransport :: "string \<Rightarrow> 's sht_state option outcome" where
  "NewStreamableHTTPTransport url =
     (case NewStreamableHTTPTransportWithConfig None (url_config url) of
        Ok s \<Rightarrow> Ok (Some s) | Err e \<Rightarrow> Ok None | Panic p \<Rightarrow> Panic p)"

section \<open>OAuth\<close>

definition EnableOAuth :: "'s oauth_handler option \<Rightarrow> 's sht_state \<Rightarrow> 's sht_state" where
  "EnableOAuth handler s = s\<lparr>sht_oauthHandler := handler, sht_oauthEnabled := True\<rparr>"

definition IsOAuthEnabled :: "'s sht_state \<Rightarrow> bool" where
  "IsOAuthEnabled s = sht_oauthEnabled s"

definition GetOAuthHandler :: "'s sht_state \<Rightarrow> 's oauth_handler option" where
  "GetOAuthHandler s = (if sht_oauthEnabled s then sht_oauthHandler s else None)"

text \<open>The header of a request that is authorized: unchanged when OAuth is off.\<close>

definition add_authorization ::
  "(string \<Rightarrow> int option option) \<Rightarrow> int \<Rightarrow> (string \<times> string) list \<Rightarrow> 's sht_state \<Rightarrow>
   's sht_state \<times> (string \<times> string) list outcome" where
  "add_authorization parse_time now hs s =
     (case (sht_oauthEnabled s, sht_oauthHandler s) of
        (True, Some h) \<Rightarrow>
          (case GetAuthorizationHeader parse_time now h of
             (h1, Ok auth) \<Rightarrow> (s\<lparr>sht_oauthHandler := Some h1\<rparr>, Ok (set_header ''Authorization'' auth hs))
           | (h1, Err e) \<Rightarrow> (s\<lparr>sht_oauthHandler := Some h1\<rparr>, Err e)
           | (h1, Panic p) \<Rightarrow> (s\<lparr>sht_oauthHandler := Some h1\<rparr>, Panic p))
      | _ \<Rightarrow> (s, Ok hs))"

text \<open>\<open>client/oauth.go\<close>: the default HTTP client is that of the OAuth handler when its configuration names none.\<close>

definition NewOAuthStreamableHttpClient ::
  "(string \<Rightarrow> (string \<times> string) outcome) \<Rightarrow> http_client \<Rightarrow> 'w \<Rightarrow> string \<Rightarrow> 's oauth_config \<Rightarrow> 's \<Rightarrow>
   ('s sht_state \<times> 'w) client outcome" where
  "NewOAuthStreamableHttpClient parse_url default_client w url config tokens =
     (case ValidateRedirectURI parse_url (oc_RedirectURI config) of
        Some e \<Rightarrow> Err (''invalid redirect URI: '' @ e)
      | None \<Rightarrow>
          (case NewStreamableHTTPTransport url of
             Ok (Some s) \<Rightarrow> Ok (New (EnableOAuth (Some (NewOAuthHandler default_client (config\<lparr>oc_HTTPClient := None\<rparr>) tokens)) s, w))
           | Ok None \<Rightarrow> Panic ''nil pointer dereference''
           | Err e \<Rightarrow> Err e
           | Panic p \<Rightarrow> Panic p))"

section \<open>Requests\<close>

definition count_sht_http :: "'s sht_state \<Rightarrow> 's sht_state" where
  "count_sht_http s = s\<lparr>sht_httpErrors := sht_httpErrors s + 1\<rparr>"

definition count_connection :: "'s sht_state \<Rightarrow> 's sht_state" where
  "count_connection s = s\<lparr>sht_connectionErrors := sht_connectionErrors s + 1\<rparr>"

definition exchange_update :: "nat \<Rightarrow> (http_exchange \<Rightarrow> http_exchange) \<Rightarrow> 's sht_state \<Rightarrow> 's sht_state" where
  "exchange_update a f s = s\<lparr>sht_calls := (sht_calls s)[a := f (sht_calls s ! a)]\<rparr>"

text \<open>\<open>SendRequest\<close> up to starting the goroutine; the result is the number of the exchange.\<close>

definition sht_SendRequest :: "string \<Rightarrow> gval \<Rightarrow> 's sht_state \<Rightarrow> 's sht_state \<times> nat outcome" where
  "sht_SendRequest meth params s =
     (let ident = sht_requestCounter s + 1; s1 = s\<lparr>sht_requestCounter := ident\<rparr>;
          request = \<lparr>req_JSONRPC = ''2.0'', req_ID = GInt64 ident, req_Method = meth, req_Params = params\<rparr>
      in case to_payload (request_gval request) of
           None \<Rightarrow> (s1, Err ''failed to marshal request'')
         | Some data \<Rightarrow>
             (s1\<lparr>sht_calls := sht_calls s @ [\<lparr>xc_data = data, xc_buf = [], xc_closed = False\<rparr>],
                 sht_requestsSent := sht_requestsSent s + 1\<rparr>, Ok (length (sht_calls s))))"

definition request_post :: "payload \<Rightarrow> 's sht_state \<Rightarrow> http_post" where
  "request_post data s =
     \<lparr>po_Method = ''POST'', po_URL = sht_clientEndpoint s,
      po_Headers = set_headers (sht_headers s) (set_header ''Content-Type'' ''application/json'' []),
      po_Body = Some data\<rparr>"

text \<open>The goroutine: it posts the request and parses the answer.\<close>

definition sht_exchange ::
  "'w http_env \<Rightarrow> nat \<Rightarrow> 's sht_state \<Rightarrow> 'w \<Rightarrow> 's sht_state \<times> 'w" where
  "sht_exchange E a s w =
     (let post = request_post (xc_data (sht_calls s ! a)) s;
          finish = exchange_update a (\<lambda>x. x\<lparr>xc_closed := True\<rparr>)
      in if he_refuses E (po_URL post) then (finish (count_sht_http s), w)
         else case he_do E post w of
           (w1, DoFailed e) \<Rightarrow> (finish (count_sht_http s), w1)
         | (w1, DoReply status body) \<Rightarrow>
             (case ParseResponse body of
                None \<Rightarrow> (finish (count_sht_http s), w1)
              | Some r \<Rightarrow>
                  (finish (exchange_update a (\<lambda>x. x\<lparr>xc_buf := [r]\<rparr>)
                     (s\<lparr>sht_responsesReceived := sht_responsesReceived s + 1\<rparr>)), w1)))"

definition sht_SendNotification ::
  "bool \<Rightarrow> string \<Rightarrow> gval \<Rightarrow> 's sht_state \<Rightarrow> ('s sht_state \<times> unit outcome) option" where
  "sht_SendNotification pick meth params s =
     map_option (\<lambda>(h, res). (s\<lparr>sht_handler := h\<rparr>, res)) (SendNotification pick meth params (sht_handler s))"

definition sht_SendResponse :: "gval \<Rightarrow> gval \<Rightarrow> rpc_error option \<Rightarrow> unit outcome" where
  "sht_SendResponse ident result err = Err ''HTTP client transport cannot send responses''"

section \<open>Outgoing messages\<close>

definition session_header :: "'s sht_state \<Rightarrow> (string \<times> string) list \<Rightarrow> (string \<times> string) list" where
  "session_header s hs = (if sht_sessionID s \<noteq> [] then set_header ''X-Session-ID'' (sht_sessionID s) hs else hs)"

definition message_headers :: "'s sht_state \<Rightarrow> (string \<times> string) list" where
  "message_headers s =
     session_header s (set_header ''Accept'' ''application/json'' (set_header ''Content-Type'' ''application/json'' []))"

text \<open>What \<open>sendHTTPRequest\<close> makes of the answer to the message \<open>msg\<close>.\<close>

definition message_answer :: "jsonrpc_message \<Rightarrow> int \<Rightarrow> payload \<Rightarrow> 's sht_state \<Rightarrow> 's sht_state" where
  "message_answer msg status body s =
     (let s1 = s\<lparr>sht_requestsSent := sht_requestsSent s + 1\<rparr>
      in if IsNotification msg then s1
         else if status \<noteq> 200 \<or> ParseResponse body = None then count_sht_http s1
         else s1\<lparr>sht_responsesReceived := sht_responsesReceived s1 + 1\<rparr>)"

definition sendHTTPRequest ::
  "(string \<Rightarrow> int option option) \<Rightarrow> int \<Rightarrow> 'w http_env \<Rightarrow> payload \<Rightarrow> 's sht_state \<Rightarrow> 'w \<Rightarrow>
   ('s sht_state \<times> 'w) outcome" where
  "sendHTTPRequest parse_time now E data s w =
     (case ParseMessage data of
        None \<Rightarrow> Ok (count_sht_http s, w)
      | Some msg \<Rightarrow>
          if he_refuses E (sht_clientEndpoint s) then Ok (count_connection s, w)
          else (case add_authorization parse_time now (message_headers s) s of
                  (s1, Panic p) \<Rightarrow> Panic p
                | (s1, Err e) \<Rightarrow> Ok (count_sht_http s1, w)
                | (s1, Ok hs) \<Rightarrow>
                    (case he_do E \<lparr>po_Method = ''POST'', po_URL = sht_clientEndpoint s,
                            po_Headers = set_headers (sht_headers s) hs, po_Body = Some data\<rparr> w of
                       (w1, DoFailed e) \<Rightarrow> Ok (count_connection s1, w1)
                     | (w1, DoReply status body) \<Rightarrow> Ok (message_answer msg status body s1, w1))))"

text \<open>
  One iteration of \<open>bridgeOutgoing\<close>: it takes a slot of the semaphore, for which it waits without looking at
  the context, and starts a goroutine for the message, which gives the slot back in the end.
\<close>

definition sht_bridgeOutgoing :: "bool \<Rightarrow> 's sht_state \<Rightarrow> ('s sht_state \<times> bool) option" where
  "sht_bridgeOutgoing pick s =
     (case (mh_outgoingChan (sht_handler s), sht_ctx s) of
        ([], None) \<Rightarrow> None
      | ([], Some _) \<Rightarrow> Some (s, False)
      | (data # rest, ctx) \<Rightarrow>
          if ctx \<noteq> None \<and> \<not> pick then Some (s, False)
          else if length (sht_sends s) < sht_maxConcurrentRequests s
          then Some (s\<lparr>sht_handler := (sht_handler s)\<lparr>mh_outgoingChan := rest\<rparr>, sht_sends := sht_sends s @ [data]\<rparr>, True)
          else None)"

definition sht_send ::
  "(string \<Rightarrow> int option option) \<Rightarrow> int \<Rightarrow> 'w http_env \<Rightarrow> nat \<Rightarrow> 's sht_state \<Rightarrow> 'w \<Rightarrow> ('s sht_state \<times> 'w) outcome" where
  "sht_send parse_time now E i s w =
     sendHTTPRequest parse_time now E (sht_sends s ! i)
       (s\<lparr>sht_sends := take i (sht_sends s) @ drop (Suc i) (sht_sends s)\<rparr>) w"

section \<open>The event stream\<close>

text \<open>
  The result of a step of the stream's goroutine is \<^term>\<open>None\<close> while a channel is full. \<open>dec\<close> is the reading
  of bytes as JSON. \<open>connectSSE\<close> returns an error in every case, so \<open>startSSEConnection\<close> takes its other branch.
\<close>

definition sse_failed :: "'s sht_state \<Rightarrow> 's sht_state" where
  "sse_failed s =
     (let s1 = s\<lparr>sht_sseConnected := False\<rparr>
      in if sht_reconnectCount s \<ge> sht_maxReconnects s then s1\<lparr>sht_sse := Ended\<rparr>
         else s1\<lparr>sht_reconnectCount := sht_reconnectCount s + 1, sht_sseReconnects := sht_sseReconnects s + 1,
                 sht_sse := Delaying\<rparr>)"

definition stream_headers :: "'s sht_state \<Rightarrow> (string \<times> string) list" where
  "stream_headers s =
     session_header s (set_header ''Connection'' ''keep-alive'' (set_header ''Cache-Control'' ''no-cache''
       (set_header ''Accept'' ''text/event-stream'' [])))"

definition connectSSE ::
  "(string \<Rightarrow> int option option) \<Rightarrow> int \<Rightarrow> 'w http_env \<Rightarrow> 's sht_state \<Rightarrow> 'w \<Rightarrow> ('s sht_state \<times> 'w) outcome" where
  "connectSSE parse_time now E s w =
     (if sht_ctx s \<noteq> None then Ok (s\<lparr>sht_sse := Ended\<rparr>, w)
      else if he_refuses E (sht_sseEndpoint s) then Ok (sse_failed s, w)
      else case add_authorization parse_time now (stream_headers s) s of
             (s1, Panic p) \<Rightarrow> Panic p
           | (s1, Err e) \<Rightarrow> Ok (sse_failed s1, w)
           | (s1, Ok hs) \<Rightarrow>
               (case he_stream E \<lparr>po_Method = ''GET'', po_URL = sht_sseEndpoint s,
                       po_Headers = set_headers (sht_headers s) hs, po_Body = None\<rparr> w of
                  (w1, StreamFailed e) \<Rightarrow> Ok (sse_failed s1, w1)
                | (w1, Stream status lines err) \<Rightarrow>
                    Ok (if status \<noteq> 200 then sse_failed s1 else s1\<lparr>sht_sse := Reading lines err\<rparr>, w1)))"

text \<open>The error of \<open>processSSEData\<close> is printed and dropped.\<close>

definition processSSEData :: "bool \<Rightarrow> (string \<Rightarrow> payload) \<Rightarrow> string \<Rightarrow> 's sht_state \<Rightarrow> 's sht_state option" where
  "processSSEData pick dec data s =
     (if data = [] then Some s
      else case ParseMessage (dec data) of
        None \<Rightarrow> Some s
      | Some msg \<Rightarrow>
          if IsNotification msg then
            (case select_send pick (sht_bufferSize s) (sht_notificationChan s)
                    \<lparr>not_JSONRPC = msg_JSONRPC msg, not_Method = msg_Method msg, not_Params = msg_Params msg\<rparr> (sht_ctx s) of
               Sent buf \<Rightarrow> Some (s\<lparr>sht_notificationChan := buf\<rparr>) | Cancelled _ \<Rightarrow> Some s | Blocked \<Rightarrow> None)
          else if IsRequest msg then
            (case select_send pick (sht_bufferSize s) (sht_requestChan s)
                    \<lparr>req_JSONRPC = msg_JSONRPC msg, req_ID = msg_ID msg, req_Method = msg_Method msg,
                     req_Params = msg_Params msg\<rparr> (sht_ctx s) of
               Sent buf \<Rightarrow> Some (s\<lparr>sht_requestChan := buf\<rparr>) | Cancelled _ \<Rightarrow> Some s | Blocked \<Rightarrow> None)
          else Some s)"

definition readSSEEvents :: "bool \<Rightarrow> (string \<Rightarrow> payload) \<Rightarrow> string list \<Rightarrow> bool \<Rightarrow> 's sht_state \<Rightarrow> 's sht_state option" where
  "readSSEEvents pick dec lines err s =
     (case lines of
        [] \<Rightarrow> Some (sse_failed s)
      | line # rest \<Rightarrow>
          if sht_ctx s \<noteq> None then Some (sse_failed s)
          else map_option (\<lambda>s1. s1\<lparr>sht_sse := Reading rest err\<rparr>)
                 (if HasPrefix line ''data: '' then processSSEData pick dec (drop 6 line) s else Some s))"

definition startSSEConnection ::
  "bool \<Rightarrow> (string \<Rightarrow> int option option) \<Rightarrow> int \<Rightarrow> 'w http_env \<Rightarrow> (string \<Rightarrow> payload) \<Rightarrow> 's sht_state \<Rightarrow> 'w \<Rightarrow>
   ('s sht_state \<times> 'w) outcome option" where
  "startSSEConnection pick parse_time now E dec s w =
     (case sht_sse s of
        Connecting \<Rightarrow> Some (connectSSE parse_time now E s w)
      | Reading lines err \<Rightarrow> map_option (\<lambda>s1. Ok (s1, w)) (readSSEEvents pick dec lines err s)
      | Delaying \<Rightarrow> Some (Ok (s\<lparr>sht_sse := (if sht_ctx s \<noteq> None \<and> \<not> pick then Ended else Connecting)\<rparr>, w))
      | Ended \<Rightarrow> None)"

section \<open>The message handler's side\<close>

text \<open>
  The constructor closes the channel from which the message handler reads, so that its loop always receives
  nil bytes, which are no JSON text.
\<close>

definition sht_processIncoming :: "bool \<Rightarrow> bool \<Rightarrow> 's sht_state \<Rightarrow> ('s sht_state \<times> bool) option" where
  "sht_processIncoming pick pick' s =
     (if mh_ctx (sht_handler s) \<noteq> None \<and> \<not> pick then Some (s, False)
      else map_option (\<lambda>h. (s\<lparr>sht_handler := h\<rparr>, True)) (handleIncomingMessage pick' Malformed (sht_handler s)))"

definition sht_bridgeRequests :: "bool \<Rightarrow> bool \<Rightarrow> 's sht_state \<Rightarrow> ('s sht_state \<times> bool) outcome option" where
  "sht_bridgeRequests pick pick' s =
     (case (mh_requestChan (sht_handler s), sht_ctx s) of
        ([], None) \<Rightarrow> None
      | ([], Some _) \<Rightarrow> Some (Ok (s, False))
      | (req # rest, ctx) \<Rightarrow>
          if ctx \<noteq> None \<and> \<not> pick then Some (Ok (s, False))
          else
            (let s1 = s\<lparr>sht_handler := (sht_handler s)\<lparr>mh_requestChan := rest\<rparr>\<rparr>
             in if sht_chansClosed s \<and> (pick' \<or> ctx = None) then Some (Panic ''send on closed channel'')
                else case select_send pick' (sht_bufferSize s) (sht_requestChan s) req ctx of
                  Sent buf \<Rightarrow> Some (Ok (s1\<lparr>sht_requestChan := buf\<rparr>, True))
                | Cancelled _ \<Rightarrow> Some (Ok (s1, False))
                | Blocked \<Rightarrow> None))"

definition sht_bridgeNotifications :: "bool \<Rightarrow> bool \<Rightarrow> 's sht_state \<Rightarrow> ('s sht_state \<times> bool) outcome option" where
  "sht_bridgeNotifications pick pick' s =
     (case (mh_notificationChan (sht_handler s), sht_ctx s) of
        ([], None) \<Rightarrow> None
      | ([], Some _) \<Rightarrow> Some (Ok (s, False))
      | (notif # rest, ctx) \<Rightarrow>
          if ctx \<noteq> None \<and> \<not> pick then Some (Ok (s, False))
          else
            (let s1 = s\<lparr>sht_handler := (sht_handler s)\<lparr>mh_notificationChan := rest\<rparr>\<rparr>
             in if sht_chansClosed s \<and> (pick' \<or> ctx = None) then Some (Panic ''send on closed channel'')
                else case select_send pick' (sht_bufferSize s) (sht_notificationChan s) notif ctx of
                  Sent buf \<Rightarrow> Some (Ok (s1\<lparr>sht_notificationChan := buf\<rparr>, True))
                | Cancelled _ \<Rightarrow> Some (Ok (s1, False))
                | Blocked \<Rightarrow> None))"

section \<open>Closing\<close>

definition sht_cancel :: "'s sht_state \<Rightarrow> 's sht_state" where
  "sht_cancel s =
     s\<lparr>sht_ctx := (case sht_ctx s of None \<Rightarrow> Some ''context canceled'' | Some e \<Rightarrow> Some e),
       sht_handler := cancel (sht_handler s)\<rparr>"

text \<open>The rest of \<open>Close\<close>, once the goroutine of the stream ended; \<^term>\<open>None\<close> before.\<close>

definition sht_finish_close :: "gval list \<Rightarrow> 's sht_state \<Rightarrow> 's sht_state outcome option" where
  "sht_finish_close ks s =
     (if sht_sse s \<noteq> Ended then None
      else Some (case MessageHandler_Close ks (sht_handler s) of
                   Ok h \<Rightarrow> Ok (s\<lparr>sht_handler := h, sht_chansClosed := True\<rparr>)
                 | Err e \<Rightarrow> Err e
                 | Panic p \<Rightarrow> Panic p))"

section \<open>Statistics\<close>

record sht_stats =
  shs_RequestsSent :: int64
  shs_ResponsesReceived :: int64
  shs_ConnectionErrors :: int64
  shs_HTTPErrors :: int64
  shs_SSEConnected :: bool
  shs_SSEReconnects :: int64
  shs_MessageStats :: message_stats

definition sht_Stats :: "'s sht_state \<Rightarrow> sht_stats" where
  "sht_Stats s = \<lparr>shs_RequestsSent = sht_requestsSent s, shs_ResponsesReceived = sht_responsesReceived s,
     shs_ConnectionErrors = sht_connectionErrors s, shs_HTTPErrors = sht_httpErrors s, shs_SSEConnected = sht_sseConnected s,
     shs_SSEReconnects = sht_sseReconnects s, shs_MessageStats = MessageHandler_GetStats (sht_handler s)\<rparr>"

section \<open>A client and a server\<close>

lemma find_response_field:
  "find_field response_fields ''jsonrpc'' = Some (dec_string (\<lambda>s m. m\<lparr>resp_JSONRPC := s\<rparr>))"
  "find_field response_fields ''id'' = Some (dec_iface (\<lambda>v m. m\<lparr>resp_ID := v\<rparr>))"
  "find_field response_fields ''result'' = Some (dec_iface (\<lambda>v m. m\<lparr>resp_Result := v\<rparr>))"
  "find_field response_fields ''error'' = Some (dec_error_ptr resp_Error (\<lambda>e m. m\<lparr>resp_Error := e\<rparr>))"
  by (simp_all add: find_field_def response_fields_def)

lemma response_body_wire:
  assumes i: "wire_view (resp_ID r) = Some i" and v: "wire_view (resp_Result r) = Some v"
    and e: "\<And>e. resp_Error r = Some e \<Longrightarrow> wire_view (err_Data e) = Some (err_Data e) \<and> error_in_range e"
  shows "\<exists>j. marshal (response_gval r) = Some j \<and>
    ParseResponse (Text j) = Some \<lparr>resp_JSONRPC = resp_JSONRPC r, resp_ID = i, resp_Result = v, resp_Error = resp_Error r\<rparr>"
proof -
  from i obtain ji where ji: "marshal (resp_ID r) = Some ji" "to_iface ji = Some i" by (rule wire_viewE)
  from v obtain jv where jv: "marshal (resp_Result r) = Some jv" "to_iface jv = Some v" by (rule wire_viewE)
  have nil: "resp_Result r = GNil \<Longrightarrow> v = GNil" using v by simp
  show ?thesis
  proof (cases "resp_Error r")
    case None
    then show ?thesis
      using ji jv nil
      by (cases "resp_Result r = GNil")
        (simp_all add: response_gval_def marshal_members_append marshal_omit_nil ParseResponse_def
          decode_members_append find_response_field json_simps zero_response_def omit_None_def)
  next
    case (Some er)
    obtain je where "marshal (rpc_error_gval er) = Some je" "je \<noteq> JNull"
      "decode_struct rpc_error_fields zero_error je = Some er"
      using error_wire [of er "err_Data er"] e [OF Some] by auto
    then show ?thesis
      using ji jv nil Some
      by (cases "resp_Result r = GNil")
        (simp_all add: response_gval_def marshal_members_append marshal_omit_nil ParseResponse_def
          decode_members_append find_response_field dec_string_def dec_iface_def dec_error_ptr_def
          decode_struct_def [of response_fields] zero_response_def omit_None_def)
  qed
qed

text \<open>
  \<open>Http_Server\<close> as the network of the client, with an application \<open>app\<close> that answers every request at once:
  the schedule of the server's goroutines that runs one POST to its end. \<open>sz\<close> is the length of a body.
\<close>

definition reply_of :: "http_out \<Rightarrow> do_reply" where
  "reply_of out = DoReply (hout_Status out) (case hout_Body out of JsonBody j \<Rightarrow> Text j | _ \<Rightarrow> Malformed)"

definition no_reply :: do_reply where
  "no_reply = DoFailed ''context deadline exceeded''"

definition serve_call ::
  "(string \<Rightarrow> gval \<Rightarrow> gval \<times> rpc_error option) \<Rightarrow> nat \<Rightarrow> hst_state \<Rightarrow> (hst_state \<times> do_reply) option" where
  "serve_call app a w =
     (case http_store a w of
        None \<Rightarrow> None
      | Some w1 \<Rightarrow> (case http_enqueue a w1 of
        None \<Rightarrow> None
      | Some w2 \<Rightarrow> (case hst_requestChan w2 of
        [] \<Rightarrow> None
      | request # rest \<Rightarrow> (case app (req_Method request) (req_Params request) of
        (result, err) \<Rightarrow> (case hst_SendResponse True (req_ID request) result err (w2\<lparr>hst_requestChan := rest\<rparr>) of
        Some (w3, Ok ()) \<Rightarrow> (case http_receive a w3 of
          None \<Rightarrow> None
        | Some w4 \<Rightarrow> (case hc_phase (hst_calls w4 ! a) of
            Answered out \<Rightarrow> Some (w4, reply_of out) | _ \<Rightarrow> None))
      | _ \<Rightarrow> None)))))"

definition server_do ::
  "(payload \<Rightarrow> int) \<Rightarrow> (string \<Rightarrow> gval \<Rightarrow> gval \<times> rpc_error option) \<Rightarrow> http_post \<Rightarrow> hst_state \<Rightarrow> hst_state \<times> do_reply" where
  "server_do sz app post w =
     (let body = (case po_Body post of None \<Rightarrow> Malformed | Some data \<Rightarrow> data)
      in case handleRPC \<lparr>hin_Method = po_Method post, hin_Size = sz body, hin_Body = Some body\<rparr> w of
           (w1, Answer out) \<Rightarrow> (w1, reply_of out)
         | (w1, Notify n) \<Rightarrow> (case http_notify True n w1 of Some (w2, Ok out) \<Rightarrow> (w2, reply_of out) | _ \<Rightarrow> (w1, no_reply))
         | (w1, Call a) \<Rightarrow> (case serve_call app a w1 of Some (w2, reply) \<Rightarrow> (w2, reply) | None \<Rightarrow> (w1, no_reply)))"

definition server_env ::
  "(payload \<Rightarrow> int) \<Rightarrow> (string \<Rightarrow> gval \<Rightarrow> gval \<times> rpc_error option) \<Rightarrow> hst_state http_env" where
  "server_env sz app =
     \<lparr>he_refuses = (\<lambda>_. False), he_do = server_do sz app, he_stream = (\<lambda>_ w. (w, StreamFailed ''not connected''))\<rparr>"

definition server_ready :: "(payload \<Rightarrow> int) \<Rightarrow> hst_state \<Rightarrow> bool" where
  "server_ready sz w \<longleftrightarrow> \<not> hst_locked w \<and> \<not> hst_chansClosed w \<and> hst_pending w = Map.empty \<and> hst_requestChan w = [] \<and>
     0 < hst_bufferSize w \<and> (\<forall>d. sz d \<le> htc_MaxRequestSize (hst_config w))"

lemma served_call:
  assumes ready: "server_ready sz w" and calls: "a = length (hst_calls w)" "hst_calls w1 = hst_calls w @ [fresh_call request]"
    and same: "hst_pending w1 = hst_pending w" "hst_locked w1 = hst_locked w" "hst_chansClosed w1 = hst_chansClosed w"
      "hst_requestChan w1 = hst_requestChan w" "hst_bufferSize w1 = hst_bufferSize w" "hst_config w1 = hst_config w"
    and h: "hashable (req_ID request)" and app: "app (req_Method request) (req_Params request) = (result, err)"
    and j: "marshal (response_gval (answer_to (req_ID request) result err)) = Some j"
  shows "\<exists>w2. serve_call app a w1 = Some (w2, DoReply 200 (Text j)) \<and> server_ready sz w2"
proof -
  let ?k = "req_ID request"
  have r: "\<not> hst_locked w1" "\<not> hst_chansClosed w1" "hst_pending w1 = Map.empty" "hst_requestChan w1 = []" "0 < hst_bufferSize w1"
    using ready same by (auto simp: server_ready_def)
  have len: "a < length (hst_calls w1)" "hst_calls w1 ! a = fresh_call request" using calls by simp_all
  let ?w2 = "(set_phase a Sending w1)\<lparr>hst_pending := (hst_pending w1)(?k \<mapsto> a)\<rparr>"
  have s2: "http_store a w1 = Some ?w2" using h r(1) len by (simp add: http_store_def fresh_call_def)
  let ?w3 = "(set_phase a Waiting ?w2)\<lparr>hst_requestChan := [request]\<rparr>"
  have c2: "hst_calls ?w2 ! a = (fresh_call request)\<lparr>hc_phase := Sending\<rparr>" using len by simp
  have "hst_chansClosed ?w2 = hst_chansClosed w1" "hst_bufferSize ?w2 = hst_bufferSize w1" "hst_requestChan ?w2 = hst_requestChan w1"
    by simp_all
  then have s3: "http_enqueue a ?w2 = Some ?w3"
    using c2 r(2,4,5) by (simp add: http_enqueue_def chan_send_def fresh_call_def)
  let ?w4 = "?w3\<lparr>hst_requestChan := []\<rparr>" and ?r = "answer_to ?k result err"
  have c4: "hst_calls ?w4 ! a = (fresh_call request)\<lparr>hc_phase := Waiting\<rparr>" "a < length (hst_calls ?w4)" using len by simp_all
  let ?w5 = "removePendingHTTPRequest ?k (call_update a (\<lambda>c. c\<lparr>hc_buf := [?r]\<rparr>) ?w4)"
  have "\<not> hst_locked ?w4" "hst_pending ?w4 ?k = Some a" using r(1) by simp_all
  then have s5: "hst_SendResponse True ?k result err ?w4 = Some (?w5, Ok ())"
    using h c4 by (simp add: hst_SendResponse_def find_http_request_def offer_http_response_def locked_remove_def answer_to_def
        fresh_call_def)
  have c5: "hc_buf (hst_calls ?w5 ! a) = [?r]" "a < length (hst_calls ?w5)" using len by simp_all
  have f5: "hst_pending ?w5 = Map.empty" "hst_locked ?w5 = hst_locked w1" "hst_chansClosed ?w5 = hst_chansClosed w1"
    "hst_requestChan ?w5 = []" "hst_bufferSize ?w5 = hst_bufferSize w1" "hst_config ?w5 = hst_config w1"
    using r(3)
    by (auto simp: removePendingHTTPRequest_def call_update_def set_phase_def split: option.split)
  let ?out = "\<lparr>hout_Status = 200, hout_Headers = json_headers ?w5, hout_Body = JsonBody j\<rparr>"
  let ?w6 = "(set_phase a (Answered ?out) (call_update a (\<lambda>c. c\<lparr>hc_buf := []\<rparr>) ?w5))\<lparr>hst_responsesSent := hst_responsesSent ?w5 + 1\<rparr>"
  have s6: "http_receive a ?w5 = Some ?w6"
    using c5(1) j by (simp add: http_receive_def Let_def)
  have p6: "hc_phase (hst_calls ?w6 ! a) = Answered ?out" using c5(2) by simp
  have "server_ready sz ?w6" using ready f5 same by (simp add: server_ready_def set_phase_def call_update_def)
  moreover have "hst_requestChan ?w3 = request # []" by simp
  then have "serve_call app a w1 = Some (?w6, reply_of ?out)"
    using s2 s3 app s5 s6 p6 unfolding serve_call_def by (simp only: option.case list.case prod.case outcome.case unit.case call_phase.case)
  ultimately show ?thesis by (auto simp: reply_of_def)
qed

lemma server_answers:
  assumes "server_ready sz w" and "ParseMessage data = Some \<lparr>msg_JSONRPC = ''2.0'', msg_ID = ident, msg_Method = meth, msg_Params = ps,
      msg_Result = GNil, msg_Error = None\<rparr>" and "meth \<noteq> []" and "ident \<noteq> GNil" and "hashable ident"
    and "app meth ps = (result, err)" and "marshal (response_gval (answer_to ident result err)) = Some j"
    and "po_Method post = ''POST''" and "po_Body post = Some data"
  shows "\<exists>w2. server_do sz app post w = (w2, DoReply 200 (Text j)) \<and> server_ready sz w2"
proof -
  let ?req = "\<lparr>req_JSONRPC = ''2.0'', req_ID = ident, req_Method = meth, req_Params = ps\<rparr>"
  let ?w1 = "(count_received w)\<lparr>hst_calls := hst_calls w @ [fresh_call ?req]\<rparr>"
  have "handleRPC \<lparr>hin_Method = ''POST'', hin_Size = sz data, hin_Body = Some data\<rparr> w = (?w1, Call (length (hst_calls w)))"
    using assms(1-4)
    by (simp add: handleRPC_def read_body_def server_ready_def IsRequest_def ToRequest_def new_http_call_def fresh_call_def
        count_received_def Let_def leD)
  moreover obtain w2 where "serve_call app (length (hst_calls w)) ?w1 = Some (w2, DoReply 200 (Text j))" "server_ready sz w2"
    using served_call [OF assms(1) refl, of ?w1 ?req app result err j] assms(5-7) by (auto simp: count_received_def)
  ultimately show ?thesis using assms(8,9) by (simp add: server_do_def)
qed

text \<open>One call of the client: the request, its goroutine, and what the caller finds in the channel.\<close>

definition sht_call ::
  "'w http_env \<Rightarrow> string \<Rightarrow> gval \<Rightarrow> 's sht_state \<times> 'w \<Rightarrow> (('s sht_state \<times> 'w) \<times> arrival outcome) option" where
  "sht_call E meth params x =
     (case sht_SendRequest meth params (fst x) of
        (s1, Err e) \<Rightarrow> Some ((s1, snd x), Err e)
      | (s1, Panic p) \<Rightarrow> Some ((s1, snd x), Panic p)
      | (s1, Ok a) \<Rightarrow>
          (case sht_exchange E a s1 (snd x) of
             (s2, w) \<Rightarrow>
               (let ch = sht_calls s2 ! a
                in Some ((exchange_update a (\<lambda>y. y\<lparr>xc_buf := []\<rparr>) s2, w),
                     Ok (case xc_buf ch of r # _ \<Rightarrow> Arrived r | [] \<Rightarrow> if xc_closed ch then Drained else Nothing_yet)))))"

definition sht_close ::
  "gval list \<Rightarrow> 's sht_state \<times> 'w \<Rightarrow> (('s sht_state \<times> 'w) \<times> unit outcome) option" where
  "sht_close ks x =
     (let s1 = (sht_cancel (fst x))\<lparr>sht_sse := Ended\<rparr>
      in map_option (\<lambda>r. case r of Ok s2 \<Rightarrow> ((s2, snd x), Ok ()) | Err e \<Rightarrow> ((s1, snd x), Err e) | Panic p \<Rightarrow> ((s1, snd x), Panic p))
           (sht_finish_close ks s1))"

definition sht_ops :: "'w http_env \<Rightarrow> gval list \<Rightarrow> ('s sht_state \<times> 'w) transport_ops" where
  "sht_ops E ks = \<lparr>tr_SendRequest = sht_call E, tr_Start = Some (\<lambda>x. (x, None)), tr_Close = sht_close ks\<rparr>"

text \<open>An application whose errors survive the wire.\<close>

definition app_ok :: "(string \<Rightarrow> gval \<Rightarrow> gval \<times> rpc_error option) \<Rightarrow> bool" where
  "app_ok app \<longleftrightarrow> (\<forall>meth ps e. snd (app meth ps) = Some e \<longrightarrow> wire_view (err_Data e) = Some (err_Data e) \<and> error_in_range e)"

definition http_ready ::
  "(payload \<Rightarrow> int) \<Rightarrow> (string \<Rightarrow> gval \<Rightarrow> gval \<times> rpc_error option) \<Rightarrow> nat \<Rightarrow> 's sht_state \<times> hst_state \<Rightarrow> bool" where
  "http_ready sz app n x \<longleftrightarrow> server_ready sz (snd x) \<and> app_ok app \<and>
     (\<exists>k. sht_requestCounter (fst x) = of_nat k \<and> k + n \<le> 2 ^ 53)"

lemma http_call_answers:
  assumes "http_ready sz app (Suc n) x" and "meth \<noteq> []" and "wire_view params = Some ps" and "wire_view (fst (app meth ps)) = Some v"
  shows "\<exists>x' r. sht_call (server_env sz app) meth params x = Some (x', Ok (Arrived r)) \<and> resp_Result r = v \<and>
    resp_Error r = snd (app meth ps) \<and> http_ready sz app n x'"
proof -
  obtain s w where x: "x = (s, w)" by (cases x)
  obtain k where k: "sht_requestCounter s = of_nat k" "k + Suc n \<le> 2 ^ 53" using assms(1) x by (auto simp: http_ready_def)
  let ?f = "GFloat (F64 (of_nat (Suc k)))"
  have ident: "GInt64 (sht_requestCounter s + 1) = ident_of k" using k(1) by (simp add: ident_of_def add.commute)
  have id: "wire_view (ident_of k) = Some ?f" using ident_of_wire [of k] k(2) by simp
  let ?req = "\<lparr>req_JSONRPC = ''2.0'', req_ID = ident_of k, req_Method = meth, req_Params = params\<rparr>"
  obtain j where j: "marshal (request_gval ?req) = Some j" "ParseMessage (Text j) = Some \<lparr>msg_JSONRPC = ''2.0'', msg_ID = ?f,
      msg_Method = meth, msg_Params = ps, msg_Result = GNil, msg_Error = None\<rparr>"
    using request_wire [of ?req ?f ps] id assms(3) by auto
  obtain result err where app: "app meth ps = (result, err)" by fastforce
  let ?ans = "answer_to ?f result err"
  have f: "wire_view (resp_ID ?ans) = Some ?f" using wire_view_is_generic [OF id] by (simp add: answer_to_def del: generic.simps)
  have v: "wire_view (resp_Result ?ans) = Some v" using assms(4) app by (simp add: answer_to_def)
  have e: "wire_view (err_Data e) = Some (err_Data e) \<and> error_in_range e" if "resp_Error ?ans = Some e" for e
    using assms(1) app that unfolding http_ready_def app_ok_def by (simp add: answer_to_def) (metis snd_conv)
  obtain j' where j': "marshal (response_gval ?ans) = Some j'"
    "ParseResponse (Text j') = Some \<lparr>resp_JSONRPC = ''2.0'', resp_ID = ?f, resp_Result = v, resp_Error = err\<rparr>"
    using response_body_wire [OF f v e] by (auto simp: answer_to_def)
  let ?a = "length (sht_calls s)"
  let ?s1 = "s\<lparr>sht_requestCounter := sht_requestCounter s + 1,
      sht_calls := sht_calls s @ [\<lparr>xc_data = Text j, xc_buf = [], xc_closed = False\<rparr>], sht_requestsSent := sht_requestsSent s + 1\<rparr>"
  have s1: "sht_SendRequest meth params s = (?s1, Ok ?a)"
    using j(1) ident by (simp add: sht_SendRequest_def to_payload_def Let_def)
  obtain w2 where w2: "server_do sz app (request_post (Text j) ?s1) w = (w2, DoReply 200 (Text j'))" "server_ready sz w2"
    using server_answers [of sz w "Text j" ?f meth ps app result err j' "request_post (Text j) ?s1"] j(2) assms(1,2) app j'(1) x
    by (auto simp: http_ready_def request_post_def)
  let ?r = "\<lparr>resp_JSONRPC = ''2.0'', resp_ID = ?f, resp_Result = v, resp_Error = err\<rparr>"
  let ?s2 = "exchange_update ?a (\<lambda>y. y\<lparr>xc_closed := True\<rparr>) (exchange_update ?a (\<lambda>y. y\<lparr>xc_buf := [?r]\<rparr>)
      (?s1\<lparr>sht_responsesReceived := sht_responsesReceived s + 1\<rparr>))"
  have s2: "sht_exchange (server_env sz app) ?a ?s1 w = (?s2, w2)"
    using w2(1) j'(2) by (simp add: sht_exchange_def server_env_def Let_def)
  have buf: "xc_buf (sht_calls ?s2 ! ?a) = [?r]" by (simp add: exchange_update_def)
  have "http_ready sz app n (exchange_update ?a (\<lambda>y. y\<lparr>xc_buf := []\<rparr>) ?s2, w2)"
    using assms(1) w2(2) k x by (auto simp: http_ready_def exchange_update_def intro!: exI [of _ "Suc k"])
  then show ?thesis
    using s1 s2 buf app x by (simp add: sht_call_def Let_def)
qed

interpretation http: rpc_transport "sht_ops (server_env sz app) ks" "http_ready sz app"
  "\<lambda>x meth ps. case app meth ps of (v, err) \<Rightarrow> Some (v, err)"
proof unfold_locales
  fix n t meth params ps v err w
  assume "http_ready sz app (Suc n) t" "meth \<noteq> []" "wire_view params = Some ps"
    "(case app meth ps of (v, err) \<Rightarrow> Some (v, err)) = Some (v, err)" "wire_view v = Some w"
  then show "\<exists>t' r. tr_SendRequest (sht_ops (server_env sz app) ks) meth params t = Some (t', Ok (Arrived r)) \<and>
      resp_Result r = w \<and> resp_Error r = err \<and> http_ready sz app n t' \<and>
      (\<lambda>meth ps. case app meth ps of (v, err) \<Rightarrow> Some (v, err)) = (\<lambda>meth ps. case app meth ps of (v, err) \<Rightarrow> Some (v, err))"
    using http_call_answers [of sz app n t meth params ps w] by (auto simp: sht_ops_def split: prod.splits)
qed

section \<open>Runs of the event stream\<close>

text \<open>
  \<open>sse_run n x y\<close>: from \<open>x\<close> to \<open>y\<close> the goroutine of the stream made \<open>n\<close> connection attempts, while anything else
  that does not belong to it changed in between.
\<close>

definition same_stream :: "'s sht_state \<Rightarrow> 's sht_state \<Rightarrow> bool" where
  "same_stream s s' \<longleftrightarrow> sht_sse s' = sht_sse s \<and> sht_reconnectCount s' = sht_reconnectCount s \<and>
     sht_maxReconnects s' = sht_maxReconnects s \<and> sht_sseConnected s' = sht_sseConnected s"

inductive sse_run ::
  "'w http_env \<Rightarrow> (string \<Rightarrow> payload) \<Rightarrow> (string \<Rightarrow> int option option) \<Rightarrow> nat \<Rightarrow> 's sht_state \<Rightarrow> 's sht_state \<Rightarrow> bool"
  for E dec parse_time where
  start: "sse_run E dec parse_time 0 s s"
| goroutine: "sse_run E dec parse_time n s s1 \<Longrightarrow> startSSEConnection pick parse_time now E dec s1 w = Some (Ok (s2, w2)) \<Longrightarrow>
    sse_run E dec parse_time (n + (if sht_sse s1 = Connecting then 1 else 0)) s s2"
| other: "sse_run E dec parse_time n s s1 \<Longrightarrow> same_stream s1 s2 \<Longrightarrow> sse_run E dec parse_time n s s2"

lemma add_authorization_stream: "add_authorization parse_time now hs s = (s1, r) \<Longrightarrow> same_stream s s1"
  by (auto simp: add_authorization_def same_stream_def split: bool.splits option.splits prod.splits outcome.splits)

lemma sse_failed_simps [simp]:
  "sht_maxReconnects (sse_failed s) = sht_maxReconnects s" "\<not> sht_sseConnected (sse_failed s)"
  "sht_sse (sse_failed s) = (if sht_reconnectCount s \<ge> sht_maxReconnects s then Ended else Delaying)"
  "sht_reconnectCount (sse_failed s) =
     (if sht_reconnectCount s \<ge> sht_maxReconnects s then sht_reconnectCount s else sht_reconnectCount s + 1)"
  by (simp_all add: sse_failed_def Let_def)

text \<open>A step of the goroutine fails, or keeps the count of reconnects.\<close>

definition stream_fails :: "'s sht_state \<Rightarrow> 's sht_state \<Rightarrow> bool" where
  "stream_fails s s' \<longleftrightarrow> sht_maxReconnects s' = sht_maxReconnects s \<and> \<not> sht_sseConnected s' \<and>
     sht_sse s' = (if sht_reconnectCount s \<ge> sht_maxReconnects s then Ended else Delaying) \<and>
     sht_reconnectCount s' =
       (if sht_reconnectCount s \<ge> sht_maxReconnects s then sht_reconnectCount s else sht_reconnectCount s + 1)"

definition stream_keeps :: "'s sht_state \<Rightarrow> 's sht_state \<Rightarrow> bool" where
  "stream_keeps s s' \<longleftrightarrow> sht_maxReconnects s' = sht_maxReconnects s \<and> sht_sseConnected s' = sht_sseConnected s \<and>
     sht_reconnectCount s' = sht_reconnectCount s"

lemma same_stream_fails: "same_stream s s1 \<Longrightarrow> stream_fails s (sse_failed s1)"
  by (simp add: same_stream_def stream_fails_def)

lemma same_stream_keeps: "same_stream s s1 \<Longrightarrow> stream_keeps s (s1\<lparr>sht_sse := ph\<rparr>)"
  by (simp add: same_stream_def stream_keeps_def)

lemma same_stream_refl: "same_stream s s"
  by (simp add: same_stream_def)

lemma connect_results:
  "connectSSE parse_time now E s w = Ok (s', w') \<Longrightarrow>
     stream_fails s s' \<or> stream_keeps s s' \<and> (sht_sse s' = Ended \<or> (\<exists>ls err. sht_sse s' = Reading ls err))"
  by (auto simp: connectSSE_def same_stream_refl intro: same_stream_fails same_stream_keeps
      split: if_splits prod.splits outcome.splits stream_reply.splits dest!: add_authorization_stream)

lemma process_stream: "processSSEData pick dec data s = Some s' \<Longrightarrow> same_stream s s'"
  by (auto simp: processSSEData_def same_stream_def split: if_splits option.splits select_result.splits)

lemma read_results:
  "readSSEEvents pick dec lines err s = Some s' \<Longrightarrow>
     stream_fails s s' \<or> stream_keeps s s' \<and> (\<exists>ls. sht_sse s' = Reading ls err)"
  by (auto simp: readSSEEvents_def same_stream_refl intro: same_stream_fails same_stream_keeps
      split: list.splits if_splits dest!: process_stream)

text \<open>Attempts made, and one for the attempt that is due, are covered by the reconnects counted and the first one.\<close>

definition attempts_ok :: "nat \<Rightarrow> 's sht_state \<Rightarrow> bool" where
  "attempts_ok n s \<longleftrightarrow> \<not> sht_sseConnected s \<and> 0 \<le> sht_reconnectCount s \<and>
     (sht_reconnectCount s = 0 \<or> sht_reconnectCount s \<le> sht_maxReconnects s) \<and>
     (case sht_sse s of Connecting \<Rightarrow> int n \<le> sht_reconnectCount s | Delaying \<Rightarrow> int n \<le> sht_reconnectCount s
      | _ \<Rightarrow> int n \<le> sht_reconnectCount s + 1)"

lemma attempts_fail:
  "attempts_ok n s \<Longrightarrow> stream_fails s s' \<Longrightarrow> attempts_ok (n + (if sht_sse s = Connecting then 1 else 0)) s'"
  by (cases "sht_sse s") (auto simp: attempts_ok_def stream_fails_def)

lemma attempts_keep:
  "attempts_ok n s \<Longrightarrow> stream_keeps s s' \<Longrightarrow> sht_sse s' = Ended \<or> (\<exists>ls err. sht_sse s' = Reading ls err) \<Longrightarrow>
     attempts_ok (n + (if sht_sse s = Connecting then 1 else 0)) s'"
  by (cases "sht_sse s") (auto simp: attempts_ok_def stream_keeps_def)

lemma attempts_step:
  assumes "attempts_ok n s" and "startSSEConnection pick parse_time now E dec s w = Some (Ok (s', w'))"
  shows "attempts_ok (n + (if sht_sse s = Connecting then 1 else 0)) s' \<and> sht_maxReconnects s' = sht_maxReconnects s"
proof -
  consider "stream_fails s s'" | "stream_keeps s s' \<and> (sht_sse s' = Ended \<or> (\<exists>ls err. sht_sse s' = Reading ls err))"
    | "sht_sse s = Delaying" "s' = s\<lparr>sht_sse := Ended\<rparr> \<or> s' = s\<lparr>sht_sse := Connecting\<rparr>"
    using assms(2) connect_results [of parse_time now E s w s' w'] read_results [of pick dec _ _ s s']
    by (cases "sht_sse s") (force simp: startSSEConnection_def split: if_splits)+
  then show ?thesis
  proof cases
    case 1
    then show ?thesis using attempts_fail [OF assms(1)] by (simp add: stream_fails_def)
  next
    case 2
    then show ?thesis using attempts_keep [OF assms(1)] by (simp add: stream_keeps_def)
  next
    case 3
    then show ?thesis using assms(1) by (auto simp: attempts_ok_def)
  qed
qed

lemma attempts_run:
  "sse_run E dec parse_time n s s' \<Longrightarrow> attempts_ok 0 s \<Longrightarrow> attempts_ok n s' \<and> sht_maxReconnects s' = sht_maxReconnects s"
proof (induction rule: sse_run.induct)
  case (goroutine n s s1 pick now w s2 w2)
  then show ?case using attempts_step [OF _ goroutine.hyps(2)] by auto
qed (auto simp: attempts_ok_def same_stream_def split: sse_phase.splits)

section \<open>Properties\<close>

text \<open>The message handler of the client counts an error in every round of its loop, without any message.\<close>

lemma closed_incoming_spins:
  assumes "mh_ctx (sht_handler s) = None"
  shows "\<exists>s'. ((\<lambda>x. Option.bind x (\<lambda>s. map_option fst (sht_processIncoming pick pick' s))) ^^ n) (Some s) = Some s' \<and>
    mh_ctx (sht_handler s') = None \<and> ms_Errors (mh_stats (sht_handler s')) = ms_Errors (mh_stats (sht_handler s)) + of_nat n"
proof (induction n)
  case (Suc n)
  then show ?case
    by (auto simp: sht_processIncoming_def handleIncomingMessage_def ParseMessage_def stats_update_def)
qed (use assms in simp)

text \<open>C26: Over HTTP a client gets what the application behind the server answers: a tool call goes through the POST of the
  client transport, the pending call of the server transport and its response, and gives the contents of the
  application's result; both transports are ready for the next call.\<close>

theorem client_over_http:
  assumes "http_ready sz app (Suc n) (cl_transport c)" and "generic (opt_map_gval args)"
    and "app ''tools/call'' (call_params_gval name args) = (call_tool_result_gval cs b, None)"
  shows "\<exists>c'. CallTool (sht_ops (server_env sz app) ks) pick None name args c =
      Some (c', Ok \<lparr>ctr_Content = map as_text (case cs of None \<Rightarrow> [] | Some xs \<Rightarrow> xs), ctr_IsError = b\<rparr>) \<and>
    http_ready sz app n (cl_transport c')"
proof -
  have p: "wire_view (call_params_gval name args) = Some (call_params_gval name args)"
    using assms(2) by (simp add: call_params_gval_def sorted_map_def)
  obtain w where w: "wire_view (call_tool_result_gval cs b) = Some w"
    "read_call_result w = \<lparr>ctr_Content = map as_text (case cs of None \<Rightarrow> [] | Some xs \<Rightarrow> xs), ctr_IsError = b\<rparr>"
    using call_result_wire by blast
  from http.call_answered [where read = read_call_result and pick = pick and ks = ks, OF assms(1) _ p _ w(1), of "''tools/call''" None]
    assms(3) w(2)
  show ?thesis by (auto simp: CallTool_def)
qed

definition hello_app :: "string \<Rightarrow> gval \<Rightarrow> gval \<times> rpc_error option" where
  "hello_app meth ps = (call_tool_result_gval (Some [TextContent ''text'' ''hi'' []]) False, None)"

lemma hello_http_ready:
  assumes "NewStreamableHTTPTransportWithConfig None (url_config ''u'') = Ok s"
  shows "http_ready (\<lambda>_. 60) hello_app (Suc 0) (s, hst_fresh)"
proof -
  have "sht_requestCounter s = of_nat 0"
    using assms by (auto simp: NewStreamableHTTPTransportWithConfig_def Let_def split: if_splits outcome.splits)
  then show ?thesis
    by (auto simp: http_ready_def server_ready_def hst_fresh_def default_config_def sse_config_def app_ok_def hello_app_def
        intro!: exI [of _ 0])
qed

theorem client_over_http_witness:
  "\<exists>(s :: unit sht_state) c'. NewStreamableHTTPTransportWithConfig None (url_config ''u'') = Ok s \<and>
    CallTool (sht_ops (server_env (\<lambda>_. 60) hello_app) []) True None ''hello'' None (New (s, hst_fresh)) =
      Some (c', Ok \<lparr>ctr_Content = [TextContent ''text'' ''hi'' []], ctr_IsError = False\<rparr>)"
proof -
  obtain s :: "unit sht_state" where s: "NewStreamableHTTPTransportWithConfig None (url_config ''u'') = Ok s"
    by (simp add: NewStreamableHTTPTransportWithConfig_def NewMessageHandler_def url_config_def sht_defaults_def Let_def)
  have "generic (opt_map_gval None)" by (simp add: opt_map_gval_def)
  moreover have "http_ready (\<lambda>_. 60) hello_app (Suc 0) (cl_transport (New (s, hst_fresh)))"
    using hello_http_ready [OF s] by (simp add: New_def)
  ultimately show ?thesis
    using client_over_http [where c = "New (s, hst_fresh)" and args = None and n = 0 and name = "''hello''" and pick = True and ks = "[]"
        and b = False and cs = "Some [TextContent ''text'' ''hi'' []]" and app = hello_app and sz = "\<lambda>_. 60"] s
    by (fastforce simp: hello_app_def)
qed

text \<open>OAuth has no effect on requests: with or without it enabled, \<open>SendRequest\<close> and its goroutine do the same, so no
  request carries a token.\<close>

theorem requests_unauthorized:
  "(case sht_SendRequest meth params (EnableOAuth h s) of (s1, r) \<Rightarrow> (sht_exchange E a s1 w, r)) =
   (case sht_SendRequest meth params s of (s1, r) \<Rightarrow>
      (case sht_exchange E a s1 w of (s2, w2) \<Rightarrow> ((EnableOAuth h s2, w2), r)))"
  by (auto simp: sht_SendRequest_def EnableOAuth_def sht_exchange_def request_post_def count_sht_http_def exchange_update_def
      Let_def split: option.splits prod.splits do_reply.splits)

text \<open>C27: The event stream is connected at most once more than the configured number of reconnects, however long its
  connections lasted, and it never counts as connected.\<close>

theorem stream_attempts_bounded:
  assumes "NewStreamableHTTPTransportWithConfig ctx config = Ok s" and "sse_run E dec parse_time n s s'"
  shows "int n \<le> max 0 (shc_MaxReconnects (sht_defaults config)) + 1 \<and> \<not> sht_sseConnected s'"
proof -
  have "attempts_ok 0 s \<and> sht_maxReconnects s = shc_MaxReconnects (sht_defaults config)"
    using assms(1)
    by (auto simp: NewStreamableHTTPTransportWithConfig_def attempts_ok_def Let_def split: if_splits outcome.splits)
  then show ?thesis
    using attempts_run [OF assms(2)] by (auto simp: attempts_ok_def split: sse_phase.splits)
qed

theorem stream_attempts_bounded_witness:
  "\<exists>(s :: unit sht_state) s'. NewStreamableHTTPTransportWithConfig None
      ((url_config ''u'')\<lparr>shc_EnableSSE := True, shc_SSEEndpoint := ''v'', shc_MaxReconnects := 1\<rparr>) = Ok s \<and>
    sse_run (server_env (\<lambda>_. 0) hello_app) (\<lambda>_. Malformed) (\<lambda>_. None) 1 s s' \<and> int 1 \<le> max 0 1 + 1 \<and> \<not> sht_sseConnected s'"
proof -
  let ?c = "(url_config ''u'')\<lparr>shc_EnableSSE := True, shc_SSEEndpoint := ''v'', shc_MaxReconnects := 1\<rparr>"
  have "\<exists>s. NewStreamableHTTPTransportWithConfig None ?c = Ok (s :: unit sht_state) \<and> sht_sse s = Connecting \<and> sht_ctx s = None \<and>
      sht_oauthHandler s = None"
    by (simp add: NewStreamableHTTPTransportWithConfig_def NewMessageHandler_def url_config_def sht_defaults_def Let_def)
  then obtain s :: "unit sht_state" where s: "NewStreamableHTTPTransportWithConfig None ?c = Ok s" "sht_sse s = Connecting"
    "sht_ctx s = None" "sht_oauthHandler s = None" by blast
  have "startSSEConnection True (\<lambda>_. None) 0 (server_env (\<lambda>_. 0) hello_app) (\<lambda>_. Malformed) s hst_fresh = Some (Ok (sse_failed s, hst_fresh))"
    using s(2-4)
    by (simp add: startSSEConnection_def connectSSE_def server_env_def add_authorization_def split: bool.split)
  from sse_run.goroutine [OF sse_run.start this] have r: "sse_run (server_env (\<lambda>_. 0) hello_app) (\<lambda>_. Malformed) (\<lambda>_. None) 1 s (sse_failed s)"
    using s(2) by simp
  from stream_attempts_bounded [OF s(1) r] r s(1) show ?thesis by auto
qed

end
