(* ===== verification/Handler_Races.thy ===== *)
theory Handler_Races
  imports Message_Handler
begin

text \<open>
  \<open>internal/jsonrpc.go\<close> between its locks. \<open>Message_Handler\<close> takes the correlation of a response, the function of a
  timer and \<open>Close\<close> as one step each; here they are cut where the code holds no lock, so that they interleave: the
  correlation into the part under the lock, the send and the close of the channel; the function of a timer, which runs
  in a goroutine of its own, into its start, the removal and the close; a call into the making of its timer, the
  storing of the request and the sending.
\<close>

section \<open>Pieces\<close>

datatype corr = Receives | Took pending_request response | Offered pending_request

datatype callback = Counted gval | Removed

datatype calling = Unstored | Stored

text \<open>\<open>ra_fired\<close> records the requests whose timer fired.\<close>

record race_state =
  ra_mh :: mh_state
  ra_corr :: corr
  ra_callbacks :: "nat \<Rightarrow> callback option"
  ra_calls :: "nat \<Rightarrow> calling option"
  ra_fired :: "nat set"

datatype piece =
    Take | Offer | CloseOffered | Fire nat | Remove nat | CloseTimedOut nat
  | NewCall | StoreCall nat | SendCall bool payload nat | DropCall nat | CloseAll "gval list"

definition with_mh :: "race_state \<Rightarrow> mh_state outcome \<Rightarrow> (mh_state \<Rightarrow> race_state) \<Rightarrow> race_state outcome" where
  "with_mh ra out f = (case out of Ok s \<Rightarrow> Ok (f s) | Err e \<Rightarrow> Err e | Panic p \<Rightarrow> Panic p)"

definition corr_take :: "(float64 \<Rightarrow> int64) \<Rightarrow> race_state \<Rightarrow> race_state outcome option" where
  "corr_take oor ra =
     (case (ra_corr ra, mh_responseChan (ra_mh ra)) of
        (Receives, response # rest) \<Rightarrow>
          let s = (ra_mh ra)\<lparr>mh_responseChan := rest\<rparr>
          in Some (if \<not> hashable (resp_ID response) then Panic ''hash of unhashable type''
                   else case find_pending oor response s of
                     None \<Rightarrow> Ok (ra\<lparr>ra_mh := s\<rparr>)
                   | Some (p, response') \<Rightarrow> Ok (ra\<lparr>ra_mh := take_pending p s, ra_corr := Took p response'\<rparr>))
      | _ \<Rightarrow> None)"

text \<open>Stopping a timer that fired has no effect, so \<open>Stop\<close> and \<open>Cancel\<close> go with the send.\<close>

definition corr_offer :: "race_state \<Rightarrow> race_state outcome option" where
  "corr_offer ra =
     (case ra_corr ra of
        Took p response \<Rightarrow>
          Some (with_mh ra (chan_offer (pend_Response p) response
                (ctx_cancel (pend_Response p) (timer_stop (pend_Response p) (ra_mh ra))))
              (\<lambda>s. ra\<lparr>ra_mh := s, ra_corr := Offered p\<rparr>))
      | _ \<Rightarrow> None)"

definition corr_close :: "race_state \<Rightarrow> race_state outcome option" where
  "corr_close ra =
     (case ra_corr ra of
        Offered p \<Rightarrow> Some (with_mh ra (chan_close (pend_Response p) (ra_mh ra)) (\<lambda>s. ra\<lparr>ra_mh := s, ra_corr := Receives\<rparr>))
      | _ \<Rightarrow> None)"

definition timer_fires :: "nat \<Rightarrow> race_state \<Rightarrow> race_state outcome option" where
  "timer_fires c ra =
     map_option (\<lambda>ident. Ok (ra\<lparr>
         ra_mh := stats_update (\<lambda>st. st\<lparr>ms_Timeouts := ms_Timeouts st + 1\<rparr>) (timer_stop c (ra_mh ra)),
         ra_callbacks := (ra_callbacks ra)(c \<mapsto> Counted ident), ra_fired := insert c (ra_fired ra)\<rparr>))
       (mh_timers (ra_mh ra) c)"

definition callback_removes :: "nat \<Rightarrow> race_state \<Rightarrow> race_state outcome option" where
  "callback_removes c ra =
     (case ra_callbacks ra c of
        Some (Counted ident) \<Rightarrow>
          Some (Ok (ra\<lparr>ra_mh := removePendingRequest ident (ra_mh ra), ra_callbacks := (ra_callbacks ra)(c \<mapsto> Removed)\<rparr>))
      | _ \<Rightarrow> None)"

definition callback_closes :: "nat \<Rightarrow> race_state \<Rightarrow> race_state outcome option" where
  "callback_closes c ra =
     (case ra_callbacks ra c of
        Some Removed \<Rightarrow>
          Some (with_mh ra (chan_close c (ctx_cancel c (ra_mh ra)))
              (\<lambda>s. ra\<lparr>ra_mh := s, ra_callbacks := (ra_callbacks ra)(c := None)\<rparr>))
      | _ \<Rightarrow> None)"

definition call_new :: "race_state \<Rightarrow> race_state outcome option" where
  "call_new ra =
     (if mh_ctx (ra_mh ra) \<noteq> None then None
      else case new_call (ra_mh ra) of
        (ident, c, s) \<Rightarrow> Some (Ok (ra\<lparr>ra_mh := s, ra_calls := (ra_calls ra)(c \<mapsto> Unstored)\<rparr>)))"

definition call_store :: "nat \<Rightarrow> race_state \<Rightarrow> race_state outcome option" where
  "call_store c ra =
     (if ra_calls ra c = Some Unstored
      then Some (Ok (ra\<lparr>ra_mh := store_pending (GInt64 (of_nat (Suc c))) c (ra_mh ra), ra_calls := (ra_calls ra)(c \<mapsto> Stored)\<rparr>))
      else None)"

definition call_send :: "bool \<Rightarrow> payload \<Rightarrow> nat \<Rightarrow> race_state \<Rightarrow> race_state outcome option" where
  "call_send pick data c ra =
     (if ra_calls ra c = Some Stored
      then map_option (\<lambda>(s, res). Ok (ra\<lparr>ra_mh := s, ra_calls := (ra_calls ra)(c := None)\<rparr>))
             (finish_request pick (GInt64 (of_nat (Suc c))) c data (ra_mh ra))
      else None)"

text \<open>The call of a request that cannot be encoded.\<close>

definition call_drop :: "nat \<Rightarrow> race_state \<Rightarrow> race_state outcome option" where
  "call_drop c ra =
     (if ra_calls ra c = Some Stored
      then Some (Ok (ra\<lparr>ra_mh := removePendingRequest (GInt64 (of_nat (Suc c))) (ra_mh ra), ra_calls := (ra_calls ra)(c := None)\<rparr>))
      else None)"

text \<open>\<open>Close\<close> holds the lock while it closes the channels.\<close>

definition close_all :: "gval list \<Rightarrow> race_state \<Rightarrow> race_state outcome option" where
  "close_all ks ra = Some (with_mh ra (MessageHandler_Close ks (ra_mh ra)) (\<lambda>s. ra\<lparr>ra_mh := s\<rparr>))"

fun run_piece :: "(float64 \<Rightarrow> int64) \<Rightarrow> piece \<Rightarrow> race_state \<Rightarrow> race_state outcome option" where
  "run_piece oor Take ra = corr_take oor ra"
| "run_piece oor Offer ra = corr_offer ra"
| "run_piece oor CloseOffered ra = corr_close ra"
| "run_piece oor (Fire c) ra = timer_fires c ra"
| "run_piece oor (Remove c) ra = callback_removes c ra"
| "run_piece oor (CloseTimedOut c) ra = callback_closes c ra"
| "run_piece oor NewCall ra = call_new ra"
| "run_piece oor (StoreCall c) ra = call_store c ra"
| "run_piece oor (SendCall pick data c) ra = call_send pick data c ra"
| "run_piece oor (DropCall c) ra = call_drop c ra"
| "run_piece oor (CloseAll ks) ra = close_all ks ra"

text \<open>A run of pieces; a panic ends it.\<close>

fun run_pieces :: "(float64 \<Rightarrow> int64) \<Rightarrow> piece list \<Rightarrow> race_state \<Rightarrow> race_state outcome option" where
  "run_pieces oor [] ra = Some (Ok ra)"
| "run_pieces oor (x # xs) ra =
     (case run_piece oor x ra of Some (Ok ra') \<Rightarrow> run_pieces oor xs ra' | other \<Rightarrow> other)"

text \<open>The loop of \<open>Close\<close> visits every pending request; fewer than \<open>2\<^sup>6\<^sup>4\<close> calls are made.\<close>

definition allowed :: "race_state \<Rightarrow> piece \<Rightarrow> bool" where
  "allowed ra x \<longleftrightarrow> (\<forall>ks. x = CloseAll ks \<longrightarrow> range_order (mh_pendingRequests (ra_mh ra)) ks) \<and>
     (x = NewCall \<longrightarrow> Suc (length (mh_chans (ra_mh ra))) < 2 ^ 64)"

definition race_start :: "mh_state \<Rightarrow> race_state" where
  "race_start s = \<lparr>ra_mh = s, ra_corr = Receives, ra_callbacks = Map.empty, ra_calls = Map.empty, ra_fired = {}\<rparr>"

inductive race_reachable :: "(float64 \<Rightarrow> int64) \<Rightarrow> race_state \<Rightarrow> bool" for oor where
  start: "NewMessageHandler ctx config = Ok s \<Longrightarrow> race_reachable oor (race_start s)"
| piece: "race_reachable oor ra \<Longrightarrow> allowed ra x \<Longrightarrow> run_piece oor x ra = Some (Ok ra') \<Longrightarrow> race_reachable oor ra'"
| other: "race_reachable oor ra \<Longrightarrow> same_calls (ra_mh ra) s \<Longrightarrow> race_reachable oor (ra\<lparr>ra_mh := s\<rparr>)"
| read: "race_reachable oor ra \<Longrightarrow> c < length (mh_chans (ra_mh ra)) \<Longrightarrow>
    race_reachable oor (ra\<lparr>ra_mh := chan_update c (\<lambda>ch. ch\<lparr>rc_buf := []\<rparr>) (ra_mh ra)\<rparr>)"

section \<open>Lemmas\<close>

named_theorems race_simps "definitions of the pieces"

lemmas [race_simps] = corr_take_def corr_offer_def corr_close_def timer_fires_def callback_removes_def callback_closes_def
  call_new_def call_store_def call_send_def call_drop_def close_all_def with_mh_def

text \<open>Run without interruption, the pieces are the operations of \<open>Message_Handler\<close>.\<close>

lemma correlate_pieces:
  assumes "ra_corr ra = Receives" and "mh_responseChan (ra_mh ra) = r # rest"
    and "find_pending oor r ((ra_mh ra)\<lparr>mh_responseChan := rest\<rparr>) \<noteq> None"
  shows "run_pieces oor [Take, Offer, CloseOffered] ra =
    Some (with_mh ra (correlateResponse oor r ((ra_mh ra)\<lparr>mh_responseChan := rest\<rparr>)) (\<lambda>s. ra\<lparr>ra_mh := s\<rparr>))"
proof (cases "hashable (resp_ID r)")
  case True
  obtain p r' where f: "find_pending oor r ((ra_mh ra)\<lparr>mh_responseChan := rest\<rparr>) = Some (p, r')" using assms(3) by auto
  let ?s = "ctx_cancel (pend_Response p) (timer_stop (pend_Response p) (take_pending p ((ra_mh ra)\<lparr>mh_responseChan := rest\<rparr>)))"
  show ?thesis
  proof (cases "chan_offer (pend_Response p) r' ?s")
    case (Ok s)
    then show ?thesis using assms(1,2) True f
      by (cases "chan_close (pend_Response p) s") (simp_all add: race_simps correlateResponse_def deliver_def)
  qed (use assms(1,2) True f in \<open>simp_all add: race_simps correlateResponse_def deliver_def\<close>)
qed (use assms(1,2) in \<open>simp add: race_simps correlateResponse_def\<close>)

lemma timeout_pieces:
  assumes "mh_timers (ra_mh ra) c = Some ident" and "ra_callbacks ra c = None"
  shows "run_pieces oor [Fire c, Remove c, CloseTimedOut c] ra =
    Some (with_mh ra (timeout_callback ident c (timer_stop c (ra_mh ra))) (\<lambda>s. ra\<lparr>ra_mh := s, ra_fired := insert c (ra_fired ra)\<rparr>))"
proof -
  have "(ra_callbacks ra)(c := None) = ra_callbacks ra" using assms(2) by auto
  then show ?thesis using assms
    by (cases "timeout_callback ident c (timer_stop c (ra_mh ra))") (simp_all add: race_simps timeout_callback_def)
qed


subsection \<open>The invariant\<close>

fun handled :: "corr \<Rightarrow> pending_request option" where
  "handled Receives = None"
| "handled (Took p r) = Some p"
| "handled (Offered p) = Some p"

definition pend_for :: "nat \<Rightarrow> pending_request" where
  "pend_for c = \<lparr>pend_ID = ident_of c, pend_Response = c\<rparr>"

text \<open>
  While the timer of a request has not fired, its channel has one owner: the call that makes it, the map, or the
  correlation of its response.
\<close>

definition owned :: "race_state \<Rightarrow> nat \<Rightarrow> bool" where
  "owned ra c \<longleftrightarrow>
     (ra_calls ra c = Some Unstored \<longrightarrow> mh_pendingRequests (ra_mh ra) (ident_of c) = None \<and>
        handled (ra_corr ra) \<noteq> Some (pend_for c) \<and> mh_chans (ra_mh ra) ! c = fresh_chan) \<and>
     (mh_pendingRequests (ra_mh ra) (ident_of c) \<noteq> None \<longrightarrow>
        handled (ra_corr ra) \<noteq> Some (pend_for c) \<and> mh_chans (ra_mh ra) ! c = fresh_chan) \<and>
     (handled (ra_corr ra) = Some (pend_for c) \<longrightarrow> \<not> rc_closed (mh_chans (ra_mh ra) ! c))"

definition own_answer :: "nat \<Rightarrow> rchan \<Rightarrow> bool" where
  "own_answer c ch \<longleftrightarrow> rc_buf ch = [] \<or> (\<exists>r. rc_buf ch = [r] \<and> resp_ID r = ident_of c)"

definition race_inv :: "race_state \<Rightarrow> bool" where
  "race_inv ra \<longleftrightarrow> mh_counter (ra_mh ra) = of_nat (length (mh_chans (ra_mh ra))) \<and> length (mh_chans (ra_mh ra)) < 2 ^ 64 \<and>
     (\<forall>k p. mh_pendingRequests (ra_mh ra) k = Some p \<longrightarrow> (\<exists>c < length (mh_chans (ra_mh ra)). k = ident_of c \<and> p = pend_for c)) \<and>
     (\<forall>p. handled (ra_corr ra) = Some p \<longrightarrow> (\<exists>c < length (mh_chans (ra_mh ra)). p = pend_for c)) \<and>
     (\<forall>p r. ra_corr ra = Took p r \<longrightarrow> resp_ID r = pend_ID p) \<and>
     (\<forall>c k. mh_timers (ra_mh ra) c = Some k \<longrightarrow> c < length (mh_chans (ra_mh ra)) \<and> k = ident_of c) \<and>
     (\<forall>c cb. ra_callbacks ra c = Some cb \<longrightarrow> c < length (mh_chans (ra_mh ra)) \<and> c \<in> ra_fired ra \<and> (\<forall>k. cb = Counted k \<longrightarrow> k = ident_of c)) \<and>
     (\<forall>c. ra_calls ra c \<noteq> None \<longrightarrow> c < length (mh_chans (ra_mh ra))) \<and>
     (\<forall>c < length (mh_chans (ra_mh ra)). own_answer c (mh_chans (ra_mh ra) ! c) \<and> (c \<notin> ra_fired ra \<longrightarrow> owned ra c))"

lemma pend_for_simps [simp]:
  "pend_ID (pend_for c) = ident_of c" "pend_Response (pend_for c) = c" "pend_for c = pend_for c' \<longleftrightarrow> c = c'"
  by (auto simp: pend_for_def)

lemma race_inv_ident:
  "race_inv ra \<Longrightarrow> c < length (mh_chans (ra_mh ra)) \<Longrightarrow> c' < length (mh_chans (ra_mh ra)) \<Longrightarrow> ident_of c = ident_of c' \<longleftrightarrow> c = c'"
  using ident_of_inject by (simp add: race_inv_def)

lemma race_inv_pending:
  "race_inv ra \<Longrightarrow> mh_pendingRequests (ra_mh ra) k = Some p \<Longrightarrow>
   \<exists>c < length (mh_chans (ra_mh ra)). k = ident_of c \<and> p = pend_for c"
  "race_inv ra \<Longrightarrow> handled (ra_corr ra) = Some p \<Longrightarrow> \<exists>c < length (mh_chans (ra_mh ra)). p = pend_for c"
  by (simp_all add: race_inv_def)

lemma take_inv:
  assumes inv: "race_inv ra" and step: "corr_take oor ra = Some (Ok ra')"
  shows "race_inv ra'"
proof -
  obtain r rest where r: "ra_corr ra = Receives" "mh_responseChan (ra_mh ra) = r # rest"
    using step by (auto simp: corr_take_def split: corr.splits list.splits)
  let ?s = "(ra_mh ra)\<lparr>mh_responseChan := rest\<rparr>"
  show ?thesis
  proof (cases "find_pending oor r ?s")
    case None
    then have "ra' = ra\<lparr>ra_mh := ?s\<rparr>" using step r None by (auto simp: corr_take_def Let_def split: if_splits)
    then show ?thesis using inv by (simp add: race_inv_def owned_def)
  next
    case (Some pr)
    then obtain p r' where f: "find_pending oor r ?s = Some (p, r')" by (cases pr) auto
    have ra': "ra' = ra\<lparr>ra_mh := take_pending p ?s, ra_corr := Took p r'\<rparr>" using step r f by (auto simp: corr_take_def Let_def split: if_splits)
    have m: "mh_pendingRequests (ra_mh ra) (resp_ID r') = Some p"
      using f by (auto simp: find_pending_def Let_def split: option.splits gval.splits)
    then obtain c where c: "c < length (mh_chans (ra_mh ra))" "resp_ID r' = ident_of c" "p = pend_for c"
      using inv by (auto simp: race_inv_def)
    have "owned ra' c'" if "c' < length (mh_chans (ra_mh ra))" "c' \<notin> ra_fired ra" for c'
    proof -
      have "owned ra c'" using inv that by (simp add: race_inv_def)
      moreover have "pend_ID p = ident_of c" "mh_pendingRequests (ra_mh ra) (ident_of c) = Some p" using m c by simp_all
      moreover have "c' = c \<longleftrightarrow> ident_of c' = ident_of c" using race_inv_ident [OF inv that(1) c(1)] by blast
      ultimately show ?thesis using r(1) c(3)
        by (cases "c' = c") (simp_all add: owned_def ra' take_pending_def fresh_chan_def)
    qed
    then show ?thesis using inv c by (simp add: race_inv_def ra' take_pending_def)
  qed
qed

lemma chan_length [simp]: "length (mh_chans (chan_update c f s)) = length (mh_chans s)"
  by (simp add: chan_update_def)

text \<open>Pieces that change one channel, and leave the map alone or take its request out.\<close>

lemma race_inv_chan:
  assumes inv: "race_inv ra" and c: "c < length (mh_chans (ra_mh ra))" and ch: "own_answer c ch"
    and same: "mh_counter s = mh_counter (ra_mh ra)" "mh_chans s = (mh_chans (ra_mh ra))[c := ch]"
    and pend: "mh_pendingRequests s = mh_pendingRequests (ra_mh ra) \<or>
      mh_pendingRequests s = (mh_pendingRequests (ra_mh ra))(ident_of c := None)"
    and timers: "\<And>c k. mh_timers s c = Some k \<Longrightarrow> mh_timers (ra_mh ra) c = Some k"
    and corr: "handled cr = handled (ra_corr ra) \<or> handled cr = None" "\<And>p r. cr = Took p r \<Longrightarrow> ra_corr ra = Took p r"
    and cbs: "\<And>c cb. cbs c = Some cb \<Longrightarrow> (\<exists>cb'. ra_callbacks ra c = Some cb') \<and> (\<forall>k. cb = Counted k \<longrightarrow> ra_callbacks ra c = Some cb)"
    and calls: "\<And>c. calls c \<noteq> None \<Longrightarrow> calls c = ra_calls ra c"
    and own: "c \<notin> ra_fired ra \<Longrightarrow> owned (ra\<lparr>ra_mh := s, ra_corr := cr, ra_callbacks := cbs, ra_calls := calls\<rparr>) c"
  shows "race_inv (ra\<lparr>ra_mh := s, ra_corr := cr, ra_callbacks := cbs, ra_calls := calls\<rparr>)"
proof -
  let ?ra = "ra\<lparr>ra_mh := s, ra_corr := cr, ra_callbacks := cbs, ra_calls := calls\<rparr>"
  have other: "mh_pendingRequests s (ident_of c') = mh_pendingRequests (ra_mh ra) (ident_of c')"
    if "c' < length (mh_chans (ra_mh ra))" "c' \<noteq> c" for c'
    using pend race_inv_ident [OF inv that(1) c] that(2) by auto
  have "owned ?ra c'" if "c' < length (mh_chans (ra_mh ra))" "c' \<notin> ra_fired ra" for c'
  proof (cases "c' = c")
    case False
    have "owned ra c'" using inv that by (simp add: race_inv_def)
    moreover have "calls c' = Some Unstored \<Longrightarrow> ra_calls ra c' = Some Unstored" using calls [of c'] by simp
    ultimately show ?thesis using corr(1) other [OF that(1) False] False same(2) by (auto simp: owned_def)
  qed (use own that in simp)
  moreover have "own_answer c' (mh_chans s ! c')" if "c' < length (mh_chans (ra_mh ra))" for c'
    using inv that ch c by (cases "c' = c") (simp_all add: race_inv_def same(2))
  moreover have "\<exists>c < length (mh_chans (ra_mh ra)). k = ident_of c \<and> p = pend_for c" if "mh_pendingRequests s k = Some p" for k p
  proof -
    have "mh_pendingRequests (ra_mh ra) k = Some p" using pend that by (auto split: if_splits)
    then show ?thesis using inv by (simp add: race_inv_def)
  qed
  moreover have "\<exists>c < length (mh_chans (ra_mh ra)). p = pend_for c" if "handled cr = Some p" for p
    using corr(1) that inv by (auto simp: race_inv_def)
  moreover have "c' < length (mh_chans (ra_mh ra)) \<and> c' \<in> ra_fired ra \<and> (\<forall>k. cb = Counted k \<longrightarrow> k = ident_of c')"
    if "cbs c' = Some cb" for c' cb
    using cbs [OF that] inv by (fastforce simp: race_inv_def)
  moreover have "c' < length (mh_chans (ra_mh ra))" if "calls c' \<noteq> None" for c'
    using calls [OF that] that inv by (simp add: race_inv_def)
  moreover have "resp_ID r = pend_ID p" if "cr = Took p r" for p r using corr(2) [OF that] inv by (simp add: race_inv_def)
  moreover have "c' < length (mh_chans (ra_mh ra)) \<and> k = ident_of c'" if "mh_timers s c' = Some k" for c' k
    using timers [OF that] inv by (simp add: race_inv_def)
  ultimately show ?thesis using inv by (simp add: race_inv_def same)
qed


lemma ident_GInt64: "GInt64 (of_nat (Suc c)) = ident_of c"
  by (simp add: ident_of_def)

lemma removes_effect:
  assumes inv: "race_inv ra" and c: "c < length (mh_chans (ra_mh ra))"
  shows "\<exists>ch. mh_counter (removePendingRequest (ident_of c) (ra_mh ra)) = mh_counter (ra_mh ra) \<and>
    mh_chans (removePendingRequest (ident_of c) (ra_mh ra)) = (mh_chans (ra_mh ra))[c := ch] \<and>
    mh_pendingRequests (removePendingRequest (ident_of c) (ra_mh ra)) = (mh_pendingRequests (ra_mh ra))(ident_of c := None) \<and>
    (\<forall>c' k. mh_timers (removePendingRequest (ident_of c) (ra_mh ra)) c' = Some k \<longrightarrow> mh_timers (ra_mh ra) c' = Some k) \<and>
    own_answer c ch \<and> rc_closed ch = rc_closed (mh_chans (ra_mh ra) ! c) \<and>
    (mh_pendingRequests (ra_mh ra) (ident_of c) = None \<longrightarrow> ch = mh_chans (ra_mh ra) ! c)"
proof -
  have own: "own_answer c (mh_chans (ra_mh ra) ! c)" using inv c by (simp add: race_inv_def)
  show ?thesis
  proof (cases "mh_pendingRequests (ra_mh ra) (ident_of c)")
    case None
    then have "(mh_pendingRequests (ra_mh ra))(ident_of c := None) = mh_pendingRequests (ra_mh ra)" by auto
    then show ?thesis using None own by (intro exI [of _ "mh_chans (ra_mh ra) ! c"]) (simp add: removePendingRequest_def)
  next
    case (Some p)
    then obtain c' where c': "c' < length (mh_chans (ra_mh ra))" "ident_of c = ident_of c'" "p = pend_for c'"
      using inv by (force simp: race_inv_def)
    then have "p = pend_for c" using race_inv_ident [OF inv c c'(1)] by simp
    then show ?thesis using Some own
      by (intro exI [of _ "(mh_chans (ra_mh ra) ! c)\<lparr>rc_cancelled := True\<rparr>"])
        (simp add: removePendingRequest_def mh_simps own_answer_def)
  qed
qed

lemma removal_inv:
  assumes inv: "race_inv ra" and c: "c < length (mh_chans (ra_mh ra))"
    and cbs: "\<And>c cb. cbs c = Some cb \<Longrightarrow> (\<exists>cb'. ra_callbacks ra c = Some cb') \<and> (\<forall>k. cb = Counted k \<longrightarrow> ra_callbacks ra c = Some cb)"
    and calls: "\<And>c. calls c \<noteq> None \<Longrightarrow> calls c = ra_calls ra c"
  shows "race_inv (ra\<lparr>ra_mh := removePendingRequest (ident_of c) (ra_mh ra), ra_callbacks := cbs, ra_calls := calls\<rparr>)"
proof -
  obtain ch where ch: "mh_counter (removePendingRequest (ident_of c) (ra_mh ra)) = mh_counter (ra_mh ra)"
    "mh_chans (removePendingRequest (ident_of c) (ra_mh ra)) = (mh_chans (ra_mh ra))[c := ch]"
    "mh_pendingRequests (removePendingRequest (ident_of c) (ra_mh ra)) = (mh_pendingRequests (ra_mh ra))(ident_of c := None)"
    "\<forall>c' k. mh_timers (removePendingRequest (ident_of c) (ra_mh ra)) c' = Some k \<longrightarrow> mh_timers (ra_mh ra) c' = Some k"
    "own_answer c ch" "rc_closed ch = rc_closed (mh_chans (ra_mh ra) ! c)"
    "mh_pendingRequests (ra_mh ra) (ident_of c) = None \<longrightarrow> ch = mh_chans (ra_mh ra) ! c"
    using removes_effect [OF inv c] by (elim exE conjE) (rule that; assumption)
  let ?ra = "ra\<lparr>ra_mh := removePendingRequest (ident_of c) (ra_mh ra), ra_corr := ra_corr ra, ra_callbacks := cbs, ra_calls := calls\<rparr>"
  have "owned ?ra c" if "c \<notin> ra_fired ra"
  proof -
    have "owned ra c" using inv c that by (simp add: race_inv_def)
    moreover have "calls c = Some Unstored \<Longrightarrow> ra_calls ra c = Some Unstored" using calls [of c] by simp
    ultimately show ?thesis using ch(2,3,6,7) c by (auto simp: owned_def)
  qed
  then have "race_inv ?ra" by (intro race_inv_chan [OF inv c ch(5,1,2) _ ch(4) [rule_format] _ _ cbs calls]) (use ch(3) in simp_all)
  then show ?thesis by simp
qed

lemma offer_inv:
  assumes inv: "race_inv ra" and step: "corr_offer ra = Some (Ok ra')"
  shows "race_inv ra'"
proof -
  obtain p r where corr: "ra_corr ra = Took p r" using step by (auto simp: corr_offer_def split: corr.splits)
  then obtain c where c: "c < length (mh_chans (ra_mh ra))" "p = pend_for c" "resp_ID r = ident_of c"
    using inv by (auto simp: race_inv_def)
  let ?old = "mh_chans (ra_mh ra) ! c"
  let ?ch = "if rc_buf ?old = [] then ?old\<lparr>rc_cancelled := True, rc_buf := [r]\<rparr> else ?old\<lparr>rc_cancelled := True\<rparr>"
  have own: "own_answer c ?old" using inv c(1) by (simp add: race_inv_def)
  obtain s where s: "ra' = ra\<lparr>ra_mh := s, ra_corr := Offered p\<rparr>" "mh_counter s = mh_counter (ra_mh ra)"
    "mh_pendingRequests s = mh_pendingRequests (ra_mh ra)" "mh_timers s = (mh_timers (ra_mh ra))(c := None)"
    "mh_chans s = (mh_chans (ra_mh ra))[c := ?ch]"
    using step corr c(1,2) by (auto simp: race_simps mh_simps split: if_splits)
  let ?ra = "ra\<lparr>ra_mh := s, ra_corr := Offered p, ra_callbacks := ra_callbacks ra, ra_calls := ra_calls ra\<rparr>"
  have "owned ?ra c" if "c \<notin> ra_fired ra"
  proof -
    have "owned ra c" using inv c that by (simp add: race_inv_def)
    then show ?thesis using corr c s(3,5) by (auto simp: owned_def)
  qed
  then have "race_inv ?ra"
    by (intro race_inv_chan [OF inv c(1) _ s(2,5)]) (use s(3,4) corr c(3) own in \<open>auto simp: own_answer_def split: if_splits\<close>)
  then show ?thesis using s(1) by simp
qed

lemma closing_inv:
  assumes inv: "race_inv ra" and c: "c < length (mh_chans (ra_mh ra))"
    and close: "chan_close c s0 = Ok s" "mh_counter s0 = mh_counter (ra_mh ra)" "mh_timers s0 = mh_timers (ra_mh ra)"
      "mh_pendingRequests s0 = mh_pendingRequests (ra_mh ra)" "mh_chans s0 = (mh_chans (ra_mh ra))[c := ch0]"
      "rc_buf ch0 = rc_buf (mh_chans (ra_mh ra) ! c)"
    and corr: "cr = ra_corr ra \<or> cr = Receives"
    and cbs: "\<And>c cb. cbs c = Some cb \<Longrightarrow> ra_callbacks ra c = Some cb"
    and lost: "c \<notin> ra_fired ra \<Longrightarrow> handled (ra_corr ra) = Some (pend_for c) \<and> cr = Receives"
  shows "race_inv (ra\<lparr>ra_mh := s, ra_corr := cr, ra_callbacks := cbs\<rparr>)"
proof -
  let ?ch = "ch0\<lparr>rc_closed := True\<rparr>"
  have s: "mh_counter s = mh_counter (ra_mh ra)" "mh_timers s = mh_timers (ra_mh ra)"
    "mh_pendingRequests s = mh_pendingRequests (ra_mh ra)" "mh_chans s = (mh_chans (ra_mh ra))[c := ?ch]"
    using close c by (auto simp: mh_simps split: if_splits)
  have own: "own_answer c (mh_chans (ra_mh ra) ! c)" using inv c by (simp add: race_inv_def)
  let ?ra = "ra\<lparr>ra_mh := s, ra_corr := cr, ra_callbacks := cbs, ra_calls := ra_calls ra\<rparr>"
  have "owned ?ra c" if "c \<notin> ra_fired ra"
  proof -
    have "owned ra c" using inv c that by (simp add: race_inv_def)
    then show ?thesis using lost [OF that] s(3) by (auto simp: owned_def)
  qed
  then have "race_inv ?ra"
    by (intro race_inv_chan [OF inv c _ s(1,4)]) (use s(2,3) own corr cbs close(6) in \<open>auto simp: own_answer_def\<close>)
  then show ?thesis by simp
qed


lemma fire_inv:
  assumes inv: "race_inv ra" and step: "timer_fires c ra = Some (Ok ra')"
  shows "race_inv ra'"
proof -
  obtain k where k: "mh_timers (ra_mh ra) c = Some k" using step by (auto simp: timer_fires_def)
  then have c: "c < length (mh_chans (ra_mh ra))" "k = ident_of c" using inv by (auto simp: race_inv_def)
  let ?s = "(ra_mh ra)\<lparr>mh_timers := (mh_timers (ra_mh ra))(c := None),
      mh_stats := (mh_stats (ra_mh ra))\<lparr>ms_Timeouts := ms_Timeouts (mh_stats (ra_mh ra)) + 1\<rparr>\<rparr>"
  have ra': "ra' = ra\<lparr>ra_mh := ?s, ra_callbacks := (ra_callbacks ra)(c \<mapsto> Counted k), ra_fired := insert c (ra_fired ra)\<rparr>"
    using step k by (simp add: timer_fires_def mh_simps)
  have "owned ra' c' = owned ra c'" for c' by (simp add: ra' owned_def)
  then show ?thesis using inv c by (simp add: race_inv_def ra')
qed

lemma new_inv:
  assumes inv: "race_inv ra" and step: "call_new ra = Some (Ok ra')" and room: "Suc (length (mh_chans (ra_mh ra))) < 2 ^ 64"
  shows "race_inv ra'"
proof -
  let ?n = "length (mh_chans (ra_mh ra))"
  have ident: "GInt64 (mh_counter (ra_mh ra) + 1) = ident_of ?n" using inv by (simp add: race_inv_def ident_of_def add.commute)
  let ?s = "(ra_mh ra)\<lparr>mh_counter := mh_counter (ra_mh ra) + 1, mh_chans := mh_chans (ra_mh ra) @ [fresh_chan],
      mh_timers := (mh_timers (ra_mh ra))(?n \<mapsto> ident_of ?n)\<rparr>"
  have ra': "ra' = ra\<lparr>ra_mh := ?s, ra_calls := (ra_calls ra)(?n \<mapsto> Unstored)\<rparr>"
    using step ident by (auto simp: call_new_def new_call_def RequestID_Next_def Let_def fresh_chan_def split: if_splits)
  have free: "mh_pendingRequests (ra_mh ra) (ident_of ?n) = None"
  proof (rule ccontr)
    assume "mh_pendingRequests (ra_mh ra) (ident_of ?n) \<noteq> None"
    then obtain c where "c < ?n" "ident_of ?n = ident_of c" using race_inv_pending(1) [OF inv] by blast
    then show False using ident_of_inject [of ?n c] room by simp
  qed
  have unheld: "handled (ra_corr ra) \<noteq> Some (pend_for ?n)" using race_inv_pending(2) [OF inv] by fastforce
  have f: "mh_counter (ra_mh ra') = of_nat (Suc ?n)" "mh_chans (ra_mh ra') = mh_chans (ra_mh ra) @ [fresh_chan]"
    "mh_pendingRequests (ra_mh ra') = mh_pendingRequests (ra_mh ra)" "ra_corr ra' = ra_corr ra" "ra_fired ra' = ra_fired ra"
    "mh_timers (ra_mh ra') = (mh_timers (ra_mh ra))(?n \<mapsto> ident_of ?n)" "ra_callbacks ra' = ra_callbacks ra"
    "ra_calls ra' = (ra_calls ra)(?n \<mapsto> Unstored)" "length (mh_chans (ra_mh ra')) = Suc ?n"
    using inv by (simp_all add: ra' race_inv_def add.commute)
  have old: "own_answer c (mh_chans (ra_mh ra) ! c) \<and> (c \<notin> ra_fired ra \<longrightarrow> owned ra c)" if "c < ?n" for c
    using inv that by (simp add: race_inv_def)
  have chans: "own_answer c (mh_chans (ra_mh ra') ! c) \<and> (c \<notin> ra_fired ra' \<longrightarrow> owned ra' c)" if "c < Suc ?n" for c
  proof (cases "c = ?n")
    case True
    then show ?thesis using free unheld f by (simp add: owned_def own_answer_def fresh_chan_def)
  next
    case False
    then show ?thesis using old [of c] that f by (simp add: owned_def nth_append)
  qed
  have pend: "\<exists>c < Suc ?n. k = ident_of c \<and> p = pend_for c" if m: "mh_pendingRequests (ra_mh ra) k = Some p" for k p
    using race_inv_pending(1) [OF inv m] less_SucI by blast
  have held: "\<exists>c < Suc ?n. p = pend_for c" if h: "handled (ra_corr ra) = Some p" for p
    using race_inv_pending(2) [OF inv h] less_SucI by blast
  have timers: "c < Suc ?n \<and> k = ident_of c" if "mh_timers (ra_mh ra') c = Some k" for c k
    using inv that by (cases "c = ?n") (simp_all add: race_inv_def f(6) less_SucI)
  have cbs: "c < Suc ?n \<and> c \<in> ra_fired ra \<and> (\<forall>k. cb = Counted k \<longrightarrow> k = ident_of c)" if "ra_callbacks ra c = Some cb" for c cb
    using inv that by (simp add: race_inv_def less_SucI)
  have calls: "c < Suc ?n" if "ra_calls ra' c \<noteq> None" for c
    using inv that by (cases "c = ?n") (simp_all add: race_inv_def f(8) less_SucI)
  have took: "resp_ID r = pend_ID p" if "ra_corr ra = Took p r" for p r using inv that by (simp add: race_inv_def)
  show ?thesis unfolding race_inv_def f(9) using f(1) room pend held timers cbs calls took chans unfolding f(3,4,5,7) by blast
qed

lemma store_inv:
  assumes inv: "race_inv ra" and step: "call_store c ra = Some (Ok ra')"
  shows "race_inv ra'"
proof -
  have u: "ra_calls ra c = Some Unstored" using step by (simp add: call_store_def split: if_splits)
  then have c: "c < length (mh_chans (ra_mh ra))" using inv by (auto simp: race_inv_def)
  let ?s = "(ra_mh ra)\<lparr>mh_pendingRequests := (mh_pendingRequests (ra_mh ra))(ident_of c \<mapsto> pend_for c)\<rparr>"
  have ra': "ra' = ra\<lparr>ra_mh := ?s, ra_calls := (ra_calls ra)(c \<mapsto> Stored)\<rparr>"
    using step u by (auto simp: call_store_def store_pending_def ident_GInt64 pend_for_def simp del: of_nat_Suc)
  have "owned ra' c'" if "c' < length (mh_chans (ra_mh ra))" "c' \<notin> ra_fired ra" for c'
  proof -
    have "owned ra c'" using inv that by (simp add: race_inv_def)
    moreover have "ident_of c' = ident_of c \<longleftrightarrow> c' = c" using race_inv_ident [OF inv that(1) c] .
    ultimately show ?thesis using u by (cases "c' = c") (auto simp: ra' owned_def)
  qed
  moreover have "\<exists>c < length (mh_chans (ra_mh ra)). k = ident_of c \<and> p = pend_for c"
    if "((mh_pendingRequests (ra_mh ra))(ident_of c \<mapsto> pend_for c)) k = Some p" for k p
  proof (cases "k = ident_of c")
    case True
    then show ?thesis using c that by auto
  next
    case False
    then show ?thesis using inv that by (simp add: race_inv_def)
  qed
  ultimately show ?thesis using inv c by (simp add: race_inv_def ra')
qed

lemma send_inv:
  assumes inv: "race_inv ra" and step: "call_send pick data c ra = Some (Ok ra')"
  shows "race_inv ra'"
proof -
  have u: "ra_calls ra c = Some Stored" using step by (simp add: call_send_def split: if_splits)
  then have c: "c < length (mh_chans (ra_mh ra))" using inv by (auto simp: race_inv_def)
  obtain s res where s: "finish_request pick (ident_of c) c data (ra_mh ra) = Some (s, res)"
    "ra' = ra\<lparr>ra_mh := s, ra_calls := (ra_calls ra)(c := None)\<rparr>"
    using step u by (auto simp: call_send_def ident_GInt64 simp del: of_nat_Suc)
  consider "s = removePendingRequest (ident_of c) (ra_mh ra)" | "same_calls (ra_mh ra) s"
    using s(1) by (auto simp: finish_request_def same_calls_def stats_update_def split: select_result.splits)
  then show ?thesis
  proof cases
    case 1
    have "race_inv (ra\<lparr>ra_mh := removePendingRequest (ident_of c) (ra_mh ra), ra_callbacks := ra_callbacks ra,
        ra_calls := (ra_calls ra)(c := None)\<rparr>)"
      by (rule removal_inv [OF inv c]) (auto split: if_splits)
    then show ?thesis using s(2) 1 by simp
  next
    case 2
    then show ?thesis using inv by (auto simp: race_inv_def s(2) same_calls_def owned_def split: if_splits)
  qed
qed

lemma drop_inv:
  assumes inv: "race_inv ra" and step: "call_drop c ra = Some (Ok ra')"
  shows "race_inv ra'"
proof -
  have u: "ra_calls ra c = Some Stored" using step by (simp add: call_drop_def split: if_splits)
  then have c: "c < length (mh_chans (ra_mh ra))" using inv by (auto simp: race_inv_def)
  have "race_inv (ra\<lparr>ra_mh := removePendingRequest (ident_of c) (ra_mh ra), ra_callbacks := ra_callbacks ra,
      ra_calls := (ra_calls ra)(c := None)\<rparr>)"
    by (rule removal_inv [OF inv c]) (auto split: if_splits)
  then show ?thesis using step u by (auto simp: call_drop_def ident_GInt64 simp del: of_nat_Suc)
qed

lemma remove_inv:
  assumes inv: "race_inv ra" and step: "callback_removes c ra = Some (Ok ra')"
  shows "race_inv ra'"
proof -
  obtain k where k: "ra_callbacks ra c = Some (Counted k)" using step by (auto simp: callback_removes_def split: option.splits callback.splits)
  then have c: "c < length (mh_chans (ra_mh ra))" "k = ident_of c" using inv by (auto simp: race_inv_def)
  have "race_inv (ra\<lparr>ra_mh := removePendingRequest (ident_of c) (ra_mh ra), ra_callbacks := (ra_callbacks ra)(c \<mapsto> Removed),
      ra_calls := ra_calls ra\<rparr>)"
    by (rule removal_inv [OF inv c(1)]) (use k in \<open>auto split: if_splits\<close>)
  then show ?thesis using step k c(2) by (simp add: callback_removes_def)
qed


lemma close_pending_chans:
  "close_pending ps s = Ok s' \<Longrightarrow>
   mh_counter s' = mh_counter s \<and> mh_pendingRequests s' = mh_pendingRequests s \<and> length (mh_chans s') = length (mh_chans s) \<and>
   (\<forall>c. c \<notin> pend_Response ` set ps \<longrightarrow> mh_chans s' ! c = mh_chans s ! c) \<and>
   (\<forall>c < length (mh_chans s). rc_buf (mh_chans s' ! c) = rc_buf (mh_chans s ! c)) \<and>
   (\<forall>c k. mh_timers s' c = Some k \<longrightarrow> mh_timers s c = Some k)"
proof (induction ps arbitrary: s)
  case (Cons p ps)
  let ?c = "pend_Response p"
  let ?s1 = "s\<lparr>mh_timers := (mh_timers s)(?c := None),
      mh_chans := (mh_chans s)[?c := (mh_chans s ! ?c)\<lparr>rc_cancelled := True, rc_closed := True\<rparr>]\<rparr>"
  have s1: "close_pending ps ?s1 = Ok s'"
    using Cons.prems by (cases "?c < length (mh_chans s)") (simp_all add: mh_simps list_update_beyond split: if_splits)
  have "rc_buf (mh_chans ?s1 ! c) = rc_buf (mh_chans s ! c)" for c
    by (cases "?c < length (mh_chans s)"; cases "c = ?c"; simp add: list_update_beyond)
  then show ?case using Cons.IH [OF s1] by (auto split: if_splits) (metis option.discI)
qed simp

definition pending_chans :: "gval list \<Rightarrow> race_state \<Rightarrow> pending_request list" where
  "pending_chans ks ra = range_values (mh_pendingRequests (ra_mh ra)) ks"

lemma pending_chans_set:
  assumes "race_inv ra" and "range_order (mh_pendingRequests (ra_mh ra)) ks" and "p \<in> set (pending_chans ks ra)"
  shows "\<exists>c < length (mh_chans (ra_mh ra)). p = pend_for c \<and> mh_pendingRequests (ra_mh ra) (ident_of c) = Some p"
proof -
  obtain k where k: "mh_pendingRequests (ra_mh ra) k = Some p"
    using range_values_set [OF assms(2), of p] assms(3) by (auto simp: pending_chans_def)
  then obtain c where "c < length (mh_chans (ra_mh ra))" "k = ident_of c" "p = pend_for c"
    using race_inv_pending(1) [OF assms(1) k] by (elim exE conjE)
  then show ?thesis using k by (intro exI [of _ c]) simp
qed

lemma close_inv:
  assumes inv: "race_inv ra" and ro: "range_order (mh_pendingRequests (ra_mh ra)) ks" and step: "close_all ks ra = Some (Ok ra')"
  shows "race_inv ra'"
proof -
  let ?ps = "pending_chans ks ra"
  obtain s where s: "close_pending ?ps (cancel (ra_mh ra)) = Ok s" "ra' = ra\<lparr>ra_mh := s\<lparr>mh_pendingRequests := Map.empty\<rparr>\<rparr>"
    using step by (auto simp: close_all_def with_mh_def MessageHandler_Close_def pending_chans_def split: outcome.splits)
  have e: "mh_counter s = mh_counter (ra_mh ra)" "length (mh_chans s) = length (mh_chans (ra_mh ra))"
    "\<And>c. c \<notin> pend_Response ` set ?ps \<Longrightarrow> mh_chans s ! c = mh_chans (ra_mh ra) ! c"
    "\<And>c. c < length (mh_chans (ra_mh ra)) \<Longrightarrow> rc_buf (mh_chans s ! c) = rc_buf (mh_chans (ra_mh ra) ! c)"
    "\<And>c k. mh_timers s c = Some k \<Longrightarrow> mh_timers (ra_mh ra) c = Some k"
    using close_pending_chans [OF s(1)] by (simp_all add: cancel_def)
  have unchanged: "mh_chans s ! c = mh_chans (ra_mh ra) ! c" if "mh_pendingRequests (ra_mh ra) (ident_of c) = None" for c
    by (rule e(3)) (use pending_chans_set [OF inv ro] that in fastforce)
  have "own_answer c (mh_chans s ! c)" "c \<notin> ra_fired ra \<Longrightarrow> owned ra' c" if "c < length (mh_chans (ra_mh ra))" for c
  proof -
    have "own_answer c (mh_chans (ra_mh ra) ! c)" and o: "c \<notin> ra_fired ra \<Longrightarrow> owned ra c" using inv that by (simp_all add: race_inv_def)
    then show "own_answer c (mh_chans s ! c)" using e(4) [OF that] by (simp add: own_answer_def)
    show "owned ra' c" if "c \<notin> ra_fired ra"
      using o [OF that] unchanged [of c] by (auto simp: owned_def s(2))
  qed
  moreover have "mh_timers s c = Some k \<Longrightarrow> c < length (mh_chans (ra_mh ra)) \<and> k = ident_of c" for c k
    using e(5) inv by (simp add: race_inv_def)
  ultimately show ?thesis using inv by (simp add: race_inv_def s(2) e(1,2))
qed

lemma piece_inv:
  assumes inv: "race_inv ra" and ok: "allowed ra x" and step: "run_piece oor x ra = Some (Ok ra')"
  shows "race_inv ra'"
proof (cases x)
  case CloseOffered
  then obtain p where p: "ra_corr ra = Offered p" using step by (auto simp: corr_close_def split: corr.splits)
  then obtain c where c: "c < length (mh_chans (ra_mh ra))" "p = pend_for c" using race_inv_pending(2) [OF inv] by auto
  obtain s where s: "chan_close c (ra_mh ra) = Ok s" "ra' = ra\<lparr>ra_mh := s, ra_corr := Receives\<rparr>"
    using step CloseOffered p c(2) by (auto simp: corr_close_def with_mh_def split: outcome.splits)
  have "race_inv (ra\<lparr>ra_mh := s, ra_corr := Receives, ra_callbacks := ra_callbacks ra\<rparr>)"
    by (rule closing_inv [OF inv c(1) s(1), where ?ch0.0 = "mh_chans (ra_mh ra) ! c"]) (use p c(2) in simp_all)
  then show ?thesis using s(2) by simp
next
  case (CloseTimedOut c)
  then have r: "ra_callbacks ra c = Some Removed" using step by (auto simp: callback_closes_def split: option.splits callback.splits)
  then have c: "c < length (mh_chans (ra_mh ra))" "c \<in> ra_fired ra" using inv by (auto simp: race_inv_def)
  obtain s where s: "chan_close c (ctx_cancel c (ra_mh ra)) = Ok s" "ra' = ra\<lparr>ra_mh := s, ra_callbacks := (ra_callbacks ra)(c := None)\<rparr>"
    using step CloseTimedOut r by (auto simp: callback_closes_def with_mh_def split: outcome.splits)
  have "race_inv (ra\<lparr>ra_mh := s, ra_corr := ra_corr ra, ra_callbacks := (ra_callbacks ra)(c := None)\<rparr>)"
    by (rule closing_inv [OF inv c(1) s(1), where ?ch0.0 = "(mh_chans (ra_mh ra) ! c)\<lparr>rc_cancelled := True\<rparr>"])
      (use c(2) in \<open>auto simp: ctx_cancel_def chan_update_def split: if_splits\<close>)
  then show ?thesis using s(2) by simp
next
  case (CloseAll ks)
  then show ?thesis using close_inv [OF inv] ok step by (simp add: allowed_def)
next
  case NewCall
  then show ?thesis using new_inv [OF inv] ok step by (simp add: allowed_def)
next
  case Take
  then show ?thesis using take_inv [OF inv] step by simp
next
  case Offer
  then show ?thesis using offer_inv [OF inv] step by simp
next
  case (Fire c)
  then show ?thesis using fire_inv [OF inv] step by simp
next
  case (Remove c)
  then show ?thesis using remove_inv [OF inv] step by simp
next
  case (StoreCall c)
  then show ?thesis using store_inv [OF inv] step by simp
next
  case (SendCall pick data c)
  then show ?thesis using send_inv [OF inv] step by simp
next
  case (DropCall c)
  then show ?thesis using drop_inv [OF inv] step by simp
qed

lemma read_inv:
  assumes inv: "race_inv ra" and c: "c < length (mh_chans (ra_mh ra))"
  shows "race_inv (ra\<lparr>ra_mh := chan_update c (\<lambda>ch. ch\<lparr>rc_buf := []\<rparr>) (ra_mh ra)\<rparr>)"
proof -
  let ?s = "chan_update c (\<lambda>ch. ch\<lparr>rc_buf := []\<rparr>) (ra_mh ra)"
  have "owned ra c \<Longrightarrow> owned (ra\<lparr>ra_mh := ?s\<rparr>) c"
    using c by (auto simp: owned_def chan_update_def fresh_chan_def)
  moreover have "owned ra c" if "c \<notin> ra_fired ra" using inv c that by (simp add: race_inv_def)
  ultimately have "race_inv (ra\<lparr>ra_mh := ?s, ra_corr := ra_corr ra, ra_callbacks := ra_callbacks ra, ra_calls := ra_calls ra\<rparr>)"
    by (intro race_inv_chan [OF inv c, where ch = "(mh_chans (ra_mh ra) ! c)\<lparr>rc_buf := []\<rparr>"])
      (auto simp: chan_update_def own_answer_def)
  then show ?thesis by simp
qed

lemma race_reachable_inv: "race_reachable oor ra \<Longrightarrow> race_inv ra"
proof (induction rule: race_reachable.induct)
  case (start ctx config s)
  then show ?case by (auto simp: NewMessageHandler_def race_inv_def race_start_def Let_def split: if_splits)
next
  case (piece ra x ra')
  then show ?case using piece_inv by blast
next
  case (other ra s)
  then show ?case by (simp add: race_inv_def same_calls_def owned_def)
next
  case (read ra c)
  then show ?case using read_inv by blast
qed


subsection \<open>Panics\<close>

lemma distinct_race_chans:
  assumes inv: "race_inv ra" and ro: "range_order (mh_pendingRequests (ra_mh ra)) ks"
  shows "distinct (map pend_Response (pending_chans ks ra))"
proof -
  let ?m = "mh_pendingRequests (ra_mh ra)"
  have "inj_on (\<lambda>k. pend_Response (the (?m k))) (set ks)"
  proof (rule inj_onI)
    fix k k' assume k: "k \<in> set ks" "k' \<in> set ks" "pend_Response (the (?m k)) = pend_Response (the (?m k'))"
    then obtain p p' where p: "?m k = Some p" "?m k' = Some p'" using ro by (auto simp: range_order_def)
    obtain c c' where "k = ident_of c" "p = pend_for c" "k' = ident_of c'" "p' = pend_for c'"
      using race_inv_pending(1) [OF inv p(1)] race_inv_pending(1) [OF inv p(2)] by (elim exE conjE)
    then show "k = k'" using k(3) p by simp
  qed
  then show ?thesis using ro by (simp add: pending_chans_def range_values_map [OF ro] distinct_map inj_on_def range_order_def)
qed

text \<open>\<open>Close\<close> does not panic while the channels of pending requests are untouched.\<close>

lemma close_all_Ok:
  assumes inv: "race_inv ra" and ro: "range_order (mh_pendingRequests (ra_mh ra)) ks"
    and fresh: "\<And>c. c < length (mh_chans (ra_mh ra)) \<Longrightarrow> mh_pendingRequests (ra_mh ra) (ident_of c) \<noteq> None \<Longrightarrow>
      mh_chans (ra_mh ra) ! c = fresh_chan"
  shows "\<exists>s. close_all ks ra = Some (Ok (ra\<lparr>ra_mh := s\<rparr>)) \<and> mh_pendingRequests s = Map.empty \<and>
    (\<forall>c < length (mh_chans (ra_mh ra)). mh_pendingRequests (ra_mh ra) (ident_of c) \<noteq> None \<longrightarrow> rc_closed (mh_chans s ! c)) \<and>
    length (mh_chans s) = length (mh_chans (ra_mh ra))"
proof -
  let ?ps = "pending_chans ks ra" and ?s = "cancel (ra_mh ra)"
  have heap: "mh_chans ?s = mh_chans (ra_mh ra)" by (simp add: cancel_def)
  have "\<forall>p \<in> set ?ps. pend_Response p < length (mh_chans ?s) \<and> mh_chans ?s ! pend_Response p = fresh_chan"
    unfolding heap using pending_chans_set [OF inv ro] fresh by fastforce
  from close_pending_Ok [OF distinct_race_chans [OF inv ro] this]
  obtain chans where chans: "close_pending ?ps ?s = Ok (?s\<lparr>mh_timers := mh_timers ?s |` (- pend_Response ` set ?ps), mh_chans := chans\<rparr>)"
    "length chans = length (mh_chans ?s)"
    "\<forall>c < length chans. chans ! c = (if c \<in> pend_Response ` set ?ps then closed_chan else mh_chans ?s ! c)"
    by blast
  have "rc_closed (chans ! c)" if c: "c < length (mh_chans (ra_mh ra))" "mh_pendingRequests (ra_mh ra) (ident_of c) \<noteq> None" for c
  proof -
    obtain p where p: "mh_pendingRequests (ra_mh ra) (ident_of c) = Some p" using c(2) by auto
    obtain c' where "c' < length (mh_chans (ra_mh ra))" "ident_of c = ident_of c'" "p = pend_for c'"
      using race_inv_pending(1) [OF inv p] by (elim exE conjE)
    then have "pend_Response p = c" using race_inv_ident [OF inv c(1)] by simp
    moreover have "p \<in> set ?ps" using range_values_set [OF ro, of p] p by (auto simp: pending_chans_def)
    ultimately have "c \<in> pend_Response ` set ?ps" by blast
    then show ?thesis using chans(2,3) c(1) by (simp add: heap closed_chan_def)
  qed
  then show ?thesis using chans(1,2)
    by (intro exI [of _ "(?s\<lparr>mh_timers := mh_timers ?s |` (- pend_Response ` set ?ps), mh_chans := chans\<rparr>)\<lparr>mh_pendingRequests := Map.empty\<rparr>"])
      (simp add: close_all_def with_mh_def MessageHandler_Close_def pending_chans_def heap)
qed

lemma handled_Ok:
  assumes inv: "race_inv ra" and c: "c < length (mh_chans (ra_mh ra))" "c \<notin> ra_fired ra" and p: "handled (ra_corr ra) = Some (pend_for c)"
  shows "corr_offer ra \<noteq> Some (Panic m)" "corr_close ra \<noteq> Some (Panic m)"
proof -
  have "owned ra c" using inv c by (simp add: race_inv_def)
  then have "\<not> rc_closed (mh_chans (ra_mh ra) ! c)" using p by (simp add: owned_def)
  then show "corr_offer ra \<noteq> Some (Panic m)" "corr_close ra \<noteq> Some (Panic m)"
    using p c(1) by (cases "ra_corr ra"; simp add: corr_offer_def corr_close_def with_mh_def mh_simps)+
qed

definition touches :: "piece \<Rightarrow> race_state \<Rightarrow> nat \<Rightarrow> bool" where
  "touches x ra c \<longleftrightarrow> (x \<in> {Offer, CloseOffered} \<and> handled (ra_corr ra) = Some (pend_for c)) \<or> x = CloseTimedOut c \<or>
     ((\<exists>ks. x = CloseAll ks) \<and> mh_pendingRequests (ra_mh ra) (ident_of c) \<noteq> None)"

lemma panics_late:
  assumes inv: "race_inv ra" and ok: "allowed ra x" and panic: "run_piece oor x ra = Some (Panic m)"
  shows "x = Take \<or> (\<exists>c < length (mh_chans (ra_mh ra)). c \<in> ra_fired ra \<and> touches x ra c)"
proof (cases x)
  case Offer
  then obtain p where "handled (ra_corr ra) = Some p" using panic by (auto simp: corr_offer_def split: corr.splits)
  then obtain c where c: "c < length (mh_chans (ra_mh ra))" "handled (ra_corr ra) = Some (pend_for c)"
    using race_inv_pending(2) [OF inv] by metis
  then have "c \<in> ra_fired ra" using handled_Ok(1) [OF inv c(1) _ c(2)] panic Offer by auto
  then show ?thesis using c Offer by (auto simp: touches_def)
next
  case CloseOffered
  then obtain p where "handled (ra_corr ra) = Some p" using panic by (auto simp: corr_close_def split: corr.splits)
  then obtain c where c: "c < length (mh_chans (ra_mh ra))" "handled (ra_corr ra) = Some (pend_for c)"
    using race_inv_pending(2) [OF inv] by metis
  then have "c \<in> ra_fired ra" using handled_Ok(2) [OF inv c(1) _ c(2)] panic CloseOffered by auto
  then show ?thesis using c CloseOffered by (auto simp: touches_def)
next
  case (CloseTimedOut c)
  then have "ra_callbacks ra c = Some Removed" using panic by (auto simp: callback_closes_def split: option.splits callback.splits)
  then have "c < length (mh_chans (ra_mh ra)) \<and> c \<in> ra_fired ra" using inv by (auto simp: race_inv_def)
  then show ?thesis using CloseTimedOut by (auto simp: touches_def)
next
  case (CloseAll ks)
  show ?thesis
  proof (rule ccontr)
    assume "\<not> ?thesis"
    then have none: "mh_pendingRequests (ra_mh ra) (ident_of c) = None" if "c < length (mh_chans (ra_mh ra))" "c \<in> ra_fired ra" for c
      using that CloseAll by (auto simp: touches_def)
    have "mh_chans (ra_mh ra) ! c = fresh_chan"
      if "c < length (mh_chans (ra_mh ra))" "mh_pendingRequests (ra_mh ra) (ident_of c) \<noteq> None" for c
    proof -
      have "owned ra c" using inv that none [of c] by (auto simp: race_inv_def)
      then show ?thesis using that(2) by (auto simp: owned_def)
    qed
    then show False using close_all_Ok [OF inv _, of ks] ok panic CloseAll by (auto simp: allowed_def)
  qed
qed (use panic in \<open>auto simp: timer_fires_def callback_removes_def call_new_def call_store_def call_send_def call_drop_def
    split: option.splits callback.splits if_splits prod.splits\<close>)


lemma removes_nothing: "mh_pendingRequests s k = None \<Longrightarrow> removePendingRequest k s = s"
  by (simp add: removePendingRequest_def)

section \<open>Properties\<close>

text \<open>C38: However the pieces of calls, responses, timers and \<open>Close\<close> interleave, a caller only ever reads the response to its
  own request, and nothing panics before a timer has fired: a piece that panics either meets a response whose id cannot be
  hashed, or works on the channel of a request whose timer has fired.\<close>

theorem race_panics_late:
  assumes "race_reachable oor ra"
  shows "(\<forall>c < length (mh_chans (ra_mh ra)). own_answer c (mh_chans (ra_mh ra) ! c)) \<and>
    (\<forall>x m. allowed ra x \<and> run_piece oor x ra = Some (Panic m) \<longrightarrow>
       (x = Take \<and> (\<exists>r rest. mh_responseChan (ra_mh ra) = r # rest \<and> \<not> hashable (resp_ID r))) \<or>
       (\<exists>c < length (mh_chans (ra_mh ra)). c \<in> ra_fired ra \<and> touches x ra c))"
proof -
  have inv: "race_inv ra" by (rule race_reachable_inv [OF assms])
  have take: "\<exists>r rest. mh_responseChan (ra_mh ra) = r # rest \<and> \<not> hashable (resp_ID r)" if "corr_take oor ra = Some (Panic m)" for m
    using that by (auto simp: corr_take_def Let_def split: corr.splits list.splits option.splits if_splits)
  have "\<forall>c < length (mh_chans (ra_mh ra)). own_answer c (mh_chans (ra_mh ra) ! c)" using inv by (simp add: race_inv_def)
  then show ?thesis using panics_late [OF inv] take by (metis run_piece.simps(1))
qed

text \<open>C39: The timer of a request races with its response and with \<open>Close\<close>. From any reachable state in which no timer has fired,
  with a response to a pending request at hand and its timer armed: if the timer fires after the response took the
  request out of the map, either the response is sent on the channel that the timer closed, or the timer closes the
  channel that the response closed; and if \<open>Close\<close> comes before the function of the fired timer takes the lock, the
  timer closes the channel that \<open>Close\<close> closed. Each is a panic.\<close>

theorem timeout_races:
  assumes "race_reachable oor ra" and "ra_fired ra = {}" and "ra_corr ra = Receives"
    and "mh_responseChan (ra_mh ra) = r # rest" and "hashable (resp_ID r)"
    and "find_pending oor r ((ra_mh ra)\<lparr>mh_responseChan := rest\<rparr>) = Some (p, r')" and "pend_Response p = c"
    and "mh_timers (ra_mh ra) c \<noteq> None" and "range_order (mh_pendingRequests (ra_mh ra)) ks"
  shows "run_pieces oor [Take, Fire c, Remove c, CloseTimedOut c, Offer] ra = Some (Panic ''send on closed channel'') \<and>
    run_pieces oor [Take, Fire c, Offer, CloseOffered, Remove c, CloseTimedOut c] ra = Some (Panic ''close of closed channel'') \<and>
    run_pieces oor [Fire c, CloseAll ks, Remove c, CloseTimedOut c] ra = Some (Panic ''close of closed channel'')"
proof -
  have inv: "race_inv ra" by (rule race_reachable_inv [OF assms(1)])
  have "mh_pendingRequests (ra_mh ra) (resp_ID r') = Some p"
    using assms(6) by (auto simp: find_pending_def Let_def split: option.splits gval.splits)
  then obtain d where "d < length (mh_chans (ra_mh ra))" "resp_ID r' = ident_of d" "p = pend_for d"
    using race_inv_pending(1) [OF inv] by blast
  then have c: "c < length (mh_chans (ra_mh ra))" "p = pend_for c" "mh_pendingRequests (ra_mh ra) (ident_of c) = Some (pend_for c)"
    using assms(7) \<open>mh_pendingRequests (ra_mh ra) (resp_ID r') = Some p\<close> by simp_all
  obtain k where "mh_timers (ra_mh ra) c = Some k" using assms(8) by blast
  then have t: "mh_timers (ra_mh ra) c = Some (ident_of c)" using inv by (simp add: race_inv_def)
  have fresh: "mh_chans (ra_mh ra) ! d = fresh_chan"
    if "d < length (mh_chans (ra_mh ra))" "mh_pendingRequests (ra_mh ra) (ident_of d) \<noteq> None" for d
  proof -
    have "owned ra d" using inv that(1) assms(2) by (simp add: race_inv_def)
    then show ?thesis using that(2) by (simp add: owned_def)
  qed
  have ch: "mh_chans (ra_mh ra) ! c = fresh_chan" using fresh c(1,3) by simp
  obtain ra1 where ra1: "timer_fires c ra = Some (Ok ra1)" "ra_callbacks ra1 c = Some (Counted (ident_of c))"
    "mh_pendingRequests (ra_mh ra1) = mh_pendingRequests (ra_mh ra)" "mh_chans (ra_mh ra1) = mh_chans (ra_mh ra)"
    using t by (simp add: timer_fires_def mh_simps)
  have inv1: "race_inv ra1" by (rule fire_inv [OF inv ra1(1)])
  obtain s where s: "close_all ks ra1 = Some (Ok (ra1\<lparr>ra_mh := s\<rparr>))" "mh_pendingRequests s = Map.empty"
    "\<forall>c < length (mh_chans (ra_mh ra)). mh_pendingRequests (ra_mh ra) (ident_of c) \<noteq> None \<longrightarrow> rc_closed (mh_chans s ! c)"
    "length (mh_chans s) = length (mh_chans (ra_mh ra))"
    using close_all_Ok [OF inv1, of ks] fresh assms(9) ra1(3,4) by auto
  have "rc_closed (mh_chans s ! c)" using s(3) c(1,3) by simp
  then have 3: "run_pieces oor [Fire c, CloseAll ks, Remove c, CloseTimedOut c] ra = Some (Panic ''close of closed channel'')"
    using s(1,2,4) ra1(1,2) c(1)
    by (simp add: callback_removes_def callback_closes_def with_mh_def removes_nothing ctx_cancel_def chan_update_def chan_close_def)
  have take: "corr_take oor ra = Some (Ok (ra\<lparr>ra_mh := take_pending p ((ra_mh ra)\<lparr>mh_responseChan := rest\<rparr>), ra_corr := Took p r'\<rparr>))"
    using assms(3-6) by (simp add: corr_take_def)
  have 1: "run_pieces oor [Take, Fire c, Remove c, CloseTimedOut c, Offer] ra = Some (Panic ''send on closed channel'')"
    using take t ch c(1,2) by (simp add: timer_fires_def callback_removes_def callback_closes_def corr_offer_def with_mh_def
        removePendingRequest_def take_pending_def mh_simps fresh_chan_def)
  have 2: "run_pieces oor [Take, Fire c, Offer, CloseOffered, Remove c, CloseTimedOut c] ra = Some (Panic ''close of closed channel'')"
    using take t ch c(1,2) by (simp add: timer_fires_def callback_removes_def callback_closes_def corr_offer_def corr_close_def with_mh_def
        removePendingRequest_def take_pending_def mh_simps fresh_chan_def)
  show ?thesis using 1 2 3 by blast
qed

text \<open>A request and its response.\<close>

definition race_asked :: race_state where
  "race_asked = \<lparr>ra_mh = mh_asked\<lparr>mh_responseChan := [pong]\<rparr>, ra_corr = Receives, ra_callbacks = Map.empty,
     ra_calls = Map.empty, ra_fired = {}\<rparr>"

lemma asked_race: "race_reachable oor race_asked"
proof -
  have "run_pieces oor [NewCall, StoreCall 0, SendCall True ping_payload 0] (race_start mh_fresh) =
      Some (Ok (race_asked\<lparr>ra_mh := mh_asked\<rparr>))"
    by (simp add: race_start_def race_asked_def call_new_def call_store_def call_send_def mh_fresh_def mh_asked_def new_call_def
        RequestID_Next_def store_pending_def finish_request_def select_send_def chan_send_def ident_of_def fresh_chan_def stats_update_def Let_def)
  then obtain r1 r2 where r: "run_piece oor NewCall (race_start mh_fresh) = Some (Ok r1)" "run_piece oor (StoreCall 0) r1 = Some (Ok r2)"
    "run_piece oor (SendCall True ping_payload 0) r2 = Some (Ok (race_asked\<lparr>ra_mh := mh_asked\<rparr>))"
    by (auto split: option.splits outcome.splits)
  have new: "race_reachable oor (race_start mh_fresh)"
    by (rule race_reachable.start [of None "\<lparr>mhc_RequestTimeout = 0, mhc_BufferSize = 0\<rparr>"])
      (simp add: NewMessageHandler_def mh_fresh_def Let_def)
  have "race_reachable oor r1" by (rule race_reachable.piece [OF new _ r(1)]) (simp add: allowed_def race_start_def mh_fresh_def)
  then have "race_reachable oor r2" by (rule race_reachable.piece [OF _ _ r(2)]) (simp add: allowed_def)
  then have "race_reachable oor (race_asked\<lparr>ra_mh := mh_asked\<rparr>)" by (rule race_reachable.piece [OF _ _ r(3)]) (simp add: allowed_def)
  then have "race_reachable oor ((race_asked\<lparr>ra_mh := mh_asked\<rparr>)\<lparr>ra_mh := mh_asked\<lparr>mh_responseChan := [pong]\<rparr>\<rparr>)"
    by (rule race_reachable.other) (simp add: same_calls_def)
  then show ?thesis by (simp add: race_asked_def)
qed

theorem timeout_races_witness:
  "run_pieces (\<lambda>_. 0) [Take, Fire 0, Remove 0, CloseTimedOut 0, Offer] race_asked = Some (Panic ''send on closed channel'')"
proof -
  have f: "ra_fired race_asked = {}" "ra_corr race_asked = Receives" "mh_responseChan (ra_mh race_asked) = pong # []"
    "hashable (resp_ID pong)" "mh_timers (ra_mh race_asked) 0 \<noteq> None"
    by (simp_all add: race_asked_def mh_asked_def mh_fresh_def pong_def ident_of_def)
  have g: "find_pending (\<lambda>_. 0) pong ((ra_mh race_asked)\<lparr>mh_responseChan := []\<rparr>) = Some (pend_for 0, pong)"
    by (simp add: find_pending_def race_asked_def mh_asked_def mh_fresh_def pong_def pend_for_def)
  have h: "range_order (mh_pendingRequests (ra_mh race_asked)) [ident_of 0]"
    by (simp add: range_order_def race_asked_def mh_asked_def mh_fresh_def)
  show ?thesis using timeout_races [OF asked_race f(1,2,3,4) g _ f(5) h] by simp
qed

theorem race_panics_late_witness:
  "(\<forall>m. run_piece (\<lambda>_. 0) Take race_asked \<noteq> Some (Panic m)) \<and> own_answer 0 (mh_chans (ra_mh race_asked) ! 0)"
proof -
  have "allowed race_asked Take" by (simp add: allowed_def)
  then show ?thesis using race_panics_late [OF asked_race [of "\<lambda>_. 0"]]
    by (auto simp: race_asked_def touches_def mh_asked_def mh_fresh_def pong_def ident_of_def)
qed

end
