(* ===== verification/Stdio.thy ===== *)
theory Stdio
  imports Message_Handler
begin

text \<open>
  \<open>transport/stdio.go\<close>: messages as lines of text on a reader and a writer. Six goroutines move them between the
  two streams and the message handler, over four channels. \<open>pr\<close> and \<open>rd\<close> are the printing and the reading of
  JSON; the bytes of the streams are lists. A failing writer is an argument of the step that writes.
\<close>

named_theorems st_simps "definitions of the stdio transport"

section \<open>State\<close>

record st_config =
  stc_ReadBufferSize :: int
  stc_WriteBufferSize :: int
  stc_RequestTimeout :: int
  stc_MessageBuffer :: int

datatype st_goroutine = BridgeIncoming | BridgeOutgoing | BridgeRequests | BridgeNotifications | ReadLoop | WriteLoop

lemma all_goroutines: "UNIV = {BridgeIncoming, BridgeOutgoing, BridgeRequests, BridgeNotifications, ReadLoop, WriteLoop}"
  using st_goroutine.exhaust by blast

instantiation st_goroutine :: finite
begin

instance by standard (simp add: all_goroutines)

end

text \<open>
  \<open>st_input\<close> holds the bytes that arrived and were not scanned yet, \<open>st_eof\<close> says that no more will come;
  \<open>st_held\<close> is the line that \<open>readLoop\<close> took from the scanner, \<open>st_broken\<close> the sticky error of the writer.
\<close>

record st_state =
  st_handler :: mh_state
  st_incomingChan :: "string list"
  st_outgoingChan :: "payload list"
  st_requestChan :: "request list"
  st_notificationChan :: "notification list"
  st_bufferSize :: nat
  st_readBufferSize :: nat
  st_writeBufferSize :: nat
  st_ctx :: "string option"
  st_chansClosed :: bool
  st_running :: "st_goroutine set"
  st_input :: string
  st_eof :: bool
  st_held :: "string option"
  st_output :: string
  st_broken :: bool
  st_bytesRead :: int64
  st_bytesWritten :: int64
  st_linesRead :: int64
  st_linesWritten :: int64

definition st_defaults :: "st_config \<Rightarrow> st_config" where
  "st_defaults config = config
     \<lparr>stc_ReadBufferSize := (if stc_ReadBufferSize config = 0 then 64 * 1024 else stc_ReadBufferSize config),
      stc_WriteBufferSize := (if stc_WriteBufferSize config = 0 then 64 * 1024 else stc_WriteBufferSize config),
      stc_RequestTimeout := (if stc_RequestTimeout config = 0 then 30 * 1000000000 else stc_RequestTimeout config),
      stc_MessageBuffer := (if stc_MessageBuffer config = 0 then 100 else stc_MessageBuffer config)\<rparr>"

text \<open>\<open>bufio.NewWriterSize\<close> takes 4096 for a size that is not positive; a negative slice size panics.\<close>

definition NewStdioTransport :: "string option \<Rightarrow> st_config \<Rightarrow> st_state outcome" where
  "NewStdioTransport ctx config0 =
     (let config = st_defaults config0
      in case NewMessageHandler ctx
                \<lparr>mhc_RequestTimeout = stc_RequestTimeout config, mhc_BufferSize = stc_MessageBuffer config\<rparr> of
           Panic p \<Rightarrow> Panic p
         | Err e \<Rightarrow> Err e
         | Ok handler \<Rightarrow>
             if stc_ReadBufferSize config < 0 then Panic ''makeslice: len out of range''
             else Ok \<lparr>st_handler = handler, st_incomingChan = [], st_outgoingChan = [], st_requestChan = [],
               st_notificationChan = [], st_bufferSize = nat (stc_MessageBuffer config),
               st_readBufferSize = nat (stc_ReadBufferSize config),
               st_writeBufferSize = (if stc_WriteBufferSize config < 0 then 4096 else nat (stc_WriteBufferSize config)),
               st_ctx = ctx, st_chansClosed = False,
               st_running = {BridgeIncoming, BridgeOutgoing, BridgeRequests, BridgeNotifications, ReadLoop, WriteLoop},
               st_input = [], st_eof = False, st_held = None, st_output = [], st_broken = False,
               st_bytesRead = 0, st_bytesWritten = 0, st_linesRead = 0, st_linesWritten = 0\<rparr>)"

definition st_stop :: "st_goroutine \<Rightarrow> st_state \<Rightarrow> st_state" where
  "st_stop g s = s\<lparr>st_running := st_running s - {g}\<rparr>"

section \<open>Calls\<close>

definition st_SendRequest ::
  "bool \<Rightarrow> string \<Rightarrow> gval \<Rightarrow> st_state \<Rightarrow> (st_state \<times> nat outcome) option" where
  "st_SendRequest pick meth params s =
     map_option (\<lambda>(h, res). (s\<lparr>st_handler := h\<rparr>, res)) (SendRequest pick meth params (st_handler s))"

definition st_SendNotification ::
  "bool \<Rightarrow> string \<Rightarrow> gval \<Rightarrow> st_state \<Rightarrow> (st_state \<times> unit outcome) option" where
  "st_SendNotification pick meth params s =
     map_option (\<lambda>(h, res). (s\<lparr>st_handler := h\<rparr>, res)) (SendNotification pick meth params (st_handler s))"

definition st_SendResponse ::
  "bool \<Rightarrow> gval \<Rightarrow> gval \<Rightarrow> rpc_error option \<Rightarrow> st_state \<Rightarrow> (st_state \<times> unit outcome) option" where
  "st_SendResponse pick ident result err s =
     map_option (\<lambda>(h, res). (s\<lparr>st_handler := h\<rparr>, res)) (SendResponse pick ident result err (st_handler s))"

section \<open>Reading\<close>

text \<open>
  \<open>bufio.Scanner\<close> with \<open>ScanLines\<close> and a buffer of fixed size: a line ends with a newline or with the input, without
  the carriage return before that; a full buffer without newline is an error.
\<close>

datatype scan_result = Token string string | TooLong | AtEnd | NeedMore

definition drop_cr :: "string \<Rightarrow> string" where
  "drop_cr s = (if s \<noteq> [] \<and> last s = CHR 0x0D then butlast s else s)"

definition scan_line :: "nat \<Rightarrow> bool \<Rightarrow> string \<Rightarrow> scan_result" where
  "scan_line cap eof s =
     (case Index s [CHR 0x0A] of
        Some i \<Rightarrow> if i < cap then Token (drop_cr (take i s)) (drop (Suc i) s) else TooLong
      | None \<Rightarrow>
          if cap \<le> length s then TooLong
          else if \<not> eof then NeedMore
          else if s = [] then AtEnd else Token (drop_cr s) [])"

text \<open>
  \<open>readLoop\<close> takes the next line, or ends with the scanner, whose error it drops, or with the context; empty lines
  are skipped. Then it hands the line on.
\<close>

definition readLoop_scan :: "st_state \<Rightarrow> st_state option" where
  "readLoop_scan s =
     (if ReadLoop \<notin> st_running s \<or> st_held s \<noteq> None then None
      else case scan_line (st_readBufferSize s) (st_eof s) (st_input s) of
             Token line rest \<Rightarrow>
               if line = [] then Some (s\<lparr>st_input := rest\<rparr>)
               else Some (s\<lparr>st_input := rest, st_held := Some line, st_linesRead := st_linesRead s + 1,
                           st_bytesRead := st_bytesRead s + of_nat (length line)\<rparr>)
           | NeedMore \<Rightarrow> None
           | _ \<Rightarrow> Some (st_stop ReadLoop s))"

definition readLoop_cancelled :: "st_state \<Rightarrow> st_state option" where
  "readLoop_cancelled s =
     (if ReadLoop \<in> st_running s \<and> st_ctx s \<noteq> None then Some (st_stop ReadLoop s) else None)"

definition readLoop_push :: "st_state \<Rightarrow> st_state option" where
  "readLoop_push s =
     (if ReadLoop \<notin> st_running s then None
      else case st_held s of
             None \<Rightarrow> None
           | Some line \<Rightarrow>
               map_option (\<lambda>buf. s\<lparr>st_held := None, st_incomingChan := buf\<rparr>)
                 (chan_send (st_bufferSize s) (st_incomingChan s) line))"

section \<open>Writing\<close>

definition line_of :: "(payload \<Rightarrow> string) \<Rightarrow> payload \<Rightarrow> string" where
  "line_of pr d = pr d @ [CHR 0x0A]"

text \<open>
  One message of \<open>writeLoop\<close>. A message with its newline that fits the buffer is one write of the underlying writer,
  a longer one goes out before its newline; \<open>fails1\<close> and \<open>fails2\<close> say whether these writes fail. After a failure
  every further write of the buffered writer fails, which the loop does not report.
\<close>

definition write_message :: "(payload \<Rightarrow> string) \<Rightarrow> bool \<Rightarrow> bool \<Rightarrow> payload \<Rightarrow> st_state \<Rightarrow> st_state" where
  "write_message pr fails1 fails2 data s =
     (let counted = s\<lparr>st_linesWritten := st_linesWritten s + 1,
                      st_bytesWritten := st_bytesWritten s + of_nat (length (pr data) + 1)\<rparr>
      in if st_broken s then s
         else if length (pr data) < st_writeBufferSize s then
           (if fails1 then counted\<lparr>st_broken := True\<rparr> else counted\<lparr>st_output := st_output s @ line_of pr data\<rparr>)
         else if fails1 then s\<lparr>st_broken := True\<rparr>
         else if fails2 then counted\<lparr>st_output := st_output s @ pr data, st_broken := True\<rparr>
         else counted\<lparr>st_output := st_output s @ line_of pr data\<rparr>)"

definition writeLoop :: "(payload \<Rightarrow> string) \<Rightarrow> bool \<Rightarrow> bool \<Rightarrow> bool \<Rightarrow> st_state \<Rightarrow> st_state option" where
  "writeLoop pr pick fails1 fails2 s =
     (if WriteLoop \<notin> st_running s then None
      else case (st_outgoingChan s, st_ctx s) of
             ([], None) \<Rightarrow> None
           | ([], Some _) \<Rightarrow> Some (st_stop WriteLoop s)
           | (data # rest, ctx) \<Rightarrow>
               if ctx \<noteq> None \<and> \<not> pick then Some (st_stop WriteLoop s)
               else Some (write_message pr fails1 fails2 data (s\<lparr>st_outgoingChan := rest\<rparr>)))"

section \<open>The bridges\<close>

text \<open>
  One iteration of a bridge: receive from \<open>src\<close>, send to \<open>dst\<close>, each in a \<open>select\<close> with the context.
\<close>

datatype ('a, 'b) relayed = Waits | Stops "'a list" | Moves "'a list" "'b list"

definition relay ::
  "bool \<Rightarrow> bool \<Rightarrow> string option \<Rightarrow> nat \<Rightarrow> ('a \<Rightarrow> 'b) \<Rightarrow> 'a list \<Rightarrow> 'b list \<Rightarrow> ('a, 'b) relayed" where
  "relay pick pick' ctx cap f src dst =
     (case (src, ctx) of
        ([], None) \<Rightarrow> Waits
      | ([], Some _) \<Rightarrow> Stops []
      | (x # rest, _) \<Rightarrow>
          if ctx \<noteq> None \<and> \<not> pick then Stops src
          else case select_send pick' cap dst (f x) ctx of
                 Sent buf \<Rightarrow> Moves rest buf | Cancelled _ \<Rightarrow> Stops rest | Blocked \<Rightarrow> Waits)"

definition st_bridgeIncoming :: "(string \<Rightarrow> payload) \<Rightarrow> bool \<Rightarrow> bool \<Rightarrow> st_state \<Rightarrow> st_state option" where
  "st_bridgeIncoming rd pick pick' s =
     (if BridgeIncoming \<notin> st_running s then None
      else case relay pick pick' (st_ctx s) (mh_bufferSize (st_handler s)) rd (st_incomingChan s)
                  (mh_incomingChan (st_handler s)) of
             Waits \<Rightarrow> None
           | Stops src \<Rightarrow> Some (st_stop BridgeIncoming (s\<lparr>st_incomingChan := src\<rparr>))
           | Moves src dst \<Rightarrow>
               Some (s\<lparr>st_incomingChan := src, st_handler := (st_handler s)\<lparr>mh_incomingChan := dst\<rparr>\<rparr>))"

definition st_bridgeOutgoing :: "bool \<Rightarrow> bool \<Rightarrow> st_state \<Rightarrow> st_state option" where
  "st_bridgeOutgoing pick pick' s =
     (if BridgeOutgoing \<notin> st_running s then None
      else case relay pick pick' (st_ctx s) (st_bufferSize s) id (mh_outgoingChan (st_handler s)) (st_outgoingChan s) of
             Waits \<Rightarrow> None
           | Stops src \<Rightarrow> Some (st_stop BridgeOutgoing (s\<lparr>st_handler := (st_handler s)\<lparr>mh_outgoingChan := src\<rparr>\<rparr>))
           | Moves src dst \<Rightarrow>
               Some (s\<lparr>st_handler := (st_handler s)\<lparr>mh_outgoingChan := src\<rparr>, st_outgoingChan := dst\<rparr>))"

definition st_bridgeRequests :: "bool \<Rightarrow> bool \<Rightarrow> st_state \<Rightarrow> st_state option" where
  "st_bridgeRequests pick pick' s =
     (if BridgeRequests \<notin> st_running s then None
      else case relay pick pick' (st_ctx s) (st_bufferSize s) id (mh_requestChan (st_handler s)) (st_requestChan s) of
             Waits \<Rightarrow> None
           | Stops src \<Rightarrow> Some (st_stop BridgeRequests (s\<lparr>st_handler := (st_handler s)\<lparr>mh_requestChan := src\<rparr>\<rparr>))
           | Moves src dst \<Rightarrow>
               Some (s\<lparr>st_handler := (st_handler s)\<lparr>mh_requestChan := src\<rparr>, st_requestChan := dst\<rparr>))"

definition st_bridgeNotifications :: "bool \<Rightarrow> bool \<Rightarrow> st_state \<Rightarrow> st_state option" where
  "st_bridgeNotifications pick pick' s =
     (if BridgeNotifications \<notin> st_running s then None
      else case relay pick pick' (st_ctx s) (st_bufferSize s) id (mh_notificationChan (st_handler s)) (st_notificationChan s) of
             Waits \<Rightarrow> None
           | Stops src \<Rightarrow> Some (st_stop BridgeNotifications (s\<lparr>st_handler := (st_handler s)\<lparr>mh_notificationChan := src\<rparr>\<rparr>))
           | Moves src dst \<Rightarrow>
               Some (s\<lparr>st_handler := (st_handler s)\<lparr>mh_notificationChan := src\<rparr>, st_notificationChan := dst\<rparr>))"

section \<open>Closing\<close>

definition st_cancel :: "st_state \<Rightarrow> st_state" where
  "st_cancel s =
     s\<lparr>st_ctx := (case st_ctx s of None \<Rightarrow> Some ''context canceled'' | Some e \<Rightarrow> Some e),
       st_handler := cancel (st_handler s)\<rparr>"

text \<open>The rest of \<open>Close\<close>, possible once no goroutine runs.\<close>

definition st_finish_close :: "gval list \<Rightarrow> st_state \<Rightarrow> st_state outcome option" where
  "st_finish_close ks s =
     (if st_running s \<noteq> {} then None
      else Some (case MessageHandler_Close ks (st_handler s) of
                   Ok h \<Rightarrow> Ok (s\<lparr>st_handler := h, st_chansClosed := True\<rparr>)
                 | Err e \<Rightarrow> Err e
                 | Panic p \<Rightarrow> Panic p))"

section \<open>Statistics\<close>

record transport_stats =
  ts_BytesRead :: int64
  ts_BytesWritten :: int64
  ts_LinesRead :: int64
  ts_LinesWritten :: int64
  ts_messages :: message_stats

definition st_Stats :: "st_state \<Rightarrow> transport_stats" where
  "st_Stats s = \<lparr>ts_BytesRead = st_bytesRead s, ts_BytesWritten = st_bytesWritten s, ts_LinesRead = st_linesRead s,
     ts_LinesWritten = st_linesWritten s, ts_messages = MessageHandler_GetStats (st_handler s)\<rparr>"

section \<open>The transport as a transition system\<close>

inductive st_work :: "(payload \<Rightarrow> string) \<Rightarrow> (string \<Rightarrow> payload) \<Rightarrow> st_state \<Rightarrow> st_state \<Rightarrow> bool" for pr rd where
  scan: "readLoop_scan s = Some s' \<Longrightarrow> st_work pr rd s s'"
| scan_cancelled: "readLoop_cancelled s = Some s' \<Longrightarrow> st_work pr rd s s'"
| push: "readLoop_push s = Some s' \<Longrightarrow> st_work pr rd s s'"
| incoming: "st_bridgeIncoming rd pick pick' s = Some s' \<Longrightarrow> st_work pr rd s s'"
| outgoing: "st_bridgeOutgoing pick pick' s = Some s' \<Longrightarrow> st_work pr rd s s'"
| requests: "st_bridgeRequests pick pick' s = Some s' \<Longrightarrow> st_work pr rd s s'"
| notifications: "st_bridgeNotifications pick pick' s = Some s' \<Longrightarrow> st_work pr rd s s'"
| writing: "writeLoop pr pick fails1 fails2 s = Some s' \<Longrightarrow> st_work pr rd s s'"

section \<open>Lemmas\<close>

subsection \<open>Lines\<close>

text \<open>The lines that are complete in an input, as the scanner gives them.\<close>

definition pending_lines :: "string \<Rightarrow> string list" where
  "pending_lines s = filter (\<lambda>l. l \<noteq> []) (map drop_cr (butlast (Split s (CHR 0x0A))))"

text \<open>An input of complete lines that fit the buffer.\<close>

definition input_ok :: "nat \<Rightarrow> string \<Rightarrow> bool" where
  "input_ok cap s \<longleftrightarrow> 0 < cap \<and> last (Split s (CHR 0x0A)) = [] \<and> list_all (\<lambda>l. length l < cap) (Split s (CHR 0x0A))"

lemma Split_line: "CHR 0x0A \<notin> set l \<Longrightarrow> Split (l @ CHR 0x0A # rest) (CHR 0x0A) = l # Split rest (CHR 0x0A)"
  by (rule Split_append_sep)

lemma input_cases:
  assumes "input_ok cap s"
  obtains "s = []" | l rest where "s = l @ CHR 0x0A # rest" and "CHR 0x0A \<notin> set l" and "length l < cap" and "input_ok cap rest"
proof (cases "CHR 0x0A \<in> set s")
  case True
  then obtain l rest where s: "s = l @ CHR 0x0A # rest" "CHR 0x0A \<notin> set l" using split_list_first by fastforce
  then have "length l < cap" "input_ok cap rest" using assms by (auto simp: input_ok_def Split_line)
  then show ?thesis using s that(2) by blast
next
  case False
  then have "s = []" using assms by (simp add: input_ok_def Split_no_sep)
  then show ?thesis by (rule that(1))
qed

lemma pending_lines_simps [simp]:
  "pending_lines [] = []"
  "CHR 0x0A \<notin> set l \<Longrightarrow> pending_lines (l @ CHR 0x0A # rest) = (if drop_cr l = [] then [] else [drop_cr l]) @ pending_lines rest"
  by (simp_all add: pending_lines_def Split_line)

lemma scan_line_line:
  "CHR 0x0A \<notin> set l \<Longrightarrow> scan_line cap eof (l @ CHR 0x0A # rest) = (if length l < cap then Token (drop_cr l) rest else TooLong)"
  by (simp add: scan_line_def Index_byte_Some)

text \<open>The lines of printed messages.\<close>

definition prints :: "(payload \<Rightarrow> string) \<Rightarrow> nat \<Rightarrow> payload \<Rightarrow> bool" where
  "prints pr cap d \<longleftrightarrow> CHR 0x0A \<notin> set (pr d) \<and> pr d \<noteq> [] \<and> last (pr d) \<noteq> CHR 0x0D \<and> length (pr d) < cap"

lemma printed_lines:
  assumes "list_all (prints pr cap) ds" and "0 < cap"
  shows "pending_lines (concat (map (line_of pr) ds)) = map pr ds \<and> input_ok cap (concat (map (line_of pr) ds))"
  using assms(1)
proof (induction ds)
  case (Cons d ds)
  have d: "CHR 0x0A \<notin> set (pr d)" "pr d \<noteq> []" "drop_cr (pr d) = pr d" "length (pr d) < cap"
    using Cons.prems by (auto simp: prints_def drop_cr_def)
  then show ?case using Cons by (simp add: line_of_def input_ok_def Split_line)
qed (use assms(2) in \<open>simp add: input_ok_def\<close>)

subsection \<open>What the goroutines keep\<close>

text \<open>The messages on their way in, in the order in which the message handler gets them.\<close>

definition in_flight :: "(string \<Rightarrow> payload) \<Rightarrow> st_state \<Rightarrow> payload list" where
  "in_flight rd s =
     mh_incomingChan (st_handler s) @
     map rd (st_incomingChan s @ (case st_held s of None \<Rightarrow> [] | Some l \<Rightarrow> [l]) @ pending_lines (st_input s))"

text \<open>The bytes written and still to be written.\<close>

definition out_stream :: "(payload \<Rightarrow> string) \<Rightarrow> st_state \<Rightarrow> string" where
  "out_stream pr s = st_output s @ concat (map (line_of pr) (st_outgoingChan s @ mh_outgoingChan (st_handler s)))"

lemma relay_Moves:
  "relay pick pick' None cap f src dst = Moves src' dst' \<longleftrightarrow> (\<exists>x. src = x # src' \<and> length dst < cap \<and> dst' = dst @ [f x])"
  by (auto simp: relay_def select_send_def chan_send_def split: list.splits if_splits select_result.splits)

lemma relay_not_Stops: "relay pick pick' None cap f src dst \<noteq> Stops src'"
  by (auto simp: relay_def select_send_def split: list.splits option.splits select_result.splits)

lemma st_work_ctx: "st_work pr rd s s' \<Longrightarrow> st_ctx s' = st_ctx s \<and> st_readBufferSize s' = st_readBufferSize s \<and> (st_broken s \<longrightarrow> st_broken s')"
  by (induction rule: st_work.induct)
    (auto simp: readLoop_scan_def readLoop_cancelled_def readLoop_push_def st_bridgeIncoming_def st_bridgeOutgoing_def
      st_bridgeRequests_def st_bridgeNotifications_def writeLoop_def write_message_def st_stop_def Let_def
      split: if_splits option.splits scan_result.splits relayed.splits list.splits)


lemmas st_step_defs = readLoop_scan_def readLoop_cancelled_def readLoop_push_def st_bridgeIncoming_def st_bridgeOutgoing_def
  st_bridgeRequests_def st_bridgeNotifications_def writeLoop_def write_message_def st_stop_def

lemma readLoop_scan_keeps:
  assumes "readLoop_scan s = Some s'" and ok: "input_ok (st_readBufferSize s) (st_input s)"
  shows "in_flight rd s' = in_flight rd s \<and> input_ok (st_readBufferSize s') (st_input s')"
  using ok
proof (cases rule: input_cases)
  case 1
  then show ?thesis using assms by (auto simp: readLoop_scan_def scan_line_def st_stop_def in_flight_def split: if_splits)
next
  case (2 l rest)
  then show ?thesis using assms(1) by (auto simp: readLoop_scan_def scan_line_line in_flight_def split: if_splits)
qed

lemma st_work_in_flight:
  "st_work pr rd s s' \<Longrightarrow> st_ctx s = None \<Longrightarrow> input_ok (st_readBufferSize s) (st_input s) \<Longrightarrow>
   in_flight rd s' = in_flight rd s \<and> input_ok (st_readBufferSize s') (st_input s')"
proof (induction rule: st_work.induct)
  case (scan s s')
  then show ?case using readLoop_scan_keeps by blast
next
  case (incoming pick pick' s s')
  then show ?case
    by (auto simp: st_bridgeIncoming_def in_flight_def relay_Moves relay_not_Stops split: if_splits relayed.splits)
qed (auto simp: st_step_defs in_flight_def relay_Moves relay_not_Stops chan_send_def Let_def
      split: if_splits relayed.splits list.splits option.splits)

lemma st_work_out_stream:
  "st_work pr rd s s' \<Longrightarrow> st_ctx s = None \<Longrightarrow> \<not> st_broken s' \<Longrightarrow> out_stream pr s' = out_stream pr s"
  by (induction rule: st_work.induct)
    (auto simp: st_step_defs out_stream_def relay_Moves relay_not_Stops chan_send_def Let_def
      split: if_splits relayed.splits list.splits option.splits scan_result.splits)

lemma st_run_in_flight:
  "(st_work pr rd)\<^sup>*\<^sup>* s s' \<Longrightarrow> st_ctx s = None \<Longrightarrow> input_ok (st_readBufferSize s) (st_input s) \<Longrightarrow>
   in_flight rd s' = in_flight rd s \<and> input_ok (st_readBufferSize s') (st_input s') \<and> st_ctx s' = None"
proof (induction rule: rtranclp_induct)
  case (step s' s'')
  then show ?case using st_work_in_flight[OF step.hyps(2)] st_work_ctx[OF step.hyps(2)] by auto
qed simp

lemma st_run_out_stream:
  "(st_work pr rd)\<^sup>*\<^sup>* s s' \<Longrightarrow> st_ctx s = None \<Longrightarrow> \<not> st_broken s' \<Longrightarrow> out_stream pr s' = out_stream pr s \<and> st_ctx s' = None"
proof (induction rule: rtranclp_induct)
  case (step s' s'')
  then show ?case using st_work_out_stream[OF step.hyps(2)] st_work_ctx[OF step.hyps(2)] by auto
qed simp


section \<open>Two transports over a pipe\<close>

text \<open>What \<open>a\<close> writes is what \<open>b\<close> reads, in pieces of any size.\<close>

inductive pipe_work ::
  "(payload \<Rightarrow> string) \<Rightarrow> (string \<Rightarrow> payload) \<Rightarrow> st_state \<times> st_state \<Rightarrow> st_state \<times> st_state \<Rightarrow> bool" for pr rd where
  sender: "st_work pr rd a a' \<Longrightarrow> pipe_work pr rd (a, b) (a', b)"
| receiver: "st_work pr rd b b' \<Longrightarrow> pipe_work pr rd (a, b) (a, b')"
| transfer: "st_output a = xs @ ys \<Longrightarrow>
    pipe_work pr rd (a, b) (a\<lparr>st_output := ys\<rparr>, b\<lparr>st_input := st_input b @ xs\<rparr>)"

text \<open>The messages in order, from those that the handler of \<open>b\<close> has to those that the handler of \<open>a\<close> still has.\<close>

definition in_pipe :: "(payload \<Rightarrow> string) \<Rightarrow> (string \<Rightarrow> payload) \<Rightarrow> st_state \<times> st_state \<Rightarrow> payload list" where
  "in_pipe pr rd ab =
     mh_incomingChan (st_handler (snd ab)) @
     map rd (st_incomingChan (snd ab) @ (case st_held (snd ab) of None \<Rightarrow> [] | Some l \<Rightarrow> [l]) @
             pending_lines (st_input (snd ab) @ out_stream pr (fst ab)))"

definition pipe_ok :: "(payload \<Rightarrow> string) \<Rightarrow> st_state \<times> st_state \<Rightarrow> bool" where
  "pipe_ok pr ab \<longleftrightarrow> st_ctx (fst ab) = None \<and> st_ctx (snd ab) = None \<and> \<not> st_eof (snd ab) \<and>
     input_ok (st_readBufferSize (snd ab)) (st_input (snd ab) @ out_stream pr (fst ab))"

lemma scan_prefix:
  assumes ok: "input_ok cap (s @ later)"
  obtains "scan_line cap False s = NeedMore"
  | l rest where "s = l @ CHR 0x0A # rest" and "CHR 0x0A \<notin> set l" and "length l < cap" and "input_ok cap (rest @ later)"
proof (cases "CHR 0x0A \<in> set s")
  case True
  then obtain l rest where s: "s = l @ CHR 0x0A # rest" "CHR 0x0A \<notin> set l" using split_list_first by fastforce
  then have "length l < cap" "input_ok cap (rest @ later)" using ok by (auto simp: input_ok_def Split_line)
  then show ?thesis using s that(2) by blast
next
  case False
  from ok have "length s < cap"
  proof (cases rule: input_cases)
    case 1
    then show ?thesis using ok by (simp add: input_ok_def)
  next
    case (2 l rest)
    then have "length s \<le> length l" using False by (auto simp: append_eq_append_conv2 append_eq_Cons_conv)
    then show ?thesis using 2(3) by simp
  qed
  moreover have "Index s [CHR 0x0A] = None" using False by (simp add: Index_byte_None)
  ultimately have "scan_line cap False s = NeedMore" by (simp add: scan_line_def)
  then show ?thesis by (rule that(1))
qed


lemma scan_in_pipe:
  assumes step: "readLoop_scan b = Some b'" and ok: "pipe_ok pr (a, b)"
  shows "pipe_ok pr (a, b') \<and> in_pipe pr rd (a, b') = in_pipe pr rd (a, b)"
proof -
  from ok have "input_ok (st_readBufferSize b) (st_input b @ out_stream pr a)" by (simp add: pipe_ok_def)
  then show ?thesis
  proof (cases rule: scan_prefix)
    case 1
    then show ?thesis using step ok by (auto simp: readLoop_scan_def pipe_ok_def split: if_splits)
  next
    case (2 l rest)
    then show ?thesis using step ok
      by (auto simp: readLoop_scan_def scan_line_line in_pipe_def pipe_ok_def split: if_splits)
  qed
qed

lemma receiver_in_pipe:
  "st_work pr rd b b' \<Longrightarrow> pipe_ok pr (a, b) \<Longrightarrow> pipe_ok pr (a, b') \<and> in_pipe pr rd (a, b') = in_pipe pr rd (a, b)"
proof (induction rule: st_work.induct)
  case (scan b b')
  then show ?case using scan_in_pipe by blast
qed (auto simp: st_step_defs in_pipe_def pipe_ok_def relay_Moves relay_not_Stops chan_send_def Let_def
      split: if_splits relayed.splits list.splits option.splits)

lemma pipe_work_keeps:
  "pipe_work pr rd ab ab' \<Longrightarrow> pipe_ok pr ab \<Longrightarrow> \<not> st_broken (fst ab') \<Longrightarrow>
   pipe_ok pr ab' \<and> in_pipe pr rd ab' = in_pipe pr rd ab"
proof (induction rule: pipe_work.induct)
  case (sender a a' b)
  then have "out_stream pr a' = out_stream pr a" "st_ctx a' = st_ctx a"
    using st_work_out_stream st_work_ctx by (auto simp: pipe_ok_def)
  then show ?case using sender.prems by (simp add: pipe_ok_def in_pipe_def)
next
  case (receiver b b' a)
  then show ?case using receiver_in_pipe by blast
next
  case (transfer a xs ys b)
  then show ?case by (simp add: pipe_ok_def in_pipe_def out_stream_def)
qed

lemma pipe_work_broken: "pipe_work pr rd ab ab' \<Longrightarrow> st_broken (fst ab) \<Longrightarrow> st_broken (fst ab')"
  by (induction rule: pipe_work.induct) (auto dest: st_work_ctx)

lemma pipe_run_keeps:
  "(pipe_work pr rd)\<^sup>*\<^sup>* ab ab' \<Longrightarrow> pipe_ok pr ab \<Longrightarrow> \<not> st_broken (fst ab') \<Longrightarrow>
   pipe_ok pr ab' \<and> in_pipe pr rd ab' = in_pipe pr rd ab"
proof (induction rule: rtranclp_induct)
  case (step ab' ab'')
  then show ?case using pipe_work_keeps[OF step.hyps(2)] pipe_work_broken[OF step.hyps(2)] by metis
qed simp


subsection \<open>Every message gets through\<close>

text \<open>How far the messages are from their end; every useful step makes it smaller.\<close>

definition pipe_weight :: "(payload \<Rightarrow> string) \<Rightarrow> st_state \<times> st_state \<Rightarrow> nat" where
  "pipe_weight pr ab =
     sum_list (map (\<lambda>d. 4 * length (line_of pr d) + 2) (mh_outgoingChan (st_handler (fst ab)))) +
     sum_list (map (\<lambda>d. 4 * length (line_of pr d) + 1) (st_outgoingChan (fst ab))) +
     4 * length (st_output (fst ab)) + 3 * length (st_input (snd ab)) +
     (case st_held (snd ab) of None \<Rightarrow> 0 | Some _ \<Rightarrow> 2) + length (st_incomingChan (snd ab))"

definition pipe_live :: "(payload \<Rightarrow> string) \<Rightarrow> (string \<Rightarrow> payload) \<Rightarrow> st_state \<times> st_state \<Rightarrow> bool" where
  "pipe_live pr rd ab \<longleftrightarrow> pipe_ok pr ab \<and> \<not> st_broken (fst ab) \<and>
     {BridgeOutgoing, WriteLoop} \<subseteq> st_running (fst ab) \<and> {BridgeIncoming, ReadLoop} \<subseteq> st_running (snd ab) \<and>
     0 < st_bufferSize (fst ab) \<and> 0 < st_bufferSize (snd ab) \<and>
     length (in_pipe pr rd ab) \<le> mh_bufferSize (st_handler (snd ab))"

definition pipe_env where
  "pipe_env ab = (st_running (fst ab), st_running (snd ab), st_broken (fst ab), st_bufferSize (fst ab),
     st_bufferSize (snd ab), mh_bufferSize (st_handler (snd ab)))"

lemma pipe_live_step:
  assumes "pipe_work pr rd ab ab'" and "pipe_live pr rd ab" and "pipe_env ab' = pipe_env ab"
  shows "pipe_live pr rd ab'"
proof -
  have "pipe_ok pr ab'" "in_pipe pr rd ab' = in_pipe pr rd ab"
    using assms pipe_work_keeps[OF assms(1)] by (auto simp: pipe_live_def pipe_env_def)
  then show ?thesis using assms by (simp add: pipe_live_def pipe_env_def)
qed

text \<open>One useful step.\<close>

definition pipe_advances where
  "pipe_advances pr rd ab \<longleftrightarrow>
     (\<exists>ab'. pipe_work pr rd ab ab' \<and> pipe_weight pr ab' < pipe_weight pr ab \<and> pipe_env ab' = pipe_env ab)"

lemma pipe_advancesI:
  "pipe_work pr rd ab ab' \<Longrightarrow> pipe_weight pr ab' < pipe_weight pr ab \<Longrightarrow> pipe_env ab' = pipe_env ab \<Longrightarrow> pipe_advances pr rd ab"
  unfolding pipe_advances_def by blast

lemma advance_transfer: "st_output a \<noteq> [] \<Longrightarrow> pipe_advances pr rd (a, b)"
  by (rule pipe_advancesI[OF pipe_work.transfer[where xs = "st_output a" and ys = "[]"]])
    (simp_all add: pipe_weight_def pipe_env_def)

lemma advance_write:
  assumes live: "pipe_live pr rd (a, b)" and q: "st_outgoingChan a = d # ds"
  shows "pipe_advances pr rd (a, b)"
proof (rule pipe_advancesI[OF pipe_work.sender[OF st_work.writing]])
  show w: "writeLoop pr True False False a = Some (write_message pr False False d (a\<lparr>st_outgoingChan := ds\<rparr>))"
    using live q by (simp add: writeLoop_def pipe_live_def pipe_ok_def)
qed (use live q in \<open>auto simp: write_message_def pipe_weight_def pipe_env_def pipe_live_def Let_def line_of_def\<close>)

lemma advance_outgoing:
  assumes live: "pipe_live pr rd (a, b)" and q: "mh_outgoingChan (st_handler a) = d # ds" and e: "st_outgoingChan a = []"
  shows "pipe_advances pr rd (a, b)"
proof (rule pipe_advancesI[OF pipe_work.sender[OF st_work.outgoing]])
  have "relay True True (st_ctx a) (st_bufferSize a) id (mh_outgoingChan (st_handler a)) (st_outgoingChan a) = Moves ds [d]"
    using live q e by (simp add: relay_Moves pipe_live_def pipe_ok_def)
  then show "st_bridgeOutgoing True True a =
      Some (a\<lparr>st_handler := (st_handler a)\<lparr>mh_outgoingChan := ds\<rparr>, st_outgoingChan := [d]\<rparr>)"
    using live by (simp add: st_bridgeOutgoing_def pipe_live_def)
qed (use q e in \<open>auto simp: pipe_weight_def pipe_env_def\<close>)

lemma advance_incoming:
  assumes live: "pipe_live pr rd (a, b)" and q: "st_incomingChan b = l # ls"
  shows "pipe_advances pr rd (a, b)"
proof (rule pipe_advancesI[OF pipe_work.receiver[OF st_work.incoming]])
  have "length (mh_incomingChan (st_handler b)) < mh_bufferSize (st_handler b)"
    using live q by (simp add: pipe_live_def in_pipe_def)
  then have "relay True True (st_ctx b) (mh_bufferSize (st_handler b)) rd (st_incomingChan b) (mh_incomingChan (st_handler b)) =
      Moves ls (mh_incomingChan (st_handler b) @ [rd l])"
    using live q by (simp add: relay_Moves pipe_live_def pipe_ok_def)
  then show "st_bridgeIncoming rd True True b =
      Some (b\<lparr>st_incomingChan := ls, st_handler := (st_handler b)\<lparr>mh_incomingChan := mh_incomingChan (st_handler b) @ [rd l]\<rparr>\<rparr>)"
    using live by (simp add: st_bridgeIncoming_def pipe_live_def)
qed (use q in \<open>auto simp: pipe_weight_def pipe_env_def\<close>)

lemma advance_push:
  assumes live: "pipe_live pr rd (a, b)" and h: "st_held b = Some l" and e: "st_incomingChan b = []"
  shows "pipe_advances pr rd (a, b)"
proof (rule pipe_advancesI[OF pipe_work.receiver[OF st_work.push]])
  show "readLoop_push b = Some (b\<lparr>st_held := None, st_incomingChan := [l]\<rparr>)"
    using live h e by (simp add: readLoop_push_def pipe_live_def chan_send_def)
qed (use h e in \<open>auto simp: pipe_weight_def pipe_env_def\<close>)

lemma advance_scan:
  assumes live: "pipe_live pr rd (a, b)" and n: "st_input b \<noteq> []" and h: "st_held b = None" and o: "out_stream pr a = []"
  shows "pipe_advances pr rd (a, b)"
proof -
  have run: "ReadLoop \<in> st_running b" using live by (simp add: pipe_live_def)
  have "input_ok (st_readBufferSize b) (st_input b)" using live o by (simp add: pipe_live_def pipe_ok_def)
  then obtain l rest where s: "st_input b = l @ CHR 0x0A # rest" "CHR 0x0A \<notin> set l" "length l < st_readBufferSize b"
    using n by (blast elim: input_cases)
  then have "\<exists>b'. readLoop_scan b = Some b' \<and> pipe_weight pr (a, b') < pipe_weight pr (a, b) \<and> pipe_env (a, b') = pipe_env (a, b)"
    using h run by (simp add: readLoop_scan_def scan_line_line pipe_weight_def pipe_env_def)
  then show ?thesis using pipe_advancesI[OF pipe_work.receiver[OF st_work.scan]] by blast
qed

lemma pipe_progress:
  assumes live: "pipe_live pr rd ab" and w: "0 < pipe_weight pr ab"
  shows "pipe_advances pr rd ab"
proof -
  obtain a b where ab: "ab = (a, b)" by (cases ab)
  note live = live[unfolded ab]
  consider "st_output a \<noteq> []" | d ds where "st_outgoingChan a = d # ds"
    | d ds where "mh_outgoingChan (st_handler a) = d # ds" "st_outgoingChan a = []"
    | l ls where "st_incomingChan b = l # ls" | l where "st_held b = Some l" "st_incomingChan b = []"
    | "st_output a = []" "st_outgoingChan a = []" "mh_outgoingChan (st_handler a) = []" "st_incomingChan b = []" "st_held b = None"
    by (cases "st_outgoingChan a"; cases "mh_outgoingChan (st_handler a)"; cases "st_incomingChan b"; cases "st_held b") auto
  then show ?thesis
  proof cases
    case 6
    then have "st_input b \<noteq> []" "out_stream pr a = []" using w ab by (auto simp: pipe_weight_def out_stream_def)
    then show ?thesis using advance_scan[OF live] 6 ab by simp
  next
    case 4
    then show ?thesis using advance_incoming[OF live] ab by simp
  next
    case 5
    then show ?thesis using advance_push[OF live] ab by simp
  qed (use live ab advance_transfer advance_write advance_outgoing in blast)+
qed

lemma pipe_delivers:
  "pipe_live pr rd ab \<Longrightarrow>
   \<exists>ab'. (pipe_work pr rd)\<^sup>*\<^sup>* ab ab' \<and> pipe_weight pr ab' = 0 \<and> pipe_live pr rd ab' \<and> in_pipe pr rd ab' = in_pipe pr rd ab"
proof (induction "pipe_weight pr ab" arbitrary: ab rule: less_induct)
  case less
  show ?case
  proof (cases "pipe_weight pr ab = 0")
    case True
    then show ?thesis using less.prems by blast
  next
    case False
    then obtain ab' where s: "pipe_work pr rd ab ab'" "pipe_weight pr ab' < pipe_weight pr ab" "pipe_env ab' = pipe_env ab"
      using pipe_progress[OF less.prems] by (auto simp: pipe_advances_def)
    note l = pipe_live_step[OF s(1) less.prems s(3)]
    have "in_pipe pr rd ab' = in_pipe pr rd ab"
      using pipe_work_keeps[OF s(1)] less.prems l by (simp add: pipe_live_def)
    then show ?thesis using less.hyps[OF s(2) l] s(1) by (metis converse_rtranclp_into_rtranclp)
  qed
qed

lemma pipe_weight_0: "pipe_weight pr ab = 0 \<Longrightarrow> in_pipe pr rd ab = mh_incomingChan (st_handler (snd ab))"
  by (auto simp: pipe_weight_def in_pipe_def out_stream_def split: option.splits)


text \<open>A transport that was just made, with messages of its handler waiting to be sent.\<close>

definition st_fresh :: "st_state \<Rightarrow> bool" where
  "st_fresh s \<longleftrightarrow> st_ctx s = None \<and> st_incomingChan s = [] \<and> st_outgoingChan s = [] \<and> mh_incomingChan (st_handler s) = [] \<and>
     st_input s = [] \<and> \<not> st_eof s \<and> st_held s = None \<and> st_output s = [] \<and> \<not> st_broken s \<and>
     st_running s = {BridgeIncoming, BridgeOutgoing, BridgeRequests, BridgeNotifications, ReadLoop, WriteLoop} \<and>
     0 < st_bufferSize s \<and> 0 < st_readBufferSize s"

lemma fresh_pipe:
  assumes "st_fresh a" and "st_fresh b" and "ds = mh_outgoingChan (st_handler a)"
    and "list_all (prints pr (st_readBufferSize b)) ds" and "\<And>d. d \<in> set ds \<Longrightarrow> rd (pr d) = d"
  shows "pipe_ok pr (a, b) \<and> in_pipe pr rd (a, b) = ds"
proof -
  have "pending_lines (out_stream pr a) = map pr ds \<and> input_ok (st_readBufferSize b) (out_stream pr a)"
    using printed_lines[OF assms(4)] assms(1-3) by (simp add: st_fresh_def out_stream_def)
  moreover have "map (rd \<circ> pr) ds = ds" using assms(5) by (simp add: map_idI)
  ultimately show ?thesis using assms(1-3) by (simp add: st_fresh_def pipe_ok_def in_pipe_def)
qed

text \<open>A transport with the default configuration, with messages that its handler wants to send.\<close>

definition demo_transport :: "payload list \<Rightarrow> st_state" where
  "demo_transport ds =
     (case NewStdioTransport None \<lparr>stc_ReadBufferSize = 0, stc_WriteBufferSize = 0, stc_RequestTimeout = 0, stc_MessageBuffer = 0\<rparr> of
        Ok s \<Rightarrow> s\<lparr>st_handler := (st_handler s)\<lparr>mh_outgoingChan := ds\<rparr>\<rparr>)"

lemma demo_fresh:
  "st_fresh (demo_transport ds) \<and> mh_outgoingChan (st_handler (demo_transport ds)) = ds \<and>
   mh_bufferSize (st_handler (demo_transport ds)) = 100 \<and> st_readBufferSize (demo_transport ds) = 65536"
  by (simp add: demo_transport_def NewStdioTransport_def NewMessageHandler_def st_defaults_def st_fresh_def default_timeout_def Let_def)

definition demo_pr :: "payload \<Rightarrow> string" where
  "demo_pr d = (case d of Text JNull \<Rightarrow> ''null'' | _ \<Rightarrow> ''[]'')"

definition demo_rd :: "string \<Rightarrow> payload" where
  "demo_rd s = (if s = ''null'' then Text JNull else Text (JArr []))"

lemma demo_prints: "list_all (prints demo_pr 65536) [Text JNull, Text (JArr [])]"
  by (simp add: prints_def demo_pr_def)

lemma demo_reads: "d \<in> set [Text JNull, Text (JArr [])] \<Longrightarrow> demo_rd (demo_pr d) = d"
  by (auto simp: demo_pr_def demo_rd_def)

subsection \<open>Lines that are too long\<close>

text \<open>The input starts with as many bytes as the buffer holds, and none of them is a newline.\<close>

definition overlong :: "st_state \<Rightarrow> bool" where
  "overlong s \<longleftrightarrow> st_readBufferSize s \<le> length (st_input s) \<and> CHR 0x0A \<notin> set (take (st_readBufferSize s) (st_input s))"

lemma scan_overlong:
  assumes "cap \<le> length s" and "CHR 0x0A \<notin> set (take cap s)"
  shows "scan_line cap eof s = TooLong"
proof (cases "CHR 0x0A \<in> set s")
  case True
  then obtain l rest where s: "s = l @ CHR 0x0A # rest" "CHR 0x0A \<notin> set l" using split_list_first by fastforce
  then have "cap \<le> length l" using assms(2) by (cases "cap - length l") auto
  then show ?thesis using s by (simp add: scan_line_line)
qed (use assms in \<open>simp add: scan_line_def Index_byte_None[THEN iffD2]\<close>)

lemma overlong_stops:
  "overlong s \<Longrightarrow> st_held s = None \<Longrightarrow> ReadLoop \<in> st_running s \<Longrightarrow> readLoop_scan s = Some (st_stop ReadLoop s)"
  by (simp add: readLoop_scan_def overlong_def scan_overlong)

definition taken_in where
  "taken_in rd s = (mh_incomingChan (st_handler s) @ map rd (st_incomingChan s), st_linesRead s, st_readBufferSize s)"

lemma overlong_work:
  "st_work pr rd s s' \<Longrightarrow> st_ctx s = None \<Longrightarrow> overlong s \<Longrightarrow> st_held s = None \<Longrightarrow>
   st_input s' = st_input s \<and> st_held s' = None \<and> taken_in rd s' = taken_in rd s"
  by (induction rule: st_work.induct)
    (auto simp: st_step_defs taken_in_def overlong_def relay_Moves relay_not_Stops scan_overlong Let_def
      split: if_splits relayed.splits list.splits option.splits)

lemma overlong_pipe:
  "pipe_work pr rd ab ab' \<Longrightarrow> st_ctx (snd ab) = None \<Longrightarrow> overlong (snd ab) \<Longrightarrow> st_held (snd ab) = None \<Longrightarrow>
   st_ctx (snd ab') = None \<and> overlong (snd ab') \<and> st_held (snd ab') = None \<and> taken_in rd (snd ab') = taken_in rd (snd ab)"
proof (induction rule: pipe_work.induct)
  case (receiver b b' a)
  then show ?case using overlong_work[OF receiver.hyps] st_work_ctx[OF receiver.hyps] by (auto simp: overlong_def)
qed (auto simp: overlong_def taken_in_def)

subsection \<open>The end of the goroutines\<close>

lemma relay_stops_now: "c \<noteq> None \<Longrightarrow> relay False False c cap f src dst = Stops src"
  by (auto simp: relay_def split: list.splits)

lemma stop_step: "g \<in> st_running s \<Longrightarrow> st_ctx s \<noteq> None \<Longrightarrow> st_work pr rd s (st_stop g s)"
proof (cases g)
  case BridgeIncoming
  assume "g \<in> st_running s" "st_ctx s \<noteq> None"
  then show ?thesis using BridgeIncoming
    by (intro st_work.incoming[where pick = False and pick' = False]) (simp add: st_bridgeIncoming_def relay_stops_now)
next
  case BridgeOutgoing
  assume "g \<in> st_running s" "st_ctx s \<noteq> None"
  then show ?thesis using BridgeOutgoing
    by (intro st_work.outgoing[where pick = False and pick' = False]) (simp add: st_bridgeOutgoing_def relay_stops_now)
next
  case BridgeRequests
  assume "g \<in> st_running s" "st_ctx s \<noteq> None"
  then show ?thesis using BridgeRequests
    by (intro st_work.requests[where pick = False and pick' = False]) (simp add: st_bridgeRequests_def relay_stops_now)
next
  case BridgeNotifications
  assume "g \<in> st_running s" "st_ctx s \<noteq> None"
  then show ?thesis using BridgeNotifications
    by (intro st_work.notifications[where pick = False and pick' = False]) (simp add: st_bridgeNotifications_def relay_stops_now)
next
  case ReadLoop
  assume "g \<in> st_running s" "st_ctx s \<noteq> None"
  then show ?thesis using ReadLoop by (intro st_work.scan_cancelled) (simp add: readLoop_cancelled_def)
next
  case WriteLoop
  assume "g \<in> st_running s" "st_ctx s \<noteq> None"
  then show ?thesis using WriteLoop
    by (intro st_work.writing[where pick = False]) (auto simp: writeLoop_def split: list.splits option.splits)
qed

lemma stop_all:
  assumes "finite G" and "st_running s = G" and "st_ctx s \<noteq> None"
  shows "(st_work pr rd)\<^sup>*\<^sup>* s (s\<lparr>st_running := {}\<rparr>)"
  using assms
proof (induction G arbitrary: s)
  case empty
  then have "s\<lparr>st_running := {}\<rparr> = s" by simp
  then show ?case by (metis rtranclp.rtrancl_refl)
next
  case (insert g G)
  then have "st_work pr rd s (st_stop g s)" by (intro stop_step) auto
  moreover have "st_running (st_stop g s) = G" using insert by (simp add: st_stop_def)
  then have "(st_work pr rd)\<^sup>*\<^sup>* (st_stop g s) (st_stop g s\<lparr>st_running := {}\<rparr>)"
    using insert by (intro insert.IH) (auto simp: st_stop_def)
  ultimately show ?case by (simp add: st_stop_def converse_rtranclp_into_rtranclp)
qed

section \<open>Properties\<close>

text \<open>C28: Two stdio transports joined by a pipe lose, repeat and reorder nothing: in any interleaving of the six goroutines
  of both sides, with the bytes crossing the pipe in pieces of any size, what the receiving handler has got so far is an
  initial part of what the sending handler sent, and it is all of it once nothing is under way. This needs that the
  context of neither side ends, that no write fails, and that every printed message is one line that fits the buffer.
\<close>

theorem stdio_pipe:
  assumes "st_fresh a" and "st_fresh b" and "ds = mh_outgoingChan (st_handler a)"
    and "list_all (prints pr (st_readBufferSize b)) ds" and "\<And>d. d \<in> set ds \<Longrightarrow> rd (pr d) = d"
    and "(pipe_work pr rd)\<^sup>*\<^sup>* (a, b) (a', b')" and "\<not> st_broken a'"
  shows "(\<exists>rest. ds = mh_incomingChan (st_handler b') @ rest) \<and>
    (mh_outgoingChan (st_handler a') = [] \<and> st_outgoingChan a' = [] \<and> st_output a' = [] \<and>
     st_input b' = [] \<and> st_held b' = None \<and> st_incomingChan b' = [] \<longrightarrow> mh_incomingChan (st_handler b') = ds)"
proof -
  have "in_pipe pr rd (a', b') = ds"
    using pipe_run_keeps[OF assms(6)] fresh_pipe[where rd = rd, OF assms(1-5)] assms(7) by simp
  then show ?thesis by (auto simp: in_pipe_def out_stream_def)
qed

theorem stdio_pipe_witness:
  "\<exists>a' b'. (pipe_work demo_pr demo_rd)\<^sup>*\<^sup>* (demo_transport [Text JNull, Text (JArr [])], demo_transport []) (a', b') \<and>
     mh_incomingChan (st_handler b') = [Text JNull, Text (JArr [])]"
proof -
  let ?ds = "[Text JNull, Text (JArr [])]" and ?a = "demo_transport [Text JNull, Text (JArr [])]" and ?b = "demo_transport []"
  have p: "list_all (prints demo_pr (st_readBufferSize ?b)) ?ds" using demo_prints demo_fresh by simp
  have ab: "st_fresh ?a" "st_fresh ?b" "?ds = mh_outgoingChan (st_handler ?a)" by (simp_all add: demo_fresh)
  have "pipe_live demo_pr demo_rd (?a, ?b)"
    using fresh_pipe[OF ab p demo_reads] ab(1,2) by (simp add: pipe_live_def demo_fresh st_fresh_def)
  then obtain a' b' where r: "(pipe_work demo_pr demo_rd)\<^sup>*\<^sup>* (?a, ?b) (a', b')" "pipe_weight demo_pr (a', b') = 0" "\<not> st_broken a'"
    using pipe_delivers by (fastforce simp: pipe_live_def)
  have "mh_incomingChan (st_handler b') = ?ds"
    using stdio_pipe[OF ab p demo_reads r(1,3)] r(2) by (auto simp: pipe_weight_def split: option.splits)
  then show ?thesis using r(1) by blast
qed

text \<open>C29: And everything gets through: from two fresh transports there is a run of the goroutines after which the receiving
  handler has exactly the messages sent, when its buffer has room for them.
\<close>

theorem stdio_delivers:
  assumes "st_fresh a" and "st_fresh b" and "ds = mh_outgoingChan (st_handler a)"
    and "list_all (prints pr (st_readBufferSize b)) ds" and "\<And>d. d \<in> set ds \<Longrightarrow> rd (pr d) = d"
    and "length ds \<le> mh_bufferSize (st_handler b)"
  shows "\<exists>a' b'. (pipe_work pr rd)\<^sup>*\<^sup>* (a, b) (a', b') \<and> mh_incomingChan (st_handler b') = ds \<and> \<not> st_broken a'"
proof -
  have "pipe_live pr rd (a, b)" and ds: "in_pipe pr rd (a, b) = ds"
    using fresh_pipe[where rd = rd, OF assms(1-5)] assms by (auto simp: pipe_live_def st_fresh_def)
  then show ?thesis using pipe_delivers[of pr rd "(a, b)"] pipe_weight_0[of pr _ rd] by (fastforce simp: pipe_live_def)
qed


theorem stdio_delivers_witness:
  "\<exists>a' b'. (pipe_work demo_pr demo_rd)\<^sup>*\<^sup>* (demo_transport [Text JNull, Text (JArr [])], demo_transport []) (a', b') \<and>
     mh_incomingChan (st_handler b') = [Text JNull, Text (JArr [])] \<and> \<not> st_broken a'"
  by (rule stdio_delivers[OF _ _ _ _ demo_reads]) (use demo_prints in \<open>simp_all add: demo_fresh\<close>)

text \<open>A line that does not fit the read buffer ends the reading for good and without a sign: the scanner stops, its
  error is dropped, and although the context stays alive no line is read and nothing more reaches the message handler,
  whatever the other side sends later.
\<close>

theorem long_line_stops_reading:
  assumes "overlong b" and "st_ctx b = None" and "st_held b = None" and "(pipe_work pr rd)\<^sup>*\<^sup>* (a, b) (a', b')"
  shows "mh_incomingChan (st_handler b') @ map rd (st_incomingChan b') = mh_incomingChan (st_handler b) @ map rd (st_incomingChan b) \<and>
    st_linesRead b' = st_linesRead b \<and> st_ctx b' = None \<and>
    (ReadLoop \<in> st_running b' \<longrightarrow> readLoop_scan b' = Some (st_stop ReadLoop b'))"
proof -
  have "st_ctx (snd (a', b')) = None \<and> overlong (snd (a', b')) \<and> st_held (snd (a', b')) = None \<and>
      taken_in rd (snd (a', b')) = taken_in rd (snd (a, b))"
    using assms(4)
  proof (induction rule: rtranclp_induct)
    case (step y z)
    then show ?case using overlong_pipe[OF step.hyps(2)] by simp
  qed (use assms(1-3) in simp)
  then show ?thesis using overlong_stops[of b'] by (simp add: taken_in_def)
qed

theorem long_line_stops_reading_witness:
  "\<exists>b b'. st_input b = replicate 65536 (CHR ''x'') @ ''\<newline>null\<newline>'' \<and> (pipe_work demo_pr demo_rd)\<^sup>*\<^sup>* (demo_transport [], b) (demo_transport [], b') \<and>
     ReadLoop \<notin> st_running b' \<and> st_linesRead b' = st_linesRead b \<and> st_ctx b' = None"
proof -
  let ?b = "(demo_transport [])\<lparr>st_input := replicate 65536 (CHR ''x'') @ ''\<newline>null\<newline>''\<rparr>"
  have b: "overlong ?b" "st_ctx ?b = None" "st_held ?b = None" "ReadLoop \<in> st_running ?b"
    using demo_fresh[of "[]"] by (simp_all add: overlong_def st_fresh_def)
  have "readLoop_scan ?b = Some (st_stop ReadLoop ?b)"
    by (rule overlong_stops[OF b(1,3,4)])
  then have r: "(pipe_work demo_pr demo_rd)\<^sup>*\<^sup>* (demo_transport [], ?b) (demo_transport [], st_stop ReadLoop ?b)"
    by (intro r_into_rtranclp pipe_work.receiver st_work.scan)
  have "ReadLoop \<notin> st_running (st_stop ReadLoop ?b)" by (simp add: st_stop_def)
  moreover have "st_input ?b = replicate 65536 (CHR ''x'') @ ''\<newline>null\<newline>''" by simp
  ultimately show ?thesis using long_line_stops_reading[OF b(1-3) r] r by blast
qed

text \<open>
  \<open>Close\<close> does not hang: once the context is cancelled every goroutine can end at its next step, whatever its queues
  hold, after which \<open>Close\<close> finishes. But then the messages still queued for the writer were never written.
\<close>

theorem stdio_close_returns:
  shows "\<exists>s'. (st_work pr rd)\<^sup>*\<^sup>* (st_cancel s) s' \<and> st_finish_close ks s' \<noteq> None \<and>
    st_output s' = st_output s \<and> st_outgoingChan s' = st_outgoingChan s"
proof -
  have "finite (st_running (st_cancel s))" by simp
  then have "(st_work pr rd)\<^sup>*\<^sup>* (st_cancel s) ((st_cancel s)\<lparr>st_running := {}\<rparr>)"
    by (rule stop_all) (auto simp: st_cancel_def split: option.splits)
  then show ?thesis by (intro exI[of _ "(st_cancel s)\<lparr>st_running := {}\<rparr>"]) (simp add: st_finish_close_def st_cancel_def)
qed

end
