(* ===== verification/Process.thy ===== *)
theory Process
  imports Stdio
begin

text \<open>
  \<open>client/process.go\<close>: a server as a child process, with the stdio transport on its pipes. The operating system is an
  argument: \<open>goos\<close> is \<open>runtime.GOOS\<close>, \<open>environ\<close> the environment as pairs, and which of the calls that make pipes
  and start the process fail. Of \<open>os/exec\<close> the development models what the code relies on: a nil \<open>Env\<close> means the whole
  environment of the parent, and \<open>Wait\<close> waits for the exit, works once, and closes the pipes.
\<close>

named_theorems process_simps "operations of the process transport"

section \<open>Configuration\<close>

datatype stderr_mode = StderrInherit | StderrPipe | StderrDiscard | StderrToStdout | OtherStderr int

record process_config =
  pc_Command :: string
  pc_Args :: "string list"
  pc_Env :: "string list option"
  pc_Dir :: string
  pc_StderrMode :: stderr_mode
  pc_EnableShell :: bool

definition DefaultEnvironmentVariables :: "string \<Rightarrow> string list" where
  "DefaultEnvironmentVariables goos =
     (if goos = ''windows''
      then [''APPDATA'', ''HOMEDRIVE'', ''HOMEPATH'', ''LOCALAPPDATA'', ''PATH'', ''PROCESSOR_ARCHITECTURE'', ''SYSTEMDRIVE'',
            ''SYSTEMROOT'', ''TEMP'', ''USERNAME'', ''USERPROFILE'']
      else [''HOME'', ''LOGNAME'', ''PATH'', ''SHELL'', ''TERM'', ''USER''])"

definition Getenv :: "(string \<times> string) list \<Rightarrow> string \<Rightarrow> string" where
  "Getenv environ key = (case map_of environ key of Some v \<Rightarrow> v | None \<Rightarrow> [])"

text \<open>Appending to the nil slice leaves it nil where nothing is appended.\<close>

definition GetDefaultEnvironment :: "string \<Rightarrow> (string \<times> string) list \<Rightarrow> string list option" where
  "GetDefaultEnvironment goos environ =
     (let env = concat (map (\<lambda>key.
            let value = Getenv environ key
            in if value \<noteq> [] then (if 2 < length value \<and> take 2 value = ''()'' then [] else [key @ ''='' @ value]) else [])
          (DefaultEnvironmentVariables goos))
      in if env = [] then None else Some env)"

section \<open>Command lines\<close>

definition containsSpaces :: "string \<Rightarrow> bool" where
  "containsSpaces s = list_ex (\<lambda>r. r = CHR '' '' \<or> r = CHR 0x09 \<or> r = CHR 0x0A \<or> r = CHR 0x0D) s"

definition quote_arg :: "string \<Rightarrow> string" where
  "quote_arg arg =
     (if arg \<noteq> [] \<and> (hd arg = CHR 0x22 \<or> hd arg = CHR 0x27) then arg
      else if containsSpaces arg then [CHR 0x22] @ arg @ [CHR 0x22] else arg)"

definition joinArgs :: "string list \<Rightarrow> string" where
  "joinArgs args = Join (map quote_arg args) '' ''"

section \<open>Processes\<close>

datatype stderr_target = ToParent | ToPipe | Discarded | SameAsStdout

record exec_cmd =
  ec_Name :: string
  ec_Args :: "string list"
  ec_Env :: "string list option"
  ec_Dir :: string
  ec_Stderr :: stderr_target

text \<open>\<open>ps_waited\<close> says whether \<open>Wait\<close> returned, which sets \<open>ProcessState\<close>; \<open>ps_status\<close> is the error of the exit.\<close>

record proc =
  ps_Pid :: int
  ps_alive :: bool
  ps_waited :: bool
  ps_status :: "string option"

datatype os_signal = Interrupt | Kill

text \<open>
  All processes that were started, with the signals sent to them, and the fields of \<open>ProcessTransport\<close>: the command with
  the index of its process, the pipe of the standard error if any (and whether it is open), the mutex.
\<close>

record pt_state =
  pt_procs :: "proc list"
  pt_signals :: "(nat \<times> os_signal) list"
  pt_stdio :: "st_state option"
  pt_cmd :: "(exec_cmd \<times> nat) option"
  pt_stderr :: "bool option"
  pt_config :: process_config
  pt_locked :: bool

definition NewProcessTransport :: "string \<Rightarrow> (string \<times> string) list \<Rightarrow> process_config \<Rightarrow> pt_state outcome" where
  "NewProcessTransport goos environ config =
     (if pc_Command config = [] then Err ''command is required''
      else Ok \<lparr>pt_procs = [], pt_signals = [], pt_stdio = None, pt_cmd = None, pt_stderr = None,
             pt_config = (if pc_Env config = None then config\<lparr>pc_Env := GetDefaultEnvironment goos environ\<rparr> else config),
             pt_locked = False\<rparr>)"

definition make_cmd :: "string \<Rightarrow> process_config \<Rightarrow> exec_cmd" where
  "make_cmd goos config =
     (let line = pc_Command config @ '' '' @ joinArgs (pc_Args config)
      in \<lparr>ec_Name = (if pc_EnableShell config then (if goos = ''windows'' then ''cmd'' else ''sh'') else pc_Command config),
          ec_Args = (if pc_EnableShell config then [if goos = ''windows'' then ''/c'' else ''-c'', line] else pc_Args config),
          ec_Env = pc_Env config, ec_Dir = pc_Dir config,
          ec_Stderr = (case pc_StderrMode config of StderrInherit \<Rightarrow> ToParent | StderrPipe \<Rightarrow> ToPipe
            | StderrDiscard \<Rightarrow> Discarded | StderrToStdout \<Rightarrow> SameAsStdout | OtherStderr _ \<Rightarrow> Discarded)\<rparr>)"

section \<open>Stopping the process\<close>

definition reap :: "nat \<Rightarrow> pt_state \<Rightarrow> pt_state" where
  "reap i s = s\<lparr>pt_procs := (pt_procs s)[i := (pt_procs s ! i)\<lparr>ps_alive := False, ps_waited := True\<rparr>]\<rparr>"

text \<open>
  \<open>cleanup\<close> signals the process, waits for its exit for five seconds and then kills it; \<open>obeys\<close> says whether it exits in
  time. A signal to a process that was waited for fails.
\<close>

definition cleanup :: "string \<Rightarrow> bool \<Rightarrow> pt_state \<Rightarrow> pt_state" where
  "cleanup goos obeys s =
     (let s1 = (case pt_cmd s of
            None \<Rightarrow> s
          | Some (cmd, i) \<Rightarrow>
              let p = pt_procs s ! i;
                  first = (if goos = ''windows'' then Kill else Interrupt);
                  sent = (if ps_waited p then []
                          else (i, first) # (if ps_alive p \<and> first = Interrupt \<and> \<not> obeys then [(i, Kill)] else []))
              in reap i (s\<lparr>pt_signals := pt_signals s @ sent\<rparr>))
      in s1\<lparr>pt_stderr := None, pt_cmd := None\<rparr>)"

section \<open>Operations\<close>

text \<open>Which of the calls of the operating system fail, and the identifier of the new process.\<close>

record spawn_result =
  sr_stdin :: "string option"
  sr_stdout :: "string option"
  sr_stderr :: "string option"
  sr_start :: "string option"
  sr_pid :: int

definition stdio_config :: st_config where
  "stdio_config = \<lparr>stc_ReadBufferSize = 0, stc_WriteBufferSize = 0, stc_RequestTimeout = 0, stc_MessageBuffer = 0\<rparr>"

text \<open>
  \<open>Start\<close>, \<^term>\<open>None\<close> while the mutex is taken. The second component is the error; a pipe of the standard error that was
  made before \<open>cmd.Start\<close> failed stays in the field, closed.
\<close>

definition pt_Start ::
  "string \<Rightarrow> bool \<Rightarrow> spawn_result \<Rightarrow> string option \<Rightarrow> pt_state \<Rightarrow> (pt_state \<times> string option) outcome option" where
  "pt_Start goos obeys sr ctx s =
     (if pt_locked s then None
      else Some (if pt_cmd s \<noteq> None then Ok (s, Some ''process already started'')
      else let cmd = make_cmd goos (pt_config s)
      in case sr_stdin sr of Some e \<Rightarrow> Ok (s, Some (''failed to create stdin pipe: '' @ e))
      | None \<Rightarrow> (case sr_stdout sr of Some e \<Rightarrow> Ok (s, Some (''failed to create stdout pipe: '' @ e))
      | None \<Rightarrow>
          if ec_Stderr cmd = ToPipe \<and> sr_stderr sr \<noteq> None
          then Ok (s, Some (''failed to create stderr pipe: '' @ (case sr_stderr sr of Some e \<Rightarrow> e | None \<Rightarrow> [])))
          else let s1 = (if ec_Stderr cmd = ToPipe then s\<lparr>pt_stderr := Some True\<rparr> else s)
          in case sr_start sr of
            Some e \<Rightarrow> Ok (s1\<lparr>pt_stderr := map_option (\<lambda>_. False) (pt_stderr s1)\<rparr>, Some (''failed to start process: '' @ e))
          | None \<Rightarrow>
              let s2 = s1\<lparr>pt_cmd := Some (cmd, length (pt_procs s1)),
                    pt_procs := pt_procs s1 @ [\<lparr>ps_Pid = sr_pid sr, ps_alive = True, ps_waited = False, ps_status = None\<rparr>]\<rparr>
              in case NewStdioTransport ctx stdio_config of
                Panic p \<Rightarrow> Panic p
              | Err e \<Rightarrow> Ok (cleanup goos obeys s2, Some (''failed to create stdio transport: '' @ e))
              | Ok t \<Rightarrow> Ok (s2\<lparr>pt_stdio := Some t\<rparr>, None))))"

definition Stderr :: "pt_state \<Rightarrow> bool option" where
  "Stderr s = pt_stderr s"

definition ProcessID :: "pt_state \<Rightarrow> int" where
  "ProcessID s = (case pt_cmd s of None \<Rightarrow> 0 | Some (_, i) \<Rightarrow> ps_Pid (pt_procs s ! i))"

definition IsRunning :: "string \<Rightarrow> pt_state \<Rightarrow> bool" where
  "IsRunning goos s =
     (case pt_cmd s of
        None \<Rightarrow> False
      | Some (_, i) \<Rightarrow>
          if ps_waited (pt_procs s ! i) then False
          else if goos = ''windows'' then True else 0 < ps_Pid (pt_procs s ! i))"

text \<open>
  \<open>cmd.Wait\<close> returns once the process has exited. It closes the pipes, so of the output that was not yet read only the
  bytes that the scanner already took (\<open>kept\<close>) are still read.
\<close>

definition cmd_Wait :: "nat \<Rightarrow> nat \<Rightarrow> pt_state \<Rightarrow> (pt_state \<times> string option) option" where
  "cmd_Wait kept i s =
     (let p = pt_procs s ! i
      in if ps_waited p then Some (s, Some ''exec: Wait was already called'')
         else if ps_alive p then None
         else Some ((reap i s)\<lparr>pt_stderr := map_option (\<lambda>_. False) (pt_stderr s),
                pt_stdio := map_option (\<lambda>t. t\<lparr>st_input := take kept (st_input t), st_eof := True\<rparr>) (pt_stdio s)\<rparr>, ps_status p))"

definition pt_Wait :: "nat \<Rightarrow> pt_state \<Rightarrow> (pt_state \<times> string option) option" where
  "pt_Wait kept s =
     (if pt_locked s then None
      else case pt_cmd s of
        None \<Rightarrow> Some (s, Some ''process not started'')
      | Some (_, i) \<Rightarrow> cmd_Wait kept i s)"

text \<open>
  \<open>Close\<close> takes the mutex and closes the stdio transport, which cancels it and waits for its goroutines; when they have
  ended it stops the process. \<open>closeOnce\<close> lets a second \<open>Close\<close> of the stdio transport return at once.
\<close>

definition pt_Close_begin :: "pt_state \<Rightarrow> pt_state option" where
  "pt_Close_begin s =
     (if pt_locked s then None
      else Some (s\<lparr>pt_locked := True, pt_stdio := map_option (\<lambda>t. if st_chansClosed t then t else st_cancel t) (pt_stdio s)\<rparr>))"

definition pt_Close_finish ::
  "string \<Rightarrow> gval list \<Rightarrow> bool \<Rightarrow> pt_state \<Rightarrow> (pt_state \<times> string option) outcome option" where
  "pt_Close_finish goos ks obeys s =
     (if \<not> pt_locked s then None
      else case pt_stdio s of
        None \<Rightarrow> Some (Ok ((cleanup goos obeys s)\<lparr>pt_locked := False\<rparr>, None))
      | Some t \<Rightarrow>
          if st_chansClosed t then Some (Ok ((cleanup goos obeys s)\<lparr>pt_locked := False\<rparr>, None))
          else map_option (\<lambda>r. case r of
              Ok t' \<Rightarrow> Ok ((cleanup goos obeys (s\<lparr>pt_stdio := Some t'\<rparr>))\<lparr>pt_locked := False\<rparr>, None)
            | Err e \<Rightarrow> Ok ((cleanup goos obeys s)\<lparr>pt_locked := False\<rparr>, Some e)
            | Panic p \<Rightarrow> Panic p) (st_finish_close ks t))"

text \<open>The methods of the embedded transport, on a nil pointer before \<open>Start\<close>.\<close>

definition pt_SendRequest :: "bool \<Rightarrow> string \<Rightarrow> gval \<Rightarrow> pt_state \<Rightarrow> (pt_state \<times> nat outcome) option" where
  "pt_SendRequest pick meth params s =
     (case pt_stdio s of
        None \<Rightarrow> Some (s, Panic ''nil pointer dereference'')
      | Some t \<Rightarrow> map_option (\<lambda>(t', r). (s\<lparr>pt_stdio := Some t'\<rparr>, r)) (st_SendRequest pick meth params t))"

section \<open>Runs\<close>

text \<open>The operations, the goroutines of the stdio transport, and what the process does: it writes, and it exits.\<close>

inductive pt_step :: "string \<Rightarrow> pt_state \<Rightarrow> pt_state \<Rightarrow> bool" for goos where
  start: "pt_Start goos obeys sr ctx s = Some (Ok (s', e)) \<Longrightarrow> pt_step goos s s'"
| wait: "pt_Wait kept s = Some (s', e) \<Longrightarrow> pt_step goos s s'"
| close: "pt_Close_begin s = Some s' \<Longrightarrow> pt_step goos s s'"
| closed: "pt_Close_finish goos ks obeys s = Some (Ok (s', e)) \<Longrightarrow> pt_step goos s s'"
| stdio: "pt_stdio s = Some t \<Longrightarrow> pt_step goos s (s\<lparr>pt_stdio := Some t'\<rparr>)"
| exits: "i < length (pt_procs s) \<Longrightarrow>
    pt_step goos s (s\<lparr>pt_procs := (pt_procs s)[i := (pt_procs s ! i)\<lparr>ps_alive := False, ps_status := e\<rparr>]\<rparr>)"

inductive pt_reachable :: "string \<Rightarrow> pt_state \<Rightarrow> bool" for goos where
  new: "NewProcessTransport goos environ config = Ok s \<Longrightarrow> pt_reachable goos s"
| step: "pt_reachable goos s \<Longrightarrow> pt_step goos s s' \<Longrightarrow> pt_reachable goos s'"

section \<open>Lemmas\<close>

subsection \<open>Processes\<close>

definition reaped :: "proc \<Rightarrow> bool" where
  "reaped p \<longleftrightarrow> \<not> ps_alive p \<and> ps_waited p"

text \<open>Every process but the one of the current command has exited and was waited for.\<close>

definition procs_inv :: "pt_state \<Rightarrow> bool" where
  "procs_inv s \<longleftrightarrow>
     (\<forall>i < length (pt_procs s). reaped (pt_procs s ! i) \<or> (\<exists>cmd. pt_cmd s = Some (cmd, i))) \<and>
     (\<forall>cmd i. pt_cmd s = Some (cmd, i) \<longrightarrow> i < length (pt_procs s)) \<and>
     (\<forall>i < length (pt_procs s). ps_waited (pt_procs s ! i) \<longrightarrow> \<not> ps_alive (pt_procs s ! i))"

lemma cleanup_fields [simp]:
  "pt_cmd (cleanup goos obeys s) = None" "pt_stderr (cleanup goos obeys s) = None" "pt_stdio (cleanup goos obeys s) = pt_stdio s"
  "pt_locked (cleanup goos obeys s) = pt_locked s" "length (pt_procs (cleanup goos obeys s)) = length (pt_procs s)"
  by (simp_all add: cleanup_def reap_def Let_def split: option.splits prod.splits)

lemma cleanup_procs:
  "pt_procs (cleanup goos obeys s) =
     (case pt_cmd s of None \<Rightarrow> pt_procs s
      | Some (cmd, i) \<Rightarrow> (pt_procs s)[i := (pt_procs s ! i)\<lparr>ps_alive := False, ps_waited := True\<rparr>])"
  by (simp add: cleanup_def reap_def Let_def split: option.splits prod.splits)

lemma cleanup_reaps:
  assumes "procs_inv s" and "i < length (pt_procs s)"
  shows "reaped (pt_procs (cleanup goos obeys s) ! i)"
proof (cases "pt_cmd s")
  case None
  then show ?thesis using assms by (auto simp: procs_inv_def cleanup_procs)
next
  case (Some ci)
  then show ?thesis using assms by (cases ci) (auto simp: procs_inv_def cleanup_procs nth_list_update reaped_def)
qed

text \<open>The fields the invariant is about.\<close>

definition pt_core where
  "pt_core s = (pt_procs s, pt_cmd s)"

lemma procs_inv_core: "pt_core s' = pt_core s \<Longrightarrow> procs_inv s \<Longrightarrow> procs_inv s'"
  by (simp add: pt_core_def procs_inv_def)

lemma cleanup_inv: "procs_inv s \<Longrightarrow> procs_inv (cleanup goos obeys s)"
  using cleanup_reaps [of s _ goos obeys] by (simp add: procs_inv_def [of "cleanup goos obeys s"] reaped_def)

lemma reap_inv: "procs_inv s \<Longrightarrow> i < length (pt_procs s) \<Longrightarrow> procs_inv (reap i s)"
  by (simp add: procs_inv_def reap_def reaped_def nth_list_update)

lemma stdio_made: "\<exists>t. NewStdioTransport ctx stdio_config = Ok t \<and> \<not> st_chansClosed t"
  by (simp add: NewStdioTransport_def st_defaults_def stdio_config_def NewMessageHandler_def Let_def)

lemma Start_cases:
  assumes "pt_Start goos obeys sr ctx s = Some (Ok (s', e))"
  shows "e \<noteq> None \<and> pt_core s' = pt_core s \<and> pt_stdio s' = pt_stdio s \<or>
    e = None \<and> pt_cmd s = None \<and> pt_cmd s' = Some (make_cmd goos (pt_config s), length (pt_procs s)) \<and>
    pt_procs s' = pt_procs s @ [\<lparr>ps_Pid = sr_pid sr, ps_alive = True, ps_waited = False, ps_status = None\<rparr>] \<and>
    pt_config s' = pt_config s \<and> (\<exists>t. NewStdioTransport ctx stdio_config = Ok t \<and> pt_stdio s' = Some t)"
proof -
  obtain t where t: "NewStdioTransport ctx stdio_config = Ok t" using stdio_made by blast
  show ?thesis
    using assms by (cases "pt_cmd s") (auto simp: pt_Start_def t pt_core_def Let_def split: if_splits option.splits)
qed

lemma Close_cases:
  assumes "pt_Close_finish goos ks obeys s = Some (Ok (s', e))"
  shows "\<exists>t. s' = (cleanup goos obeys (s\<lparr>pt_stdio := t\<rparr>))\<lparr>pt_locked := False\<rparr>"
proof -
  have same: "s = s\<lparr>pt_stdio := pt_stdio s\<rparr>" by simp
  have "s' = (cleanup goos obeys s)\<lparr>pt_locked := False\<rparr> \<or> (\<exists>t. s' = (cleanup goos obeys (s\<lparr>pt_stdio := t\<rparr>))\<lparr>pt_locked := False\<rparr>)"
  proof (cases "case pt_stdio s of None \<Rightarrow> True | Some t \<Rightarrow> st_chansClosed t")
    case True
    then show ?thesis using assms by (auto simp: pt_Close_finish_def split: if_splits option.splits)
  next
    case False
    then obtain t where t: "pt_stdio s = Some t" "\<not> st_chansClosed t" by (auto split: option.splits)
    then obtain z where "st_finish_close ks t = Some z" using assms by (auto simp: pt_Close_finish_def split: if_splits)
    then show ?thesis using assms t by (cases z) (auto simp: pt_Close_finish_def split: if_splits)
  qed
  then show ?thesis using same by metis
qed

lemma pt_step_inv: "pt_step goos s s' \<Longrightarrow> procs_inv s \<Longrightarrow> procs_inv s'"
proof (induction rule: pt_step.induct)
  case (start obeys sr ctx s s' e)
  show ?case using Start_cases [OF start.hyps]
  proof (elim disjE conjE)
    assume "pt_core s' = pt_core s"
    then show ?thesis using procs_inv_core start.prems by blast
  next
    assume "pt_cmd s = None" "pt_cmd s' = Some (make_cmd goos (pt_config s), length (pt_procs s))"
      "pt_procs s' = pt_procs s @ [\<lparr>ps_Pid = sr_pid sr, ps_alive = True, ps_waited = False, ps_status = None\<rparr>]"
    then show ?thesis using start.prems by (simp add: procs_inv_def nth_append less_Suc_eq all_conj_distrib)
  qed
next
  case (wait kept s s' e)
  show ?case
  proof (cases "pt_cmd s")
    case None
    then show ?thesis using wait by (simp add: pt_Wait_def split: if_splits)
  next
    case (Some ci)
    then obtain c i where i: "pt_cmd s = Some (c, i)" by (cases ci) simp
    then have "cmd_Wait kept i s = Some (s', e)" using wait.hyps by (simp add: pt_Wait_def split: if_splits)
    then have "pt_core s' = pt_core s \<or> pt_core s' = pt_core (reap i s)"
      by (auto simp: cmd_Wait_def Let_def pt_core_def reap_def split: if_splits)
    moreover have "i < length (pt_procs s)" using i wait.prems by (simp add: procs_inv_def)
    ultimately show ?thesis using procs_inv_core reap_inv wait.prems by blast
  qed
next
  case (closed ks obeys s s' e)
  then obtain t where s': "s' = (cleanup goos obeys (s\<lparr>pt_stdio := t\<rparr>))\<lparr>pt_locked := False\<rparr>" using Close_cases by blast
  have "procs_inv (s\<lparr>pt_stdio := t\<rparr>)" by (rule procs_inv_core [OF _ closed.prems]) (simp add: pt_core_def)
  then have "procs_inv (cleanup goos obeys (s\<lparr>pt_stdio := t\<rparr>))" by (rule cleanup_inv)
  then show ?case unfolding s' by (rule procs_inv_core [rotated]) (simp add: pt_core_def)
next
  case (exits i s e)
  then show ?case
    by (simp add: procs_inv_def reaped_def nth_list_update) blast
qed (auto simp: pt_Close_begin_def pt_core_def intro: procs_inv_core split: if_splits)

lemma pt_reachable_inv: "pt_reachable goos s \<Longrightarrow> procs_inv s"
proof (induction rule: pt_reachable.induct)
  case (new environ config s)
  then show ?case by (auto simp: NewProcessTransport_def procs_inv_def split: if_splits)
next
  case (step s s')
  then show ?case using pt_step_inv by blast
qed


text \<open>The goroutines of a stdio transport that is being closed can end, and then \<open>Close\<close> goes on.\<close>

lemma process_close_returns:
  assumes "pt_Close_begin s = Some s1"
  shows "\<exists>t. (\<forall>t1. pt_stdio s1 = Some t1 \<longrightarrow> (\<exists>t'. t = Some t' \<and> (st_work pr rd)\<^sup>*\<^sup>* t1 t')) \<and>
    pt_Close_finish goos ks obeys (s1\<lparr>pt_stdio := t\<rparr>) \<noteq> None"
proof (cases "case pt_stdio s of None \<Rightarrow> True | Some t \<Rightarrow> st_chansClosed t")
  case True
  then show ?thesis using assms
    by (intro exI [of _ "pt_stdio s"]) (auto simp: pt_Close_begin_def pt_Close_finish_def split: if_splits option.splits)
next
  case False
  then obtain t where t: "pt_stdio s = Some t" "\<not> st_chansClosed t" by (auto split: option.splits)
  obtain t' where t': "(st_work pr rd)\<^sup>*\<^sup>* (st_cancel t) t'" "st_finish_close ks t' \<noteq> None"
    using stdio_close_returns [of pr rd t ks] by blast
  then show ?thesis using assms t
    by (intro exI [of _ "Some t'"]) (auto simp: pt_Close_begin_def pt_Close_finish_def split: if_splits)
qed

subsection \<open>Environments\<close>

text \<open>
  What the child reads with \<open>Getenv\<close>: of several entries for a key the last counts. \<open>os/exec\<close> itself may add \<open>PWD\<close> and
  \<open>SYSTEMROOT\<close>, which are left out.
\<close>

definition env_entry :: "string \<Rightarrow> (string \<times> string) option" where
  "env_entry s = (case Index s ''='' of Some i \<Rightarrow> Some (take i s, drop (Suc i) s) | None \<Rightarrow> None)"

definition child_getenv :: "(string \<times> string) list \<Rightarrow> exec_cmd \<Rightarrow> string \<Rightarrow> string option" where
  "child_getenv environ cmd key =
     (case ec_Env cmd of None \<Rightarrow> map_of environ key | Some env \<Rightarrow> map_of (rev (List.map_filter env_entry env)) key)"

definition inherited :: "string \<Rightarrow> (string \<times> string) list \<Rightarrow> string \<Rightarrow> bool" where
  "inherited goos environ key \<longleftrightarrow> key \<in> set (DefaultEnvironmentVariables goos) \<and> Getenv environ key \<noteq> [] \<and>
     \<not> (2 < length (Getenv environ key) \<and> take 2 (Getenv environ key) = ''()'')"

lemma env_entry_pair: "CHR ''='' \<notin> set key \<Longrightarrow> env_entry (key @ CHR ''='' # v) = Some (key, v)"
  by (simp add: env_entry_def Index_byte_Some)

lemma entries_read:
  "\<forall>key \<in> set keys. CHR ''='' \<notin> set key \<Longrightarrow>
   List.map_filter env_entry (concat (map (\<lambda>key. if P key then [key @ CHR ''='' # g key] else []) keys)) =
     map (\<lambda>key. (key, g key)) (filter P keys)"
  by (induction keys) (simp_all add: env_entry_pair List.map_filter_simps)

lemma default_keys: "\<forall>key \<in> set (DefaultEnvironmentVariables goos). CHR ''='' \<notin> set key"
  by (simp add: DefaultEnvironmentVariables_def)

lemma default_entries:
  "(case GetDefaultEnvironment goos environ of None \<Rightarrow> [] | Some env \<Rightarrow> env) =
     concat (map (\<lambda>key. if inherited goos environ key then [key @ CHR ''='' # Getenv environ key] else [])
       (DefaultEnvironmentVariables goos))"
proof -
  have "(let value = Getenv environ key
         in if value \<noteq> [] then (if 2 < length value \<and> take 2 value = ''()'' then [] else [key @ ''='' @ value]) else []) =
      (if inherited goos environ key then [key @ CHR ''='' # Getenv environ key] else [])"
    if "key \<in> set (DefaultEnvironmentVariables goos)" for key
    using that by (simp add: inherited_def Let_def)
  then have e: "map (\<lambda>key. let value = Getenv environ key
         in if value \<noteq> [] then (if 2 < length value \<and> take 2 value = ''()'' then [] else [key @ ''='' @ value]) else [])
         (DefaultEnvironmentVariables goos) =
      map (\<lambda>key. if inherited goos environ key then [key @ CHR ''='' # Getenv environ key] else [])
        (DefaultEnvironmentVariables goos)"
    by (rule map_cong [OF refl])
  show ?thesis unfolding GetDefaultEnvironment_def e by (simp add: Let_def)
qed

lemma default_environment_none: "GetDefaultEnvironment goos environ = None \<longleftrightarrow> (\<forall>key. \<not> inherited goos environ key)"
proof -
  let ?es = "concat (map (\<lambda>key. if inherited goos environ key then [key @ CHR ''='' # Getenv environ key] else [])
      (DefaultEnvironmentVariables goos))"
  have "GetDefaultEnvironment goos environ \<noteq> Some []" unfolding GetDefaultEnvironment_def Let_def by simp
  then have "GetDefaultEnvironment goos environ = None \<longleftrightarrow> ?es = []"
    unfolding default_entries [of goos environ, symmetric] by (cases "GetDefaultEnvironment goos environ") simp_all
  also have "\<dots> \<longleftrightarrow> (\<forall>key \<in> set (DefaultEnvironmentVariables goos). \<not> inherited goos environ key)" by auto
  also have "\<dots> \<longleftrightarrow> (\<forall>key. \<not> inherited goos environ key)" by (auto simp: inherited_def)
  finally show ?thesis .
qed

lemma child_of_default:
  assumes "ec_Env cmd = GetDefaultEnvironment goos environ"
  shows "child_getenv environ cmd key =
    (if \<exists>k. inherited goos environ k then (if inherited goos environ key then Some (Getenv environ key) else None)
     else map_of environ key)"
proof (cases "GetDefaultEnvironment goos environ")
  case None
  then show ?thesis using assms default_environment_none [of goos environ] by (simp add: child_getenv_def)
next
  case (Some env)
  let ?keys = "filter (inherited goos environ) (DefaultEnvironmentVariables goos)"
  have "env = concat (map (\<lambda>key. if inherited goos environ key then [key @ CHR ''='' # Getenv environ key] else [])
      (DefaultEnvironmentVariables goos))"
    using default_entries [of goos environ] Some by simp
  then have "List.map_filter env_entry env = map (\<lambda>key. (key, Getenv environ key)) ?keys"
    using entries_read [OF default_keys, of "inherited goos environ"] by simp
  then have "child_getenv environ cmd key = map_of (map (\<lambda>key. (key, Getenv environ key)) (rev ?keys)) key"
    using assms Some by (simp add: child_getenv_def rev_map)
  also have "\<dots> = (if inherited goos environ key then Some (Getenv environ key) else None)"
    by (auto simp: map_of_map_restrict restrict_map_def inherited_def)
  finally show ?thesis using Some default_environment_none [of goos environ] by auto
qed


subsection \<open>Words\<close>

text \<open>The words of a command line: separated by blanks, where double quotes keep blanks together and are dropped.\<close>

definition blank :: "char \<Rightarrow> bool" where
  "blank c \<longleftrightarrow> c = CHR '' '' \<or> c = CHR 0x09 \<or> c = CHR 0x0A \<or> c = CHR 0x0D"

definition finished :: "string option \<Rightarrow> string list" where
  "finished cur = (case cur of None \<Rightarrow> [] | Some w \<Rightarrow> [w])"

definition pushed :: "string option \<Rightarrow> string \<Rightarrow> string option" where
  "pushed cur w = Some ((case cur of None \<Rightarrow> [] | Some v \<Rightarrow> v) @ w)"

fun split_words :: "bool \<Rightarrow> string option \<Rightarrow> string \<Rightarrow> string list" where
  "split_words quoted cur [] = finished cur"
| "split_words quoted cur (c # cs) =
     (if c = CHR 0x22 then split_words (\<not> quoted) (pushed cur []) cs
      else if \<not> quoted \<and> blank c then finished cur @ split_words False None cs
      else split_words quoted (pushed cur [c]) cs)"

definition no_quotes :: "string \<Rightarrow> bool" where
  "no_quotes a \<longleftrightarrow> CHR 0x22 \<notin> set a \<and> CHR 0x27 \<notin> set a"

lemma pushed_pushed [simp]: "pushed (pushed cur v) w = pushed cur (v @ w)"
  by (simp add: pushed_def)

lemma finished_simps [simp]: "finished None = []" "finished (pushed None w) = [w]"
  by (simp_all add: pushed_def finished_def)

lemma blanks: "containsSpaces s \<longleftrightarrow> (\<exists>c \<in> set s. blank c)"
  by (auto simp: containsSpaces_def blank_def list_ex_iff)

lemma split_bare:
  "a \<noteq> [] \<Longrightarrow> no_quotes a \<Longrightarrow> \<not> containsSpaces a \<Longrightarrow> split_words False cur (a @ rest) = split_words False (pushed cur a) rest"
proof (induction a arbitrary: cur)
  case (Cons c a)
  then have "c \<noteq> CHR 0x22" "\<not> blank c" "no_quotes a" "\<not> containsSpaces a" by (auto simp: no_quotes_def blanks)
  then show ?case using Cons.IH [of "pushed cur [c]"] by (cases "a = []") simp_all
qed simp

lemma split_quoted:
  "no_quotes a \<Longrightarrow> split_words True (pushed cur v) (a @ CHR 0x22 # rest) = split_words False (pushed cur (v @ a)) rest"
proof (induction a arbitrary: v)
  case (Cons c a)
  then have "c \<noteq> CHR 0x22" "no_quotes a" by (auto simp: no_quotes_def)
  then show ?case using Cons.IH [of "v @ [c]"] by simp
qed simp

lemma split_arg:
  assumes "a \<noteq> []" and "no_quotes a"
  shows "split_words False None (quote_arg a @ rest) = split_words False (pushed None a) rest"
proof -
  have q: "hd a \<noteq> CHR 0x22 \<and> hd a \<noteq> CHR 0x27" using assms by (cases a) (auto simp: no_quotes_def)
  show ?thesis
  proof (cases "containsSpaces a")
    case True
    then show ?thesis using q assms(2) split_quoted [of a None "[]" rest] by (simp add: quote_arg_def)
  qed (use q assms split_bare in \<open>simp add: quote_arg_def\<close>)
qed

lemma quote_arg_Nil [simp]: "quote_arg [] = []"
  by (simp add: quote_arg_def containsSpaces_def)

lemma blank_space [simp]: "blank CHR '' ''"
  by (simp add: blank_def)

section \<open>Properties\<close>

text \<open>The words of the command line that \<open>joinArgs\<close> makes for the shell are the arguments, in order and each as it is, as
  long as no argument contains a quotation mark, except that empty arguments are lost.\<close>

theorem joinArgs_words:
  assumes "\<forall>a \<in> set args. no_quotes a"
  shows "split_words False None (joinArgs args) = filter (\<lambda>a. a \<noteq> []) args"
  using assms unfolding joinArgs_def
proof (induction args)
  case (Cons a args)
  show ?case
  proof (cases args)
    case Nil
    then show ?thesis using Cons.prems split_arg [of a "[]"] by (cases "a = []") simp_all
  next
    case (Cons b bs)
    then show ?thesis using Cons.prems Cons.IH split_arg [of a] by (cases "a = []") simp_all
  qed
qed simp

theorem joinArgs_words_witness:
  "split_words False None (joinArgs [''-m'', ''two words'', [], ''--x'']) = [''-m'', ''two words'', ''--x'']"
  using joinArgs_words [of "[''-m'', ''two words'', [], ''--x'']"] by (simp add: no_quotes_def)

text \<open>An argument that contains double quotes beside blanks falls apart, and what a shell interprets is passed on bare.\<close>

lemma joinArgs_breaks: "split_words False None (joinArgs [[CHR ''a'', CHR 0x22, CHR '' '', CHR ''b'', CHR 0x22]]) = [''a'', ''b'']"
  by (simp add: joinArgs_def quote_arg_def containsSpaces_def blank_def pushed_def finished_def)

lemma joinArgs_bare: "a \<noteq> [] \<Longrightarrow> no_quotes a \<Longrightarrow> \<not> containsSpaces a \<Longrightarrow> joinArgs [a] = a"
  by (cases a) (auto simp: joinArgs_def quote_arg_def no_quotes_def)

text \<open>C36: Without an environment in the configuration a started child sees of the parent's environment exactly the listed
  variables, those that are set, not empty and do not look like a shell function; but where none of them is left, it
  sees the whole environment of the parent.\<close>

theorem default_environment:
  assumes "NewProcessTransport goos environ config = Ok s" and "pc_Env config = None"
    and "pt_Start goos obeys sr ctx s = Some (Ok (s', None))" and "key \<noteq> ''PWD''" and "key \<noteq> ''SYSTEMROOT''"
  shows "\<exists>cmd. pt_cmd s' = Some (cmd, 0) \<and> child_getenv environ cmd key =
    (if \<exists>k. inherited goos environ k then (if inherited goos environ key then Some (Getenv environ key) else None)
     else map_of environ key)"
proof -
  have s: "pt_procs s = []" "pc_Env (pt_config s) = GetDefaultEnvironment goos environ"
    using assms(1,2) by (auto simp: NewProcessTransport_def split: if_splits)
  have "pt_cmd s' = Some (make_cmd goos (pt_config s), 0)" using Start_cases [OF assms(3)] s(1) by auto
  moreover have "ec_Env (make_cmd goos (pt_config s)) = GetDefaultEnvironment goos environ"
    using s(2) by (simp add: make_cmd_def Let_def)
  ultimately show ?thesis using child_of_default by blast
qed

definition echo_config :: process_config where
  "echo_config = \<lparr>pc_Command = ''srv'', pc_Args = [], pc_Env = None, pc_Dir = [], pc_StderrMode = StderrInherit, pc_EnableShell = False\<rparr>"

definition spawned :: spawn_result where
  "spawned = \<lparr>sr_stdin = None, sr_stdout = None, sr_stderr = None, sr_start = None, sr_pid = 7\<rparr>"

definition echo_new :: "(string \<times> string) list \<Rightarrow> pt_state" where
  "echo_new environ = (case NewProcessTransport ''linux'' environ echo_config of Ok s \<Rightarrow> s)"

lemma echo_new: "NewProcessTransport ''linux'' environ echo_config = Ok (echo_new environ)"
  by (simp add: echo_new_def NewProcessTransport_def echo_config_def)

lemma echo_starts:
  "\<exists>s' t. pt_Start ''linux'' True spawned None (echo_new environ) = Some (Ok (s', None)) \<and> pt_cmd s' \<noteq> None \<and>
     pt_stdio s' = Some t \<and> NewStdioTransport None stdio_config = Ok t \<and> \<not> pt_locked s' \<and> length (pt_procs s') = 1"
proof -
  obtain t where "NewStdioTransport None stdio_config = Ok t" using stdio_made by blast
  then show ?thesis
    by (simp add: pt_Start_def echo_new_def NewProcessTransport_def echo_config_def spawned_def make_cmd_def Let_def)
qed

text \<open>A secret is kept from the child as long as \<open>PATH\<close> is set, and given to it otherwise.\<close>

theorem default_environment_witness:
  "\<exists>c1 c2. child_getenv [(''PATH'', ''/bin''), (''TOKEN'', ''x'')] c1 ''TOKEN'' = None \<and>
     child_getenv [(''TOKEN'', ''x'')] c2 ''TOKEN'' = Some ''x''"
proof -
  have i: "inherited ''linux'' [(''PATH'', ''/bin''), (''TOKEN'', ''x'')] ''PATH''"
    "\<not> inherited ''linux'' [(''PATH'', ''/bin''), (''TOKEN'', ''x'')] ''TOKEN''"
    by (simp_all add: inherited_def Getenv_def DefaultEnvironmentVariables_def)
  have n: "\<not> inherited ''linux'' [(''TOKEN'', ''x'')] k" for k
    by (auto simp: inherited_def Getenv_def DefaultEnvironmentVariables_def split: if_splits)
  have c: "pc_Env echo_config = None" by (simp add: echo_config_def)
  obtain s1 s2 where s: "pt_Start ''linux'' True spawned None (echo_new [(''PATH'', ''/bin''), (''TOKEN'', ''x'')]) = Some (Ok (s1, None))"
    "pt_Start ''linux'' True spawned None (echo_new [(''TOKEN'', ''x'')]) = Some (Ok (s2, None))"
    using echo_starts by blast
  obtain c1 where c1: "child_getenv [(''PATH'', ''/bin''), (''TOKEN'', ''x'')] c1 ''TOKEN'' =
      (if \<exists>k. inherited ''linux'' [(''PATH'', ''/bin''), (''TOKEN'', ''x'')] k
       then (if inherited ''linux'' [(''PATH'', ''/bin''), (''TOKEN'', ''x'')] ''TOKEN''
         then Some (Getenv [(''PATH'', ''/bin''), (''TOKEN'', ''x'')] ''TOKEN'') else None)
       else map_of [(''PATH'', ''/bin''), (''TOKEN'', ''x'')] ''TOKEN'')"
    using default_environment [OF echo_new c s(1), of "''TOKEN''"] by force
  obtain c2 where "child_getenv [(''TOKEN'', ''x'')] c2 ''TOKEN'' = Some ''x''"
    using default_environment [OF echo_new c s(2), of "''TOKEN''"] n by auto
  moreover have "child_getenv [(''PATH'', ''/bin''), (''TOKEN'', ''x'')] c1 ''TOKEN'' = None" using c1 i by metis
  ultimately show ?thesis by blast
qed

text \<open>C37: No process is left behind: in every reachable state each started process but the current one has exited and was
  waited for, and after \<open>Close\<close>, also one with an error, this holds of all of them; the transport then has no command,
  reports that nothing runs, and can be started again.\<close>

theorem close_leaves_no_process:
  assumes "pt_reachable goos s"
  shows "(\<forall>i < length (pt_procs s). reaped (pt_procs s ! i) \<or> (\<exists>cmd. pt_cmd s = Some (cmd, i))) \<and>
    (\<forall>ks obeys s' e. pt_Close_finish goos ks obeys s = Some (Ok (s', e)) \<longrightarrow>
       (\<forall>i < length (pt_procs s'). reaped (pt_procs s' ! i)) \<and> length (pt_procs s') = length (pt_procs s) \<and>
       \<not> IsRunning goos s' \<and> ProcessID s' = 0 \<and> Stderr s' = None \<and> pt_Wait 0 s' = Some (s', Some ''process not started''))"
proof -
  have inv: "procs_inv s" by (rule pt_reachable_inv [OF assms])
  have "(\<forall>i < length (pt_procs s'). reaped (pt_procs s' ! i)) \<and> length (pt_procs s') = length (pt_procs s) \<and>
      \<not> IsRunning goos s' \<and> ProcessID s' = 0 \<and> Stderr s' = None \<and> pt_Wait 0 s' = Some (s', Some ''process not started'')"
    if close: "pt_Close_finish goos ks obeys s = Some (Ok (s', e))" for ks obeys s' e
  proof -
    obtain t where s': "s' = (cleanup goos obeys (s\<lparr>pt_stdio := t\<rparr>))\<lparr>pt_locked := False\<rparr>" using Close_cases [OF close] by blast
    have i: "procs_inv (s\<lparr>pt_stdio := t\<rparr>)" by (rule procs_inv_core [OF _ inv]) (simp add: pt_core_def)
    show ?thesis using cleanup_reaps [OF i]
      by (simp add: s' IsRunning_def ProcessID_def Stderr_def pt_Wait_def)
  qed
  then show ?thesis using inv by (auto simp: procs_inv_def)
qed

theorem close_leaves_no_process_witness:
  "\<exists>s s'. pt_reachable ''linux'' s \<and> pt_Close_finish ''linux'' [] False s = Some (Ok (s', None)) \<and>
     length (pt_procs s') = 1 \<and> reaped (pt_procs s' ! 0)"
proof -
  obtain s1 t where s1: "pt_Start ''linux'' True spawned None (echo_new []) = Some (Ok (s1, None))" "pt_cmd s1 \<noteq> None"
    "pt_stdio s1 = Some t" "NewStdioTransport None stdio_config = Ok t" "\<not> pt_locked s1" "length (pt_procs s1) = 1"
    using echo_starts by blast
  let ?s2 = "s1\<lparr>pt_locked := True, pt_stdio := Some (st_cancel t)\<rparr>"
  let ?s3 = "s1\<lparr>pt_locked := True, pt_stdio := Some ((st_cancel t)\<lparr>st_running := {}\<rparr>)\<rparr>"
  have t: "\<not> st_chansClosed t" "\<exists>h. MessageHandler_Close [] (cancel (st_handler t)) = Ok h"
    using s1(4) by (auto simp: NewStdioTransport_def st_defaults_def stdio_config_def NewMessageHandler_def Let_def
        MessageHandler_Close_def range_values_def map_filter_def)
  have r1: "pt_reachable ''linux'' s1"
    by (rule pt_reachable.step [OF pt_reachable.new [OF echo_new] pt_step.start [OF s1(1)]])
  have "pt_Close_begin s1 = Some ?s2" using s1(3,5) t(1) by (simp add: pt_Close_begin_def)
  then have r2: "pt_reachable ''linux'' ?s2" by (rule pt_reachable.step [OF r1 pt_step.close])
  have "pt_step ''linux'' ?s2 (?s2\<lparr>pt_stdio := Some ((st_cancel t)\<lparr>st_running := {}\<rparr>)\<rparr>)" by (rule pt_step.stdio) simp
  then have r3: "pt_reachable ''linux'' ?s3" using pt_reachable.step [OF r2] by simp
  obtain s' where s': "pt_Close_finish ''linux'' [] False ?s3 = Some (Ok (s', None))"
    using t by (auto simp: pt_Close_finish_def st_finish_close_def st_cancel_def)
  then show ?thesis using close_leaves_no_process [OF r3] r3 s1(6) by fastforce
qed

text \<open>\<open>IsRunning\<close> does not notice that a process exited: only \<open>Wait\<close> and \<open>Close\<close> change what it says.\<close>

lemma exit_unnoticed:
  "IsRunning goos (s\<lparr>pt_procs := (pt_procs s)[i := (pt_procs s ! i)\<lparr>ps_alive := False, ps_status := e\<rparr>]\<rparr>) = IsRunning goos s"
proof -
  have "ps_waited ((pt_procs s)[i := (pt_procs s ! i)\<lparr>ps_alive := False, ps_status := e\<rparr>] ! j) = ps_waited (pt_procs s ! j)"
    "ps_Pid ((pt_procs s)[i := (pt_procs s ! i)\<lparr>ps_alive := False, ps_status := e\<rparr>] ! j) = ps_Pid (pt_procs s ! j)" for j
    by (cases "i < length (pt_procs s)"; cases "j = i"; simp add: list_update_beyond)+
  then show ?thesis by (simp add: IsRunning_def split: option.split)
qed

text \<open>Before \<open>Start\<close> the calls of the transport panic.\<close>

lemma unstarted_panics:
  "NewProcessTransport goos environ config = Ok s \<Longrightarrow>
   pt_SendRequest pick meth params s = Some (s, Panic ''nil pointer dereference'')"
  by (auto simp: NewProcessTransport_def pt_SendRequest_def split: if_splits)

end
