(* ===== verification/Sse.thy ===== *)
theory Sse
  imports Http_Client "HOL-Library.Countable"
begin

text \<open>
  \<open>transport/sse.go\<close>: messages go out as POSTs, one after the other, and come in on an event stream of lines, to
  which the transport reconnects. The network is an argument with a state of its own: which URLs
  \<open>http.NewRequest\<close> refuses, what \<open>Do\<close> returns for a POST and for the stream, and the next line that the scanner
  gives. \<open>dec\<close> is the reading of bytes as JSON. The delays and the timeout of the HTTP client are left out.
\<close>

section \<open>The network\<close>

datatype open_reply = OpenFailed string | Opened int

text \<open>What \<open>Scan\<close> finds: a line, or the end, with or without an error.\<close>

datatype stream_line = Line string | StreamEnd bool

record 'w sse_env =
  ne_refuses :: "string \<Rightarrow> bool"
  ne_post :: "http_post \<Rightarrow> 'w \<Rightarrow> 'w \<times> do_reply"
  ne_open :: "http_post \<Rightarrow> 'w \<Rightarrow> 'w \<times> open_reply"
  ne_line :: "'w \<Rightarrow> ('w \<times> stream_line) option"

section \<open>State\<close>

record ss_config =
  ssc_SSEEndpoint :: string
  ssc_HTTPEndpoint :: string
  ssc_Headers :: "(string \<times> string) list"
  ssc_MaxReconnects :: int
  ssc_RequestTimeout :: int
  ssc_MessageBuffer :: int

text \<open>Where the goroutine of the stream is.\<close>

datatype ss_phase = AtConnect | AtRead | AtDelay | AtEnd

record 's ss_state =
  ss_sseEndpoint :: string
  ss_httpEndpoint :: string
  ss_headers :: "(string \<times> string) list"
  ss_maxReconnects :: int
  ss_oauthHandler :: "'s oauth_handler option"
  ss_oauthEnabled :: bool
  ss_handler :: mh_state
  ss_bufferSize :: nat
  ss_requestChan :: "request list"
  ss_notificationChan :: "notification list"
  ss_ctx :: "string option"
  ss_connected :: bool
  ss_reconnectCount :: int
  ss_messagesReceived :: int64
  ss_reconnects :: int64
  ss_connectionErrors :: int64
  ss_messagesSent :: int64
  ss_stream :: ss_phase
  ss_senderRuns :: bool

definition ss_defaults :: "ss_config \<Rightarrow> ss_config" where
  "ss_defaults config = config
     \<lparr>ssc_MaxReconnects := (if ssc_MaxReconnects config = 0 then 10 else ssc_MaxReconnects config),
      ssc_RequestTimeout := (if ssc_RequestTimeout config = 0 then 30 * 1000000000 else ssc_RequestTimeout config),
      ssc_MessageBuffer := (if ssc_MessageBuffer config = 0 then 100 else ssc_MessageBuffer config)\<rparr>"

text \<open>The channels are made before the message handler, and both refuse a negative size.\<close>

definition NewSSETransport :: "string option \<Rightarrow> ss_config \<Rightarrow> 's ss_state outcome" where
  "NewSSETransport ctx config0 =
     (if ssc_SSEEndpoint config0 = [] then Err ''SSE endpoint is required''
      else if ssc_HTTPEndpoint config0 = [] then Err ''HTTP endpoint is required''
      else let config = ss_defaults config0
      in case NewMessageHandler ctx
                \<lparr>mhc_RequestTimeout = ssc_RequestTimeout config, mhc_BufferSize = ssc_MessageBuffer config\<rparr> of
           Panic p \<Rightarrow> Panic p
         | Err e \<Rightarrow> Err e
         | Ok handler \<Rightarrow>
             Ok \<lparr>ss_sseEndpoint = ssc_SSEEndpoint config, ss_httpEndpoint = ssc_HTTPEndpoint config,
               ss_headers = ssc_Headers config, ss_maxReconnects = ssc_MaxReconnects config, ss_oauthHandler = None,
               ss_oauthEnabled = False, ss_handler = handler, ss_bufferSize = nat (ssc_MessageBuffer config),
               ss_requestChan = [], ss_notificationChan = [], ss_ctx = ctx, ss_connected = False,
               ss_reconnectCount = 0, ss_messagesReceived = 0, ss_reconnects = 0, ss_connectionErrors = 0,
               ss_messagesSent = 0, ss_stream = AtConnect, ss_senderRuns = True\<rparr>)"

section \<open>OAuth\<close>

definition ss_EnableOAuth :: "'s oauth_handler option \<Rightarrow> 's ss_state \<Rightarrow> 's ss_state" where
  "ss_EnableOAuth handler s = s\<lparr>ss_oauthHandler := handler, ss_oauthEnabled := True\<rparr>"

definition ss_IsOAuthEnabled :: "'s ss_state \<Rightarrow> bool" where
  "ss_IsOAuthEnabled s \<longleftrightarrow> ss_oauthEnabled s \<and> ss_oauthHandler s \<noteq> None"

definition ss_GetOAuthHandler :: "'s ss_state \<Rightarrow> 's oauth_handler option" where
  "ss_GetOAuthHandler s = ss_oauthHandler s"

definition ss_authorize ::
  "(string \<Rightarrow> int option option) \<Rightarrow> int \<Rightarrow> (string \<times> string) list \<Rightarrow> 's ss_state \<Rightarrow>
   's ss_state \<times> (string \<times> string) list outcome" where
  "ss_authorize parse_time now hs s =
     (if \<not> ss_IsOAuthEnabled s then (s, Ok hs)
      else case ss_oauthHandler s of
        None \<Rightarrow> (s, Ok hs)
      | Some h \<Rightarrow>
          (case GetAuthorizationHeader parse_time now h of
             (h1, Ok auth) \<Rightarrow> (s\<lparr>ss_oauthHandler := Some h1\<rparr>, Ok (set_header ''Authorization'' auth hs))
           | (h1, Err e) \<Rightarrow> (s\<lparr>ss_oauthHandler := Some h1\<rparr>, Err (''failed to get OAuth authorization: '' @ e))
           | (h1, Panic p) \<Rightarrow> (s\<lparr>ss_oauthHandler := Some h1\<rparr>, Panic p)))"

section \<open>Calls\<close>

definition ss_SendRequest ::
  "bool \<Rightarrow> string \<Rightarrow> gval \<Rightarrow> 's ss_state \<Rightarrow> ('s ss_state \<times> nat outcome) option" where
  "ss_SendRequest pick meth params s =
     map_option (\<lambda>(h, res). (s\<lparr>ss_handler := h\<rparr>, res)) (SendRequest pick meth params (ss_handler s))"

definition ss_SendNotification ::
  "bool \<Rightarrow> string \<Rightarrow> gval \<Rightarrow> 's ss_state \<Rightarrow> ('s ss_state \<times> unit outcome) option" where
  "ss_SendNotification pick meth params s =
     map_option (\<lambda>(h, res). (s\<lparr>ss_handler := h\<rparr>, res)) (SendNotification pick meth params (ss_handler s))"

definition ss_SendResponse ::
  "bool \<Rightarrow> gval \<Rightarrow> gval \<Rightarrow> rpc_error option \<Rightarrow> 's ss_state \<Rightarrow> ('s ss_state \<times> unit outcome) option" where
  "ss_SendResponse pick ident result err s =
     map_option (\<lambda>(h, res). (s\<lparr>ss_handler := h\<rparr>, res)) (SendResponse pick ident result err (ss_handler s))"

section \<open>Sending\<close>

definition count_ss_error :: "'s ss_state \<Rightarrow> 's ss_state" where
  "count_ss_error s = s\<lparr>ss_connectionErrors := ss_connectionErrors s + 1\<rparr>"

text \<open>The second component of the result is the error.\<close>

definition sendHTTPMessage ::
  "(string \<Rightarrow> int option option) \<Rightarrow> int \<Rightarrow> 'w sse_env \<Rightarrow> payload \<Rightarrow> 's ss_state \<Rightarrow> 'w \<Rightarrow>
   ('s ss_state \<times> string option \<times> 'w) outcome" where
  "sendHTTPMessage parse_time now E data s w =
     (if ne_refuses E (ss_httpEndpoint s) then Ok (s, Some ''failed to create HTTP request'', w)
      else case ss_authorize parse_time now (set_headers (ss_headers s) (set_header ''Content-Type'' ''application/json'' [])) s of
             (s1, Panic p) \<Rightarrow> Panic p
           | (s1, Err e) \<Rightarrow> Ok (s1, Some e, w)
           | (s1, Ok hs) \<Rightarrow>
               (case ne_post E \<lparr>po_Method = ''POST'', po_URL = ss_httpEndpoint s, po_Headers = hs, po_Body = Some data\<rparr> w of
                  (w1, DoFailed e) \<Rightarrow> Ok (s1, Some (''failed to send HTTP request: '' @ e), w1)
                | (w1, DoReply status body) \<Rightarrow>
                    if status \<noteq> 200 then Ok (s1, Some ''HTTP request failed with status'', w1)
                    else Ok (s1\<lparr>ss_messagesSent := ss_messagesSent s1 + 1\<rparr>, None, w1)))"

text \<open>One iteration of \<open>handleOutgoingMessages\<close>; \<^term>\<open>None\<close> while it waits.\<close>

definition handleOutgoingMessages ::
  "bool \<Rightarrow> (string \<Rightarrow> int option option) \<Rightarrow> int \<Rightarrow> 'w sse_env \<Rightarrow> 's ss_state \<Rightarrow> 'w \<Rightarrow> ('s ss_state \<times> 'w) outcome option" where
  "handleOutgoingMessages pick parse_time now E s w =
     (if \<not> ss_senderRuns s then None
      else case (mh_outgoingChan (ss_handler s), ss_ctx s) of
        ([], None) \<Rightarrow> None
      | ([], Some _) \<Rightarrow> Some (Ok (s\<lparr>ss_senderRuns := False\<rparr>, w))
      | (data # rest, ctx) \<Rightarrow>
          if ctx \<noteq> None \<and> \<not> pick then Some (Ok (s\<lparr>ss_senderRuns := False\<rparr>, w))
          else Some (case sendHTTPMessage parse_time now E data (s\<lparr>ss_handler := (ss_handler s)\<lparr>mh_outgoingChan := rest\<rparr>\<rparr>) w of
                 Panic p \<Rightarrow> Panic p
               | Err e \<Rightarrow> Err e
               | Ok (s1, Some e, w1) \<Rightarrow> Ok (count_ss_error s1, w1)
               | Ok (s1, None, w1) \<Rightarrow> Ok (s1, w1)))"

section \<open>The event stream\<close>

definition establishConnection ::
  "(string \<Rightarrow> int option option) \<Rightarrow> int \<Rightarrow> 'w sse_env \<Rightarrow> 's ss_state \<Rightarrow> 'w \<Rightarrow> ('s ss_state \<times> string option \<times> 'w) outcome" where
  "establishConnection parse_time now E s w =
     (if ne_refuses E (ss_sseEndpoint s) then Ok (s, Some ''failed to create request'', w)
      else case ss_authorize parse_time now (set_headers (ss_headers s)
                  (set_header ''Cache-Control'' ''no-cache'' (set_header ''Accept'' ''text/event-stream'' []))) s of
             (s1, Panic p) \<Rightarrow> Panic p
           | (s1, Err e) \<Rightarrow> Ok (s1, Some e, w)
           | (s1, Ok hs) \<Rightarrow>
               (case ne_open E \<lparr>po_Method = ''GET'', po_URL = ss_sseEndpoint s, po_Headers = hs, po_Body = None\<rparr> w of
                  (w1, OpenFailed e) \<Rightarrow> Ok (s1, Some (''failed to connect: '' @ e), w1)
                | (w1, Opened status) \<Rightarrow>
                    if status \<noteq> 200 then Ok (s1, Some ''unexpected status code'', w1)
                    else Ok (s1\<lparr>ss_connected := True\<rparr>, None, w1)))"

text \<open>A failed attempt is counted, and the count of reconnects is never reset.\<close>

definition connect_failed :: "'s ss_state \<Rightarrow> 's ss_state" where
  "connect_failed s =
     (let s1 = count_ss_error s
      in if ss_reconnectCount s \<ge> ss_maxReconnects s then s1\<lparr>ss_stream := AtEnd\<rparr>
         else s1\<lparr>ss_reconnectCount := ss_reconnectCount s + 1, ss_stream := AtDelay\<rparr>)"

text \<open>The event on a line; \<^term>\<open>None\<close> while its channel is full, and whether the reading goes on.\<close>

definition route_event :: "bool \<Rightarrow> (string \<Rightarrow> payload) \<Rightarrow> string \<Rightarrow> 's ss_state \<Rightarrow> ('s ss_state \<times> bool) option" where
  "route_event pick dec data s =
     (case ParseMessage (dec data) of
        None \<Rightarrow> Some (s, True)
      | Some msg \<Rightarrow>
          if IsRequest msg then
            (case ToRequest msg of
               None \<Rightarrow> Some (s, True)
             | Some req \<Rightarrow>
                 (case select_send pick (ss_bufferSize s) (ss_requestChan s) req (ss_ctx s) of
                    Sent buf \<Rightarrow> Some (s\<lparr>ss_requestChan := buf\<rparr>, True) | Cancelled _ \<Rightarrow> Some (s, False) | Blocked \<Rightarrow> None))
          else if IsNotification msg then
            (case ToNotification msg of
               None \<Rightarrow> Some (s, True)
             | Some notif \<Rightarrow>
                 (case select_send pick (ss_bufferSize s) (ss_notificationChan s) notif (ss_ctx s) of
                    Sent buf \<Rightarrow> Some (s\<lparr>ss_notificationChan := buf\<rparr>, True) | Cancelled _ \<Rightarrow> Some (s, False) | Blocked \<Rightarrow> None))
          else if IsResponse msg then
            (case select_send pick (mh_bufferSize (ss_handler s)) (mh_incomingChan (ss_handler s)) (dec data) (ss_ctx s) of
               Sent buf \<Rightarrow> Some (s\<lparr>ss_handler := (ss_handler s)\<lparr>mh_incomingChan := buf\<rparr>\<rparr>, True)
             | Cancelled _ \<Rightarrow> Some (s, False) | Blocked \<Rightarrow> None)
          else Some (s, True))"

definition read_stops :: "'s ss_state \<Rightarrow> 's ss_state" where
  "read_stops s = s\<lparr>ss_connected := False, ss_stream := AtConnect\<rparr>"

text \<open>
  One line of \<open>readEvents\<close>. Once the context ended or the body was closed, reading it fails (\<open>broken\<close>).
\<close>

definition readEvents ::
  "bool \<Rightarrow> bool \<Rightarrow> (string \<Rightarrow> payload) \<Rightarrow> 'w sse_env \<Rightarrow> 's ss_state \<Rightarrow> 'w \<Rightarrow> ('s ss_state \<times> 'w) option" where
  "readEvents pick broken dec E s w =
     (if broken \<and> ss_ctx s \<noteq> None then Some (read_stops (count_ss_error s), w)
      else case ne_line E w of
        None \<Rightarrow> None
      | Some (w1, StreamEnd err) \<Rightarrow> Some (read_stops (if err then count_ss_error s else s), w1)
      | Some (w1, Line line) \<Rightarrow>
          if ss_ctx s \<noteq> None then Some (read_stops s, w1)
          else if \<not> HasPrefix line ''data: '' \<or> drop 6 line = [] then Some (s, w1)
          else map_option (\<lambda>(s1, go). (if go then s1 else read_stops s1, w1))
                 (route_event pick dec (drop 6 line) (s\<lparr>ss_messagesReceived := ss_messagesReceived s + 1\<rparr>)))"

text \<open>One step of the goroutine \<open>connectSSE\<close>.\<close>

definition ss_connectSSE ::
  "bool \<Rightarrow> bool \<Rightarrow> (string \<Rightarrow> int option option) \<Rightarrow> int \<Rightarrow> (string \<Rightarrow> payload) \<Rightarrow> 'w sse_env \<Rightarrow> 's ss_state \<Rightarrow> 'w \<Rightarrow>
   ('s ss_state \<times> 'w) outcome option" where
  "ss_connectSSE pick broken parse_time now dec E s w =
     (case ss_stream s of
        AtConnect \<Rightarrow>
          if ss_ctx s \<noteq> None then Some (Ok (s\<lparr>ss_stream := AtEnd\<rparr>, w))
          else Some (case establishConnection parse_time now E s w of
                 Panic p \<Rightarrow> Panic p
               | Err e \<Rightarrow> Err e
               | Ok (s1, Some e, w1) \<Rightarrow> Ok (connect_failed s1, w1)
               | Ok (s1, None, w1) \<Rightarrow> Ok (s1\<lparr>ss_stream := AtRead\<rparr>, w1))
      | AtDelay \<Rightarrow> Some (Ok (s\<lparr>ss_stream := (if ss_ctx s \<noteq> None \<and> \<not> pick then AtEnd else AtConnect)\<rparr>, w))
      | AtRead \<Rightarrow> map_option Ok (readEvents pick broken dec E s w)
      | AtEnd \<Rightarrow> None)"

section \<open>Closing\<close>

definition ss_cancel :: "'s ss_state \<Rightarrow> 's ss_state" where
  "ss_cancel s =
     s\<lparr>ss_ctx := (case ss_ctx s of None \<Rightarrow> Some ''context canceled'' | Some e \<Rightarrow> Some e), ss_handler := cancel (ss_handler s)\<rparr>"

text \<open>The message handler is closed before the goroutines have ended; then \<open>Close\<close> waits for both.\<close>

definition ss_close_handler :: "gval list \<Rightarrow> 's ss_state \<Rightarrow> 's ss_state outcome" where
  "ss_close_handler ks s =
     (case MessageHandler_Close ks (ss_handler s) of Ok h \<Rightarrow> Ok (s\<lparr>ss_handler := h\<rparr>) | Err e \<Rightarrow> Err e | Panic p \<Rightarrow> Panic p)"

definition ss_waited :: "'s ss_state \<Rightarrow> bool" where
  "ss_waited s \<longleftrightarrow> ss_stream s = AtEnd \<and> \<not> ss_senderRuns s"

section \<open>Statistics\<close>

definition ss_Stats :: "'s ss_state \<Rightarrow> gval" where
  "ss_Stats s = GMap (map_put_all
     [(''type'', GString ''sse''), (''sse_endpoint'', GString (ss_sseEndpoint s)), (''http_endpoint'', GString (ss_httpEndpoint s)),
      (''connected'', GBool (ss_connected s)), (''messages_received'', GInt64 (ss_messagesReceived s)),
      (''messages_sent'', GInt64 (ss_messagesSent s)), (''reconnects'', GInt64 (ss_reconnects s)),
      (''connection_errors'', GInt64 (ss_connectionErrors s))] [])"


section \<open>Runs of the event stream\<close>

text \<open>
  \<open>ss_run n s s'\<close>: from \<open>s\<close> to \<open>s'\<close> the goroutine of the stream failed \<open>n\<close> times to connect, however often it
  succeeded in between; whatever does not belong to it may have changed, and a context that ended stays so.
\<close>

definition keeps_stream :: "'s ss_state \<Rightarrow> 's ss_state \<Rightarrow> bool" where
  "keeps_stream s s' \<longleftrightarrow> ss_stream s' = ss_stream s \<and> ss_reconnectCount s' = ss_reconnectCount s \<and>
     ss_maxReconnects s' = ss_maxReconnects s \<and> ss_connected s' = ss_connected s \<and> ss_reconnects s' = ss_reconnects s \<and>
     (ss_ctx s \<noteq> None \<longrightarrow> ss_ctx s' \<noteq> None)"

definition failed_attempt :: "'s ss_state \<Rightarrow> 's ss_state \<Rightarrow> bool" where
  "failed_attempt s s' \<longleftrightarrow> ss_stream s = AtConnect \<and> ss_ctx s = None \<and> ss_stream s' \<noteq> AtRead"

inductive ss_run ::
  "'w sse_env \<Rightarrow> (string \<Rightarrow> payload) \<Rightarrow> (string \<Rightarrow> int option option) \<Rightarrow> nat \<Rightarrow> 's ss_state \<Rightarrow> 's ss_state \<Rightarrow> bool"
  for E dec parse_time where
  start: "ss_run E dec parse_time 0 s s"
| goroutine: "ss_run E dec parse_time n s s1 \<Longrightarrow> ss_connectSSE pick broken parse_time now dec E s1 w = Some (Ok (s2, w2)) \<Longrightarrow>
    ss_run E dec parse_time (n + (if failed_attempt s1 s2 then 1 else 0)) s s2"
| other: "ss_run E dec parse_time n s s1 \<Longrightarrow> keeps_stream s1 s2 \<Longrightarrow> ss_run E dec parse_time n s s2"

definition stream_inv :: "int \<Rightarrow> nat \<Rightarrow> 's ss_state \<Rightarrow> bool" where
  "stream_inv mx n s \<longleftrightarrow> ss_maxReconnects s = mx \<and> ss_reconnects s = 0 \<and> ss_connected s = (ss_stream s = AtRead) \<and>
     0 \<le> ss_reconnectCount s \<and> ss_reconnectCount s \<le> max 0 mx \<and>
     (if ss_stream s = AtEnd then int n \<le> ss_reconnectCount s + 1 \<and> (ss_ctx s = None \<longrightarrow> int n = max 0 mx + 1)
      else int n = ss_reconnectCount s)"

lemma authorize_keeps: "ss_authorize parse_time now hs s = (s1, r) \<Longrightarrow> keeps_stream s s1 \<and> ss_ctx s1 = ss_ctx s"
  by (auto simp: ss_authorize_def keeps_stream_def split: if_splits option.splits prod.splits outcome.splits)

lemma establish_keeps:
  "establishConnection parse_time now E s w = Ok (s1, e, w1) \<Longrightarrow>
   keeps_stream (s\<lparr>ss_connected := (if e = None then True else ss_connected s)\<rparr>) s1 \<and> ss_ctx s1 = ss_ctx s"
  by (auto simp: establishConnection_def keeps_stream_def split: if_splits option.splits prod.splits outcome.splits
      do_reply.splits open_reply.splits dest!: authorize_keeps)

lemma route_keeps: "route_event pick dec data s = Some (s1, go) \<Longrightarrow> keeps_stream s s1 \<and> ss_ctx s1 = ss_ctx s"
  by (auto simp: route_event_def keeps_stream_def split: if_splits option.splits select_result.splits)

lemma read_cases:
  "readEvents pick broken dec E s w = Some (s1, w1) \<Longrightarrow>
   s1 = read_stops (count_ss_error s) \<or> s1 = read_stops s \<or> s1 = s \<or>
   (\<exists>data s2 go. route_event pick dec data (s\<lparr>ss_messagesReceived := ss_messagesReceived s + 1\<rparr>) = Some (s2, go) \<and>
      s1 = (if go then s2 else read_stops s2))"
  by (auto simp: readEvents_def split: if_splits option.splits prod.splits stream_line.splits) blast+

lemma read_stream:
  assumes "readEvents pick broken dec E s w = Some (s1, w1)" and "ss_stream s = AtRead" and "ss_connected s"
  shows "ss_reconnectCount s1 = ss_reconnectCount s \<and> ss_maxReconnects s1 = ss_maxReconnects s \<and>
    ss_reconnects s1 = ss_reconnects s \<and> ss_ctx s1 = ss_ctx s \<and> ss_connected s1 = (ss_stream s1 = AtRead) \<and>
    ss_stream s1 \<in> {AtRead, AtConnect}"
proof -
  consider "s1 \<in> {read_stops (count_ss_error s), read_stops s, s}" | data s2 go
    where "route_event pick dec data (s\<lparr>ss_messagesReceived := ss_messagesReceived s + 1\<rparr>) = Some (s2, go)"
      and "s1 = (if go then s2 else read_stops s2)"
    using read_cases [OF assms(1)] by blast
  then show ?thesis
  proof cases
    case 1
    then show ?thesis using assms(2,3) by (auto simp: read_stops_def count_ss_error_def)
  next
    case (2 data s2 go)
    then show ?thesis using route_keeps [OF 2(1)] assms(2,3) by (simp add: keeps_stream_def read_stops_def)
  qed
qed

lemma stream_step:
  assumes inv: "stream_inv mx n s" and step: "ss_connectSSE pick broken parse_time now dec E s w = Some (Ok (s1, w1))"
  shows "stream_inv mx (n + (if failed_attempt s s1 then 1 else 0)) s1"
proof (cases "ss_stream s")
  case AtConnect
  show ?thesis
  proof (cases "ss_ctx s")
    case None
    then obtain s2 e where e: "establishConnection parse_time now E s w = Ok (s2, e, w1)"
      "s1 = (case e of Some _ \<Rightarrow> connect_failed s2 | None \<Rightarrow> s2\<lparr>ss_stream := AtRead\<rparr>)"
      using step AtConnect by (auto simp: ss_connectSSE_def split: outcome.splits option.splits)
    show ?thesis
      using establish_keeps [OF e(1)] e(2) inv AtConnect None
      by (auto simp: stream_inv_def keeps_stream_def connect_failed_def count_ss_error_def failed_attempt_def Let_def
          split: option.splits)
  qed (use step AtConnect inv in \<open>auto simp: ss_connectSSE_def stream_inv_def failed_attempt_def\<close>)
next
  case AtRead
  then have "readEvents pick broken dec E s w = Some (s1, w1)" using step by (auto simp: ss_connectSSE_def)
  then show ?thesis using read_stream AtRead inv by (fastforce simp: stream_inv_def failed_attempt_def)
qed (use step inv in \<open>auto simp: ss_connectSSE_def stream_inv_def failed_attempt_def split: if_splits\<close>)

lemma stream_run: "ss_run E dec parse_time n s s' \<Longrightarrow> stream_inv mx 0 s \<Longrightarrow> stream_inv mx n s'"
proof (induction rule: ss_run.induct)
  case (goroutine n s s1 pick broken now w s2 w2)
  show ?case by (rule stream_step [OF goroutine.IH [OF goroutine.prems] goroutine.hyps(2)])
next
  case (other n s s1 s2)
  then show ?case by (auto simp: stream_inv_def keeps_stream_def split: if_splits)
qed


section \<open>The transport as a provider\<close>

text \<open>
  A peer with both endpoints: it takes a request from a POST, and sends the answer of \<open>app\<close> as an event. Its
  state is the lines under way; \<open>enc\<close> is the printing of messages.
\<close>

definition event_line :: "(payload \<Rightarrow> string) \<Rightarrow> response \<Rightarrow> string" where
  "event_line enc r = ''data: '' @ enc (response_bytes r)"

definition peer_post ::
  "(payload \<Rightarrow> string) \<Rightarrow> (string \<Rightarrow> gval \<Rightarrow> gval \<times> rpc_error option) \<Rightarrow> http_post \<Rightarrow> string list \<Rightarrow> string list \<times> do_reply" where
  "peer_post enc app post w =
     (case Option.bind (po_Body post) ParseMessage of
        None \<Rightarrow> (w, DoReply 400 Malformed)
      | Some msg \<Rightarrow>
          if IsRequest msg then
            (case app (msg_Method msg) (msg_Params msg) of
               (result, err) \<Rightarrow> (w @ [event_line enc (answer_to (msg_ID msg) result err)], DoReply 200 Malformed))
          else (w, DoReply 200 Malformed))"

definition peer_env ::
  "(payload \<Rightarrow> string) \<Rightarrow> (string \<Rightarrow> gval \<Rightarrow> gval \<times> rpc_error option) \<Rightarrow> string list sse_env" where
  "peer_env enc app =
     \<lparr>ne_refuses = (\<lambda>_. False), ne_post = peer_post enc app, ne_open = (\<lambda>_ w. (w, Opened 200)),
      ne_line = (\<lambda>w. case w of [] \<Rightarrow> None | l # ls \<Rightarrow> Some (ls, Line l))\<rparr>"

text \<open>A schedule of the goroutines that runs one request to its end.\<close>

definition ss_exchange ::
  "(float64 \<Rightarrow> int64) \<Rightarrow> (string \<Rightarrow> payload) \<Rightarrow> 'w sse_env \<Rightarrow> string \<Rightarrow> gval \<Rightarrow> 's ss_state \<times> 'w \<Rightarrow>
   (('s ss_state \<times> 'w) \<times> arrival outcome) option" where
  "ss_exchange oor dec E meth params x =
     (case ss_SendRequest True meth params (fst x) of
        Some (s1, Ok c) \<Rightarrow> (case handleOutgoingMessages True (\<lambda>_. None) 0 E s1 (snd x) of
          Some (Ok (s2, w2)) \<Rightarrow> (case readEvents True False dec E s2 w2 of
            Some (s3, w3) \<Rightarrow> (case processIncomingMessages True True (ss_handler s3) of
              Some (h, _) \<Rightarrow> (case handleResponses oor True h of
                Some (Ok (h', _)) \<Rightarrow>
                  Some ((s3\<lparr>ss_handler := chan_update c (\<lambda>ch. ch\<lparr>rc_buf := []\<rparr>) h'\<rparr>, w3), Ok (chan_arrival (mh_chans h' ! c)))
              | _ \<Rightarrow> None) | _ \<Rightarrow> None) | _ \<Rightarrow> None) | _ \<Rightarrow> None)
      | Some (s1, Err e) \<Rightarrow> Some ((s1, snd x), Err e)
      | Some (s1, Panic p) \<Rightarrow> Some ((s1, snd x), Panic p)
      | None \<Rightarrow> None)"

definition ss_close :: "gval list \<Rightarrow> 's ss_state \<times> 'w \<Rightarrow> (('s ss_state \<times> 'w) \<times> unit outcome) option" where
  "ss_close ks x =
     (let s1 = (ss_cancel (fst x))\<lparr>ss_stream := AtEnd, ss_senderRuns := False\<rparr>
      in Some (case ss_close_handler ks s1 of
                 Ok s2 \<Rightarrow> ((s2, snd x), Ok ()) | Err e \<Rightarrow> ((s1, snd x), Err e) | Panic p \<Rightarrow> ((s1, snd x), Panic p)))"

definition ss_ops ::
  "(float64 \<Rightarrow> int64) \<Rightarrow> (string \<Rightarrow> payload) \<Rightarrow> 'w sse_env \<Rightarrow> gval list \<Rightarrow> ('s ss_state \<times> 'w) transport_ops" where
  "ss_ops oor dec E ks = \<lparr>tr_SendRequest = ss_exchange oor dec E, tr_Start = None, tr_Close = ss_close ks\<rparr>"

text \<open>Every answer of \<open>app\<close> is a result or an error that survives the wire, and \<open>dec\<close> undoes \<open>enc\<close>.\<close>

definition app_answers :: "(string \<Rightarrow> gval \<Rightarrow> gval \<times> rpc_error option) \<Rightarrow> bool" where
  "app_answers app \<longleftrightarrow>
     (\<forall>ident meth ps. answer_ok ident (answer_to ident (fst (app meth ps)) (snd (app meth ps))))"

definition codec :: "(payload \<Rightarrow> string) \<Rightarrow> (string \<Rightarrow> payload) \<Rightarrow> bool" where
  "codec enc dec \<longleftrightarrow> (\<forall>d. dec (enc d) = d \<and> enc d \<noteq> [])"

definition ss_ready ::
  "(float64 \<Rightarrow> int64) \<Rightarrow> (payload \<Rightarrow> string) \<Rightarrow> (string \<Rightarrow> payload) \<Rightarrow> (string \<Rightarrow> gval \<Rightarrow> gval \<times> rpc_error option) \<Rightarrow> nat \<Rightarrow>
   's ss_state \<times> string list \<Rightarrow> bool" where
  "ss_ready oor enc dec app n x \<longleftrightarrow> app_answers app \<and> codec enc dec \<and> mh_ready oor n (ss_handler (fst x)) \<and>
     ss_ctx (fst x) = None \<and> ss_stream (fst x) = AtRead \<and> ss_senderRuns (fst x) \<and> \<not> ss_IsOAuthEnabled (fst x) \<and> snd x = []"

lemma answer_is_response:
  assumes "answer_ok (GFloat (F64 (of_nat (Suc c)))) r" and "Suc c \<le> 2 ^ 53" and "wire_view (resp_Result r) = Some v"
  shows "\<exists>msg. ParseMessage (response_bytes r) = Some msg \<and> \<not> IsRequest msg \<and> \<not> IsNotification msg \<and> IsResponse msg"
proof -
  have "wire_view (resp_ID r) = Some (GFloat (F64 (of_nat (Suc c))))"
    using assms(1) wire_ident_generic [OF assms(2)] by (simp add: answer_ok_def del: generic.simps)
  moreover have "wire_view (err_Data e) = Some GNil \<and> error_in_range e" if "resp_Error r = Some e" for e
    using assms(1) that by (simp add: answer_ok_def)
  ultimately obtain j where "marshal (response_gval r) = Some j" "ParseMessage (Text j) = Some \<lparr>msg_JSONRPC = resp_JSONRPC r,
      msg_ID = GFloat (F64 (of_nat (Suc c))), msg_Method = [], msg_Params = GNil, msg_Result = v,
      msg_Error = map_option (\<lambda>e. e\<lparr>err_Data := GNil\<rparr>) (resp_Error r)\<rparr>"
    using response_wire [OF _ assms(3), of _ "\<lambda>_. GNil"] by blast
  then show ?thesis by (simp add: response_bytes_def to_payload_def IsRequest_def IsNotification_def IsResponse_def)
qed

lemma ss_exchange_answers:
  assumes ready: "ss_ready oor enc dec app (Suc n) x" and meth: "meth \<noteq> []" and ps: "wire_view params = Some ps"
    and app: "app meth ps = (v, err)" and w: "wire_view v = Some w"
  shows "\<exists>x' r. ss_exchange oor dec (peer_env enc app) meth params x = Some (x', Ok (Arrived r)) \<and> resp_Result r = w \<and>
    resp_Error r = err \<and> ss_ready oor enc dec app n x'"
proof -
  obtain s where x: "x = (s, [])" using ready by (cases x) (simp add: ss_ready_def)
  have s: "mh_ready oor (Suc n) (ss_handler s)" "ss_ctx s = None" "ss_stream s = AtRead" "ss_senderRuns s" "\<not> ss_IsOAuthEnabled s"
    and laws: "app_answers app" "codec enc dec"
    using ready x by (simp_all add: ss_ready_def)
  obtain h1 c j where h1: "SendRequest True meth params (ss_handler s) = Some (h1, Ok c)" "mh_outgoingChan h1 = [Text j]"
    "ParseMessage (Text j) = Some \<lparr>msg_JSONRPC = ''2.0'', msg_ID = GFloat (F64 (of_nat (Suc c))), msg_Method = meth,
      msg_Params = ps, msg_Result = GNil, msg_Error = None\<rparr>"
    "length (mh_chans h1) = Suc (length (mh_chans (ss_handler s)))" "mh_incomingChan h1 = []"
    "mh_bufferSize h1 = mh_bufferSize (ss_handler s)"
    "\<And>r. mh_answered oor c r (h1\<lparr>mh_outgoingChan := [], mh_incomingChan := [response_bytes r]\<rparr>)"
    using handler_asks [OF s(1) ps, of meth] by blast
  let ?f = "GFloat (F64 (of_nat (Suc c)))" and ?h2 = "h1\<lparr>mh_outgoingChan := []\<rparr>"
  let ?r = "answer_to ?f v err" and ?s2 = "s\<lparr>ss_handler := h1\<lparr>mh_outgoingChan := []\<rparr>, ss_messagesSent := ss_messagesSent s + 1\<rparr>"
  have ok: "answer_ok ?f ?r" using laws(1) app by (simp add: app_answers_def) (metis fst_conv snd_conv)
  have c: "Suc c \<le> 2 ^ 53" using h1(7) [of undefined] by (auto simp: mh_answered_def)
  have e1: "ss_SendRequest True meth params s = Some (s\<lparr>ss_handler := h1\<rparr>, Ok c)" using h1(1) by (simp add: ss_SendRequest_def)
  have noauth: "\<not> ss_IsOAuthEnabled (s\<lparr>ss_handler := h\<rparr>)" for h using s(5) by (simp add: ss_IsOAuthEnabled_def)
  have e2: "handleOutgoingMessages True (\<lambda>_. None) 0 (peer_env enc app) (s\<lparr>ss_handler := h1\<rparr>) [] = Some (Ok (?s2, [event_line enc ?r]))"
    using h1(2,3) s(2,4) meth app
    by (simp add: handleOutgoingMessages_def sendHTTPMessage_def ss_authorize_def noauth peer_env_def peer_post_def IsRequest_def)
  obtain msg where msg: "ParseMessage (response_bytes ?r) = Some msg" "\<not> IsRequest msg" "\<not> IsNotification msg" "IsResponse msg"
    using answer_is_response [OF ok c] w by (auto simp: answer_to_def)
  let ?h3 = "h1\<lparr>mh_outgoingChan := [], mh_incomingChan := [response_bytes ?r]\<rparr>"
  let ?s3 = "?s2\<lparr>ss_messagesReceived := ss_messagesReceived s + 1, ss_handler := ?h3\<rparr>"
  have "0 < mh_bufferSize (ss_handler s)" using s(1) by (simp add: mh_ready_def)
  then have e3: "readEvents True False dec (peer_env enc app) ?s2 [event_line enc ?r] = Some (?s3, [])"
    using laws(2) msg s(2) h1(5,6)
    by (simp add: readEvents_def peer_env_def event_line_def codec_def route_event_def select_send_def chan_send_def)
  obtain h4 h5 where h5: "processIncomingMessages True True ?h3 = Some (h4, True)" "handleResponses oor True h4 = Some (Ok (h5, True))"
    "chan_arrival (mh_chans h5 ! c) = Arrived \<lparr>resp_JSONRPC = ''2.0'', resp_ID = ident_of c, resp_Result = w, resp_Error = err\<rparr>"
    "mh_reachable oor (chan_update c (\<lambda>ch. ch\<lparr>rc_buf := []\<rparr>) h5)" "mh_idle (chan_update c (\<lambda>ch. ch\<lparr>rc_buf := []\<rparr>) h5)"
    "length (mh_chans h5) = length (mh_chans ?h3)" "mh_bufferSize h5 = mh_bufferSize ?h3"
    using handler_answers [OF h1(7) ok] w by (auto simp: answer_to_def)
  let ?x = "(?s3\<lparr>ss_handler := chan_update c (\<lambda>ch. ch\<lparr>rc_buf := []\<rparr>) h5\<rparr>, []::string list)"
  have "ss_exchange oor dec (peer_env enc app) meth params x = Some (?x, Ok (Arrived
      \<lparr>resp_JSONRPC = ''2.0'', resp_ID = ident_of c, resp_Result = w, resp_Error = err\<rparr>))"
    using e1 e2 e3 h5(1-3) x by (simp add: ss_exchange_def)
  moreover have "ss_ready oor enc dec app n ?x"
    using ready h5(4-7) h1(4,6) s noauth x by (simp add: ss_ready_def mh_ready_def ss_IsOAuthEnabled_def chan_update_def)
  ultimately show ?thesis by fastforce
qed

interpretation sse: rpc_transport "ss_ops oor dec (peer_env enc app) ks" "ss_ready oor enc dec app"
  "\<lambda>x meth ps. case app meth ps of (v, err) \<Rightarrow> Some (v, err)"
proof unfold_locales
  fix n t meth params ps v err w
  assume "ss_ready oor enc dec app (Suc n) t" "meth \<noteq> []" "wire_view params = Some ps"
    "(case app meth ps of (v, err) \<Rightarrow> Some (v, err)) = Some (v, err)" "wire_view v = Some w"
  then show "\<exists>t' r. tr_SendRequest (ss_ops oor dec (peer_env enc app) ks) meth params t = Some (t', Ok (Arrived r)) \<and>
      resp_Result r = w \<and> resp_Error r = err \<and> ss_ready oor enc dec app n t' \<and>
      (\<lambda>meth ps. case app meth ps of (v, err) \<Rightarrow> Some (v, err)) = (\<lambda>meth ps. case app meth ps of (v, err) \<Rightarrow> Some (v, err))"
    using ss_exchange_answers [of oor enc dec app n t meth params ps v err w] by (auto simp: ss_ops_def split: prod.splits)
qed


text \<open>There is such a printing: a message as the text whose length is its number.\<close>

instance json :: countable by countable_datatype

instance payload :: countable by countable_datatype

definition count_enc :: "payload \<Rightarrow> string" where
  "count_enc d = replicate (Suc (to_nat d)) (CHR ''x'')"

definition count_dec :: "string \<Rightarrow> payload" where
  "count_dec s = from_nat (length s - 1)"

lemma count_codec: "codec count_enc count_dec"
  by (simp add: codec_def count_enc_def count_dec_def)

section \<open>Properties\<close>

lemma new_stream_inv: "NewSSETransport ctx config = Ok s \<Longrightarrow> stream_inv (ss_maxReconnects s) 0 s"
  by (auto simp: NewSSETransport_def stream_inv_def Let_def split: if_splits outcome.splits)

text \<open>The transport gives up after a fixed number of failures in its whole life: over any run the attempts to connect
  that fail are at most one more than the configured number of reconnects, although successful connections lie in
  between, since the count is never reset; once that many have failed the goroutine of the stream ends for good while
  the context is alive. The statistic of reconnects stays 0 throughout.\<close>

theorem sse_gives_up:
  assumes "NewSSETransport ctx config = Ok s" and "ss_run E dec parse_time n s s'"
  shows "n \<le> nat (ss_maxReconnects s) + 1 \<and> ss_reconnects s' = 0 \<and>
    (ss_stream s' = AtEnd \<and> ss_ctx s' = None \<longrightarrow> n = nat (ss_maxReconnects s) + 1 \<and> \<not> ss_connected s') \<and>
    (ss_stream s' = AtEnd \<longrightarrow> ss_connectSSE pick broken parse_time now dec E s' w = None)"
  using stream_run [OF assms(2) new_stream_inv [OF assms(1)]]
  by (auto simp: stream_inv_def ss_connectSSE_def split: if_splits)

definition flaky_env :: "int list sse_env" where
  "flaky_env = \<lparr>ne_refuses = (\<lambda>_. False), ne_post = (\<lambda>_ w. (w, DoFailed ''unreachable'')),
     ne_open = (\<lambda>_ w. (tl w, Opened (hd w))), ne_line = (\<lambda>w. Some (w, StreamEnd False))\<rparr>"

definition once_config :: ss_config where
  "once_config = \<lparr>ssc_SSEEndpoint = ''http://h/sse'', ssc_HTTPEndpoint = ''http://h/rpc'', ssc_Headers = [], ssc_MaxReconnects = 1,
     ssc_RequestTimeout = 0, ssc_MessageBuffer = 0\<rparr>"

definition once :: "unit ss_state" where
  "once = (case NewSSETransport None once_config of Ok s \<Rightarrow> s)"

lemma once_new: "NewSSETransport None once_config = Ok once"
  by (simp add: once_def NewSSETransport_def once_config_def ss_defaults_def NewMessageHandler_def Let_def)

lemma once_run:
  "\<exists>s'. ss_run flaky_env (\<lambda>_. Malformed) (\<lambda>_. None) 2 once s' \<and> ss_stream s' = AtEnd \<and> ss_ctx s' = None"
proof -
  define step :: "unit ss_state \<Rightarrow> int list \<Rightarrow> (unit ss_state \<times> int list) outcome option"
    where "step = ss_connectSSE True False (\<lambda>_. None) 0 (\<lambda>_. Malformed) flaky_env"
  note defs = step_def ss_connectSSE_def establishConnection_def ss_authorize_def ss_IsOAuthEnabled_def flaky_env_def
    readEvents_def read_stops_def connect_failed_def count_ss_error_def
  have o: "ss_stream once = AtConnect" "ss_ctx once = None" "ss_oauthEnabled once = False" "ss_reconnectCount once = 0"
    "ss_maxReconnects once = 1"
    by (simp_all add: once_def NewSSETransport_def once_config_def ss_defaults_def NewMessageHandler_def Let_def)
  let ?s1 = "once\<lparr>ss_connectionErrors := ss_connectionErrors once + 1, ss_reconnectCount := 1, ss_stream := AtDelay\<rparr>"
  let ?s2 = "?s1\<lparr>ss_stream := AtConnect\<rparr>" and ?s3 = "?s1\<lparr>ss_connected := True, ss_stream := AtRead\<rparr>"
  let ?s4 = "?s1\<lparr>ss_connected := False, ss_stream := AtConnect\<rparr>"
  let ?s5 = "?s4\<lparr>ss_connectionErrors := ss_connectionErrors ?s4 + 1, ss_stream := AtEnd\<rparr>"
  have steps: "step once [500] = Some (Ok (?s1, []))" "step ?s1 [] = Some (Ok (?s2, []))" "step ?s2 [200] = Some (Ok (?s3, []))"
    "step ?s3 [] = Some (Ok (?s4, []))" "step ?s4 [500] = Some (Ok (?s5, []))"
    using o by (simp_all add: defs)
  note go = ss_run.goroutine [OF _ steps(1) [unfolded step_def]] ss_run.goroutine [OF _ steps(2) [unfolded step_def]]
    ss_run.goroutine [OF _ steps(3) [unfolded step_def]] ss_run.goroutine [OF _ steps(4) [unfolded step_def]]
    ss_run.goroutine [OF _ steps(5) [unfolded step_def]]
  have "ss_run flaky_env (\<lambda>_. Malformed) (\<lambda>_. None) 2 once ?s5"
    using go(5) [OF go(4) [OF go(3) [OF go(2) [OF go(1) [OF ss_run.start]]]]] o by (simp add: failed_attempt_def numeral_2_eq_2)
  then show ?thesis using o by (intro exI [of _ ?s5]) simp
qed

theorem sse_gives_up_witness:
  "\<exists>s'. ss_run flaky_env (\<lambda>_. Malformed) (\<lambda>_. None) 2 once s' \<and> ss_stream s' = AtEnd \<and> ss_reconnects s' = 0 \<and> \<not> ss_connected s'"
proof -
  obtain s' where s': "ss_run flaky_env (\<lambda>_. Malformed) (\<lambda>_. None) 2 once s'" "ss_stream s' = AtEnd" "ss_ctx s' = None"
    using once_run by blast
  then show ?thesis using sse_gives_up [OF once_new s'(1), where pick = True and broken = False and now = 0 and w = "[]"] by blast
qed

text \<open>A POST that fails is only counted: the request stays pending and nothing comes to its channel.\<close>

lemma failed_post_silent:
  assumes "ss_senderRuns s" and "mh_outgoingChan (ss_handler s) = data # rest" and "ss_ctx s = None" and "ne_refuses E (ss_httpEndpoint s)"
  shows "\<exists>s1. handleOutgoingMessages pick parse_time now E s w = Some (Ok (s1, w)) \<and>
    mh_pendingRequests (ss_handler s1) = mh_pendingRequests (ss_handler s) \<and> mh_chans (ss_handler s1) = mh_chans (ss_handler s) \<and>
    ss_connectionErrors s1 = ss_connectionErrors s + 1 \<and> mh_outgoingChan (ss_handler s1) = rest"
  using assms by (simp add: handleOutgoingMessages_def sendHTTPMessage_def count_ss_error_def)

end
