(* ===== verification/Websocket.thy ===== *)
theory Websocket
  imports Stdio Sse
begin

text \<open>
  \<open>transport/websocket.go\<close>: messages as frames of a WebSocket connection, with reconnection. Connections come from a
  third-party package: dialing, reading and writing a frame succeed or fail as the arguments of the steps say, only
  that nothing can be written to a connection that was closed. Each goroutine is a step function; there can be
  several readers, writers and pingers, since every connection starts its own. Delays and deadlines are left out.
\<close>

named_theorems ws_simps "step functions of the WebSocket transport"

section \<open>State\<close>

record ws_config =
  wsc_URL :: string
  wsc_RequestTimeout :: int
  wsc_MessageBuffer :: int
  wsc_ReconnectEnabled :: bool
  wsc_MaxReconnects :: int

text \<open>Where the goroutines are: \<open>readLoop\<close>, \<open>writeLoop\<close>, \<open>pingLoop\<close>, and the one that reconnects.\<close>

datatype ws_reader = AtTop | InRead nat | HasMessage payload

datatype ws_writer = WantsMessage | WantsConn payload | InWrite nat payload

datatype ws_pinger = AwaitTick | InPing nat

datatype ws_redial = Sleeping | Dialing

text \<open>\<open>ws_wire\<close> is the record of what was written to which connection.\<close>

record ws_state =
  ws_conn :: "nat option"
  ws_dialed :: nat
  ws_closedConns :: "nat set"
  ws_wire :: "(nat \<times> payload) list"
  ws_handler :: mh_state
  ws_requestChan :: "request list"
  ws_notificationChan :: "notification list"
  ws_bufferSize :: nat
  ws_ctx :: "string option"
  ws_closeOnce :: bool
  ws_url :: string
  ws_reconnectEnabled :: bool
  ws_maxReconnects :: int
  ws_connected :: bool
  ws_reconnectCount :: int
  ws_lastConnectTime :: int
  ws_messagesSent :: int64
  ws_messagesReceived :: int64
  ws_reconnects :: int64
  ws_connectionErrors :: int64
  ws_readers :: "ws_reader list"
  ws_writers :: "ws_writer list"
  ws_pingers :: "ws_pinger list"
  ws_redials :: "ws_redial list"
  ws_copiesRequests :: bool
  ws_copiesNotifications :: bool

definition ws_defaults :: "ws_config \<Rightarrow> ws_config" where
  "ws_defaults config = config
     \<lparr>wsc_RequestTimeout := (if wsc_RequestTimeout config = 0 then 30 * 1000000000 else wsc_RequestTimeout config),
      wsc_MessageBuffer := (if wsc_MessageBuffer config = 0 then 100 else wsc_MessageBuffer config),
      wsc_MaxReconnects := (if wsc_MaxReconnects config = 0 then 10 else wsc_MaxReconnects config)\<rparr>"

text \<open>\<open>scheme\<close> is \<open>url.Parse\<close>, of whose result only the scheme is looked at.\<close>

definition NewWebSocketTransport :: "(string \<Rightarrow> string outcome) \<Rightarrow> string option \<Rightarrow> ws_config \<Rightarrow> ws_state outcome" where
  "NewWebSocketTransport scheme ctx config0 =
     (if wsc_URL config0 = [] then Err ''WebSocket URL is required''
      else case scheme (wsc_URL config0) of
        Panic p \<Rightarrow> Panic p
      | Err e \<Rightarrow> Err (''invalid WebSocket URL: '' @ e)
      | Ok sch \<Rightarrow>
          if sch \<noteq> ''ws'' \<and> sch \<noteq> ''wss'' then Err ''invalid WebSocket URL: scheme must be ws or wss''
          else let config = ws_defaults config0
          in case NewMessageHandler ctx
                    \<lparr>mhc_RequestTimeout = wsc_RequestTimeout config, mhc_BufferSize = wsc_MessageBuffer config\<rparr> of
               Panic p \<Rightarrow> Panic p
             | Err e \<Rightarrow> Err e
             | Ok handler \<Rightarrow>
                 Ok \<lparr>ws_conn = None, ws_dialed = 0, ws_closedConns = {}, ws_wire = [], ws_handler = handler, ws_requestChan = [],
                   ws_notificationChan = [], ws_bufferSize = nat (wsc_MessageBuffer config), ws_ctx = ctx,
                   ws_closeOnce = False, ws_url = wsc_URL config, ws_reconnectEnabled = wsc_ReconnectEnabled config,
                   ws_maxReconnects = wsc_MaxReconnects config, ws_connected = False, ws_reconnectCount = 0,
                   ws_lastConnectTime = 0, ws_messagesSent = 0, ws_messagesReceived = 0, ws_reconnects = 0,
                   ws_connectionErrors = 0, ws_readers = [], ws_writers = [], ws_pingers = [], ws_redials = [],
                   ws_copiesRequests = True, ws_copiesNotifications = True\<rparr>)"

definition count_ws_error :: "ws_state \<Rightarrow> ws_state" where
  "count_ws_error s = s\<lparr>ws_connectionErrors := ws_connectionErrors s + 1\<rparr>"

definition remove_at :: "nat \<Rightarrow> 'a list \<Rightarrow> 'a list" where
  "remove_at i xs = take i xs @ drop (Suc i) xs"

section \<open>Connecting\<close>

text \<open>\<open>Connect\<close> holds the lock from its check to its end, so it is one step; \<open>dial\<close> is the error of dialing.\<close>

definition ws_Connect :: "string option \<Rightarrow> int \<Rightarrow> ws_state \<Rightarrow> ws_state \<times> string option" where
  "ws_Connect dial now s =
     (if ws_conn s \<noteq> None then (s, Some ''already connected'')
      else case dial of
        Some e \<Rightarrow> (count_ws_error s, Some (''failed to connect to WebSocket: '' @ e))
      | None \<Rightarrow>
          (s\<lparr>ws_conn := Some (ws_dialed s), ws_dialed := Suc (ws_dialed s), ws_lastConnectTime := now, ws_connected := True,
             ws_readers := ws_readers s @ [AtTop], ws_writers := ws_writers s @ [WantsMessage],
             ws_pingers := ws_pingers s @ [AwaitTick]\<rparr>, None))"

definition ws_Start :: "string option \<Rightarrow> int \<Rightarrow> ws_state \<Rightarrow> ws_state \<times> string option" where
  "ws_Start dial now s = ws_Connect dial now s"

definition close_conn :: "ws_state \<Rightarrow> ws_state" where
  "close_conn s =
     (case ws_conn s of None \<Rightarrow> s | Some c \<Rightarrow> s\<lparr>ws_conn := None, ws_closedConns := insert c (ws_closedConns s)\<rparr>)"

text \<open>
  One step: nothing connects between its parts, since \<open>Connect\<close> refuses while the connection is not yet cleared.
\<close>

definition handleDisconnection :: "ws_state \<Rightarrow> ws_state" where
  "handleDisconnection s =
     (let s1 = close_conn (s\<lparr>ws_connected := False\<rparr>)
      in if ws_reconnectEnabled s1 \<and> ws_reconnectCount s1 < ws_maxReconnects s1
         then s1\<lparr>ws_reconnectCount := ws_reconnectCount s1 + 1, ws_reconnects := ws_reconnects s1 + 1,
                 ws_redials := ws_redials s1 @ [Sleeping]\<rparr>
         else s1)"

text \<open>The goroutine that reconnects: it sleeps, looks at the context, and connects once.\<close>

definition redial :: "string option \<Rightarrow> int \<Rightarrow> nat \<Rightarrow> ws_state \<Rightarrow> ws_state option" where
  "redial dial now i s =
     (if length (ws_redials s) \<le> i then None
      else case ws_redials s ! i of
        Sleeping \<Rightarrow>
          if ws_ctx s \<noteq> None then Some (s\<lparr>ws_redials := remove_at i (ws_redials s)\<rparr>)
          else Some (s\<lparr>ws_redials := (ws_redials s)[i := Dialing]\<rparr>)
      | Dialing \<Rightarrow>
          (case ws_Connect dial now (s\<lparr>ws_redials := remove_at i (ws_redials s)\<rparr>) of
             (s1, Some e) \<Rightarrow> Some (count_ws_error s1)
           | (s1, None) \<Rightarrow> Some (s1\<lparr>ws_reconnectCount := 0\<rparr>)))"

section \<open>Reading\<close>

text \<open>What \<open>ReadMessage\<close> returns: a message, or an error that may count as unexpected.\<close>

datatype read_reply = ReadOk payload | ReadFailed bool

definition reader_returns :: "nat \<Rightarrow> ws_state \<Rightarrow> ws_state" where
  "reader_returns i s = handleDisconnection (s\<lparr>ws_readers := remove_at i (ws_readers s)\<rparr>)"

definition ws_readLoop :: "bool \<Rightarrow> read_reply \<Rightarrow> nat \<Rightarrow> ws_state \<Rightarrow> ws_state option" where
  "ws_readLoop pick reply i s =
     (if length (ws_readers s) \<le> i then None
      else case ws_readers s ! i of
        AtTop \<Rightarrow>
          if ws_ctx s \<noteq> None then Some (reader_returns i s)
          else (case ws_conn s of
                  None \<Rightarrow> Some (reader_returns i s)
                | Some c \<Rightarrow> Some (s\<lparr>ws_readers := (ws_readers s)[i := InRead c]\<rparr>))
      | InRead c \<Rightarrow>
          (case reply of
             ReadFailed unexpected \<Rightarrow> Some (reader_returns i (if unexpected then count_ws_error s else s))
           | ReadOk message \<Rightarrow>
               if c \<in> ws_closedConns s then None
               else Some (s\<lparr>ws_messagesReceived := ws_messagesReceived s + 1,
                            ws_readers := (ws_readers s)[i := HasMessage message]\<rparr>))
      | HasMessage message \<Rightarrow>
          (case select_send pick (mh_bufferSize (ws_handler s)) (mh_incomingChan (ws_handler s)) message (ws_ctx s) of
             Sent buf \<Rightarrow> Some (s\<lparr>ws_handler := (ws_handler s)\<lparr>mh_incomingChan := buf\<rparr>, ws_readers := (ws_readers s)[i := AtTop]\<rparr>)
           | Cancelled _ \<Rightarrow> Some (reader_returns i s)
           | Blocked \<Rightarrow> None))"

section \<open>Writing\<close>

definition writer_returns :: "nat \<Rightarrow> ws_state \<Rightarrow> ws_state" where
  "writer_returns i s = s\<lparr>ws_writers := remove_at i (ws_writers s)\<rparr>"

text \<open>\<open>writeLoop\<close>; \<open>writeMessage\<close> loads the connection under the lock, and writes without it.\<close>

definition ws_writeLoop :: "bool \<Rightarrow> bool \<Rightarrow> nat \<Rightarrow> ws_state \<Rightarrow> ws_state option" where
  "ws_writeLoop pick fails i s =
     (if length (ws_writers s) \<le> i then None
      else case ws_writers s ! i of
        WantsMessage \<Rightarrow>
          (case (mh_outgoingChan (ws_handler s), ws_ctx s) of
             ([], None) \<Rightarrow> None
           | ([], Some _) \<Rightarrow> Some (writer_returns i s)
           | (message # rest, ctx) \<Rightarrow>
               if ctx \<noteq> None \<and> \<not> pick then Some (writer_returns i s)
               else Some (s\<lparr>ws_handler := (ws_handler s)\<lparr>mh_outgoingChan := rest\<rparr>,
                            ws_writers := (ws_writers s)[i := WantsConn message]\<rparr>))
      | WantsConn message \<Rightarrow>
          (case ws_conn s of
             None \<Rightarrow> Some (writer_returns i (count_ws_error s))
           | Some c \<Rightarrow> Some (s\<lparr>ws_writers := (ws_writers s)[i := InWrite c message]\<rparr>))
      | InWrite c message \<Rightarrow>
          if fails then Some (writer_returns i (count_ws_error s))
          else if c \<in> ws_closedConns s then None
          else Some (s\<lparr>ws_wire := ws_wire s @ [(c, message)], ws_messagesSent := ws_messagesSent s + 1,
                       ws_writers := (ws_writers s)[i := WantsMessage]\<rparr>))"

definition ws_pingLoop :: "bool \<Rightarrow> bool \<Rightarrow> nat \<Rightarrow> ws_state \<Rightarrow> ws_state option" where
  "ws_pingLoop tick fails i s =
     (if length (ws_pingers s) \<le> i then None
      else case ws_pingers s ! i of
        AwaitTick \<Rightarrow>
          if tick then
            (case ws_conn s of
               None \<Rightarrow> Some (s\<lparr>ws_pingers := remove_at i (ws_pingers s)\<rparr>)
             | Some c \<Rightarrow> Some (s\<lparr>ws_pingers := (ws_pingers s)[i := InPing c]\<rparr>))
          else if ws_ctx s \<noteq> None then Some (s\<lparr>ws_pingers := remove_at i (ws_pingers s)\<rparr>)
          else None
      | InPing c \<Rightarrow>
          if fails then Some (s\<lparr>ws_pingers := remove_at i (ws_pingers s)\<rparr>)
          else if c \<in> ws_closedConns s then None
          else Some (s\<lparr>ws_pingers := (ws_pingers s)[i := AwaitTick]\<rparr>))"

section \<open>The channels for requests and notifications\<close>

definition copyRequests :: "bool \<Rightarrow> bool \<Rightarrow> ws_state \<Rightarrow> ws_state option" where
  "copyRequests pick pick' s =
     (if \<not> ws_copiesRequests s then None
      else case relay pick pick' (ws_ctx s) (ws_bufferSize s) id (mh_requestChan (ws_handler s)) (ws_requestChan s) of
             Waits \<Rightarrow> None
           | Stops src \<Rightarrow> Some (s\<lparr>ws_handler := (ws_handler s)\<lparr>mh_requestChan := src\<rparr>, ws_copiesRequests := False\<rparr>)
           | Moves src dst \<Rightarrow> Some (s\<lparr>ws_handler := (ws_handler s)\<lparr>mh_requestChan := src\<rparr>, ws_requestChan := dst\<rparr>))"

definition copyNotifications :: "bool \<Rightarrow> bool \<Rightarrow> ws_state \<Rightarrow> ws_state option" where
  "copyNotifications pick pick' s =
     (if \<not> ws_copiesNotifications s then None
      else case relay pick pick' (ws_ctx s) (ws_bufferSize s) id (mh_notificationChan (ws_handler s)) (ws_notificationChan s) of
             Waits \<Rightarrow> None
           | Stops src \<Rightarrow> Some (s\<lparr>ws_handler := (ws_handler s)\<lparr>mh_notificationChan := src\<rparr>, ws_copiesNotifications := False\<rparr>)
           | Moves src dst \<Rightarrow> Some (s\<lparr>ws_handler := (ws_handler s)\<lparr>mh_notificationChan := src\<rparr>, ws_notificationChan := dst\<rparr>))"

section \<open>Calls\<close>

definition ws_SendRequest :: "bool \<Rightarrow> string \<Rightarrow> gval \<Rightarrow> ws_state \<Rightarrow> (ws_state \<times> nat outcome) option" where
  "ws_SendRequest pick meth params s =
     (if \<not> ws_connected s then Some (s, Err ''not connected'')
      else map_option (\<lambda>(h, res). (s\<lparr>ws_handler := h\<rparr>, res)) (SendRequest pick meth params (ws_handler s)))"

definition ws_SendNotification :: "bool \<Rightarrow> string \<Rightarrow> gval \<Rightarrow> ws_state \<Rightarrow> (ws_state \<times> unit outcome) option" where
  "ws_SendNotification pick meth params s =
     (if \<not> ws_connected s then Some (s, Err ''not connected'')
      else map_option (\<lambda>(h, res). (s\<lparr>ws_handler := h\<rparr>, res)) (SendNotification pick meth params (ws_handler s)))"

definition ws_SendResponse ::
  "bool \<Rightarrow> gval \<Rightarrow> gval \<Rightarrow> rpc_error option \<Rightarrow> ws_state \<Rightarrow> (ws_state \<times> unit outcome) option" where
  "ws_SendResponse pick ident result err s =
     (if \<not> ws_connected s then Some (s, Err ''not connected'')
      else map_option (\<lambda>(h, res). (s\<lparr>ws_handler := h\<rparr>, res)) (SendResponse pick ident result err (ws_handler s)))"

definition IsConnected :: "ws_state \<Rightarrow> bool" where
  "IsConnected s = ws_connected s"

definition GetURL :: "ws_state \<Rightarrow> string" where
  "GetURL s = ws_url s"

record ws_stats =
  wss_MessagesSent :: int64
  wss_MessagesReceived :: int64
  wss_Reconnects :: int64
  wss_ConnectionErrors :: int64
  wss_Connected :: bool
  wss_ReconnectCount :: int
  wss_LastConnectTime :: int

definition ws_Stats :: "ws_state \<Rightarrow> ws_stats" where
  "ws_Stats s = \<lparr>wss_MessagesSent = ws_messagesSent s, wss_MessagesReceived = ws_messagesReceived s,
     wss_Reconnects = ws_reconnects s, wss_ConnectionErrors = ws_connectionErrors s, wss_Connected = ws_connected s,
     wss_ReconnectCount = ws_reconnectCount s, wss_LastConnectTime = ws_lastConnectTime s\<rparr>"

definition SetReconnectEnabled :: "bool \<Rightarrow> ws_state \<Rightarrow> ws_state" where
  "SetReconnectEnabled enabled s = s\<lparr>ws_reconnectEnabled := enabled\<rparr>"

definition ResetReconnectCount :: "ws_state \<Rightarrow> ws_state" where
  "ResetReconnectCount s = s\<lparr>ws_reconnectCount := 0\<rparr>"

section \<open>Closing\<close>

text \<open>The first part of \<open>Close\<close>: the context is cancelled and the connection closed.\<close>

definition ws_begin_close :: "ws_state \<Rightarrow> ws_state" where
  "ws_begin_close s =
     (if ws_closeOnce s then s
      else close_conn (s\<lparr>ws_closeOnce := True, ws_handler := cancel (ws_handler s),
             ws_ctx := (case ws_ctx s of None \<Rightarrow> Some ''context canceled'' | Some e \<Rightarrow> Some e)\<rparr>))"

text \<open>The rest, once the goroutines have ended or after five seconds (\<open>late\<close>).\<close>

definition ws_finish_close :: "gval list \<Rightarrow> bool \<Rightarrow> ws_state \<Rightarrow> (ws_state \<times> string option) outcome option" where
  "ws_finish_close ks late s =
     (if \<not> late \<and> (ws_readers s \<noteq> [] \<or> ws_writers s \<noteq> [] \<or> ws_pingers s \<noteq> []) then None
      else Some (case MessageHandler_Close ks (ws_handler s) of
                   Ok h \<Rightarrow> Ok (s\<lparr>ws_handler := h, ws_connected := False\<rparr>,
                               if late then Some ''timeout waiting for goroutines to finish'' else None)
                 | Err e \<Rightarrow> Err e
                 | Panic p \<Rightarrow> Panic p))"

section \<open>The transport as a transition system\<close>

lemmas [ws_simps] = ws_readLoop_def ws_writeLoop_def ws_pingLoop_def redial_def copyRequests_def copyNotifications_def

inductive ws_work :: "ws_state \<Rightarrow> ws_state \<Rightarrow> bool" where
  reading: "ws_readLoop pick reply i s = Some s' \<Longrightarrow> ws_work s s'"
| writing: "ws_writeLoop pick fails i s = Some s' \<Longrightarrow> ws_work s s'"
| pinging: "ws_pingLoop tick fails i s = Some s' \<Longrightarrow> ws_work s s'"
| redialing: "redial dial now i s = Some s' \<Longrightarrow> ws_work s s'"
| requests: "copyRequests pick pick' s = Some s' \<Longrightarrow> ws_work s s'"
| notifications: "copyNotifications pick pick' s = Some s' \<Longrightarrow> ws_work s s'"

text \<open>A transport in use: its goroutines, its message handler's, and the calls of the application.\<close>

inductive ws_step :: "ws_state \<Rightarrow> ws_state \<Rightarrow> bool" where
  work: "ws_work s s' \<Longrightarrow> ws_step s s'"
| handler: "ws_step s (s\<lparr>ws_handler := h\<rparr>)"
| connect: "ws_Connect dial now s = (s', res) \<Longrightarrow> ws_step s s'"
| set_reconnect: "ws_step s (SetReconnectEnabled enabled s)"
| reset_count: "ws_step s (ResetReconnectCount s)"
| close: "ws_step s (ws_begin_close s)"
| closed: "ws_finish_close ks late s = Some (Ok (s', err)) \<Longrightarrow> ws_ctx s \<noteq> None \<Longrightarrow> ws_step s s'"

inductive ws_reachable :: "ws_state \<Rightarrow> bool" where
  start: "NewWebSocketTransport scheme ctx config = Ok s \<Longrightarrow> ws_reachable s"
| step: "ws_reachable s \<Longrightarrow> ws_step s s' \<Longrightarrow> ws_reachable s'"


section \<open>Lemmas\<close>

text \<open>What a goroutine of the lists keeps.\<close>

lemma close_conn_simps [simp]:
  "ws_conn (close_conn s) = None" "ws_connected (close_conn s) = ws_connected s" "ws_ctx (close_conn s) = ws_ctx s"
  "ws_readers (close_conn s) = ws_readers s" "ws_writers (close_conn s) = ws_writers s" "ws_redials (close_conn s) = ws_redials s"
  "ws_pingers (close_conn s) = ws_pingers s" "ws_wire (close_conn s) = ws_wire s" "ws_handler (close_conn s) = ws_handler s"
  "ws_dialed (close_conn s) = ws_dialed s" "ws_reconnectCount (close_conn s) = ws_reconnectCount s"
  "ws_maxReconnects (close_conn s) = ws_maxReconnects s" "ws_reconnectEnabled (close_conn s) = ws_reconnectEnabled s"
  "ws_closedConns (close_conn s) = (case ws_conn s of None \<Rightarrow> ws_closedConns s | Some c \<Rightarrow> insert c (ws_closedConns s))"
  by (simp_all add: close_conn_def split: option.splits)

text \<open>A connection in use is open; while the context is alive the flag says whether there is one.\<close>

definition ws_inv :: "ws_state \<Rightarrow> bool" where
  "ws_inv s \<longleftrightarrow> (\<forall>c. ws_conn s = Some c \<longrightarrow> c \<notin> ws_closedConns s \<and> c < ws_dialed s) \<and>
     (\<forall>c \<in> ws_closedConns s. c < ws_dialed s) \<and> (ws_ctx s = None \<longrightarrow> ws_connected s = (ws_conn s \<noteq> None)) \<and>
     0 \<le> ws_reconnectCount s \<and> ws_reconnectCount s \<le> max 0 (ws_maxReconnects s)"

text \<open>The part of the state that the invariant is about.\<close>

definition ws_core where
  "ws_core s = (ws_conn s, ws_closedConns s, ws_dialed s, ws_ctx s, ws_connected s, ws_reconnectCount s, ws_maxReconnects s)"

lemma ws_inv_core: "ws_core s' = ws_core s \<Longrightarrow> ws_inv s \<Longrightarrow> ws_inv s'"
  by (simp add: ws_core_def ws_inv_def)

lemma disconnection_inv: "ws_inv s \<Longrightarrow> ws_inv (handleDisconnection s)"
  by (auto simp: ws_inv_def handleDisconnection_def Let_def split: option.splits)

lemma Connect_inv: "ws_inv s \<Longrightarrow> ws_Connect dial now s = (s', res) \<Longrightarrow> ws_inv s'"
  by (auto simp: ws_Connect_def ws_inv_def count_ws_error_def less_SucI split: if_splits option.splits)

lemma reader_returns_inv: "ws_inv s \<Longrightarrow> ws_inv (reader_returns i s)"
  unfolding reader_returns_def by (rule disconnection_inv) (simp add: ws_inv_def)

lemma reading_cases:
  "ws_readLoop pick reply i s = Some s' \<Longrightarrow> ws_core s' = ws_core s \<or> s' = reader_returns i s \<or> s' = reader_returns i (count_ws_error s)"
  by (auto simp: ws_readLoop_def ws_core_def split: if_splits ws_reader.splits option.splits read_reply.splits select_result.splits)

lemma writing_core: "ws_writeLoop pick fails i s = Some s' \<Longrightarrow> ws_core s' = ws_core s"
  by (auto simp: ws_writeLoop_def writer_returns_def count_ws_error_def ws_core_def
      split: if_splits ws_writer.splits option.splits list.splits)

lemma pinging_core: "ws_pingLoop tick fails i s = Some s' \<Longrightarrow> ws_core s' = ws_core s"
  by (auto simp: ws_pingLoop_def ws_core_def split: if_splits ws_pinger.splits option.splits)

lemma copying_core:
  "copyRequests pick pick' s = Some s' \<Longrightarrow> ws_core s' = ws_core s"
  "copyNotifications pick pick' s = Some s' \<Longrightarrow> ws_core s' = ws_core s"
  by (auto simp: copyRequests_def copyNotifications_def ws_core_def split: if_splits relayed.splits)

lemma redial_cases:
  "redial dial now i s = Some s' \<Longrightarrow> ws_core s' = ws_core s \<or>
   (\<exists>s1 res. ws_Connect dial now (s\<lparr>ws_redials := remove_at i (ws_redials s)\<rparr>) = (s1, res) \<and>
      s' = (if res = None then s1\<lparr>ws_reconnectCount := 0\<rparr> else count_ws_error s1))"
  by (auto simp: redial_def ws_core_def split: if_splits ws_redial.splits option.splits prod.splits)

lemma redial_inv:
  assumes "redial dial now i s = Some s'" and inv: "ws_inv s"
  shows "ws_inv s'"
  using redial_cases [OF assms(1)]
proof (elim disjE exE conjE)
  fix s1 res
  assume c: "ws_Connect dial now (s\<lparr>ws_redials := remove_at i (ws_redials s)\<rparr>) = (s1, res)"
    and s': "s' = (if res = None then s1\<lparr>ws_reconnectCount := 0\<rparr> else count_ws_error s1)"
  have "ws_inv (s\<lparr>ws_redials := remove_at i (ws_redials s)\<rparr>)" using inv by (simp add: ws_inv_def)
  then have "ws_inv s1" using Connect_inv c by blast
  then show ?thesis unfolding s' by (simp add: ws_inv_def count_ws_error_def)
qed (rule ws_inv_core [OF _ inv])

lemma ws_work_inv: "ws_work s s' \<Longrightarrow> ws_inv s \<Longrightarrow> ws_inv s'"
proof (induction rule: ws_work.induct)
  case (reading pick reply i s s')
  have "ws_inv (count_ws_error s)" using reading.prems by (simp add: ws_inv_def count_ws_error_def)
  then show ?case using reading_cases [OF reading.hyps] reading.prems ws_inv_core reader_returns_inv by blast
next
  case (redialing dial now i s s')
  then show ?case by (rule redial_inv)
qed (use ws_inv_core writing_core pinging_core copying_core in blast)+

lemma ws_step_inv: "ws_step s s' \<Longrightarrow> ws_inv s \<Longrightarrow> ws_inv s'"
proof (induction rule: ws_step.induct)
  case (work s s')
  then show ?case by (rule ws_work_inv)
next
  case (connect dial now s s' res)
  then show ?case using Connect_inv by blast
qed (auto simp: ws_inv_def SetReconnectEnabled_def ResetReconnectCount_def ws_begin_close_def ws_finish_close_def
      split: if_splits option.splits outcome.splits)

lemma ws_reachable_inv: "ws_reachable s \<Longrightarrow> ws_inv s"
proof (induction rule: ws_reachable.induct)
  case (start scheme ctx config s)
  then show ?case by (auto simp: NewWebSocketTransport_def ws_inv_def Let_def split: if_splits outcome.splits)
next
  case (step s s')
  then show ?case using ws_step_inv by blast
qed

subsection \<open>Without a connection\<close>

text \<open>No connection, and no goroutine that would make one.\<close>

definition dormant :: "ws_state \<Rightarrow> bool" where
  "dormant s \<longleftrightarrow> ws_conn s = None \<and> \<not> ws_connected s \<and> ws_readers s = [] \<and> ws_redials s = []"

lemma dormant_work: "ws_work s s' \<Longrightarrow> dormant s \<Longrightarrow> dormant s'"
  by (induction rule: ws_work.induct)
    (auto simp: dormant_def ws_simps writer_returns_def count_ws_error_def
      split: if_splits ws_writer.splits ws_pinger.splits option.splits list.splits relayed.splits)

lemma dormant_run: "ws_work\<^sup>*\<^sup>* s s' \<Longrightarrow> dormant s \<Longrightarrow> dormant s'"
  by (induction rule: rtranclp_induct) (auto intro: dormant_work)

subsection \<open>What is written\<close>

lemma mset_concat_update:
  "i < length xs \<Longrightarrow> mset (concat (map f (xs[i := y]))) + mset (f (xs ! i)) = mset (concat (map f xs)) + mset (f y)"
  by (induction xs arbitrary: i) (auto simp: nth_Cons split: nat.splits)

lemma mset_concat_remove:
  "i < length xs \<Longrightarrow> mset (concat (map f (remove_at i xs))) + mset (f (xs ! i)) = mset (concat (map f xs))"
  unfolding remove_at_def by (subst (3) id_take_nth_drop [of i xs]) simp_all

fun in_hand :: "ws_writer \<Rightarrow> payload list" where
  "in_hand WantsMessage = []"
| "in_hand (WantsConn m) = [m]"
| "in_hand (InWrite c m) = [m]"

text \<open>All messages that were written, are in the hands of a writer, or are queued.\<close>

definition outgoing_pool :: "ws_state \<Rightarrow> payload multiset" where
  "outgoing_pool s = mset (map snd (ws_wire s)) + mset (concat (map in_hand (ws_writers s))) + mset (mh_outgoingChan (ws_handler s))"

lemma pool_update:
  assumes "i < length (ws_writers s)"
  shows "mset (concat (map in_hand ((ws_writers s)[i := w]))) + mset (in_hand (ws_writers s ! i)) =
    mset (concat (map in_hand (ws_writers s))) + mset (in_hand w)"
  using mset_concat_update [OF assms, of in_hand w] .

lemma pool_remove:
  assumes "i < length (ws_writers s)"
  shows "mset (concat (map in_hand (remove_at i (ws_writers s)))) \<subseteq># mset (concat (map in_hand (ws_writers s)))"
  using mset_concat_remove [OF assms, of in_hand] by (metis mset_subset_eq_add_left)

lemma writer_returns_pool: "i < length (ws_writers s) \<Longrightarrow> outgoing_pool (writer_returns i s) \<subseteq># outgoing_pool s"
  using pool_remove [of i s] by (simp add: outgoing_pool_def writer_returns_def)

lemma writing_pool:
  assumes "ws_writeLoop pick fails i s = Some s'"
  shows "outgoing_pool s' \<subseteq># outgoing_pool s"
proof -
  have i: "i < length (ws_writers s)" using assms by (simp add: ws_writeLoop_def split: if_splits)
  have e: "outgoing_pool (count_ws_error s) = outgoing_pool s" "length (ws_writers (count_ws_error s)) = length (ws_writers s)"
    by (simp_all add: outgoing_pool_def count_ws_error_def)
  show ?thesis
  proof (cases "s' \<in> {writer_returns i s, writer_returns i (count_ws_error s)}")
    case True
    then show ?thesis using writer_returns_pool [OF i] writer_returns_pool [of i "count_ws_error s"] e i by auto
  next
    case False
    show ?thesis
    proof (cases "ws_writers s ! i")
      case WantsMessage
      then obtain m rest where m: "mh_outgoingChan (ws_handler s) = m # rest"
        "s' = s\<lparr>ws_handler := (ws_handler s)\<lparr>mh_outgoingChan := rest\<rparr>, ws_writers := (ws_writers s)[i := WantsConn m]\<rparr>"
        using assms i False by (auto simp: ws_writeLoop_def split: list.splits option.splits if_splits)
      then show ?thesis using pool_update [OF i, of "WantsConn m"] WantsMessage by (simp add: outgoing_pool_def)
    next
      case (WantsConn m)
      then obtain c where c: "s' = s\<lparr>ws_writers := (ws_writers s)[i := InWrite c m]\<rparr>"
        using assms i False by (auto simp: ws_writeLoop_def split: option.splits)
      then show ?thesis using pool_update [OF i, of "InWrite c m"] WantsConn by (simp add: outgoing_pool_def)
    next
      case (InWrite c m)
      then have c: "s' = s\<lparr>ws_wire := ws_wire s @ [(c, m)], ws_messagesSent := ws_messagesSent s + 1,
          ws_writers := (ws_writers s)[i := WantsMessage]\<rparr>"
        using assms i False by (auto simp: ws_writeLoop_def split: if_splits)
      then show ?thesis using pool_update [OF i, of WantsMessage] InWrite by (simp add: outgoing_pool_def)
    qed
  qed
qed

text \<open>The other goroutines leave the messages alone, up to a new writer with empty hands.\<close>

lemma pool_cong:
  "ws_wire s' = ws_wire s \<Longrightarrow> mh_outgoingChan (ws_handler s') = mh_outgoingChan (ws_handler s) \<Longrightarrow>
   ws_writers s' = ws_writers s \<or> ws_writers s' = ws_writers s @ [WantsMessage] \<Longrightarrow> outgoing_pool s' = outgoing_pool s"
  by (auto simp: outgoing_pool_def)

lemma disconnection_fields [simp]:
  "ws_wire (handleDisconnection s) = ws_wire s" "ws_handler (handleDisconnection s) = ws_handler s"
  "ws_writers (handleDisconnection s) = ws_writers s" "ws_wire (reader_returns i s) = ws_wire s"
  "ws_handler (reader_returns i s) = ws_handler s" "ws_writers (reader_returns i s) = ws_writers s"
  by (simp_all add: handleDisconnection_def reader_returns_def Let_def)

lemma reading_pool: "ws_readLoop pick reply i s = Some s' \<Longrightarrow> outgoing_pool s' = outgoing_pool s"
  by (rule pool_cong) (auto simp: ws_readLoop_def count_ws_error_def
      split: if_splits ws_reader.splits option.splits read_reply.splits select_result.splits)

lemma redial_pool: "redial dial now i s = Some s' \<Longrightarrow> outgoing_pool s' = outgoing_pool s"
  by (rule pool_cong) (auto simp: redial_def ws_Connect_def count_ws_error_def
      split: if_splits ws_redial.splits option.splits prod.splits)

lemma ws_work_pool: "ws_work s s' \<Longrightarrow> outgoing_pool s' \<subseteq># outgoing_pool s"
proof (induction rule: ws_work.induct)
  case (reading pick reply i s s')
  then show ?case by (simp add: reading_pool)
next
  case (writing pick fails i s s')
  then show ?case by (rule writing_pool)
next
  case (pinging tick fails i s s')
  then have "outgoing_pool s' = outgoing_pool s"
    by (intro pool_cong) (auto simp: ws_pingLoop_def split: if_splits ws_pinger.splits option.splits)
  then show ?case by simp
next
  case (redialing dial now i s s')
  then show ?case by (simp add: redial_pool)
next
  case (requests pick pick' s s')
  then have "outgoing_pool s' = outgoing_pool s"
    by (intro pool_cong) (auto simp: copyRequests_def split: if_splits relayed.splits)
  then show ?case by simp
next
  case (notifications pick pick' s s')
  then have "outgoing_pool s' = outgoing_pool s"
    by (intro pool_cong) (auto simp: copyNotifications_def split: if_splits relayed.splits)
  then show ?case by simp
qed

lemma ws_run_pool: "ws_work\<^sup>*\<^sup>* s s' \<Longrightarrow> outgoing_pool s' \<subseteq># outgoing_pool s"
  by (induction rule: rtranclp_induct) (auto intro: ws_work_pool subset_mset.order_trans)


section \<open>The transport as a provider\<close>

text \<open>The peer's frame in answer to a frame with a request.\<close>

definition peer_frame :: "(string \<Rightarrow> gval \<Rightarrow> gval \<times> rpc_error option) \<Rightarrow> payload \<Rightarrow> payload option" where
  "peer_frame app data =
     (case ParseMessage data of
        None \<Rightarrow> None
      | Some msg \<Rightarrow>
          if IsRequest msg then
            (case app (msg_Method msg) (msg_Params msg) of
               (result, err) \<Rightarrow> Some (response_bytes (answer_to (msg_ID msg) result err)))
          else None)"

text \<open>A schedule of the goroutines that runs one request to its end.\<close>

definition ws_write_one :: "ws_state \<Rightarrow> ws_state option" where
  "ws_write_one s =
     Option.bind (ws_writeLoop True False 0 s) (\<lambda>s1. Option.bind (ws_writeLoop True False 0 s1) (ws_writeLoop True False 0))"

definition ws_read_one :: "payload \<Rightarrow> ws_state \<Rightarrow> ws_state option" where
  "ws_read_one frame s =
     Option.bind (ws_readLoop True (ReadOk frame) 0 s)
       (\<lambda>s1. Option.bind (ws_readLoop True (ReadOk frame) 0 s1) (ws_readLoop True (ReadOk frame) 0))"

definition ws_exchange ::
  "(float64 \<Rightarrow> int64) \<Rightarrow> (string \<Rightarrow> gval \<Rightarrow> gval \<times> rpc_error option) \<Rightarrow> string \<Rightarrow> gval \<Rightarrow> ws_state \<Rightarrow>
   (ws_state \<times> arrival outcome) option" where
  "ws_exchange oor app meth params s =
     (case ws_SendRequest True meth params s of
        Some (s1, Ok c) \<Rightarrow> (case ws_write_one s1 of
          Some s2 \<Rightarrow> (case peer_frame app (snd (last (ws_wire s2))) of
            Some frame \<Rightarrow> (case ws_read_one frame s2 of
              Some s3 \<Rightarrow> (case processIncomingMessages True True (ws_handler s3) of
                Some (h, _) \<Rightarrow> (case handleResponses oor True h of
                  Some (Ok (h', _)) \<Rightarrow>
                    Some (s3\<lparr>ws_handler := chan_update c (\<lambda>ch. ch\<lparr>rc_buf := []\<rparr>) h'\<rparr>, Ok (chan_arrival (mh_chans h' ! c)))
                | _ \<Rightarrow> None) | _ \<Rightarrow> None) | _ \<Rightarrow> None) | _ \<Rightarrow> None) | _ \<Rightarrow> None)
      | Some (s1, Err e) \<Rightarrow> Some (s1, Err e)
      | Some (s1, Panic p) \<Rightarrow> Some (s1, Panic p)
      | None \<Rightarrow> None)"

definition ws_close :: "gval list \<Rightarrow> ws_state \<Rightarrow> (ws_state \<times> unit outcome) option" where
  "ws_close ks s =
     (let s1 = (ws_begin_close s)\<lparr>ws_readers := [], ws_writers := [], ws_pingers := []\<rparr>
      in map_option (\<lambda>r. case r of Ok (s2, None) \<Rightarrow> (s2, Ok ()) | Ok (s2, Some e) \<Rightarrow> (s2, Err e)
                            | Err e \<Rightarrow> (s1, Err e) | Panic p \<Rightarrow> (s1, Panic p)) (ws_finish_close ks False s1))"

definition ws_ops ::
  "(float64 \<Rightarrow> int64) \<Rightarrow> (string \<Rightarrow> gval \<Rightarrow> gval \<times> rpc_error option) \<Rightarrow> gval list \<Rightarrow> ws_state transport_ops" where
  "ws_ops oor app ks = \<lparr>tr_SendRequest = ws_exchange oor app, tr_Start = Some (ws_Start None 0), tr_Close = ws_close ks\<rparr>"

definition ws_ready ::
  "(float64 \<Rightarrow> int64) \<Rightarrow> (string \<Rightarrow> gval \<Rightarrow> gval \<times> rpc_error option) \<Rightarrow> nat \<Rightarrow> ws_state \<Rightarrow> bool" where
  "ws_ready oor app n s \<longleftrightarrow> app_answers app \<and> mh_ready oor n (ws_handler s) \<and> ws_ctx s = None \<and> ws_connected s \<and>
     (\<exists>k. ws_conn s = Some k \<and> k \<notin> ws_closedConns s) \<and> ws_readers s = [AtTop] \<and> ws_writers s = [WantsMessage]"

lemma ws_exchange_answers:
  assumes ready: "ws_ready oor app (Suc n) s" and meth: "meth \<noteq> []" and ps: "wire_view params = Some ps"
    and app: "app meth ps = (v, err)" and w: "wire_view v = Some w"
  shows "\<exists>s' r. ws_exchange oor app meth params s = Some (s', Ok (Arrived r)) \<and> resp_Result r = w \<and> resp_Error r = err \<and>
    ws_ready oor app n s'"
proof -
  obtain k where k: "ws_conn s = Some k" "k \<notin> ws_closedConns s" using ready by (auto simp: ws_ready_def)
  have s: "mh_ready oor (Suc n) (ws_handler s)" "ws_ctx s = None" "ws_connected s" "ws_readers s = [AtTop]"
    "ws_writers s = [WantsMessage]" "app_answers app"
    using ready by (simp_all add: ws_ready_def)
  obtain h1 c j where h1: "SendRequest True meth params (ws_handler s) = Some (h1, Ok c)" "mh_outgoingChan h1 = [Text j]"
    "ParseMessage (Text j) = Some \<lparr>msg_JSONRPC = ''2.0'', msg_ID = GFloat (F64 (of_nat (Suc c))), msg_Method = meth,
      msg_Params = ps, msg_Result = GNil, msg_Error = None\<rparr>"
    "length (mh_chans h1) = Suc (length (mh_chans (ws_handler s)))" "mh_incomingChan h1 = []"
    "mh_bufferSize h1 = mh_bufferSize (ws_handler s)"
    "\<And>r. mh_answered oor c r (h1\<lparr>mh_outgoingChan := [], mh_incomingChan := [response_bytes r]\<rparr>)"
    using handler_asks [OF s(1) ps, of meth] by blast
  let ?f = "GFloat (F64 (of_nat (Suc c)))"
  let ?r = "answer_to ?f v err"
  have ok: "answer_ok ?f ?r" using s(6) app by (simp add: app_answers_def) (metis fst_conv snd_conv)
  have e1: "ws_SendRequest True meth params s = Some (s\<lparr>ws_handler := h1\<rparr>, Ok c)" using h1(1) s(3) by (simp add: ws_SendRequest_def)
  let ?s2 = "s\<lparr>ws_handler := h1\<lparr>mh_outgoingChan := []\<rparr>, ws_wire := ws_wire s @ [(k, Text j)], ws_messagesSent := ws_messagesSent s + 1\<rparr>"
  have e2: "ws_write_one (s\<lparr>ws_handler := h1\<rparr>) = Some ?s2"
    using h1(2) s k by (simp add: ws_write_one_def ws_writeLoop_def)
  have e3: "peer_frame app (snd (last (ws_wire ?s2))) = Some (response_bytes ?r)"
    using h1(3) app meth by (simp add: peer_frame_def IsRequest_def)
  let ?h3 = "h1\<lparr>mh_outgoingChan := [], mh_incomingChan := [response_bytes ?r]\<rparr>"
  let ?s3 = "?s2\<lparr>ws_messagesReceived := ws_messagesReceived s + 1, ws_handler := ?h3\<rparr>"
  have "0 < mh_bufferSize (ws_handler s)" using s(1) by (simp add: mh_ready_def)
  then have e4: "ws_read_one (response_bytes ?r) ?s2 = Some ?s3"
    using s k h1(5,6) by (simp add: ws_read_one_def ws_readLoop_def select_send_def chan_send_def)
  obtain h4 h5 where h5: "processIncomingMessages True True ?h3 = Some (h4, True)" "handleResponses oor True h4 = Some (Ok (h5, True))"
    "chan_arrival (mh_chans h5 ! c) = Arrived \<lparr>resp_JSONRPC = ''2.0'', resp_ID = ident_of c, resp_Result = w, resp_Error = err\<rparr>"
    "mh_reachable oor (chan_update c (\<lambda>ch. ch\<lparr>rc_buf := []\<rparr>) h5)" "mh_idle (chan_update c (\<lambda>ch. ch\<lparr>rc_buf := []\<rparr>) h5)"
    "length (mh_chans h5) = length (mh_chans ?h3)" "mh_bufferSize h5 = mh_bufferSize ?h3"
    using handler_answers [OF h1(7) ok] w by (auto simp: answer_to_def)
  let ?s4 = "?s3\<lparr>ws_handler := chan_update c (\<lambda>ch. ch\<lparr>rc_buf := []\<rparr>) h5\<rparr>"
  have "ws_exchange oor app meth params s = Some (?s4, Ok (Arrived
      \<lparr>resp_JSONRPC = ''2.0'', resp_ID = ident_of c, resp_Result = w, resp_Error = err\<rparr>))"
    using e1 e2 e3 e4 h5(1-3) by (simp add: ws_exchange_def)
  moreover have "ws_ready oor app n ?s4"
    using s k h5(4-7) h1(4,6) by (simp add: ws_ready_def mh_ready_def chan_update_def)
  ultimately show ?thesis by fastforce
qed

interpretation websocket: rpc_transport "ws_ops oor app ks" "ws_ready oor app"
  "\<lambda>x meth ps. case app meth ps of (v, err) \<Rightarrow> Some (v, err)"
proof unfold_locales
  fix n t meth params ps v err w
  assume "ws_ready oor app (Suc n) t" "meth \<noteq> []" "wire_view params = Some ps"
    "(case app meth ps of (v, err) \<Rightarrow> Some (v, err)) = Some (v, err)" "wire_view v = Some w"
  then show "\<exists>t' r. tr_SendRequest (ws_ops oor app ks) meth params t = Some (t', Ok (Arrived r)) \<and>
      resp_Result r = w \<and> resp_Error r = err \<and> ws_ready oor app n t' \<and>
      (\<lambda>meth ps. case app meth ps of (v, err) \<Rightarrow> Some (v, err)) = (\<lambda>meth ps. case app meth ps of (v, err) \<Rightarrow> Some (v, err))"
    using ws_exchange_answers [of oor app n t meth params ps v err w] by (auto simp: ws_ops_def split: prod.splits)
qed

section \<open>Properties\<close>


definition ws_new :: ws_state where
  "ws_new = (case NewWebSocketTransport (\<lambda>_. Ok ''ws'') None
      \<lparr>wsc_URL = ''ws://h/'', wsc_RequestTimeout = 0, wsc_MessageBuffer = 0, wsc_ReconnectEnabled = True, wsc_MaxReconnects = 0\<rparr> of
    Ok s \<Rightarrow> s)"

lemma ws_new_reachable: "ws_reachable ws_new"
  by (rule ws_reachable.start [of "\<lambda>_. Ok ''ws''" None
      "\<lparr>wsc_URL = ''ws://h/'', wsc_RequestTimeout = 0, wsc_MessageBuffer = 0, wsc_ReconnectEnabled = True, wsc_MaxReconnects = 0\<rparr>"])
    (simp add: ws_new_def NewWebSocketTransport_def ws_defaults_def NewMessageHandler_def Let_def)

lemma ws_new_fields:
  "ws_conn ws_new = None" "ws_ctx ws_new = None" "ws_redials ws_new = []" "ws_readers ws_new = []" "ws_writers ws_new = []"
  "ws_closedConns ws_new = {}" "ws_dialed ws_new = 0" "ws_connected ws_new = False" "ws_reconnectEnabled ws_new = True"
  "ws_reconnectCount ws_new = 0" "ws_maxReconnects ws_new = 10" "ws_wire ws_new = []" "mh_outgoingChan (ws_handler ws_new) = []"
  by (simp_all add: ws_new_def NewWebSocketTransport_def ws_defaults_def NewMessageHandler_def Let_def)

text \<open>The transport after its first connection, and after that was lost.\<close>

definition ws_up :: ws_state where
  "ws_up = fst (ws_Connect None 7 ws_new)"

lemma ws_up_fields:
  "ws_conn ws_up = Some 0" "ws_ctx ws_up = None" "ws_redials ws_up = []" "ws_readers ws_up = [AtTop]" "ws_writers ws_up = [WantsMessage]"
  "ws_closedConns ws_up = {}" "ws_dialed ws_up = 1" "ws_connected ws_up" "ws_reconnectEnabled ws_up"
  "ws_reconnectCount ws_up = 0" "ws_maxReconnects ws_up = 10" "ws_wire ws_up = []" "mh_outgoingChan (ws_handler ws_up) = []"
  by (simp_all add: ws_up_def ws_Connect_def ws_new_fields)

lemma ws_up_reachable: "ws_reachable ws_up"
  by (rule ws_reachable.step [OF ws_new_reachable ws_step.connect [of None 7 ws_new ws_up None]])
    (simp add: ws_up_def ws_Connect_def ws_new_fields)


text \<open>A lost connection is redialed once: when that one attempt fails, the transport stays without a connection for ever,
  whatever its goroutines do, and refuses every request, although the count of reconnects is below its limit. The
  failure is counted twice.\<close>

theorem ws_redials_once:
  assumes "ws_conn s = None" and "\<not> ws_connected s" and "ws_readers s = []" and "ws_redials s = [Dialing]"
    and "redial (Some e) now 0 s = Some s1" and "ws_work\<^sup>*\<^sup>* s1 s'"
  shows "ws_conn s' = None \<and> ws_redials s' = [] \<and> ws_SendRequest pick meth params s' = Some (s', Err ''not connected'') \<and>
    ws_connectionErrors s1 = ws_connectionErrors s + 2"
proof -
  have "dormant s1" and c: "ws_connectionErrors s1 = ws_connectionErrors s + 2"
    using assms(1-5) by (auto simp: redial_def ws_Connect_def count_ws_error_def dormant_def remove_at_def)
  then have "dormant s'" using dormant_run assms(6) by blast
  then show ?thesis using c by (simp add: dormant_def ws_SendRequest_def)
qed

definition ws_lost :: ws_state where
  "ws_lost = (handleDisconnection (ws_up\<lparr>ws_readers := []\<rparr>))\<lparr>ws_redials := [Dialing]\<rparr>"

lemma ws_up_loses: "ws_work\<^sup>*\<^sup>* ws_up ws_lost"
proof -
  let ?s1 = "ws_up\<lparr>ws_readers := [InRead 0]\<rparr>" and ?s2 = "handleDisconnection (ws_up\<lparr>ws_readers := []\<rparr>)"
  have 1: "ws_work ws_up ?s1"
    by (rule ws_work.reading [of True "ReadFailed True" 0]) (simp add: ws_readLoop_def ws_up_fields)
  have 2: "ws_work ?s1 ?s2"
    by (rule ws_work.reading [of True "ReadFailed False" 0]) (simp add: ws_readLoop_def reader_returns_def remove_at_def)
  have "ws_redials ?s2 = [Sleeping]" "ws_ctx ?s2 = None" by (simp_all add: handleDisconnection_def ws_up_fields Let_def)
  then have 3: "ws_work ?s2 ws_lost"
    by (intro ws_work.redialing [of None 0 0]) (simp add: redial_def ws_lost_def)
  show ?thesis using 1 2 3 by (meson rtranclp.rtrancl_into_rtrancl rtranclp.rtrancl_refl)
qed

lemma ws_lost_fields:
  "ws_conn ws_lost = None" "\<not> ws_connected ws_lost" "ws_readers ws_lost = []" "ws_redials ws_lost = [Dialing]"
  "ws_writers ws_lost = [WantsMessage]" "ws_ctx ws_lost = None" "ws_reconnectCount ws_lost = 1" "ws_maxReconnects ws_lost = 10"
  by (simp_all add: ws_lost_def handleDisconnection_def ws_up_fields Let_def)

theorem ws_redials_once_witness:
  "\<exists>s'. ws_work\<^sup>*\<^sup>* ws_up s' \<and> ws_reconnectCount s' < ws_maxReconnects s' \<and>
     ws_SendRequest True ''ping'' GNil s' = Some (s', Err ''not connected'')"
proof -
  obtain s1 where s1: "redial (Some ''refused'') 9 0 ws_lost = Some s1" "ws_reconnectCount s1 = 1" "ws_maxReconnects s1 = 10"
    using ws_lost_fields by (force simp: redial_def ws_Connect_def count_ws_error_def)
  have "ws_work ws_lost s1" by (rule ws_work.redialing [OF s1(1)])
  then have "ws_work\<^sup>*\<^sup>* ws_up s1" using ws_up_loses by simp
  then show ?thesis
    using ws_redials_once [OF ws_lost_fields(1-4) s1(1) rtranclp.rtrancl_refl, of True "''ping''" GNil] s1(2,3) by auto
qed

text \<open>C31: After a reconnection two writers are at work: the writer of the lost connection still waits for messages, and with
  two messages queued the goroutines reach a state in which both write to the new connection at the same time, which
  the WebSocket package does not allow.\<close>

theorem ws_concurrent_writers:
  assumes "ws_conn s = Some k" and "ws_ctx s = None" and "ws_readers s = [AtTop]" and "ws_writers s = [WantsMessage]"
    and "ws_redials s = []" and "ws_reconnectEnabled s" and "ws_reconnectCount s < ws_maxReconnects s"
    and "mh_outgoingChan (ws_handler s) = m1 # m2 # rest"
  shows "\<exists>s' k'. ws_work\<^sup>*\<^sup>* s s' \<and> ws_writers s' = [InWrite k' m1, InWrite k' m2] \<and> ws_conn s' = Some k' \<and>
    k' = ws_dialed s \<and> ws_connected s'"
proof -
  let ?s1 = "s\<lparr>ws_readers := [InRead k]\<rparr>" and ?s2 = "handleDisconnection (s\<lparr>ws_readers := []\<rparr>)"
  let ?s3 = "?s2\<lparr>ws_redials := [Dialing]\<rparr>"
  have 1: "ws_work s ?s1"
    by (rule ws_work.reading [of True "ReadFailed True" 0]) (use assms in \<open>simp add: ws_readLoop_def\<close>)
  have 2: "ws_work ?s1 ?s2"
    by (rule ws_work.reading [of True "ReadFailed False" 0]) (use assms in \<open>simp add: ws_readLoop_def reader_returns_def remove_at_def\<close>)
  have f: "ws_redials ?s2 = [Sleeping]" "ws_ctx ?s2 = None" "ws_conn ?s2 = None" "ws_writers ?s2 = [WantsMessage]"
    "ws_dialed ?s2 = ws_dialed s" "ws_handler ?s2 = ws_handler s"
    using assms by (simp_all add: handleDisconnection_def Let_def)
  then have 3: "ws_work ?s2 ?s3" by (intro ws_work.redialing [of None 0 0]) (simp add: redial_def)
  have "\<exists>s4. redial None 0 0 ?s3 = Some s4 \<and> ws_writers s4 = [WantsMessage, WantsMessage] \<and> ws_conn s4 = Some (ws_dialed s) \<and>
      ws_ctx s4 = None \<and> ws_connected s4 \<and> mh_outgoingChan (ws_handler s4) = m1 # m2 # rest"
    using f assms(8) by (simp add: redial_def ws_Connect_def remove_at_def)
  then obtain s4 where s4: "redial None 0 0 ?s3 = Some s4" "ws_writers s4 = [WantsMessage, WantsMessage]"
    "ws_conn s4 = Some (ws_dialed s)" "ws_ctx s4 = None" "ws_connected s4" "mh_outgoingChan (ws_handler s4) = m1 # m2 # rest"
    by blast
  let ?s5 = "s4\<lparr>ws_handler := (ws_handler s4)\<lparr>mh_outgoingChan := m2 # rest\<rparr>, ws_writers := [WantsConn m1, WantsMessage]\<rparr>"
  let ?s6 = "s4\<lparr>ws_handler := (ws_handler s4)\<lparr>mh_outgoingChan := rest\<rparr>, ws_writers := [WantsConn m1, WantsConn m2]\<rparr>"
  let ?s7 = "?s6\<lparr>ws_writers := [InWrite (ws_dialed s) m1, WantsConn m2]\<rparr>"
  let ?s8 = "?s6\<lparr>ws_writers := [InWrite (ws_dialed s) m1, InWrite (ws_dialed s) m2]\<rparr>"
  have 4: "ws_work ?s3 s4" by (rule ws_work.redialing [OF s4(1)])
  have 5: "ws_work s4 ?s5" by (rule ws_work.writing [of True False 0]) (use s4 in \<open>simp add: ws_writeLoop_def\<close>)
  have 6: "ws_work ?s5 ?s6" by (rule ws_work.writing [of True False 1]) (use s4 in \<open>simp add: ws_writeLoop_def\<close>)
  have 7: "ws_work ?s6 ?s7" by (rule ws_work.writing [of True False 0]) (use s4 in \<open>simp add: ws_writeLoop_def\<close>)
  have 8: "ws_work ?s7 ?s8" by (rule ws_work.writing [of True False 1]) (use s4 in \<open>simp add: ws_writeLoop_def\<close>)
  have "ws_work\<^sup>*\<^sup>* s ?s8" using 1 2 3 4 5 6 7 8 by (meson rtranclp.rtrancl_into_rtrancl rtranclp.rtrancl_refl)
  then show ?thesis using s4 by (intro exI [of _ ?s8]) simp
qed

definition ws_busy :: ws_state where
  "ws_busy = ws_up\<lparr>ws_handler := (ws_handler ws_up)\<lparr>mh_outgoingChan := [Text JNull, Text (JArr [])]\<rparr>\<rparr>"

theorem ws_concurrent_writers_witness:
  "\<exists>s'. ws_work\<^sup>*\<^sup>* ws_busy s' \<and> ws_writers s' = [InWrite 1 (Text JNull), InWrite 1 (Text (JArr []))] \<and> ws_conn s' = Some 1"
  using ws_concurrent_writers [of ws_busy 0 "Text JNull" "Text (JArr [])" "[]"] by (auto simp: ws_busy_def ws_up_fields)

text \<open>C32: No message is written twice: over any run of the goroutines, with any connections lost and made again, what was
  written to the connections together with what is still queued is part of what was written, in the hands of a
  writer or queued before.\<close>

theorem ws_written_once:
  assumes "ws_work\<^sup>*\<^sup>* s s'"
  shows "mset (map snd (ws_wire s')) + mset (mh_outgoingChan (ws_handler s')) \<subseteq>#
    mset (map snd (ws_wire s)) + mset (concat (map in_hand (ws_writers s))) + mset (mh_outgoingChan (ws_handler s))"
proof -
  have "mset (map snd (ws_wire s')) + mset (mh_outgoingChan (ws_handler s')) \<subseteq># outgoing_pool s'"
    by (simp add: outgoing_pool_def)
  then show ?thesis using ws_run_pool [OF assms] by (simp add: outgoing_pool_def [of s])
qed

theorem ws_written_once_witness:
  "\<exists>s'. ws_work\<^sup>*\<^sup>* ws_busy s' \<and> ws_wire s' = [(0, Text JNull)] \<and>
     {#Text JNull#} + mset (mh_outgoingChan (ws_handler s')) \<subseteq># {#Text JNull, Text (JArr [])#}"
proof -
  let ?s1 = "ws_busy\<lparr>ws_handler := (ws_handler ws_busy)\<lparr>mh_outgoingChan := [Text (JArr [])]\<rparr>, ws_writers := [WantsConn (Text JNull)]\<rparr>"
  let ?s2 = "?s1\<lparr>ws_writers := [InWrite 0 (Text JNull)]\<rparr>"
  let ?s3 = "?s2\<lparr>ws_wire := [(0, Text JNull)], ws_messagesSent := ws_messagesSent ws_busy + 1, ws_writers := [WantsMessage]\<rparr>"
  have b: "ws_writers ws_busy = [WantsMessage]" "mh_outgoingChan (ws_handler ws_busy) = [Text JNull, Text (JArr [])]"
    "ws_conn ws_busy = Some 0" "ws_ctx ws_busy = None" "ws_closedConns ws_busy = {}" "ws_wire ws_busy = []"
    by (simp_all add: ws_busy_def ws_up_fields)
  have "ws_work ws_busy ?s1" "ws_work ?s1 ?s2" "ws_work ?s2 ?s3"
    by (rule ws_work.writing [of True False 0], use b in \<open>simp add: ws_writeLoop_def\<close>)+
  then have run: "ws_work\<^sup>*\<^sup>* ws_busy ?s3" by (meson rtranclp.rtrancl_into_rtrancl rtranclp.rtrancl_refl)
  show ?thesis using ws_written_once [OF run] run b by (intro exI [of _ ?s3]) simp
qed

end
