(* ===== verification/Compat.thy ===== *)
theory Compat
  imports Websocket
begin

text \<open>
  \<open>compat/\<close>: the interface of another SDK on top of the server. Builders with options describe resources, tools and
  prompts (\<open>builders.go\<close>); \<open>MCPServer\<close> makes the underlying server when it gets a transport, and wraps the handlers
  of the application (\<open>server.go\<close>); \<open>types.go\<close> has the contents. An option is a function, as in the code; one that
  can panic has a result. The handlers of the application are arguments.
\<close>

section \<open>Contents\<close>

record cresource =
  cr_uri :: string
  cr_name :: string
  cr_description :: string
  cr_mimeType :: string
  cr_annotations :: "(string \<times> gval) list"

text \<open>
  The three structs that implement \<open>Content\<close>; any other value of the interface, a pointer to one of them or nil, is
  given by what \<open>fmt.Sprintf\<close> prints for it.
\<close>

datatype ccontent =
    CText (cct_type: string) (cct_text: string)
  | CImage (cci_type: string) (cci_data: string) (cci_mime: string)
  | CResource (ccr_type: string) (ccr_resource: cresource)
  | COther (cco_printed: string)

record cprompt_message =
  cpm_Role :: string
  cpm_Content :: "ccontent list option"

record cprogress_params =
  cpp_ProgressToken :: gval
  cpp_Progress :: int64
  cpp_Total :: "int64 option"
  cpp_Message :: string

definition cprogress_gval :: "cprogress_params \<Rightarrow> gval" where
  "cprogress_gval p = GStruct
     ([(''progressToken'', cpp_ProgressToken p), (''progress'', GInt (cpp_Progress p))] @
      (case cpp_Total p of None \<Rightarrow> [] | Some n \<Rightarrow> [(''total'', GInt n)]) @
      (if cpp_Message p = [] then [] else [(''message'', GString (cpp_Message p))]))"

fun convert_content :: "ccontent \<Rightarrow> content" where
  "convert_content (CText t text) = TextContent t text []"
| "convert_content (CImage t data mime) = ImageContent t data mime"
| "convert_content (CResource t r) = TextContent (content_type_string ContentTypeText) (''Resource: '' @ cr_uri r) []"
| "convert_content (COther printed) = TextContent (content_type_string ContentTypeText) printed []"

definition convertToSharedContent :: "ccontent list option \<Rightarrow> contents" where
  "convertToSharedContent compatContent = map_option (map convert_content) compatContent"

section \<open>Builders\<close>

definition NewResource :: "string \<Rightarrow> string \<Rightarrow> (cresource \<Rightarrow> cresource) list \<Rightarrow> cresource" where
  "NewResource uri name options = fold (\<lambda>opt r. opt r) options
     \<lparr>cr_uri = uri, cr_name = name, cr_description = [], cr_mimeType = [], cr_annotations = []\<rparr>"

definition WithResourceDescription :: "string \<Rightarrow> cresource \<Rightarrow> cresource" where
  "WithResourceDescription description r = r\<lparr>cr_description := description\<rparr>"

definition WithMIMEType :: "string \<Rightarrow> cresource \<Rightarrow> cresource" where
  "WithMIMEType mimeType r = r\<lparr>cr_mimeType := mimeType\<rparr>"

definition WithResourceAnnotation :: "string \<Rightarrow> gval \<Rightarrow> cresource \<Rightarrow> cresource" where
  "WithResourceAnnotation key val r = r\<lparr>cr_annotations := map_put key val (cr_annotations r)\<rparr>"

record ctool =
  ct_name :: string
  ct_description :: string
  ct_inputSchema :: "(string \<times> gval) list"

record cargument =
  ca_name :: string
  ca_description :: string
  ca_argType :: string
  ca_required :: bool
  ca_enum :: "string list"

definition Required :: "cargument \<Rightarrow> cargument" where
  "Required a = a\<lparr>ca_required := True\<rparr>"

definition Description :: "string \<Rightarrow> cargument \<Rightarrow> cargument" where
  "Description description a = a\<lparr>ca_description := description\<rparr>"

definition Enum :: "string list \<Rightarrow> cargument \<Rightarrow> cargument" where
  "Enum values a = a\<lparr>ca_enum := values\<rparr>"

definition argument_schema :: "cargument \<Rightarrow> (string \<times> gval) list" where
  "argument_schema arg =
     (let p0 = map_put ''type'' (GString (ca_argType arg)) [];
          p1 = (if ca_description arg \<noteq> [] then map_put ''description'' (GString (ca_description arg)) p0 else p0)
      in if ca_enum arg \<noteq> [] then map_put ''enum'' (GStrs (ca_enum arg)) p1 else p1)"

text \<open>The two type assertions panic on another schema.\<close>

definition addArgumentToSchema :: "(string \<times> gval) list \<Rightarrow> cargument \<Rightarrow> (string \<times> gval) list outcome" where
  "addArgumentToSchema schema arg =
     (case (map_of schema ''properties'', map_of schema ''required'') of
        (Some (GMap properties), Some (GStrs required)) \<Rightarrow>
          (let schema1 = map_put ''properties'' (GMap (map_put (ca_name arg) (GMap (argument_schema arg)) properties)) schema
           in Ok (if ca_required arg then map_put ''required'' (GStrs (required @ [ca_name arg])) schema1 else schema1))
      | _ \<Rightarrow> Panic ''interface conversion'')"

definition make_argument :: "string \<Rightarrow> string \<Rightarrow> (cargument \<Rightarrow> cargument) list \<Rightarrow> cargument" where
  "make_argument argType name options = fold (\<lambda>opt a. opt a) options
     \<lparr>ca_name = name, ca_description = [], ca_argType = argType, ca_required = False, ca_enum = []\<rparr>"

definition add_argument :: "cargument \<Rightarrow> ctool \<Rightarrow> ctool outcome" where
  "add_argument arg t =
     (case addArgumentToSchema (ct_inputSchema t) arg of
        Ok schema \<Rightarrow> Ok (t\<lparr>ct_inputSchema := schema\<rparr>) | Err e \<Rightarrow> Err e | Panic p \<Rightarrow> Panic p)"

definition WithString :: "string \<Rightarrow> (cargument \<Rightarrow> cargument) list \<Rightarrow> ctool \<Rightarrow> ctool outcome" where
  "WithString name options t = add_argument (make_argument ''string'' name options) t"

definition WithNumber :: "string \<Rightarrow> (cargument \<Rightarrow> cargument) list \<Rightarrow> ctool \<Rightarrow> ctool outcome" where
  "WithNumber name options t = add_argument (make_argument ''number'' name options) t"

definition WithBoolean :: "string \<Rightarrow> (cargument \<Rightarrow> cargument) list \<Rightarrow> ctool \<Rightarrow> ctool outcome" where
  "WithBoolean name options t = add_argument (make_argument ''boolean'' name options) t"

definition WithDescription :: "string \<Rightarrow> ctool \<Rightarrow> ctool outcome" where
  "WithDescription description t = Ok (t\<lparr>ct_description := description\<rparr>)"

fun run_options :: "('a \<Rightarrow> 'a outcome) list \<Rightarrow> 'a \<Rightarrow> 'a outcome" where
  "run_options [] x = Ok x"
| "run_options (opt # opts) x = (case opt x of Ok y \<Rightarrow> run_options opts y | Err e \<Rightarrow> Err e | Panic p \<Rightarrow> Panic p)"

definition empty_schema :: "(string \<times> gval) list" where
  "empty_schema = [(''properties'', GMap []), (''required'', GStrs []), (''type'', GString ''object'')]"

definition NewTool :: "string \<Rightarrow> (ctool \<Rightarrow> ctool outcome) list \<Rightarrow> ctool outcome" where
  "NewTool name options = run_options options \<lparr>ct_name = name, ct_description = [], ct_inputSchema = empty_schema\<rparr>"

record cprompt =
  cpr_name :: string
  cpr_description :: string
  cpr_arguments :: "prompt_argument list"

definition NewPrompt :: "string \<Rightarrow> (cprompt \<Rightarrow> cprompt) list \<Rightarrow> cprompt" where
  "NewPrompt name options = fold (\<lambda>opt p. opt p) options \<lparr>cpr_name = name, cpr_description = [], cpr_arguments = []\<rparr>"

definition WithPromptDescription :: "string \<Rightarrow> cprompt \<Rightarrow> cprompt" where
  "WithPromptDescription description p = p\<lparr>cpr_description := description\<rparr>"

definition WithArgument :: "string \<Rightarrow> (prompt_argument \<Rightarrow> prompt_argument) list \<Rightarrow> cprompt \<Rightarrow> cprompt" where
  "WithArgument name options p = p\<lparr>cpr_arguments := cpr_arguments p @
     [fold (\<lambda>opt a. opt a) options \<lparr>parg_Name = name, parg_Description = [], parg_Required = False\<rparr>]\<rparr>"

definition ArgumentDescription :: "string \<Rightarrow> prompt_argument \<Rightarrow> prompt_argument" where
  "ArgumentDescription description a = a\<lparr>parg_Description := description\<rparr>"

definition RequiredArgument :: "prompt_argument \<Rightarrow> prompt_argument" where
  "RequiredArgument a = a\<lparr>parg_Required := True\<rparr>"

definition resource_toShared :: "cresource \<Rightarrow> resource" where
  "resource_toShared r = \<lparr>res_URI = cr_uri r, res_Name = cr_name r, res_Description = cr_description r,
     res_MimeType = cr_mimeType r, res_Annotations = GMap (cr_annotations r)\<rparr>"

definition tool_toShared :: "ctool \<Rightarrow> tool" where
  "tool_toShared t = \<lparr>tool_Name = ct_name t, tool_Description = ct_description t, tool_InputSchema = Some (ct_inputSchema t)\<rparr>"

definition prompt_toShared :: "cprompt \<Rightarrow> prompt" where
  "prompt_toShared p = \<lparr>prompt_Name = cpr_name p, prompt_Description = cpr_description p, prompt_Arguments = cpr_arguments p\<rparr>"

section \<open>The server\<close>

record cserver_config =
  csc_name :: string
  csc_version :: string
  csc_capabilities :: server_capabilities
  csc_maxConcurrentRequests :: int
  csc_requestTimeout :: int
  csc_withLogging :: bool
  csc_hooks :: bool

definition WithResourceCapabilities :: "bool \<Rightarrow> bool \<Rightarrow> cserver_config \<Rightarrow> cserver_config" where
  "WithResourceCapabilities subscribe listChanged c = c\<lparr>csc_capabilities := (csc_capabilities c)
     \<lparr>scap_Resources := Some \<lparr>rescap_Subscribe = subscribe, rescap_ListChanged = listChanged\<rparr>\<rparr>\<rparr>"

definition WithToolCapabilities :: "bool \<Rightarrow> cserver_config \<Rightarrow> cserver_config" where
  "WithToolCapabilities listChanged c = c\<lparr>csc_capabilities := (csc_capabilities c)\<lparr>scap_Tools := Some listChanged\<rparr>\<rparr>"

definition WithPromptCapabilities :: "bool \<Rightarrow> cserver_config \<Rightarrow> cserver_config" where
  "WithPromptCapabilities listChanged c = c\<lparr>csc_capabilities := (csc_capabilities c)\<lparr>scap_Prompts := Some listChanged\<rparr>\<rparr>"

definition WithLogging :: "cserver_config \<Rightarrow> cserver_config" where
  "WithLogging c = c\<lparr>csc_withLogging := True\<rparr>"

definition WithHooks :: "bool \<Rightarrow> cserver_config \<Rightarrow> cserver_config" where
  "WithHooks hooks c = c\<lparr>csc_hooks := hooks\<rparr>"

definition WithConcurrency :: "int \<Rightarrow> int \<Rightarrow> cserver_config \<Rightarrow> cserver_config" where
  "WithConcurrency maxRequests timeout c = c\<lparr>csc_maxConcurrentRequests := maxRequests, csc_requestTimeout := timeout\<rparr>"

text \<open>The transports that the server can make itself, or any other.\<close>

datatype 's ctransport = StdioTransport st_state | SSETransport "'s ss_state" | HTTPTransport "'s sht_state" | OtherTransport

record 's mcp_server =
  cs_underlying :: "server_state option"
  cs_config :: cserver_config
  cs_transport :: "'s ctransport option"
  cs_ctx :: "string option"

definition NewMCPServer :: "string \<Rightarrow> string \<Rightarrow> (cserver_config \<Rightarrow> cserver_config) list \<Rightarrow> 's mcp_server" where
  "NewMCPServer name version options =
     \<lparr>cs_underlying = None,
      cs_config = fold (\<lambda>opt c. opt c) options
        \<lparr>csc_name = name, csc_version = version,
         csc_capabilities = \<lparr>scap_Experimental = None, scap_Logging = None, scap_Prompts = None, scap_Resources = None,
           scap_Tools = None, scap_Completions = None\<rparr>,
         csc_maxConcurrentRequests = 100, csc_requestTimeout = 30 * 1000000000, csc_withLogging = False, csc_hooks = False\<rparr>,
      cs_transport = None, cs_ctx = None\<rparr>"


definition SetTransport :: "string option \<Rightarrow> 's ctransport \<Rightarrow> 's mcp_server \<Rightarrow> 's mcp_server outcome" where
  "SetTransport ctx transport s =
     (case NewServer (ctx \<noteq> None) \<lparr>sc_Name = csc_name (cs_config s), sc_Version = csc_version (cs_config s),
             sc_MaxConcurrentRequests = csc_maxConcurrentRequests (cs_config s),
             sc_RequestTimeout = csc_requestTimeout (cs_config s), sc_Capabilities = csc_capabilities (cs_config s)\<rparr> of
        Ok srv \<Rightarrow> Ok (s\<lparr>cs_ctx := ctx, cs_transport := Some transport, cs_underlying := Some srv\<rparr>)
      | Err e \<Rightarrow> Err e
      | Panic p \<Rightarrow> Panic p)"

text \<open>The second component of a result is the error.\<close>

definition create_with ::
  "string \<Rightarrow> ('a \<Rightarrow> 's ctransport) \<Rightarrow> string option \<Rightarrow> 'a outcome \<Rightarrow> 's mcp_server \<Rightarrow> ('s mcp_server \<times> string option) outcome" where
  "create_with what wrap ctx made s =
     (case made of
        Panic p \<Rightarrow> Panic p
      | Err e \<Rightarrow> Ok (s, Some (''failed to create '' @ what @ '' transport: '' @ e))
      | Ok t \<Rightarrow> (case SetTransport ctx (wrap t) s of Ok s1 \<Rightarrow> Ok (s1, None) | Err e \<Rightarrow> Err e | Panic p \<Rightarrow> Panic p))"

definition CreateWithStdio :: "string option \<Rightarrow> 's mcp_server \<Rightarrow> ('s mcp_server \<times> string option) outcome" where
  "CreateWithStdio ctx s = create_with ''stdio'' StdioTransport ctx
     (NewStdioTransport ctx \<lparr>stc_ReadBufferSize = 0, stc_WriteBufferSize = 0, stc_RequestTimeout = csc_requestTimeout (cs_config s),
        stc_MessageBuffer = 100\<rparr>) s"

definition CreateWithSSE :: "string option \<Rightarrow> string \<Rightarrow> string \<Rightarrow> 's mcp_server \<Rightarrow> ('s mcp_server \<times> string option) outcome" where
  "CreateWithSSE ctx sseEndpoint httpEndpoint s = create_with ''SSE'' SSETransport ctx
     (NewSSETransport ctx \<lparr>ssc_SSEEndpoint = sseEndpoint, ssc_HTTPEndpoint = httpEndpoint, ssc_Headers = [], ssc_MaxReconnects = 10,
        ssc_RequestTimeout = csc_requestTimeout (cs_config s), ssc_MessageBuffer = 100\<rparr>) s"

definition CreateWithStreamableHTTP :: "string option \<Rightarrow> string \<Rightarrow> 's mcp_server \<Rightarrow> ('s mcp_server \<times> string option) outcome" where
  "CreateWithStreamableHTTP ctx endpoint s = create_with ''streamable HTTP'' HTTPTransport ctx
     (NewStreamableHTTPTransportWithConfig ctx ((url_config endpoint)
        \<lparr>shc_RequestTimeout := csc_requestTimeout (cs_config s), shc_MaxConcurrentRequests := csc_maxConcurrentRequests (cs_config s),
         shc_MessageBuffer := 100\<rparr>)) s"

section \<open>Handlers\<close>

record ctool_params =
  ctp_Name :: string
  ctp_Arguments :: arguments
  ctp_Meta :: "gval option"

record ctool_request =
  ctq_Name :: string
  ctq_Arguments :: arguments
  ctq_Params :: ctool_params

type_synonym cresource_handler = "string \<Rightarrow> ccontent list option outcome"
type_synonym ctool_handler = "ctool_request \<Rightarrow> ccontent list option outcome"
type_synonym cprompt_handler = "string \<Rightarrow> arguments \<Rightarrow> cprompt_message list outcome"

definition native_resource :: "cresource_handler \<Rightarrow> resource_handler" where
  "native_resource handler uri =
     (case handler uri of Ok cs \<Rightarrow> Ok (convertToSharedContent cs) | Err e \<Rightarrow> Err e | Panic p \<Rightarrow> Panic p)"

definition tool_request :: "gval \<Rightarrow> string \<Rightarrow> arguments \<Rightarrow> ctool_request" where
  "tool_request token name args =
     \<lparr>ctq_Name = name, ctq_Arguments = args,
      ctq_Params = \<lparr>ctp_Name = name, ctp_Arguments = args, ctp_Meta = (if token = GNil then None else Some token)\<rparr>\<rparr>"

definition native_tool :: "ctool_handler \<Rightarrow> tool_handler" where
  "native_tool handler token name args =
     (case handler (tool_request token name args) of
        Ok cs \<Rightarrow> Ok (convertToSharedContent cs) | Err e \<Rightarrow> Err e | Panic p \<Rightarrow> Panic p)"

text \<open>Only the first message of a prompt is used.\<close>

definition native_prompt :: "cprompt_handler \<Rightarrow> prompt_handler" where
  "native_prompt handler name args =
     (case handler name args of
        Panic p \<Rightarrow> Panic p
      | Err e \<Rightarrow> Err e
      | Ok [] \<Rightarrow> Err ''no messages in prompt response''
      | Ok (m # _) \<Rightarrow> Ok \<lparr>pm_Role = cpm_Role m, pm_Content = convertToSharedContent (cpm_Content m)\<rparr>)"

definition with_underlying :: "(server_state \<Rightarrow> server_state) \<Rightarrow> 's mcp_server \<Rightarrow> 's mcp_server outcome" where
  "with_underlying f s =
     (case cs_underlying s of
        None \<Rightarrow> Panic ''Server not initialized. Call SetTransport or CreateWithStdio first.''
      | Some srv \<Rightarrow> Ok (s\<lparr>cs_underlying := Some (f srv)\<rparr>))"

definition compat_AddResource :: "cresource \<Rightarrow> cresource_handler \<Rightarrow> 's mcp_server \<Rightarrow> 's mcp_server outcome" where
  "compat_AddResource resource handler =
     with_underlying (RegisterResource (cr_uri resource) (cr_name resource) (cr_description resource) (native_resource handler))"

definition compat_AddTool :: "ctool \<Rightarrow> ctool_handler \<Rightarrow> 's mcp_server \<Rightarrow> 's mcp_server outcome" where
  "compat_AddTool tool handler =
     with_underlying (RegisterTool (ct_name tool) (ct_description tool) (Some (ct_inputSchema tool)) (native_tool handler))"

definition compat_AddPrompt :: "cprompt \<Rightarrow> cprompt_handler \<Rightarrow> 's mcp_server \<Rightarrow> 's mcp_server outcome" where
  "compat_AddPrompt prompt handler =
     with_underlying (RegisterPrompt (cpr_name prompt) (cpr_description prompt) (cpr_arguments prompt) (native_prompt handler))"

definition compat_Start :: "'s mcp_server \<Rightarrow> string option" where
  "compat_Start s =
     (if cs_underlying s = None then Some ''server not initialized. Call SetTransport or CreateWithStdio first'' else None)"

definition compat_Close :: "string option \<Rightarrow> 's mcp_server \<Rightarrow> 's mcp_server \<times> string option" where
  "compat_Close terr s =
     (case cs_underlying s of
        None \<Rightarrow> (s, None)
      | Some srv \<Rightarrow> (case Server_Close terr srv of (srv1, e) \<Rightarrow> (s\<lparr>cs_underlying := Some srv1\<rparr>, e)))"

definition SendProgressNotification :: "string \<Rightarrow> cprogress_params \<Rightarrow> 's mcp_server \<Rightarrow> 's mcp_server \<times> string option" where
  "SendProgressNotification meth params s =
     (case cs_underlying s of
        None \<Rightarrow> (s, Some ''server not initialized'')
      | Some srv \<Rightarrow> (s\<lparr>cs_underlying := Some (Server_SendNotification meth (cprogress_gval params) srv)\<rparr>, None))"

section \<open>Schemas\<close>

text \<open>A tool is described by descriptions and parameters; the options that say so, and the schema they should give.\<close>

datatype tool_part = Says string | Takes string string "(cargument \<Rightarrow> cargument) list"

fun part_option :: "tool_part \<Rightarrow> ctool \<Rightarrow> ctool outcome" where
  "part_option (Says d) = WithDescription d"
| "part_option (Takes ty name opts) =
     (if ty = ''string'' then WithString name opts else if ty = ''number'' then WithNumber name opts else WithBoolean name opts)"

fun part_args :: "tool_part \<Rightarrow> cargument list" where
  "part_args (Says d) = []"
| "part_args (Takes ty name opts) =
     [make_argument (if ty = ''string'' \<or> ty = ''number'' then ty else ''boolean'') name opts]"

definition schema_of :: "cargument list \<Rightarrow> (string \<times> gval) list" where
  "schema_of args =
     [(''properties'', GMap (fold (\<lambda>a. map_put (ca_name a) (GMap (argument_schema a))) args [])),
      (''required'', GStrs (map ca_name (filter ca_required args))), (''type'', GString ''object'')]"

fun description_of :: "tool_part list \<Rightarrow> string \<Rightarrow> string" where
  "description_of [] d = d"
| "description_of (Says d' # ps) d = description_of ps d'"
| "description_of (Takes _ _ _ # ps) d = description_of ps d"

lemma add_to_schema: "addArgumentToSchema (schema_of args) a = Ok (schema_of (args @ [a]))"
  by (simp add: addArgumentToSchema_def schema_of_def Let_def)

lemma part_step:
  "part_option p \<lparr>ct_name = name, ct_description = d, ct_inputSchema = schema_of args\<rparr> =
     Ok \<lparr>ct_name = name, ct_description = description_of [p] d, ct_inputSchema = schema_of (args @ part_args p)\<rparr>"
  by (cases p) (simp_all add: WithDescription_def WithString_def WithNumber_def WithBoolean_def add_argument_def add_to_schema)

lemma parts_run:
  "run_options (map part_option ps) \<lparr>ct_name = name, ct_description = d, ct_inputSchema = schema_of args\<rparr> =
     Ok \<lparr>ct_name = name, ct_description = description_of ps d, ct_inputSchema = schema_of (args @ concat (map part_args ps))\<rparr>"
proof (induction ps arbitrary: d args)
  case (Cons p ps)
  have "description_of (p # ps) d = description_of ps (description_of [p] d)" by (cases p) simp_all
  then show ?case using Cons by (simp add: part_step del: part_option.simps part_args.simps description_of.simps)
qed simp

lemma map_of_properties:
  "map_of (fold (\<lambda>a. map_put (ca_name a) (GMap (argument_schema a))) args m) n =
     (case rev (filter (\<lambda>a. ca_name a = n) args) of [] \<Rightarrow> map_of m n | a # _ \<Rightarrow> Some (GMap (argument_schema a)))"
  by (induction args arbitrary: m) (auto split: list.splits)


section \<open>A client and a server of this interface\<close>

text \<open>What a server makes of a request, as a function of method and parameters.\<close>

definition server_app :: "string list \<Rightarrow> server_state \<Rightarrow> string \<Rightarrow> gval \<Rightarrow> gval \<times> rpc_error option" where
  "server_app ks srv meth params =
     (case route ks srv \<lparr>req_JSONRPC = ''2.0'', req_ID = GNil, req_Method = meth, req_Params = params\<rparr> of
        Ok r \<Rightarrow> r | Err e \<Rightarrow> (GNil, Some (rpc_err (- 32603) e)) | Panic p \<Rightarrow> (GNil, Some (rpc_err (- 32603) p)))"

lemma server_app_answers:
  assumes "srv_requestHandlers srv = Map.empty"
  shows "app_answers (server_app ks srv)"
proof -
  have "answer_ok ident (answer_to ident v err)" if "route ks srv r = Ok (v, err)" for ident v err r
    using that assms
    by (auto simp: route_def handleInitialize_def handleResourcesList_def handleToolsList_def handlePromptsList_def
        handleResourcesRead_def handleToolsCall_def handlePromptsGet_def handleCustom_def fail_with_def rpc_err_def
        answer_ok_def answer_to_def error_in_range_def initialize_response_gval_def Let_def
        split: if_splits option.splits outcome.splits gval.splits)
  then show ?thesis
    by (auto simp: app_answers_def server_app_def answer_ok_def answer_to_def rpc_err_def error_in_range_def split: outcome.split)
qed

lemma call_params_read:
  assumes "generic (opt_map_gval args)"
  shows "unmarshalParams call_fields zero_call (call_params_gval name args) =
    Some \<lparr>cp_Name = name, cp_Arguments = args, cp_Meta = None\<rparr>"
proof -
  have f: "find_field call_fields ''arguments'' = Some (dec_map cp_Arguments (\<lambda>m c. c\<lparr>cp_Arguments := m\<rparr>))"
    "find_field call_fields ''name'' = Some (dec_string (\<lambda>s c. c\<lparr>cp_Name := s\<rparr>))"
    by (simp_all add: find_field_def call_fields_def)
  show ?thesis
  proof (cases args)
    case None
    then show ?thesis
      by (simp add: unmarshalParams_def call_params_gval_def opt_map_gval_def decode_struct_def f dec_map_def dec_string_def zero_call_def)
  next
    case (Some m)
    then have "wire_view (GMap m) = Some (GMap m)" using assms by (simp add: opt_map_gval_def del: generic.simps)
    then obtain j where j: "marshal (GMap m) = Some j" "to_iface j = Some (GMap m)" by (rule wire_viewE)
    then obtain kvs where kvs: "j = JObj kvs" by auto
    then have "to_iface_members kvs [] = Some m" using j(2) by auto
    then show ?thesis
      using j(1) kvs Some
      by (simp add: unmarshalParams_def call_params_gval_def opt_map_gval_def decode_struct_def f dec_map_def dec_string_def zero_call_def)
  qed
qed

lemma server_app_tool:
  assumes "srv_toolHandlers srv name = Some handler" and "generic (opt_map_gval args)" and "handler GNil name args = Ok cs"
  shows "server_app ks srv ''tools/call'' (call_params_gval name args) = (GMap [(''content'', contents_gval cs)], None)"
  using assms by (simp add: server_app_def route_def handleToolsCall_def call_params_read progress_token_def Let_def)

lemma tool_contents_wire:
  "\<exists>w. wire_view (GMap [(''content'', contents_gval cs)]) = Some w \<and>
     read_call_result w = \<lparr>ctr_Content = map as_text (case cs of None \<Rightarrow> [] | Some xs \<Rightarrow> xs), ctr_IsError = False\<rparr>"
proof -
  let ?xs = "case cs of None \<Rightarrow> [] | Some xs \<Rightarrow> xs"
  obtain ms where ms: "wire_view (GSlice (map content_gval ?xs)) = Some (GList (map GMap ms))"
    "map read_text ms = map as_text ?xs"
    by (rule wire_maps [of ?xs content_gval read_text as_text, OF content_wire])
  then have v: "wire_view (contents_gval cs) = Some (case cs of None \<Rightarrow> GNil | Some xs \<Rightarrow> GList (map GMap ms))"
    by (auto simp: contents_gval_def split: option.splits)
  then obtain j where "marshal (contents_gval cs) = Some j" "to_iface j = Some (case cs of None \<Rightarrow> GNil | Some xs \<Rightarrow> GList (map GMap ms))"
    by (rule wire_viewE)
  then have "wire_view (GMap [(''content'', contents_gval cs)]) =
      Some (GMap [(''content'', case cs of None \<Rightarrow> GNil | Some xs \<Rightarrow> GList (map GMap ms))])"
    by (simp add: wire_view_def)
  then show ?thesis using ms(2) by (auto simp: read_call_result_def result_maps_def client_simps split: option.splits)
qed

context rpc_transport
begin

text \<open>A tool call, over any transport.\<close>

lemma tool_called:
  assumes "ready (Suc n) (cl_transport c)" and "generic (opt_map_gval args)"
    and "serve (cl_transport c) ''tools/call'' (call_params_gval name args) = Some (v, None)" and "wire_view v = Some w"
  shows "\<exists>c'. CallTool T pick None name args c = Some (c', Ok (read_call_result w)) \<and> ready n (cl_transport c')"
proof -
  have "wire_view (call_params_gval name args) = Some (call_params_gval name args)"
    using assms(2) by (simp add: call_params_gval_def sorted_map_def)
  then show ?thesis
    using call_answered [where pick = pick and read = read_call_result, OF assms(1) _ _ assms(3,4)] by (auto simp: CallTool_def)
qed

end

lemma added_tool:
  assumes "compat_AddTool tool handler s = Ok s'" and "cs_underlying s' = Some srv"
  shows "srv_toolHandlers srv (ct_name tool) = Some (native_tool handler)"
  using assms by (auto simp: compat_AddTool_def with_underlying_def RegisterTool_def split: option.splits)


section \<open>Properties\<close>

text \<open>C33: A tool made by \<open>NewTool\<close> from any descriptions and parameters, in any order, is what the options say: building never
  panics, the description is the last one given, each property has the schema of the last parameter of its name, and
  the required names are those of the required parameters in order, a name that is given twice being listed twice.\<close>

theorem compat_tool_schema:
  "NewTool name (map part_option ps) =
     Ok \<lparr>ct_name = name, ct_description = description_of ps [], ct_inputSchema = schema_of (concat (map part_args ps))\<rparr> \<and>
   (\<exists>props. map_of (schema_of args) ''properties'' = Some (GMap props) \<and>
      map_of props n = (case rev (filter (\<lambda>a. ca_name a = n) args) of [] \<Rightarrow> None | a # _ \<Rightarrow> Some (GMap (argument_schema a)))) \<and>
   map_of (schema_of args) ''required'' = Some (GStrs (map ca_name (filter ca_required args)))"
proof -
  have "empty_schema = schema_of []" by (simp add: empty_schema_def schema_of_def)
  then show ?thesis
    using parts_run [of ps name "[]" "[]"] map_of_properties [of args "[]" n] by (simp add: NewTool_def schema_of_def split: list.split)
qed



definition weather :: ctool where
  "weather = (case NewTool ''weather'' [WithDescription ''the weather'', WithString ''city'' [Required]] of Ok t \<Rightarrow> t)"

definition weather_handler :: ctool_handler where
  "weather_handler req = Ok (Some [CText ''text'' (ctq_Name req),
     CResource ''resource'' (NewResource ''file:///w'' ''w'' [WithMIMEType ''text/plain''])])"

definition weather_server :: "unit mcp_server" where
  "weather_server = (case SetTransport None OtherTransport (NewMCPServer ''s'' ''1'' [WithToolCapabilities True]) of Ok s \<Rightarrow> s)"

lemma weather_added:
  "\<exists>s' srv. compat_AddTool weather weather_handler weather_server = Ok s' \<and> cs_underlying s' = Some srv \<and>
     srv_requestHandlers srv = Map.empty \<and> ct_name weather = ''weather''"
  by (simp add: compat_AddTool_def with_underlying_def weather_server_def SetTransport_def NewMCPServer_def NewServer_def
      RegisterTool_def changed_defs weather_def NewTool_def WithDescription_def WithString_def add_argument_def
      addArgumentToSchema_def empty_schema_def make_argument_def Required_def WithToolCapabilities_def Let_def)

lemma fresh_ready: "n \<le> 2 ^ 53 \<Longrightarrow> mh_ready oor n mh_fresh"
  using fresh_reachable by (simp add: mh_ready_def mh_idle_def mh_fresh_def)

lemma ws_up_ready: "app_answers app \<Longrightarrow> ws_ready oor app 1 ws_up"
proof -
  have "ws_handler ws_up = mh_fresh"
    by (simp add: ws_up_def ws_Connect_def ws_new_fields)
      (simp add: ws_new_def NewWebSocketTransport_def ws_defaults_def NewMessageHandler_def mh_fresh_def default_timeout_def Let_def)
  then show "app_answers app \<Longrightarrow> ws_ready oor app 1 ws_up" by (simp add: ws_ready_def ws_up_fields fresh_ready)
qed

lemma ss_up_ready:
  "app_answers app \<Longrightarrow> ss_ready oor count_enc count_dec app 1 (once\<lparr>ss_stream := AtRead, ss_connected := True\<rparr>, [])"
proof -
  have "ss_handler once = mh_fresh \<and> ss_ctx once = None \<and> ss_senderRuns once \<and> \<not> ss_oauthEnabled once"
    by (simp add: once_def NewSSETransport_def once_config_def ss_defaults_def NewMessageHandler_def mh_fresh_def
        default_timeout_def Let_def)
  then show "app_answers app \<Longrightarrow> ss_ready oor count_enc count_dec app 1 (once\<lparr>ss_stream := AtRead, ss_connected := True\<rparr>, [])"
    by (simp add: ss_ready_def fresh_ready count_codec ss_IsOAuthEnabled_def)
qed


end
