(* ===== verification/Process_Client.thy ===== *)
theory Process_Client
  imports Compat Process
begin

text \<open>
  A client over a child process: \<open>client/client.go\<close> on \<open>client/process.go\<close> on \<open>transport/stdio.go\<close>. The child is a server
  that reads a line, hands the request in it to \<open>app\<close> and writes the response as a line. A schedule of the goroutines runs
  a call to its end, which makes the process transport one more provider of \<open>rpc_transport\<close>, as long as the line of
  the response fits into the buffer of the scanner.
\<close>

section \<open>The child\<close>

definition line_codec :: "(payload \<Rightarrow> string) \<Rightarrow> (string \<Rightarrow> payload) \<Rightarrow> bool" where
  "line_codec pr rd \<longleftrightarrow> (\<forall>d. rd (pr d) = d \<and> CHR 0x0A \<notin> set (pr d) \<and> pr d \<noteq> [] \<and> last (pr d) \<noteq> CHR 0x0D)"

text \<open>The line with which the child answers the line it reads.\<close>

definition answer_line ::
  "(payload \<Rightarrow> string) \<Rightarrow> (string \<Rightarrow> payload) \<Rightarrow> (string \<Rightarrow> gval \<Rightarrow> gval \<times> rpc_error option) \<Rightarrow> string \<Rightarrow> string option" where
  "answer_line pr rd app out = map_option (line_of pr) (peer_frame app (rd (butlast out)))"

text \<open>The responses of the first \<open>B\<close> calls fit into a buffer of \<open>cap\<close> bytes.\<close>

definition fits :: "(payload \<Rightarrow> string) \<Rightarrow> nat \<Rightarrow> nat \<Rightarrow> gval \<Rightarrow> rpc_error option \<Rightarrow> bool" where
  "fits pr cap B v err \<longleftrightarrow>
     (\<forall>c < B. length (pr (response_bytes (answer_to (GFloat (F64 (of_nat (Suc c)))) v err))) < cap)"

definition line_serve ::
  "(payload \<Rightarrow> string) \<Rightarrow> nat \<Rightarrow> (string \<Rightarrow> gval \<Rightarrow> gval \<times> rpc_error option) \<Rightarrow> string \<Rightarrow> gval \<Rightarrow> (gval \<times> rpc_error option) option" where
  "line_serve pr B app meth ps = (case app meth ps of (v, err) \<Rightarrow> if fits pr (64 * 1024) B v err then Some (v, err) else None)"

section \<open>A call on lines\<close>

definition st_write_one :: "(payload \<Rightarrow> string) \<Rightarrow> st_state \<Rightarrow> st_state option" where
  "st_write_one pr t = Option.bind (st_bridgeOutgoing True True t) (writeLoop pr True False False)"

definition st_read_one :: "(string \<Rightarrow> payload) \<Rightarrow> st_state \<Rightarrow> st_state option" where
  "st_read_one rd t = Option.bind (readLoop_scan t) (\<lambda>t1. Option.bind (readLoop_push t1) (st_bridgeIncoming rd True True))"

definition line_exchange ::
  "(float64 \<Rightarrow> int64) \<Rightarrow> (payload \<Rightarrow> string) \<Rightarrow> (string \<Rightarrow> payload) \<Rightarrow> (string \<Rightarrow> gval \<Rightarrow> gval \<times> rpc_error option) \<Rightarrow>
   string \<Rightarrow> gval \<Rightarrow> st_state \<Rightarrow> (st_state \<times> arrival outcome) option" where
  "line_exchange oor pr rd app meth params t =
     (case st_SendRequest True meth params t of
        Some (t1, Ok c) \<Rightarrow> (case st_write_one pr t1 of
          Some t2 \<Rightarrow> (case answer_line pr rd app (st_output t2) of
            Some line \<Rightarrow> (case st_read_one rd (t2\<lparr>st_output := [], st_input := st_input t2 @ line\<rparr>) of
              Some t3 \<Rightarrow> (case processIncomingMessages True True (st_handler t3) of
                Some (h, _) \<Rightarrow> (case handleResponses oor True h of
                  Some (Ok (h', _)) \<Rightarrow>
                    Some (t3\<lparr>st_handler := chan_update c (\<lambda>ch. ch\<lparr>rc_buf := []\<rparr>) h'\<rparr>, Ok (chan_arrival (mh_chans h' ! c)))
                | _ \<Rightarrow> None) | _ \<Rightarrow> None) | _ \<Rightarrow> None) | _ \<Rightarrow> None) | _ \<Rightarrow> None)
      | Some (t1, Err e) \<Rightarrow> Some (t1, Err e)
      | Some (t1, Panic p) \<Rightarrow> Some (t1, Panic p)
      | None \<Rightarrow> None)"

definition st_idle :: "st_state \<Rightarrow> bool" where
  "st_idle t \<longleftrightarrow> st_ctx t = None \<and> st_running t = UNIV \<and> st_input t = [] \<and> st_output t = [] \<and> st_held t = None \<and>
     st_incomingChan t = [] \<and> st_outgoingChan t = [] \<and> \<not> st_broken t \<and> 0 < st_bufferSize t \<and> st_readBufferSize t = 64 * 1024 \<and>
     \<not> st_chansClosed t"

definition line_ready :: "(float64 \<Rightarrow> int64) \<Rightarrow> nat \<Rightarrow> nat \<Rightarrow> st_state \<Rightarrow> bool" where
  "line_ready oor B n t \<longleftrightarrow> st_idle t \<and> mh_ready oor n (st_handler t) \<and> length (mh_chans (st_handler t)) + n \<le> B"

lemma scan_answer:
  assumes "line_codec pr rd" and "length (pr d) < cap"
  shows "scan_line cap eof (line_of pr d) = Token (pr d) []"
  using assms scan_line_line [of "pr d" cap eof "[]"] by (simp add: line_codec_def line_of_def drop_cr_def)

lemma line_exchange_answers:
  assumes ready: "line_ready oor B (Suc n) t" and laws: "app_answers app" "line_codec pr rd" and meth: "meth \<noteq> []"
    and ps: "wire_view params = Some ps" and app: "line_serve pr B app meth ps = Some (v, err)" and w: "wire_view v = Some w"
  shows "\<exists>t' r. line_exchange oor pr rd app meth params t = Some (t', Ok (Arrived r)) \<and> resp_Result r = w \<and> resp_Error r = err \<and>
    line_ready oor B n t'"
proof -
  have t: "mh_ready oor (Suc n) (st_handler t)" "st_ctx t = None" "st_running t = UNIV" "st_input t = []" "st_output t = []"
    "st_held t = None" "st_incomingChan t = []" "st_outgoingChan t = []" "\<not> st_broken t" "0 < st_bufferSize t"
    "st_readBufferSize t = 64 * 1024" "\<not> st_chansClosed t" "length (mh_chans (st_handler t)) + Suc n \<le> B"
    using ready by (simp_all add: line_ready_def st_idle_def)
  have serve: "app meth ps = (v, err)" "fits pr (64 * 1024) B v err"
    using app by (auto simp: line_serve_def split: prod.splits if_splits)
  obtain h1 c j where h1: "SendRequest True meth params (st_handler t) = Some (h1, Ok c)" "mh_outgoingChan h1 = [Text j]"
    "ParseMessage (Text j) = Some \<lparr>msg_JSONRPC = ''2.0'', msg_ID = GFloat (F64 (of_nat (Suc c))), msg_Method = meth,
      msg_Params = ps, msg_Result = GNil, msg_Error = None\<rparr>"
    "length (mh_chans h1) = Suc (length (mh_chans (st_handler t)))" "mh_incomingChan h1 = []"
    "mh_bufferSize h1 = mh_bufferSize (st_handler t)"
    "\<And>r. mh_answered oor c r (h1\<lparr>mh_outgoingChan := [], mh_incomingChan := [response_bytes r]\<rparr>)"
    using handler_asks [OF t(1) ps, of meth] by blast
  let ?f = "GFloat (F64 (of_nat (Suc c)))"
  let ?r = "answer_to ?f v err"
  have ok: "answer_ok ?f ?r" using laws(1) serve(1) by (simp add: app_answers_def) (metis fst_conv snd_conv)
  have "c < length (mh_chans h1)" using h1(7) [of undefined] by (simp add: mh_answered_def)
  then have short: "length (pr (response_bytes ?r)) < 64 * 1024" using serve(2) h1(4) t(13) by (simp add: fits_def)
  have e1: "st_SendRequest True meth params t = Some (t\<lparr>st_handler := h1\<rparr>, Ok c)" using h1(1) by (simp add: st_SendRequest_def)
  let ?t2 = "t\<lparr>st_handler := h1\<lparr>mh_outgoingChan := []\<rparr>, st_output := line_of pr (Text j), st_linesWritten := st_linesWritten t + 1,
      st_bytesWritten := st_bytesWritten t + of_nat (length (pr (Text j)) + 1)\<rparr>"
  have e2: "st_write_one pr (t\<lparr>st_handler := h1\<rparr>) = Some ?t2"
    using h1(2) t by (simp add: st_write_one_def st_bridgeOutgoing_def relay_def select_send_def chan_send_def writeLoop_def write_message_def Let_def)
  have e3: "answer_line pr rd app (st_output ?t2) = Some (line_of pr (response_bytes ?r))"
    using h1(3) serve(1) meth laws(2) by (simp add: answer_line_def line_of_def peer_frame_def line_codec_def IsRequest_def)
  let ?in = "?t2\<lparr>st_output := [], st_input := st_input ?t2 @ line_of pr (response_bytes ?r)\<rparr>"
  let ?h3 = "h1\<lparr>mh_outgoingChan := [], mh_incomingChan := [response_bytes ?r]\<rparr>"
  let ?t3 = "?in\<lparr>st_input := [], st_linesRead := st_linesRead t + 1,
      st_bytesRead := st_bytesRead t + of_nat (length (pr (response_bytes ?r))), st_handler := ?h3\<rparr>"
  have "0 < mh_bufferSize (st_handler t)" using t(1) by (simp add: mh_ready_def)
  moreover have "scan_line (st_readBufferSize t) (st_eof t) (line_of pr (response_bytes ?r)) = Token (pr (response_bytes ?r)) []"
    using scan_answer [OF laws(2)] short t(11) by simp
  ultimately have e4: "st_read_one rd ?in = Some ?t3"
    using t h1(5,6) laws(2)
    by (simp add: st_read_one_def readLoop_scan_def readLoop_push_def st_bridgeIncoming_def relay_def select_send_def chan_send_def line_codec_def)
  obtain h4 h5 where h5: "processIncomingMessages True True ?h3 = Some (h4, True)" "handleResponses oor True h4 = Some (Ok (h5, True))"
    "chan_arrival (mh_chans h5 ! c) = Arrived \<lparr>resp_JSONRPC = ''2.0'', resp_ID = ident_of c, resp_Result = w, resp_Error = err\<rparr>"
    "mh_reachable oor (chan_update c (\<lambda>ch. ch\<lparr>rc_buf := []\<rparr>) h5)" "mh_idle (chan_update c (\<lambda>ch. ch\<lparr>rc_buf := []\<rparr>) h5)"
    "length (mh_chans h5) = length (mh_chans ?h3)" "mh_bufferSize h5 = mh_bufferSize ?h3"
    using handler_answers [OF h1(7) ok] w by (auto simp: answer_to_def)
  let ?t4 = "?t3\<lparr>st_handler := chan_update c (\<lambda>ch. ch\<lparr>rc_buf := []\<rparr>) h5\<rparr>"
  have "line_exchange oor pr rd app meth params t = Some (?t4, Ok (Arrived
      \<lparr>resp_JSONRPC = ''2.0'', resp_ID = ident_of c, resp_Result = w, resp_Error = err\<rparr>))"
    using e1 e2 e3 e4 h5(1-3) by (simp add: line_exchange_def)
  moreover have "line_ready oor B n ?t4"
    using t h5(4-7) h1(4,6) by (simp add: line_ready_def st_idle_def mh_ready_def chan_update_def)
  ultimately show ?thesis by fastforce
qed

section \<open>The process transport as a provider\<close>

definition child_exchange ::
  "(float64 \<Rightarrow> int64) \<Rightarrow> (payload \<Rightarrow> string) \<Rightarrow> (string \<Rightarrow> payload) \<Rightarrow> (string \<Rightarrow> gval \<Rightarrow> gval \<times> rpc_error option) \<Rightarrow>
   string \<Rightarrow> gval \<Rightarrow> pt_state \<Rightarrow> (pt_state \<times> arrival outcome) option" where
  "child_exchange oor pr rd app meth params s =
     (case pt_stdio s of
        None \<Rightarrow> Some (s, Panic ''nil pointer dereference'')
      | Some t \<Rightarrow> map_option (\<lambda>(t', r). (s\<lparr>pt_stdio := Some t'\<rparr>, r)) (line_exchange oor pr rd app meth params t))"

text \<open>\<open>Close\<close>, between whose two halves the goroutines of the stdio transport end; \<open>obeys\<close> as in \<^const>\<open>cleanup\<close>.\<close>

definition child_close :: "string \<Rightarrow> bool \<Rightarrow> gval list \<Rightarrow> pt_state \<Rightarrow> (pt_state \<times> unit outcome) option" where
  "child_close goos obeys ks s =
     Option.bind (pt_Close_begin s) (\<lambda>s1.
       let s2 = s1\<lparr>pt_stdio := map_option (\<lambda>t. t\<lparr>st_running := {}\<rparr>) (pt_stdio s1)\<rparr>
       in map_option (\<lambda>r. case r of
              Ok (s3, None) \<Rightarrow> (s3, Ok ())
            | Ok (s3, Some e) \<Rightarrow> (s3, Err e)
            | Err e \<Rightarrow> (s2, Err e)
            | Panic p \<Rightarrow> (s2, Panic p)) (pt_Close_finish goos ks obeys s2))"

definition child_start :: "string \<Rightarrow> bool \<Rightarrow> spawn_result \<Rightarrow> pt_state \<Rightarrow> pt_state \<times> string option" where
  "child_start goos obeys sr s =
     (case pt_Start goos obeys sr None s of
        Some (Ok r) \<Rightarrow> r | Some (Err e) \<Rightarrow> (s, Some e) | Some (Panic p) \<Rightarrow> (s, Some p) | None \<Rightarrow> (s, Some ''locked''))"

definition child_ops where
  "child_ops oor pr rd app goos obeys sr ks =
     \<lparr>tr_SendRequest = child_exchange oor pr rd app, tr_Start = Some (child_start goos obeys sr), tr_Close = child_close goos obeys ks\<rparr>"

definition child_ready ::
  "(float64 \<Rightarrow> int64) \<Rightarrow> (payload \<Rightarrow> string) \<Rightarrow> (string \<Rightarrow> payload) \<Rightarrow> nat \<Rightarrow> (string \<Rightarrow> gval \<Rightarrow> gval \<times> rpc_error option) \<Rightarrow>
   nat \<Rightarrow> pt_state \<Rightarrow> bool" where
  "child_ready oor pr rd B app n s \<longleftrightarrow> app_answers app \<and> line_codec pr rd \<and> \<not> pt_locked s \<and> procs_inv s \<and>
     (\<exists>t. pt_stdio s = Some t \<and> line_ready oor B n t) \<and>
     (\<exists>cmd i. pt_cmd s = Some (cmd, i) \<and> ps_alive (pt_procs s ! i))"

interpretation child: rpc_transport "child_ops oor pr rd app goos obeys sr ks" "child_ready oor pr rd B app"
  "\<lambda>s. line_serve pr B app"
proof unfold_locales
  fix n s meth params ps v err w
  assume a: "child_ready oor pr rd B app (Suc n) s" "meth \<noteq> []" "wire_view params = Some ps"
    "line_serve pr B app meth ps = Some (v, err)" "wire_view v = Some w"
  obtain t where t: "pt_stdio s = Some t" "line_ready oor B (Suc n) t" using a(1) by (auto simp: child_ready_def)
  have laws: "app_answers app" "line_codec pr rd" using a(1) by (simp_all add: child_ready_def)
  obtain t' r where t': "line_exchange oor pr rd app meth params t = Some (t', Ok (Arrived r))" "resp_Result r = w" "resp_Error r = err"
    "line_ready oor B n t'"
    using line_exchange_answers [OF t(2) laws a(2-5)] by blast
  have "procs_inv (s\<lparr>pt_stdio := Some t'\<rparr>)" using a(1) by (simp add: child_ready_def procs_inv_def)
  then have "child_ready oor pr rd B app n (s\<lparr>pt_stdio := Some t'\<rparr>)"
    using a(1) t'(4) by (simp add: child_ready_def)
  then show "\<exists>t' r. tr_SendRequest (child_ops oor pr rd app goos obeys sr ks) meth params s = Some (t', Ok (Arrived r)) \<and>
      resp_Result r = w \<and> resp_Error r = err \<and> child_ready oor pr rd B app n t' \<and> line_serve pr B app = line_serve pr B app"
    using t(1) t'(1-3) by (auto simp: child_ops_def child_exchange_def)
qed

section \<open>Sessions\<close>

fun call_all ::
  "'t transport_ops \<Rightarrow> bool \<Rightarrow> (string \<times> (string \<times> gval) list option) list \<Rightarrow> 't client \<Rightarrow>
   ('t client \<times> call_tool_result outcome list) option" where
  "call_all T pick [] c = Some (c, [])"
| "call_all T pick ((name, args) # reqs) c =
     Option.bind (CallTool T pick None name args c) (\<lambda>(c1, r). map_option (\<lambda>(c2, rs). (c2, r # rs)) (call_all T pick reqs c1))"

context rpc_transport
begin

text \<open>One call after the other, over any transport.\<close>

lemma tools_called:
  assumes "ready (length reqs) (cl_transport c)"
    and "\<forall>(name, args) \<in> set reqs. generic (opt_map_gval args) \<and>
      (\<exists>v w. serve (cl_transport c) ''tools/call'' (call_params_gval name args) = Some (v, None) \<and> wire_view v = Some w \<and>
        f (name, args) = read_call_result w)"
  shows "\<exists>c'. call_all T pick reqs c = Some (c', map (\<lambda>q. Ok (f q)) reqs) \<and> ready 0 (cl_transport c')"
  using assms
proof (induction reqs arbitrary: c)
  case (Cons q reqs)
  obtain name args where q: "q = (name, args)" by (cases q)
  then obtain v w where v: "generic (opt_map_gval args)"
    "serve (cl_transport c) ''tools/call'' (call_params_gval name args) = Some (v, None)" "wire_view v = Some w"
    "f (name, args) = read_call_result w"
    using Cons.prems(2) by auto
  have "wire_view (call_params_gval name args) = Some (call_params_gval name args)"
    using v(1) by (simp add: call_params_gval_def sorted_map_def)
  moreover have "ready (Suc (length reqs)) (cl_transport c)" using Cons.prems(1) by simp
  ultimately obtain c1 where c1: "CallTool T pick None name args c = Some (c1, Ok (f (name, args)))"
    "ready (length reqs) (cl_transport c1)" "serve (cl_transport c1) = serve (cl_transport c)"
    using call_answered [where pick = pick and read = read_call_result, OF _ _ _ v(2,3)] v(4) by (auto simp: CallTool_def)
  have "\<exists>c'. call_all T pick reqs c1 = Some (c', map (\<lambda>q. Ok (f q)) reqs) \<and> ready 0 (cl_transport c')"
    by (rule Cons.IH [OF c1(2)]) (use Cons.prems(2) c1(3) in auto)
  then show ?case using c1(1) q by auto
qed simp

end

lemma started_ready:
  assumes "NewProcessTransport goos environ config = Ok s" and "pt_Start goos obeys sr None s = Some (Ok (s1, None))"
    and "app_answers app" and "line_codec pr rd" and "B \<le> 2 ^ 53"
  shows "child_ready oor pr rd B app B s1"
proof -
  have s: "pt_procs s = []" "\<not> pt_locked s" using assms(1) by (auto simp: NewProcessTransport_def split: if_splits)
  obtain t where t: "NewStdioTransport None stdio_config = Ok t" "pt_stdio s1 = Some t" "pt_cmd s1 = Some (make_cmd goos (pt_config s), 0)"
    "pt_procs s1 = [\<lparr>ps_Pid = sr_pid sr, ps_alive = True, ps_waited = False, ps_status = None\<rparr>]"
    using Start_cases [OF assms(2)] s(1) by auto
  have locked: "\<not> pt_locked s1"
    using assms(2) s(2) by (auto simp: pt_Start_def Let_def split: if_splits option.splits outcome.splits)
  have "st_handler t = mh_fresh \<and> st_idle t"
    using t(1) by (auto simp: NewStdioTransport_def st_defaults_def stdio_config_def NewMessageHandler_def mh_fresh_def
        default_timeout_def st_idle_def all_goroutines Let_def)
  moreover have "length (mh_chans mh_fresh) = 0" by (simp add: mh_fresh_def)
  ultimately have "line_ready oor B B t" using fresh_ready [OF assms(5)] by (simp add: line_ready_def)
  then show ?thesis using assms(3,4) t(2-4) locked by (simp add: child_ready_def procs_inv_def)
qed

lemma child_closes:
  assumes "child_ready oor pr rd B app n s" and "pt_stdio s = Some t" and "range_order (mh_pendingRequests (st_handler t)) ks"
  shows "\<exists>s'. child_close goos obeys ks s = Some (s', Ok ()) \<and> (\<forall>i < length (pt_procs s'). reaped (pt_procs s' ! i)) \<and>
    length (pt_procs s') = length (pt_procs s) \<and> \<not> IsRunning goos s'"
proof -
  have s: "\<not> pt_locked s" "procs_inv s" "\<not> st_chansClosed t" "mh_ready oor n (st_handler t)"
    using assms(1,2) by (auto simp: child_ready_def line_ready_def st_idle_def)
  have inv: "mh_inv (st_handler t)" using s(4) reachable_inv by (fastforce simp: mh_ready_def)
  have twice: "MessageHandler_Close ks (cancel h) = MessageHandler_Close ks h" for h
    by (simp add: MessageHandler_Close_def cancel_def split: option.split)
  obtain h where h: "MessageHandler_Close ks (st_handler t) = Ok h" using Close_Ok [OF inv assms(3)] by blast
  let ?t = "(st_cancel t)\<lparr>st_running := {}\<rparr>"
  let ?s2 = "s\<lparr>pt_locked := True, pt_stdio := Some ?t\<rparr>"
  let ?t' = "?t\<lparr>st_handler := h, st_chansClosed := True\<rparr>"
  let ?s' = "(cleanup goos obeys (?s2\<lparr>pt_stdio := Some ?t'\<rparr>))\<lparr>pt_locked := False\<rparr>"
  have "pt_Close_finish goos ks obeys ?s2 = Some (Ok (?s', None))"
    using s(3) h twice by (simp add: pt_Close_finish_def st_finish_close_def st_cancel_def)
  then have "child_close goos obeys ks s = Some (?s', Ok ())"
    using s(1,3) assms(2) by (simp add: child_close_def pt_Close_begin_def)
  moreover have "procs_inv (?s2\<lparr>pt_stdio := Some ?t'\<rparr>)" using s(2) by (simp add: procs_inv_def)
  ultimately show ?thesis using cleanup_reaps by (intro exI [of _ ?s']) (simp add: IsRunning_def)
qed

section \<open>Properties\<close>


definition hello_line :: "nat \<Rightarrow> payload" where
  "hello_line c = response_bytes (answer_to (GFloat (F64 (of_nat (Suc c)))) (fst (hello_app [] GNil)) None)"

definition short_enc :: "payload \<Rightarrow> string" where
  "short_enc d = (if d = hello_line 0 then ''a'' else if d = hello_line 1 then ''b'' else CHR ''x'' # count_enc d)"

definition short_dec :: "string \<Rightarrow> payload" where
  "short_dec s = (if s = ''a'' then hello_line 0 else if s = ''b'' then hello_line 1 else count_dec (tl s))"

lemma short_codec: "line_codec short_enc short_dec"
  by (auto simp: line_codec_def short_enc_def short_dec_def count_enc_def count_dec_def)

lemma short_fits: "fits short_enc (64 * 1024) 2 (fst (hello_app [] GNil)) None"
proof -
  have "length (short_enc (hello_line c)) = 1" if "c < 2" for c
    using that by (auto simp: short_enc_def less_2_cases_iff)
  then show ?thesis unfolding fits_def hello_line_def by simp
qed


end
