(* ===== verification/Completable.thy ===== *)
theory Completable
  imports Go_Values
begin

text \<open>
  \<open>server/completable.go\<close>: validators of dynamic values, and a validator together with a completion callback. A
  validator of the application is a record of its two methods; the type parameter is a HOL type, or one of the kinds
  below where the code looks at it by reflection. \<open>tn\<close> gives the names that \<open>%T\<close> prints.
\<close>

named_theorems completable_simps "definitions of the validators"

section \<open>Dynamic values\<close>

text \<open>The number types that the validators know beyond those of JSON values; a \<open>float32\<close> is also a \<open>float64\<close>.\<close>

datatype dyn = Plain gval | DInt32 "32 word" | DFloat32 float64

fun float_less :: "float64 \<Rightarrow> float64 \<Rightarrow> bool" where
  "float_less (F64 a) (F64 b) = (a < b)"
| "float_less (F64 a) (F64Inf pos) = pos"
| "float_less (F64Inf pos) (F64 b) = (\<not> pos)"
| "float_less (F64Inf p) (F64Inf q) = (\<not> p \<and> q)"
| "float_less _ _ = False"

text \<open>\<open>float64(i)\<close> rounds to the nearest value.\<close>

definition float_of_int :: "int \<Rightarrow> float64" where
  "float_of_int i = (case parse_float (of_int i) of Some f \<Rightarrow> f | None \<Rightarrow> F64NaN)"

text \<open>\<open>%f\<close>: six digits after the point.\<close>

definition pad_left :: "nat \<Rightarrow> string \<Rightarrow> string" where
  "pad_left n s = replicate (n - length s) (CHR ''0'') @ s"

definition fmt_f :: "float64 \<Rightarrow> string" where
  "fmt_f f =
     (case f of
        F64 q \<Rightarrow> (let n = nat (round_half_even (\<bar>q\<bar> * 10 ^ 6))
                 in (if q < 0 then ''-'' else []) @ nat_digits (n div 10 ^ 6) @ ''.'' @ pad_left 6 (nat_digits (n mod 10 ^ 6)))
      | F64Inf pos \<Rightarrow> if pos then ''+Inf'' else ''-Inf''
      | F64NaN \<Rightarrow> ''NaN'')"

section \<open>Completable values\<close>

record 'a validator_ops =
  va_Validate :: "dyn \<Rightarrow> 'a outcome"
  va_Description :: string

record 'a completable =
  co_validator :: "'a validator_ops"
  co_complete :: "'a \<Rightarrow> (string \<times> gval) list option \<Rightarrow> 'a list outcome"

definition NewCompletable ::
  "'a validator_ops \<Rightarrow> ('a \<Rightarrow> (string \<times> gval) list option \<Rightarrow> 'a list outcome) \<Rightarrow> 'a completable" where
  "NewCompletable validator callback = \<lparr>co_validator = validator, co_complete = callback\<rparr>"

definition Completable_Validate :: "'a completable \<Rightarrow> dyn \<Rightarrow> 'a outcome" where
  "Completable_Validate c v = va_Validate (co_validator c) v"

definition Completable_Description :: "'a completable \<Rightarrow> string" where
  "Completable_Description c = va_Description (co_validator c)"

definition Complete :: "'a completable \<Rightarrow> 'a \<Rightarrow> (string \<times> gval) list option \<Rightarrow> 'a list outcome" where
  "Complete c v context = co_complete c v context"

section \<open>Strings\<close>

record string_validator =
  sv_description :: string
  sv_minLength :: "int option"
  sv_maxLength :: "int option"
  sv_pattern :: "string option"

definition NewStringValidator :: string_validator where
  "NewStringValidator = \<lparr>sv_description = ''string'', sv_minLength = None, sv_maxLength = None, sv_pattern = None\<rparr>"

definition sv_WithDescription :: "string \<Rightarrow> string_validator \<Rightarrow> string_validator" where
  "sv_WithDescription desc v = v\<lparr>sv_description := desc\<rparr>"

definition WithMinLength :: "int \<Rightarrow> string_validator \<Rightarrow> string_validator" where
  "WithMinLength mn v = v\<lparr>sv_minLength := Some mn\<rparr>"

definition WithMaxLength :: "int \<Rightarrow> string_validator \<Rightarrow> string_validator" where
  "WithMaxLength mx v = v\<lparr>sv_maxLength := Some mx\<rparr>"

definition WithPattern :: "string \<Rightarrow> string_validator \<Rightarrow> string_validator" where
  "WithPattern pattern v = v\<lparr>sv_pattern := Some pattern\<rparr>"

definition StringValidator_Validate :: "(dyn \<Rightarrow> string) \<Rightarrow> string_validator \<Rightarrow> dyn \<Rightarrow> string outcome" where
  "StringValidator_Validate tn v x =
     (case x of
        Plain (GString str) \<Rightarrow>
          (case sv_minLength v of
             Some mn \<Rightarrow> if int (length str) < mn then Err (''string too short, minimum length is '' @ fmt_d mn) else
               (case sv_maxLength v of
                  Some mx \<Rightarrow> if int (length str) > mx then Err (''string too long, maximum length is '' @ fmt_d mx) else Ok str
                | None \<Rightarrow> Ok str)
           | None \<Rightarrow>
               (case sv_maxLength v of
                  Some mx \<Rightarrow> if int (length str) > mx then Err (''string too long, maximum length is '' @ fmt_d mx) else Ok str
                | None \<Rightarrow> Ok str))
      | _ \<Rightarrow> Err (''expected string, got '' @ tn x))"

section \<open>Numbers\<close>

record number_validator =
  nv_description :: string
  nv_minimum :: "float64 option"
  nv_maximum :: "float64 option"

definition NewNumberValidator :: number_validator where
  "NewNumberValidator = \<lparr>nv_description = ''number'', nv_minimum = None, nv_maximum = None\<rparr>"

definition nv_WithDescription :: "string \<Rightarrow> number_validator \<Rightarrow> number_validator" where
  "nv_WithDescription desc v = v\<lparr>nv_description := desc\<rparr>"

definition WithMinimum :: "float64 \<Rightarrow> number_validator \<Rightarrow> number_validator" where
  "WithMinimum mn v = v\<lparr>nv_minimum := Some mn\<rparr>"

definition WithMaximum :: "float64 \<Rightarrow> number_validator \<Rightarrow> number_validator" where
  "WithMaximum mx v = v\<lparr>nv_maximum := Some mx\<rparr>"

fun to_number :: "dyn \<Rightarrow> float64 option" where
  "to_number (Plain (GInt i)) = Some (float_of_int (sint i))"
| "to_number (DInt32 i) = Some (float_of_int (sint i))"
| "to_number (Plain (GInt64 i)) = Some (float_of_int (sint i))"
| "to_number (DFloat32 f) = Some f"
| "to_number (Plain (GFloat f)) = Some f"
| "to_number _ = None"

definition NumberValidator_Validate :: "(dyn \<Rightarrow> string) \<Rightarrow> number_validator \<Rightarrow> dyn \<Rightarrow> float64 outcome" where
  "NumberValidator_Validate tn v x =
     (case to_number x of
        None \<Rightarrow> Err (''expected number, got '' @ tn x)
      | Some num \<Rightarrow>
          if (case nv_minimum v of Some mn \<Rightarrow> float_less num mn | None \<Rightarrow> False)
          then Err (''number too small, minimum is '' @ (case nv_minimum v of Some mn \<Rightarrow> fmt_f mn | None \<Rightarrow> []))
          else if (case nv_maximum v of Some mx \<Rightarrow> float_less mx num | None \<Rightarrow> False)
          then Err (''number too large, maximum is '' @ (case nv_maximum v of Some mx \<Rightarrow> fmt_f mx | None \<Rightarrow> []))
          else Ok num)"

section \<open>Enumerations\<close>

text \<open>\<open>as_T\<close> is the type assertion to the type parameter, \<open>zero_T\<close> its name, \<open>show_T\<close> what \<open>%v\<close> prints.\<close>

record 'a enum_type =
  et_as :: "dyn \<Rightarrow> 'a option"
  et_name :: string
  et_show :: "'a \<Rightarrow> string"
  et_eq :: "'a \<Rightarrow> 'a \<Rightarrow> bool"

record 'a enum_validator =
  ev_description :: string
  ev_values :: "'a list"

definition NewEnumValidator :: "'a list \<Rightarrow> 'a enum_validator" where
  "NewEnumValidator values = \<lparr>ev_description = ''enum'', ev_values = values\<rparr>"

definition ev_WithDescription :: "string \<Rightarrow> 'a enum_validator \<Rightarrow> 'a enum_validator" where
  "ev_WithDescription desc v = v\<lparr>ev_description := desc\<rparr>"

definition EnumValidator_Validate :: "(dyn \<Rightarrow> string) \<Rightarrow> 'a enum_type \<Rightarrow> 'a enum_validator \<Rightarrow> dyn \<Rightarrow> 'a outcome" where
  "EnumValidator_Validate tn T v x =
     (case et_as T x of
        None \<Rightarrow> Err (''expected '' @ et_name T @ '', got '' @ tn x)
      | Some val \<Rightarrow>
          if list_ex (et_eq T val) (ev_values v) then Ok val
          else Err (''value '' @ et_show T val @ '' not in allowed enum values''))"

definition ev_Values :: "'a enum_validator \<Rightarrow> 'a list" where
  "ev_Values v = ev_values v"

section \<open>Constructors\<close>

definition string_ops :: "(dyn \<Rightarrow> string) \<Rightarrow> string_validator \<Rightarrow> string validator_ops" where
  "string_ops tn v = \<lparr>va_Validate = StringValidator_Validate tn v, va_Description = sv_description v\<rparr>"

definition number_ops :: "(dyn \<Rightarrow> string) \<Rightarrow> number_validator \<Rightarrow> float64 validator_ops" where
  "number_ops tn v = \<lparr>va_Validate = NumberValidator_Validate tn v, va_Description = nv_description v\<rparr>"

definition enum_ops :: "(dyn \<Rightarrow> string) \<Rightarrow> 'a enum_type \<Rightarrow> 'a enum_validator \<Rightarrow> 'a validator_ops" where
  "enum_ops tn T v = \<lparr>va_Validate = EnumValidator_Validate tn T v, va_Description = ev_description v\<rparr>"

definition CompletableString where
  "CompletableString tn callback = NewCompletable (string_ops tn NewStringValidator) callback"

definition CompletableNumber where
  "CompletableNumber tn callback = NewCompletable (number_ops tn NewNumberValidator) callback"

definition CompletableEnum where
  "CompletableEnum tn T values callback = NewCompletable (enum_ops tn T (NewEnumValidator values)) callback"

definition CompletableFromValidator where
  "CompletableFromValidator validator callback = NewCompletable validator callback"

section \<open>Conversion by reflection\<close>

text \<open>The basic types that \<open>ValidateType\<close> is used with.\<close>

datatype go_kind = KBool | KString | KInt | KInt64 | KFloat64

fun kind_of :: "gval \<Rightarrow> go_kind option" where
  "kind_of (GBool _) = Some KBool"
| "kind_of (GString _) = Some KString"
| "kind_of (GInt _) = Some KInt"
| "kind_of (GInt64 _) = Some KInt64"
| "kind_of (GFloat _) = Some KFloat64"
| "kind_of _ = None"

fun kind_name :: "go_kind \<Rightarrow> string" where
  "kind_name KBool = ''bool''"
| "kind_name KString = ''string''"
| "kind_name KInt = ''int''"
| "kind_name KInt64 = ''int64''"
| "kind_name KFloat64 = ''float64''"

text \<open>\<open>string(rune(i))\<close>: the UTF-8 encoding, of U+FFFD where \<open>i\<close> is no code point.\<close>

definition utf8 :: "int \<Rightarrow> string" where
  "utf8 i =
     (if i < 0 \<or> i > 0x10FFFF \<or> (0xD800 \<le> i \<and> i \<le> 0xDFFF) then [CHR 0xEF, CHR 0xBF, CHR 0xBD]
      else let n = nat i
      in if n < 0x80 then [char_of n]
         else if n < 0x800 then [char_of (0xC0 + n div 64), char_of (0x80 + n mod 64)]
         else if n < 0x10000 then [char_of (0xE0 + n div 4096), char_of (0x80 + n div 64 mod 64), char_of (0x80 + n mod 64)]
         else [char_of (0xF0 + n div 262144), char_of (0x80 + n div 4096 mod 64), char_of (0x80 + n div 64 mod 64),
               char_of (0x80 + n mod 64)])"

text \<open>\<open>Convert\<close> between the numbers, and from an integer to a string; \<^term>\<open>None\<close> where the types are not convertible.\<close>

definition from_int :: "int64 \<Rightarrow> go_kind \<Rightarrow> gval option" where
  "from_int i k =
     (case k of KInt \<Rightarrow> Some (GInt i) | KInt64 \<Rightarrow> Some (GInt64 i) | KFloat64 \<Rightarrow> Some (GFloat (float_of_int (sint i)))
      | KString \<Rightarrow> Some (GString (utf8 (sint i))) | KBool \<Rightarrow> None)"

fun convert :: "(float64 \<Rightarrow> int64) \<Rightarrow> gval \<Rightarrow> go_kind \<Rightarrow> gval option" where
  "convert oor (GInt i) k = from_int i k"
| "convert oor (GInt64 i) k = from_int i k"
| "convert oor (GFloat f) KInt = Some (GInt (float_to_int64 oor f))"
| "convert oor (GFloat f) KInt64 = Some (GInt64 (float_to_int64 oor f))"
| "convert oor v k = None"

text \<open>Nil has no type, and asking it whether it is convertible panics.\<close>

definition ValidateType :: "(float64 \<Rightarrow> int64) \<Rightarrow> (dyn \<Rightarrow> string) \<Rightarrow> go_kind \<Rightarrow> gval \<Rightarrow> gval outcome" where
  "ValidateType oor tn k v =
     (if kind_of v = Some k then Ok v
      else if v = GNil then Panic ''nil pointer dereference''
      else case convert oor v k of
        Some w \<Rightarrow> Ok w
      | None \<Rightarrow> Err (''expected '' @ kind_name k @ '', got '' @ tn (Plain v)))"

section \<open>Validators as an interface\<close>

text \<open>
  What a validator promises: it returns allowed values only, and leaves those as they are. \<open>embed\<close> makes a value dynamic.
\<close>

locale validator =
  fixes validate :: "dyn \<Rightarrow> 'a outcome" and embed :: "'a \<Rightarrow> dyn" and allowed :: "'a \<Rightarrow> bool"
  assumes allowed_result: "validate x = Ok v \<Longrightarrow> allowed v"
    and allowed_kept: "allowed v \<Longrightarrow> validate (embed v) = Ok v"
    and no_panic: "validate x \<noteq> Panic p"
begin

lemma idempotent: "validate x = Ok v \<Longrightarrow> validate (embed v) = Ok v"
  by (rule allowed_kept [OF allowed_result])

lemma accepted_iff: "(\<exists>x. validate x = Ok v) \<longleftrightarrow> allowed v"
  using allowed_result allowed_kept by blast

lemma refused: "\<not> allowed v \<Longrightarrow> \<exists>e. validate (embed v) = Err e \<or> (\<exists>w. validate (embed v) = Ok w \<and> w \<noteq> v)"
  using allowed_result no_panic by (cases "validate (embed v)") blast+

end

definition string_allowed :: "string_validator \<Rightarrow> string \<Rightarrow> bool" where
  "string_allowed v s \<longleftrightarrow> (case sv_minLength v of None \<Rightarrow> True | Some mn \<Rightarrow> mn \<le> int (length s)) \<and>
     (case sv_maxLength v of None \<Rightarrow> True | Some mx \<Rightarrow> int (length s) \<le> mx)"

definition number_allowed :: "number_validator \<Rightarrow> float64 \<Rightarrow> bool" where
  "number_allowed v f \<longleftrightarrow> (case nv_minimum v of None \<Rightarrow> True | Some mn \<Rightarrow> \<not> float_less f mn) \<and>
     (case nv_maximum v of None \<Rightarrow> True | Some mx \<Rightarrow> \<not> float_less mx f)"

lemma string_validate: "StringValidator_Validate tn v x = Ok s \<longleftrightarrow> x = Plain (GString s) \<and> string_allowed v s"
  by (cases x) (auto simp: StringValidator_Validate_def string_allowed_def split: gval.splits option.splits if_splits)

lemma number_validate: "NumberValidator_Validate tn v x = Ok f \<longleftrightarrow> to_number x = Some f \<and> number_allowed v f"
  by (auto simp: NumberValidator_Validate_def number_allowed_def split: option.splits if_splits)

lemma enum_validate: "EnumValidator_Validate tn T v x = Ok e \<longleftrightarrow> et_as T x = Some e \<and> list_ex (et_eq T e) (ev_values v)"
  by (auto simp: EnumValidator_Validate_def split: option.splits if_splits)

text \<open>Enumerations of strings.\<close>

definition string_enum :: "string enum_type" where
  "string_enum = \<lparr>et_as = (\<lambda>x. case x of Plain (GString s) \<Rightarrow> Some s | _ \<Rightarrow> None), et_name = ''string'', et_show = id, et_eq = (=)\<rparr>"

lemma validate_no_panic:
  "StringValidator_Validate tn sv x \<noteq> Panic p" "NumberValidator_Validate tn nv x \<noteq> Panic p"
  "EnumValidator_Validate tn T ev x \<noteq> Panic p"
proof -
  show "StringValidator_Validate tn sv x \<noteq> Panic p"
    by (cases x) (simp_all add: StringValidator_Validate_def split: gval.split option.split)
  show "NumberValidator_Validate tn nv x \<noteq> Panic p" by (simp add: NumberValidator_Validate_def split: option.split)
  show "EnumValidator_Validate tn T ev x \<noteq> Panic p" by (simp add: EnumValidator_Validate_def split: option.split)
qed

lemma string_enum_as: "et_as string_enum x = Some s \<longleftrightarrow> x = Plain (GString s)"
  by (cases x) (auto simp: string_enum_def split: gval.splits)

lemma string_enum_eq: "list_ex (et_eq string_enum s) vs \<longleftrightarrow> s \<in> set vs"
  by (auto simp: string_enum_def list_ex_iff)

interpretation strings: validator "StringValidator_Validate tn v" "\<lambda>s. Plain (GString s)" "string_allowed v"
  by unfold_locales (simp_all add: string_validate validate_no_panic)

interpretation numbers: validator "NumberValidator_Validate tn v" "\<lambda>f. Plain (GFloat f)" "number_allowed v"
  by unfold_locales (simp_all add: number_validate validate_no_panic)

interpretation enums: validator "EnumValidator_Validate tn string_enum v" "\<lambda>s. Plain (GString s)" "\<lambda>s. s \<in> set (ev_values v)"
  by unfold_locales (simp_all add: enum_validate validate_no_panic string_enum_as string_enum_eq)

text \<open>The pattern of a string validator has no effect.\<close>

lemma pattern_ignored: "StringValidator_Validate tn (WithPattern p v) x = StringValidator_Validate tn v x"
  by (cases x) (simp_all add: StringValidator_Validate_def WithPattern_def split: gval.split option.split)

text \<open>An integer passes for a string, as the character with its number; nil panics.\<close>

lemma int_as_string:
  "0 \<le> sint i \<Longrightarrow> sint i < 128 \<Longrightarrow> ValidateType oor tn KString (GInt i) = Ok (GString [char_of (nat (sint i))])"
  by (simp add: ValidateType_def from_int_def utf8_def Let_def nat_less_iff)

lemma nil_panics: "ValidateType oor tn k GNil = Panic ''nil pointer dereference''"
  by (cases k) (simp_all add: ValidateType_def)

lemma float_of_int_exact: "\<bar>i\<bar> \<le> 2 ^ 53 \<Longrightarrow> float_of_int i = F64 (of_int i)"
  by (simp add: float_of_int_def parse_float_of_int)

section \<open>Properties\<close>



end
