(* ===== verification/Spec2Isabelle.thy ===== *)
theory Spec2Isabelle
  imports Struct_Validation Uri_Template Message_Handler Mcp_Server Registries Progress_Handler Inprocess
    Template_Match Oauth Http_Server Mcp_Client Http_Client
    Handler_Races Stdio Process Sse Websocket Compat Process_Client Completable
begin

text \<open>
  This library models the Go SDK for the Model Context Protocol: a client and a server that exchange
  JSON-RPC 2.0 messages, the tables of tools, resources and prompts behind the server, and the pieces
  both sides share.

  \<^bold>\<open>The program.\<close> A transport hands raw messages to a \<open>MessageHandler\<close> (\<open>internal/jsonrpc.go\<close>), which gives
  every outgoing request an id and a channel, and correlates the responses that come in. The
  \<open>ProgressHandler\<close> (\<open>internal/progress_handler.go\<close>) adds progress tokens on top of it. The \<open>Server\<close>
  (\<open>server/server.go\<close>) takes requests from a transport, runs the application's handlers on a bounded pool
  of workers and sends one response each. \<open>transport/inprocess.go\<close> joins a client's message handler to a
  server of its own through four goroutines. The standalone registries (\<open>server/registry.go\<close>) and the
  resource templates (\<open>server/resource_template.go\<close>) are further tables; \<open>shared/\<close> holds the message types,
  their validation and URI templates; \<open>transport/oauth.go\<close> obtains the tokens of the HTTP transports. The other
  transports put a message handler on lines of text (\<open>stdio.go\<close>, and \<open>client/process.go\<close> for a child process), on
  POSTs and an event stream (\<open>sse.go\<close>), on frames (\<open>websocket.go\<close>) or on HTTP calls. \<open>compat/\<close> gives the server
  another interface, and \<open>server/completable.go\<close> validates values.

  \<^bold>\<open>Theories.\<close>
  \<^item> \<open>Go_Prelude\<close>: outcomes (\<open>Ok\<close>, \<open>Err\<close>, \<open>Panic\<close>), package \<open>strings\<close>, maps and the order in which a loop visits
    them, channels. \<open>Go_Values\<close>: \<open>interface{}\<close> values, \<open>encoding/json\<close> in both directions, 64 bit floats and
    integers, printing. \<open>Go_Regexp\<close>: package \<open>regexp\<close> on UTF-8, a parser of patterns and a backtracking matcher.
    These model what the code uses of the language and its library and map to no source lines.
  \<^item> \<open>Interfaces\<close>: the locales \<open>store\<close> and \<open>registry\<close> (a lookup finds the last registration) and \<open>token_pool\<close>
    (a buffered channel used as a counter), interpreted by \<open>Mcp_Server\<close>, \<open>Registries\<close> and \<open>Inprocess\<close>.
    \<open>Oauth\<close> has the locale \<open>token_store\<close> for the interface of that name, \<open>Completable\<close> the locale \<open>validator\<close>,
    \<open>Mcp_Client\<close> the locale \<open>rpc_transport\<close> for what a client relies on: it is interpreted for the in-process, HTTP,
    event stream, WebSocket and child process transports.
  \<^item> \<open>Rpc_Types\<close> (\<open>shared/types.go\<close>) and \<open>Struct_Validation\<close> (\<open>shared/validation.go\<close>): message structs, their
    JSON forms and classification, and the validation driven by struct tags, with reflection as the
    datatype \<open>rval\<close>. A valid request or response arrives unchanged at the other end.
  \<^item> \<open>Message_Handler\<close> (\<open>internal/jsonrpc.go\<close>): the operations on an explicit state, and \<open>mh_step\<close>, the transition
    system they form. An invariant gives: a caller reads its own response, at most once; no panic but for
    ids that cannot be hashed; \<open>Close\<close> ends all waiting. \<open>Handler_Races\<close> cuts these operations where the code holds no
    lock: until a timer fires nothing panics in any interleaving, and three interleavings with a timer panic.
  \<^item> \<open>Progress_Handler\<close> (\<open>internal/progress_handler.go\<close>): the state of the handler over that of the message
    handler, the goroutines and timers as steps; what is reported to whom, and what never arrives.
  \<^item> \<open>Mcp_Server\<close> (\<open>server/server.go\<close>): registration, routing, all request handlers, the queue, the worker pool and
    \<open>Close\<close>. No request is lost or answered twice; the pool is bounded; after any history of
    registrations a call finds what a plain map with that history holds (a refinement).
  \<^item> \<open>Registries\<close> (\<open>server/registry.go\<close>): caches, subscribers and statistics, operations cut where the code
    holds no lock, with invariants over all interleavings of these pieces.
  \<^item> \<open>Inprocess\<close> (\<open>transport/inprocess.go\<close>): the goroutines as partial step functions. A call comes back; the
    steps decrease a measure, so \<open>Close\<close> returns.
  \<^item> \<open>Uri_Template\<close> and \<open>Uri_Match\<close> (\<open>shared/uri_template.go\<close>): parsing, expansion and matching.
    \<open>Resource_Template\<close> and \<open>Template_Match\<close> (\<open>server/resource_template.go\<close>): the template registry, and
    validation, expansion and matching by regular expressions that the code builds from the template. Which
    templates are accepted; matching undoes expansion; when a value is expanded again.
  \<^item> \<open>Oauth\<close> (\<open>transport/oauth.go\<close>, \<open>transport/oauth_utils.go\<close>): the authorization code flow, refreshing and
    the expiry of tokens on 64 bits.
  \<^item> \<open>Http_Server\<close> (\<open>transport/streamable_http_server.go\<close>): calls, their timers and the event streams, cut where
    the code holds no lock, as a transition system. A call is answered with the response to its id; what
    happens when two calls use one id; how often a stream gets a notification.
  \<^item> \<open>Mcp_Client\<close> (\<open>client/client.go\<close>): the calls of a client over any transport, with the interface \<open>Transport\<close> as a
    record of functions. What a client reads is what the server has: proved from the contract
    \<open>rpc_transport\<close>, and for the in-process transport by the schedule \<open>ip_exchange\<close> of its goroutines.
  \<^item> \<open>Http_Client\<close> (\<open>transport/streamable_http.go\<close>, \<open>client/oauth.go\<close>): the client side of the HTTP transport over a
    network that is an argument. With \<open>Http_Server\<close> as that network it is a provider of \<open>rpc_transport\<close> too;
    what OAuth does to requests; how often the event stream is connected.
  \<^item> \<open>Stdio\<close> (\<open>transport/stdio.go\<close>): lines of text on a reader and a writer, as a transition system of six
    goroutines. Two transports joined by a pipe lose and reorder nothing and get everything through; a line
    that is too long ends the reading.
  \<^item> \<open>Process\<close> (\<open>client/process.go\<close>): the operating system as an argument, the operations as steps. What the child sees
    of the environment and of the arguments; \<open>Close\<close> leaves no process behind. \<open>Process_Client\<close> runs a client over such a child, by a schedule of the
    goroutines of \<open>Stdio\<close>: a session from the start through any number of tool calls to \<open>Close\<close>.
  \<^item> \<open>Sse\<close> (\<open>transport/sse.go\<close>): the network as an argument with a state; when the event stream is given up.
  \<^item> \<open>Websocket\<close> (\<open>transport/websocket.go\<close>): all goroutines of all connections as steps; what the connection flag says,
    what happens to messages and goroutines over a reconnection.
  \<^item> \<open>Compat\<close> (\<open>compat/\<close>): builders, options and wrapped handlers; a tool that was built is what its parts say, and a
    client that calls it over a WebSocket or event streams reads what its handler returned, converted.
  \<^item> \<open>Completable\<close> (\<open>server/completable.go\<close>): the validators accept exactly what is within their bounds.

  \<^bold>\<open>Correspondence.\<close> A struct is a record, a pointer that may be nil an option, a mutable object that is
  shared an index into a store of the state, and a mutex-protected region one step. Errors and panics are
  values of \<open>outcome\<close>. Application callbacks, the HTTP client and random bytes are arguments. Loops are
  structural recursion, or recursion with a measure; no definition uses fuel. The bounds of the code (length
  limits, channel capacities, pool sizes) are definitions with the code's values, or arguments where they
  are configured.

  \<^bold>\<open>Not modelled.\<close> Time: delays, deadlines and timeouts are steps that may happen, and a peer, a socket or a
  stream is an argument. A write of the stdio transport does not block. Tests, examples and benchmarks are left
  out, and so are functions that only return a field.
\<close>

end
